(* ===== verification/T1_Prelude.thy ===== *)
theory T1_Prelude
  imports Main "HOL-Library.Word"
begin

unbundle bit_operations_syntax

section \<open>Shared vocabulary of the T1Bridge development\<close>

text \<open>
  The types and generic facts every component uses: the machine integers of the Rust
  source as fixed-width words, results as sums (the left injection is the error), the checked
  arithmetic and the little- and big-endian byte conversions of Rust's standard library,
  slices of byte strings, and two interfaces that several components share: a codec
  (an encoder and a decoder that invert each other) and a component whose operations refine the
  steps of an abstract machine.
  A length or an index (\<^verbatim>\<open>usize\<close>, 64 bits on the supported machines) is a natural number;
  where the source guards a computation on such a value against overflow the bound is written out.
\<close>

type_synonym u8 = "8 word"
type_synonym u16 = "16 word"
type_synonym u32 = "32 word"
type_synonym u64 = "64 word"
type_synonym bytes = "u8 list"

text \<open>Collections that component proofs pass to the simplifier.\<close>

named_theorems le_simps \<open>endian conversions and their inverses\<close>
named_theorems slice_simps \<open>joining adjacent slices of one byte string\<close>
named_theorems result_simps \<open>inversion of results\<close>


subsection \<open>Results\<close>

text \<open>
  Rust's \<open>?\<close> operator: the first error ends the computation.
\<close>

fun rbind :: "'e + 'a \<Rightarrow> ('a \<Rightarrow> 'e + 'b) \<Rightarrow> 'e + 'b" where
  "rbind (Inl e) f = Inl e"
| "rbind (Inr x) f = f x"

definition require :: "bool \<Rightarrow> 'e \<Rightarrow> 'e + unit" where
  "require b e = (if b then Inr () else Inl e)"

text \<open>\<^verbatim>\<open>Option::ok_or\<close> and \<^verbatim>\<open>Result::map_err\<close>.\<close>

fun ok_or :: "'a option \<Rightarrow> 'e \<Rightarrow> 'e + 'a" where
  "ok_or None e = Inl e"
| "ok_or (Some x) e = Inr x"

fun map_err :: "('e \<Rightarrow> 'f) \<Rightarrow> 'e + 'a \<Rightarrow> 'f + 'a" where
  "map_err f (Inl e) = Inl (f e)"
| "map_err f (Inr x) = Inr x"

fun is_ok :: "'e + 'a \<Rightarrow> bool" where
  "is_ok (Inl e) = False"
| "is_ok (Inr x) = True"

lemma rbind_Inr [simp]: "rbind m f = Inr y \<longleftrightarrow> (\<exists>x. m = Inr x \<and> f x = Inr y)"
  by (cases m) auto

lemma rbind_Inl: "rbind m f = Inl e \<longleftrightarrow> m = Inl e \<or> (\<exists>x. m = Inr x \<and> f x = Inl e)"
  by (cases m) auto

lemma require_Inr [simp]: "require b e = Inr u \<longleftrightarrow> b"
  by (simp add: require_def)

lemma require_Inl [simp]: "require b e = Inl e' \<longleftrightarrow> \<not> b \<and> e' = e"
  by (auto simp: require_def)

lemma require_True [simp]: "require True e = Inr ()"
  by (simp add: require_def)

lemma require_False [simp]: "require False e = Inl e"
  by (simp add: require_def)

lemma ok_or_Inr [simp]: "ok_or m e = Inr x \<longleftrightarrow> m = Some x"
  by (cases m) auto

lemma ok_or_Inl [simp]: "ok_or m e = Inl e' \<longleftrightarrow> m = None \<and> e' = e"
  by (cases m) auto

lemma map_err_Inr [simp]: "map_err f m = Inr x \<longleftrightarrow> m = Inr x"
  by (cases m) auto

lemma map_err_Inl [simp]: "map_err f m = Inl e \<longleftrightarrow> (\<exists>e'. m = Inl e' \<and> e = f e')"
  by (cases m) auto

lemma is_ok_iff: "is_ok m \<longleftrightarrow> (\<exists>x. m = Inr x)"
  by (cases m) auto

lemmas [result_simps] = rbind_Inr rbind_Inl require_Inr require_Inl ok_or_Inr ok_or_Inl
  map_err_Inr map_err_Inl is_ok_iff


subsection \<open>Checked arithmetic\<close>

text \<open>
  \<^verbatim>\<open>checked_add\<close> and \<^verbatim>\<open>checked_mul\<close> of an unsigned integer type of any width:
  no result when the mathematical value does not fit.
\<close>

definition checked_add :: "'a::len word \<Rightarrow> 'a word \<Rightarrow> 'a word option" where
  "checked_add a b = (if unat a + unat b < 2 ^ LENGTH('a) then Some (a + b) else None)"

definition checked_mul :: "'a::len word \<Rightarrow> 'a word \<Rightarrow> 'a word option" where
  "checked_mul a b = (if unat a * unat b < 2 ^ LENGTH('a) then Some (a * b) else None)"

lemma checked_add_Some:
  "checked_add a b = Some c \<longleftrightarrow> unat c = unat a + unat b" for a b c :: "'a::len word"
proof -
  have "unat (a + b) = unat a + unat b" if "unat a + unat b < 2 ^ LENGTH('a)"
    using that by (simp add: unat_word_ariths)
  moreover have "c = a + b" if "unat c = unat a + unat b"
  proof -
    from that have "unat a + unat b < 2 ^ LENGTH('a)"
      by (metis unsigned_less)
    with that have "unat c = unat (a + b)" by (simp add: unat_word_ariths)
    then show ?thesis by (simp only: unsigned_word_eqI)
  qed
  ultimately show ?thesis
    by (auto simp: checked_add_def) (metis unsigned_less)
qed

lemma checked_mul_Some:
  "checked_mul a b = Some c \<longleftrightarrow> unat c = unat a * unat b" for a b c :: "'a::len word"
proof -
  have "unat (a * b) = unat a * unat b" if "unat a * unat b < 2 ^ LENGTH('a)"
    using that by (simp add: unat_word_ariths)
  moreover have "c = a * b" if "unat c = unat a * unat b"
  proof -
    from that have "unat a * unat b < 2 ^ LENGTH('a)"
      by (metis unsigned_less)
    with that have "unat c = unat (a * b)" by (simp add: unat_word_ariths)
    then show ?thesis by (simp only: unsigned_word_eqI)
  qed
  ultimately show ?thesis
    by (auto simp: checked_mul_def) (metis unsigned_less)
qed

lemma checked_add_None:
  "checked_add a b = None \<longleftrightarrow> 2 ^ LENGTH('a) \<le> unat a + unat b" for a b :: "'a::len word"
  by (auto simp: checked_add_def)

lemma checked_mul_None:
  "checked_mul a b = None \<longleftrightarrow> 2 ^ LENGTH('a) \<le> unat a * unat b" for a b :: "'a::len word"
  by (auto simp: checked_mul_def)


lemma unat_ucast_widen:
  "LENGTH('a) \<le> LENGTH('b) \<Longrightarrow> unat (ucast w :: 'b::len word) = unat w" for w :: "'a::len word"
proof -
  assume "LENGTH('a) \<le> LENGTH('b)"
  then have "unat w < 2 ^ LENGTH('b)"
    by (intro less_le_trans [OF unsigned_less]) simp
  then show ?thesis by (simp add: unsigned_ucast_eq take_bit_nat_eq_self)
qed


subsection \<open>Endian conversions\<close>

text \<open>
  \<^verbatim>\<open>to_le_bytes\<close> and \<^verbatim>\<open>from_le_bytes\<close>: the number of bytes is an argument, 2, 4 or 8 for
  the integer types of the source. The big-endian forms reverse the bytes.
\<close>

fun to_le :: "nat \<Rightarrow> 'a::len word \<Rightarrow> bytes" where
  "to_le 0 w = []"
| "to_le (Suc n) w = ucast w # to_le n (drop_bit 8 w)"

fun from_le :: "bytes \<Rightarrow> 'a::len word" where
  "from_le [] = 0"
| "from_le (b # bs) = ucast b OR push_bit 8 (from_le bs)"

definition to_be :: "nat \<Rightarrow> 'a::len word \<Rightarrow> bytes" where
  "to_be n w = rev (to_le n w)"

definition from_be :: "bytes \<Rightarrow> 'a::len word" where
  "from_be bs = from_le (rev bs)"

lemma length_to_le [simp]: "length (to_le n w) = n"
  by (induction n arbitrary: w) auto

lemma length_to_be [simp]: "length (to_be n w) = n"
  by (simp add: to_be_def)

lemma to_le_eq_Nil [simp]: "to_le n w = [] \<longleftrightarrow> n = 0"
  by (metis length_0_conv length_to_le)

lemma nth_to_le: "i < n \<Longrightarrow> to_le n w ! i = ucast (drop_bit (8 * i) w)"
proof (induction n arbitrary: w i)
  case 0
  then show ?case by simp
next
  case (Suc n)
  then show ?case by (cases i) (auto simp: add.commute)
qed

lemma from_to_le: "from_le (to_le n w) = take_bit (8 * n) w"
proof (induction n arbitrary: w)
  case 0
  show ?case by simp
next
  case (Suc n)
  show ?case by (rule bit_word_eqI) (auto simp: Suc bit_simps)
qed

lemma bit_from_le:
  "bit (from_le bs :: 'a::len word) i \<longleftrightarrow>
     i < LENGTH('a) \<and> i < 8 * length bs \<and> bit (bs ! (i div 8)) (i mod 8)"
proof (induction bs arbitrary: i)
  case Nil
  show ?case by simp
next
  case (Cons b bs)
  have next_byte: "i div 8 = Suc ((i - 8) div 8) \<and> i mod 8 = (i - 8) mod 8" if "8 \<le> i"
    using that by (metis le_div_geq le_mod_geq zero_less_numeral)
  have high: "\<not> bit b i" if "8 \<le> i"
    using that bit_imp_le_length [of b i] by auto
  show ?case
  proof (cases "i < 8")
    case True
    then show ?thesis by (auto simp: Cons bit_simps)
  next
    case False
    then show ?thesis using next_byte high by (auto simp: Cons bit_simps)
  qed
qed

lemma to_from_le:
  assumes "8 * length bs \<le> LENGTH('a)"
  shows "to_le (length bs) (from_le bs :: 'a::len word) = bs"
proof (rule nth_equalityI)
  fix i
  assume "i < length (to_le (length bs) (from_le bs :: 'a word))"
  then have i: "i < length bs" by simp
  have "bit (ucast (drop_bit (8 * i) (from_le bs :: 'a word)) :: u8) k = bit (bs ! i) k" for k
  proof (cases "k < 8")
    case True
    with i have "8 * i + k < 8 * length bs" by linarith
    with True assms show ?thesis by (auto simp: bit_simps bit_from_le)
  next
    case False
    then show ?thesis using bit_imp_le_length [of "bs ! i" k] by (auto simp: bit_simps)
  qed
  then show "to_le (length bs) (from_le bs :: 'a word) ! i = bs ! i"
    using i by (simp add: nth_to_le bit_eq_iff)
qed simp

text \<open>The instances at the widths of the source.\<close>

lemma from_to_le_width [simp, le_simps]:
  "from_le (to_le 1 x) = (x :: u8)"
  "from_le (to_le 2 a) = (a :: u16)"
  "from_le (to_le 4 b) = (b :: u32)"
  "from_le (to_le 8 c) = (c :: u64)"
  by (simp_all only: from_to_le) (simp_all add: take_bit_word_eq_self)

lemma to_from_le_width [le_simps]:
  "length bs = 2 \<Longrightarrow> to_le 2 (from_le bs :: u16) = bs"
  "length bs = 4 \<Longrightarrow> to_le 4 (from_le bs :: u32) = bs"
  "length bs = 8 \<Longrightarrow> to_le 8 (from_le bs :: u64) = bs"
  using to_from_le [of bs, where 'a = 16] to_from_le [of bs, where 'a = 32]
    to_from_le [of bs, where 'a = 64] by auto

lemma from_to_be: "from_be (to_be n w) = take_bit (8 * n) w"
  by (simp add: from_be_def to_be_def from_to_le)

lemma to_from_be:
  "8 * length bs \<le> LENGTH('a) \<Longrightarrow> to_be (length bs) (from_be bs :: 'a::len word) = bs"
  using to_from_le [of "rev bs", where 'a = 'a] by (simp add: from_be_def to_be_def)


subsection \<open>Slices\<close>

text \<open>
  \<^verbatim>\<open>&bytes[a..b]\<close> with both ends in range. Every use in the model stands behind the length check
  the source makes first, so no read of the model is out of range.
\<close>

definition slice :: "nat \<Rightarrow> nat \<Rightarrow> 'a list \<Rightarrow> 'a list" where
  "slice a b xs = take (b - a) (drop a xs)"

lemma length_slice [simp]: "a \<le> b \<Longrightarrow> b \<le> length xs \<Longrightarrow> length (slice a b xs) = b - a"
  by (simp add: slice_def)

lemma slice_join [slice_simps]:
  "a \<le> b \<Longrightarrow> b \<le> c \<Longrightarrow> slice a b xs @ slice b c xs = slice a c xs"
proof -
  assume "a \<le> b" "b \<le> c"
  then have "c - a = (b - a) + (c - b)" and "drop b xs = drop (b - a) (drop a xs)"
    by simp_all
  then show ?thesis by (simp only: slice_def take_add)
qed

lemma slice_join_append [slice_simps]:
  "a \<le> b \<Longrightarrow> b \<le> c \<Longrightarrow> slice a b xs @ slice b c xs @ ys = slice a c xs @ ys"
  using slice_join [of a b c xs] by (metis append.assoc)

lemma slice_to_drop [slice_simps]: "a \<le> b \<Longrightarrow> slice a b xs @ drop b xs = drop a xs"
proof -
  assume "a \<le> b"
  then have "drop b xs = drop (b - a) (drop a xs)" by simp
  then show ?thesis by (simp only: slice_def append_take_drop_id)
qed

lemma slice_full [slice_simps]: "slice 0 (length xs) xs = xs"
  by (simp add: slice_def)

lemma slice_append_right [simp]:
  "length xs \<le> a \<Longrightarrow> slice a b (xs @ ys) = slice (a - length xs) (b - length xs) ys"
  by (simp add: slice_def)

lemma slice_append_left [simp]:
  "b \<le> length xs \<Longrightarrow> slice a b (xs @ ys) = slice a b xs"
  by (cases "a \<le> b") (auto simp: slice_def)

lemma slice_whole [simp]: "length xs = b \<Longrightarrow> slice 0 b xs = xs"
  by (simp add: slice_def)

lemma slice_0_append [simp]: "length xs = b \<Longrightarrow> slice 0 b (xs @ ys) = xs"
  by (simp add: slice_def)

definition read_u16 :: "bytes \<Rightarrow> nat \<Rightarrow> u16" where
  "read_u16 bs off = from_le (slice off (off + 2) bs)"

definition read_u32 :: "bytes \<Rightarrow> nat \<Rightarrow> u32" where
  "read_u32 bs off = from_le (slice off (off + 4) bs)"

definition read_u64 :: "bytes \<Rightarrow> nat \<Rightarrow> u64" where
  "read_u64 bs off = from_le (slice off (off + 8) bs)"

lemmas read_defs = read_u16_def read_u32_def read_u64_def

lemma to_le_read_at:
  "off + 2 \<le> length bs \<Longrightarrow> to_le 2 (read_u16 bs off) = slice off (off + 2) bs"
  "off + 4 \<le> length bs \<Longrightarrow> to_le 4 (read_u32 bs off) = slice off (off + 4) bs"
  "off + 8 \<le> length bs \<Longrightarrow> to_le 8 (read_u64 bs off) = slice off (off + 8) bs"
  by (simp_all add: read_defs to_from_le_width)

lemma to_le_read [le_simps]:
  "0 < off \<Longrightarrow> off + 2 \<le> length bs \<Longrightarrow> to_le 2 (read_u16 bs off) = slice off (off + 2) bs"
  "0 < off \<Longrightarrow> off + 4 \<le> length bs \<Longrightarrow> to_le 4 (read_u32 bs off) = slice off (off + 4) bs"
  "0 < off \<Longrightarrow> off + 8 \<le> length bs \<Longrightarrow> to_le 8 (read_u64 bs off) = slice off (off + 8) bs"
  by (rule to_le_read_at, assumption)+

lemma to_le_read_0 [le_simps]:
  "2 \<le> length bs \<Longrightarrow> to_le 2 (read_u16 bs 0) = slice 0 2 bs"
  "4 \<le> length bs \<Longrightarrow> to_le 4 (read_u32 bs 0) = slice 0 4 bs"
  "8 \<le> length bs \<Longrightarrow> to_le 8 (read_u64 bs 0) = slice 0 8 bs"
  using to_le_read_at [of 0 bs] by (simp_all only: add_0)

text \<open>Reading a field of a concatenation of fields.\<close>

lemma slice_Cons [simp]:
  "0 < a \<Longrightarrow> slice a b (x # xs) = slice (a - 1) (b - 1) xs"
  "slice 0 (Suc b) (x # xs) = x # slice 0 b xs"
  by (cases a; cases b; simp add: slice_def) (simp add: slice_def)

lemma slice_empty [simp]: "slice a a xs = []"
  by (simp add: slice_def)


subsection \<open>Chunks\<close>

text \<open>
  \<^verbatim>\<open>as_chunks::<n>().0\<close> and \<^verbatim>\<open>chunks_exact(n)\<close>: consecutive pieces of \<open>n\<close> elements, a shorter rest is
  left out.
\<close>

function chunks :: "nat \<Rightarrow> 'a list \<Rightarrow> 'a list list" where
  "chunks n xs = (if n = 0 \<or> length xs < n then [] else take n xs # chunks n (drop n xs))"
  by pat_completeness auto
termination
  by (relation "measure (\<lambda>(n, xs). length xs)") auto

declare chunks.simps [simp del]

lemma chunks_Nil [simp]: "chunks n [] = []"
  by (auto simp: chunks.simps)

lemma chunks_append [simp]: "0 < n \<Longrightarrow> length xs = n \<Longrightarrow> chunks n (xs @ ys) = xs # chunks n ys"
  by (simp add: chunks.simps [of n "xs @ ys"])

lemma length_in_chunks: "c \<in> set (chunks n xs) \<Longrightarrow> length c = n"
proof (induction n xs rule: chunks.induct)
  case (1 n xs)
  then show ?case by (subst (asm) (2) chunks.simps) (auto split: if_splits)
qed

lemma length_chunks: "0 < n \<Longrightarrow> length (chunks n xs) = length xs div n"
proof (induction n xs rule: chunks.induct)
  case (1 n xs)
  then show ?case
    by (subst chunks.simps) (auto simp: le_div_geq not_less)
qed

lemma concat_chunks: "0 < n \<Longrightarrow> n dvd length xs \<Longrightarrow> concat (chunks n xs) = xs"
proof (induction n xs rule: chunks.induct)
  case (1 n xs)
  show ?case
  proof (cases "length xs < n")
    case True
    with 1 have "xs = []" by (auto simp: dvd_imp_le leD)
    then show ?thesis by simp
  next
    case False
    with 1 have "concat (chunks n (drop n xs)) = drop n xs" by (auto simp: dvd_minus_self)
    with 1 False show ?thesis by (subst chunks.simps) simp
  qed
qed

lemma chunks_concat: "0 < n \<Longrightarrow> \<forall>c \<in> set cs. length c = n \<Longrightarrow> chunks n (concat cs) = cs"
  by (induction cs) auto


subsection \<open>Searching a vector\<close>

text \<open>\<^verbatim>\<open>iter().position(p)\<close>: the index of the first element that satisfies the predicate.\<close>

fun position :: "('a \<Rightarrow> bool) \<Rightarrow> 'a list \<Rightarrow> nat option" where
  "position p [] = None"
| "position p (x # xs) = (if p x then Some 0 else map_option Suc (position p xs))"

lemma position_None [simp]: "position p xs = None \<longleftrightarrow> (\<forall>x \<in> set xs. \<not> p x)"
  by (induction xs) auto

lemma position_Some: "position p xs = Some i \<longleftrightarrow> i < length xs \<and> p (xs ! i) \<and> (\<forall>j < i. \<not> p (xs ! j))"
proof (induction xs arbitrary: i)
  case Nil
  show ?case by simp
next
  case (Cons x xs)
  show ?case
    by (cases i) (auto simp: Cons less_Suc_eq_0_disj)
qed

lemma position_find: "position p xs = Some i \<Longrightarrow> find p xs = Some (xs ! i)"
  by (induction xs arbitrary: i) (auto split: if_splits)

lemma find_append:
  "find p (xs @ ys) = (case find p xs of None \<Rightarrow> find p ys | Some x \<Rightarrow> Some x)"
  by (induction xs) auto

text \<open>Keyed vectors: a list of entries searched by a key, read as a map.\<close>

definition keyed :: "('a \<Rightarrow> 'k) \<Rightarrow> 'a list \<Rightarrow> 'k \<rightharpoonup> 'a" where
  "keyed key xs k = find (\<lambda>x. key x = k) xs"

lemma keyed_Nil [simp]: "keyed key [] = Map.empty"
  by (simp add: keyed_def fun_eq_iff)

lemma keyed_snoc:
  "\<forall>x \<in> set xs. key x \<noteq> key y \<Longrightarrow> keyed key (xs @ [y]) = (keyed key xs)(key y \<mapsto> y)"
proof -
  assume "\<forall>x \<in> set xs. key x \<noteq> key y"
  then have "find (\<lambda>x. key x = key y) xs = None" by (simp add: find_None_iff)
  then show ?thesis by (auto simp: keyed_def fun_eq_iff find_append split: option.split)
qed

lemma keyed_None: "keyed key xs k = None \<longleftrightarrow> (\<forall>x \<in> set xs. key x \<noteq> k)"
  by (auto simp: keyed_def find_None_iff)

lemma keyed_nth:
  assumes "distinct (map key xs)" and "i < length xs"
  shows "keyed key xs (key (xs ! i)) = Some (xs ! i)"
proof -
  have "position (\<lambda>x. key x = key (xs ! i)) xs = Some i"
    using assms by (auto simp: position_Some distinct_conv_nth)
  then show ?thesis unfolding keyed_def by (rule position_find)
qed

lemma keyed_position:
  "position (\<lambda>x. key x = k) xs = Some i \<Longrightarrow> keyed key xs k = Some (xs ! i)"
  unfolding keyed_def by (rule position_find)

lemma keyed_Some:
  "distinct (map key xs) \<Longrightarrow> keyed key xs k = Some x \<longleftrightarrow> x \<in> set xs \<and> key x = k"
proof
  assume "keyed key xs k = Some x"
  then show "x \<in> set xs \<and> key x = k" by (auto simp: keyed_def find_Some_iff)
next
  assume "distinct (map key xs)" and "x \<in> set xs \<and> key x = k"
  then show "keyed key xs k = Some x" by (auto simp: in_set_conv_nth keyed_nth)
qed

lemma keyed_update:
  assumes "distinct (map key xs)" and "i < length xs" and "key y = key (xs ! i)"
  shows "keyed key (xs[i := y]) = (keyed key xs)(key y \<mapsto> y)"
proof
  fix k
  have keys: "map key (xs[i := y]) = map key xs"
    using assms(3) by (metis list_update_id map_update)
  show "keyed key (xs[i := y]) k = ((keyed key xs)(key y \<mapsto> y)) k"
  proof (cases "k = key y")
    case True
    have "keyed key (xs[i := y]) (key ((xs[i := y]) ! i)) = Some ((xs[i := y]) ! i)"
      using assms keys by (intro keyed_nth) auto
    with True assms show ?thesis by simp
  next
    case False
    with assms have "(\<lambda>x. x \<in> set (xs[i := y]) \<and> key x = k) = (\<lambda>x. x \<in> set xs \<and> key x = k)"
      by (fastforce simp: in_set_conv_nth nth_list_update)
    then have "keyed key (xs[i := y]) k = Some x \<longleftrightarrow> keyed key xs k = Some x" for x
      using assms keys by (simp add: keyed_Some fun_eq_iff)
    then have "keyed key (xs[i := y]) k = keyed key xs k"
      by (metis option.exhaust)
    with False show ?thesis by simp
  qed
qed


subsection \<open>Codecs\<close>

text \<open>
  The contract of an encoder and its decoder, shared by every wire format of the program:
  \<open>wf\<close> holds of the values the type of the source admits, \<open>'w\<close> is what crosses the wire.
  A canonical codec accepts nothing but the encoder's own output, so two different
  byte strings never decode to the same value.
\<close>

locale codec =
  fixes wf :: "'a \<Rightarrow> bool"
    and enc :: "'a \<Rightarrow> 'e + 'w"
    and dec :: "'w \<Rightarrow> 'f + 'a"
  assumes dec_enc: "wf x \<Longrightarrow> enc x = Inr w \<Longrightarrow> dec w = Inr x"
begin

lemma enc_injective: "wf x \<Longrightarrow> wf y \<Longrightarrow> enc x = Inr w \<Longrightarrow> enc y = Inr w \<Longrightarrow> x = y"
  by (metis dec_enc sum.inject(2))

end

locale canonical_codec = codec +
  assumes enc_dec: "dec w = Inr x \<Longrightarrow> enc x = Inr w"
    and dec_wf: "dec w = Inr x \<Longrightarrow> wf x"
begin

lemma dec_injective: "dec v = Inr x \<Longrightarrow> dec w = Inr x \<Longrightarrow> v = w"
  by (metis enc_dec sum.inject(2))

lemma dec_iff_enc: "wf x \<Longrightarrow> dec w = Inr x \<longleftrightarrow> enc x = Inr w"
  using dec_enc enc_dec by blast

lemma accepts_exactly_encodings: "(\<exists>x. dec w = Inr x) \<longleftrightarrow> (\<exists>x. wf x \<and> enc x = Inr w)"
  using dec_enc enc_dec dec_wf by blast

end


subsection \<open>Trace refinement\<close>

text \<open>
  A component as a function from an operation and a state to the events it causes and the next
  state, and an abstract machine whose runs are labelled with those events. When every operation of
  the component is a run of the machine, so is every sequence of operations.
\<close>

fun exec_all :: "('o \<Rightarrow> 's \<Rightarrow> 'e list \<times> 's) \<Rightarrow> 'o list \<Rightarrow> 's \<Rightarrow> 'e list \<times> 's" where
  "exec_all exec [] s = ([], s)"
| "exec_all exec (p # ps) s =
     (let (es, s') = exec p s; (fs, s'') = exec_all exec ps s' in (es @ fs, s''))"

fun labelled_run :: "('a \<Rightarrow> 'e \<Rightarrow> 'a \<Rightarrow> bool) \<Rightarrow> 'a \<Rightarrow> 'e list \<Rightarrow> 'a \<Rightarrow> bool" where
  "labelled_run step a [] b \<longleftrightarrow> a = b"
| "labelled_run step a (e # es) b \<longleftrightarrow> (\<exists>m. step a e m \<and> labelled_run step m es b)"

lemma labelled_run_append:
  "labelled_run step a (es @ fs) b \<longleftrightarrow> (\<exists>m. labelled_run step a es m \<and> labelled_run step m fs b)"
  by (induction es arbitrary: a) auto

locale trace_refinement =
  fixes inv :: "'s \<Rightarrow> bool"
    and abs :: "'s \<Rightarrow> 'a"
    and step :: "'a \<Rightarrow> 'e \<Rightarrow> 'a \<Rightarrow> bool"
    and exec :: "'o \<Rightarrow> 's \<Rightarrow> 'e list \<times> 's"
  assumes exec_refines:
    "inv s \<Longrightarrow> exec p s = (es, s') \<Longrightarrow> inv s' \<and> labelled_run step (abs s) es (abs s')"
begin

lemma exec_all_refines:
  "inv s \<Longrightarrow> exec_all exec ps s = (es, s') \<Longrightarrow> inv s' \<and> labelled_run step (abs s) es (abs s')"
proof (induction ps arbitrary: s es)
  case Nil
  then show ?case by auto
next
  case (Cons p ps)
  obtain es1 s1 where p: "exec p s = (es1, s1)" by (cases "exec p s")
  obtain es2 s2 where ps: "exec_all exec ps s1 = (es2, s2)" by (cases "exec_all exec ps s1")
  from Cons.prems(2) p ps have es: "es = es1 @ es2" "s' = s2" by auto
  have "inv s1 \<and> labelled_run step (abs s) es1 (abs s1)" by (rule exec_refines [OF Cons.prems(1) p])
  with Cons.IH [of s1 es2] ps show ?case by (auto simp: es labelled_run_append)
qed

end

end
