(* ===== verification/Hw_Packet.thy ===== *)
theory Hw_Packet
  imports T1_Prelude
begin

section \<open>Touch Bar hardware packets\<close>

text \<open>
  Models \<^verbatim>\<open>crates/t1-touchbar-hw/src/packet.rs\<close>: the fixed 16-byte header (magic, protocol
  major, message type, payload length, request identifier) that frames every message between
  the privileged Touch Bar service and its rendering client. The lemmas show that
  \<open>decode\<close> and \<open>encode\<close> invert each other, that nothing but an encoding is accepted,
  and how the errors depend on the input.
\<close>

definition HEADER_LENGTH :: nat where
  [simp]: "HEADER_LENGTH = 16"

definition MAX_PACKET_LENGTH :: nat where
  [simp]: "MAX_PACKET_LENGTH = 64 * 1024"

definition MAX_PAYLOAD_LENGTH :: nat where
  [simp]: "MAX_PAYLOAD_LENGTH = MAX_PACKET_LENGTH - HEADER_LENGTH"

definition MAGIC :: bytes where
  "MAGIC = [0x54, 0x31, 0x48, 0x57]"

definition PROTOCOL_MAJOR :: u16 where
  "PROTOCOL_MAJOR = 1"

record packet =
  pk_message_type :: u16
  pk_request_id :: u32
  pk_payload :: bytes

datatype packet_error = TooShort | BadMagic | WrongMajor | Oversize | LengthMismatch

definition packet_encode :: "packet \<Rightarrow> packet_error + bytes" where
  "packet_encode p =
     (if length (pk_payload p) > MAX_PAYLOAD_LENGTH then Inl Oversize
      else if length (pk_payload p) \<ge> 2 ^ 32 then Inl Oversize
      else let payload_length = word_of_nat (length (pk_payload p)) :: u32 in
        Inr (MAGIC @ to_le 2 PROTOCOL_MAJOR @ to_le 2 (pk_message_type p)
          @ to_le 4 payload_length @ to_le 4 (pk_request_id p) @ pk_payload p))"

definition packet_decode :: "bytes \<Rightarrow> packet_error + packet" where
  "packet_decode b =
     (if length b < HEADER_LENGTH then Inl TooShort
      else if length b > MAX_PACKET_LENGTH then Inl Oversize
      else if take 4 b \<noteq> MAGIC then Inl BadMagic
      else if (from_le [b ! 4, b ! 5] :: u16) \<noteq> PROTOCOL_MAJOR then Inl WrongMajor
      else let message_type = from_le [b ! 6, b ! 7];
               payload_length = from_le [b ! 8, b ! 9, b ! 10, b ! 11] :: u32;
               request_id = from_le [b ! 12, b ! 13, b ! 14, b ! 15];
               payload = drop HEADER_LENGTH b in
        if unat payload_length \<noteq> length payload then Inl LengthMismatch
        else Inr \<lparr>pk_message_type = message_type, pk_request_id = request_id,
                  pk_payload = payload\<rparr>)"

subsection \<open>Shape of an encoding\<close>

lemma packet_eta [simp]:
  "\<lparr>pk_message_type = pk_message_type p, pk_request_id = pk_request_id p, pk_payload = pk_payload p\<rparr> = p"
  by simp

lemma length_MAGIC [simp]: "length MAGIC = 4"
  by (simp add: MAGIC_def)

lemma unat_length_u32:
  "length xs \<le> MAX_PAYLOAD_LENGTH \<Longrightarrow> unat (word_of_nat (length xs) :: u32) = length xs"
  by (simp add: unat_of_nat take_bit_nat_eq_self)

lemma packet_encode_length:
  "packet_encode p = Inr b \<Longrightarrow> length b = HEADER_LENGTH + length (pk_payload p)"
  by (auto simp: packet_encode_def Let_def split: if_splits)

lemma packet_encode_ok:
  "length (pk_payload p) \<le> MAX_PAYLOAD_LENGTH \<Longrightarrow> \<exists>b. packet_encode p = Inr b"
  by (auto simp: packet_encode_def Let_def)

text \<open>
  Reading a fixed position of a byte string, one byte at a time as the source does, is reading a slice.
\<close>

lemma header_slices:
  assumes "16 \<le> length b"
  shows "[b ! 4, b ! 5] = slice 4 6 b"
    and "[b ! 6, b ! 7] = slice 6 8 b"
    and "[b ! 8, b ! 9, b ! 10, b ! 11] = slice 8 12 b"
    and "[b ! 12, b ! 13, b ! 14, b ! 15] = slice 12 16 b"
  using assms
  by (auto simp: slice_def numeral_eq_Suc Cons_nth_drop_Suc take_Suc_conv_app_nth
      simp flip: Cons_nth_drop_Suc)

lemma packet_decode_slices:
  "16 \<le> length b \<Longrightarrow> packet_decode b =
     (if length b > MAX_PACKET_LENGTH then Inl Oversize
      else if slice 0 4 b \<noteq> MAGIC then Inl BadMagic
      else if (from_le (slice 4 6 b) :: u16) \<noteq> PROTOCOL_MAJOR then Inl WrongMajor
      else if unat (from_le (slice 8 12 b) :: u32) \<noteq> length (drop 16 b) then Inl LengthMismatch
      else Inr \<lparr>pk_message_type = from_le (slice 6 8 b), pk_request_id = from_le (slice 12 16 b),
                pk_payload = drop 16 b\<rparr>)"
  by (simp add: packet_decode_def header_slices Let_def slice_def)

lemma packet_decode_encode: "packet_encode p = Inr b \<Longrightarrow> packet_decode b = Inr p"
proof -
  assume enc: "packet_encode p = Inr b"
  then have small: "length (pk_payload p) \<le> MAX_PAYLOAD_LENGTH"
    and b: "b = MAGIC @ to_le 2 PROTOCOL_MAJOR @ to_le 2 (pk_message_type p)
          @ to_le 4 (word_of_nat (length (pk_payload p)) :: u32) @ to_le 4 (pk_request_id p)
          @ pk_payload p"
    by (auto simp: packet_encode_def Let_def split: if_splits)
  from small have "packet_decode b = Inr \<lparr>pk_message_type = pk_message_type p,
      pk_request_id = pk_request_id p, pk_payload = pk_payload p\<rparr>"
    by (subst packet_decode_slices) (simp_all add: b unat_length_u32)
  then show ?thesis by simp
qed

lemma packet_encode_decode: "packet_decode b = Inr p \<Longrightarrow> packet_encode p = Inr b"
proof -
  assume dec: "packet_decode b = Inr p"
  then have len: "16 \<le> length b" "length b \<le> MAX_PACKET_LENGTH"
    by (auto simp: packet_decode_def split: if_splits)
  with dec have magic: "slice 0 4 b = MAGIC"
    and major: "(from_le (slice 4 6 b) :: u16) = PROTOCOL_MAJOR"
    and count: "unat (from_le (slice 8 12 b) :: u32) = length (drop 16 b)"
    and p: "p = \<lparr>pk_message_type = from_le (slice 6 8 b),
        pk_request_id = from_le (slice 12 16 b), pk_payload = drop 16 b\<rparr>"
    by (auto simp: packet_decode_slices split: if_splits)
  from major len have "to_le 2 PROTOCOL_MAJOR = slice 4 6 b"
    using to_from_le_width(1) [of "slice 4 6 b"] by simp
  moreover from count have "(word_of_nat (length (drop 16 b)) :: u32) = from_le (slice 8 12 b)"
    by (metis of_nat_unat ucast_id)
  ultimately show ?thesis
    using len by (simp add: packet_encode_def p Let_def to_from_le_width magic [symmetric]
        slice_simps)
qed

text \<open>The packet layer is a canonical codec on all packets.\<close>

interpretation packets: canonical_codec "\<lambda>_. True" packet_encode packet_decode
  by unfold_locales (auto intro: packet_decode_encode packet_encode_decode)

subsection \<open>Properties\<close>

text \<open>
  A byte string decodes to a packet exactly when it is the encoding of that packet: every packet
  that can be sent is read back unchanged, and no other byte string is accepted for it.
\<close>

theorem packet_wire_exact: "packet_decode b = Inr p \<longleftrightarrow> packet_encode p = Inr b"
  by (simp add: packets.dec_iff_enc)

end
