(* ===== verification/Hw_Frame_State.thy ===== *)
theory Hw_Frame_State
  imports T1_Prelude
begin

section \<open>Frame buffers of one rendering connection\<close>

text \<open>
  Models \<^verbatim>\<open>crates/t1-touchbar-hw/src/frame_state.rs\<close>: the buffer layout derived from the display's
  dimensions, the registry of at most three client buffers, and the ownership protocol
  (a submitted buffer belongs to the service until exactly its frame is released).
  The registry is read as a map from a buffer identifier to the frame in flight; the locale
  \<open>frame_ownership\<close> states what the service relies on and the interpretation \<open>frames\<close>
  discharges it for the model.
  The operations of the source that return an error leave the state as it was, so an
  operation here returns either an error or its value and the new state.
\<close>

subsection \<open>Layout and data\<close>

definition BYTES_PER_PIXEL :: u32 where
  [simp]: "BYTES_PER_PIXEL = 4"

definition MAX_REGISTERED_BUFFERS :: nat where
  [simp]: "MAX_REGISTERED_BUFFERS = 3"

definition MAX_DAMAGE_RECTANGLES :: nat where
  [simp]: "MAX_DAMAGE_RECTANGLES = 64"

datatype frame_state_error =
    InvalidLayout | InvalidBufferStride | InvalidBufferLength | DuplicateBuffer | TooManyBuffers
  | UnknownBuffer | BufferInFlight | TooManyDamageRectangles | DamageOutOfBounds
  | BufferNotInFlight | FrameMismatch

record frame_layout =
  fl_width :: u32
  fl_height :: u32
  fl_stride :: u32
  fl_byte_length :: u64

definition frame_layout_new :: "u32 \<Rightarrow> u32 \<Rightarrow> frame_state_error + frame_layout" where
  "frame_layout_new width height =
     (if width = 0 \<or> height = 0 then Inl InvalidLayout
      else rbind (ok_or (checked_mul width BYTES_PER_PIXEL) InvalidLayout) (\<lambda>stride.
           rbind (ok_or (checked_mul (ucast stride :: u64) (ucast height)) InvalidLayout)
             (\<lambda>byte_length.
        Inr \<lparr>fl_width = width, fl_height = height, fl_stride = stride,
             fl_byte_length = byte_length\<rparr>)))"

record buffer_metadata =
  bm_stride :: u32
  bm_byte_length :: u64

record damage_rectangle =
  dr_x :: u32
  dr_y :: u32
  dr_width :: u32
  dr_height :: u32

record ('b, 'f) validated_submission =
  vs_buffer_id :: 'b
  vs_frame_id :: 'f
  vs_damage :: "damage_rectangle list"

record ('b, 'f) frame_release =
  rel_buffer_id :: 'b
  rel_frame_id :: 'f

record ('b, 'f) registered_buffer =
  rb_id :: 'b
  rb_in_flight :: "'f option"

record ('b, 'f) frame_state =
  fs_layout :: frame_layout
  fs_buffers :: "('b, 'f) registered_buffer list"

subsection \<open>Operations\<close>

definition frame_state_new :: "frame_layout \<Rightarrow> ('b, 'f) frame_state" where
  "frame_state_new layout = \<lparr>fs_layout = layout, fs_buffers = []\<rparr>"

definition register_buffer ::
  "'b \<Rightarrow> buffer_metadata \<Rightarrow> ('b, 'f) frame_state \<Rightarrow> frame_state_error + ('b, 'f) frame_state" where
  "register_buffer buffer_id metadata s =
     (if bm_stride metadata \<noteq> fl_stride (fs_layout s) then Inl InvalidBufferStride
      else if bm_byte_length metadata \<noteq> fl_byte_length (fs_layout s) then Inl InvalidBufferLength
      else if \<exists>b \<in> set (fs_buffers s). rb_id b = buffer_id then Inl DuplicateBuffer
      else if length (fs_buffers s) = MAX_REGISTERED_BUFFERS then Inl TooManyBuffers
      else Inr (s\<lparr>fs_buffers := fs_buffers s @ [\<lparr>rb_id = buffer_id, rb_in_flight = None\<rparr>]\<rparr>))"

text \<open>\<^verbatim>\<open>checked_add(..).is_none_or(|end| end > limit)\<close>.\<close>

definition exceeds :: "u32 \<Rightarrow> u32 \<Rightarrow> u32 \<Rightarrow> bool" where
  "exceeds start extent limit =
     (case checked_add start extent of None \<Rightarrow> True | Some e \<Rightarrow> e > limit)"

definition fs_validate_damage ::
  "('b, 'f) frame_state \<Rightarrow> damage_rectangle list \<Rightarrow> frame_state_error + damage_rectangle list" where
  "fs_validate_damage s damage =
     (if length damage > MAX_DAMAGE_RECTANGLES then Inl TooManyDamageRectangles
      else if damage = [] then
        Inr [\<lparr>dr_x = 0, dr_y = 0, dr_width = fl_width (fs_layout s),
              dr_height = fl_height (fs_layout s)\<rparr>]
      else if \<exists>r \<in> set damage. exceeds (dr_x r) (dr_width r) (fl_width (fs_layout s))
                \<or> exceeds (dr_y r) (dr_height r) (fl_height (fs_layout s))
        then Inl DamageOutOfBounds
      else Inr damage)"

definition submit_frame ::
  "'b \<Rightarrow> 'f \<Rightarrow> damage_rectangle list \<Rightarrow> ('b, 'f) frame_state
    \<Rightarrow> frame_state_error + (('b, 'f) validated_submission \<times> ('b, 'f) frame_state)" where
  "submit_frame buffer_id frame_id damage s =
     rbind (ok_or (position (\<lambda>b. rb_id b = buffer_id) (fs_buffers s)) UnknownBuffer) (\<lambda>i.
       let buffer = fs_buffers s ! i in
       if rb_in_flight buffer \<noteq> None then Inl BufferInFlight
       else rbind (fs_validate_damage s damage) (\<lambda>normalized.
         Inr (\<lparr>vs_buffer_id = rb_id buffer, vs_frame_id = frame_id, vs_damage = normalized\<rparr>,
              s\<lparr>fs_buffers := (fs_buffers s)[i := buffer\<lparr>rb_in_flight := Some frame_id\<rparr>]\<rparr>)))"

definition release_frame ::
  "'b \<Rightarrow> 'f \<Rightarrow> ('b, 'f) frame_state
    \<Rightarrow> frame_state_error + (('b, 'f) frame_release \<times> ('b, 'f) frame_state)" where
  "release_frame buffer_id frame_id s =
     rbind (ok_or (position (\<lambda>b. rb_id b = buffer_id) (fs_buffers s)) UnknownBuffer) (\<lambda>i.
       let buffer = fs_buffers s ! i in
       case rb_in_flight buffer of
         None \<Rightarrow> Inl BufferNotInFlight
       | Some in_flight \<Rightarrow>
           if in_flight \<noteq> frame_id then Inl FrameMismatch
           else Inr (\<lparr>rel_buffer_id = rb_id buffer, rel_frame_id = frame_id\<rparr>,
                     s\<lparr>fs_buffers := (fs_buffers s)[i := buffer\<lparr>rb_in_flight := None\<rparr>]\<rparr>))"

definition fs_disconnect :: "('b, 'f) frame_state \<Rightarrow> ('b, 'f) frame_state" where
  "fs_disconnect s = s\<lparr>fs_buffers := []\<rparr>"

definition registered_buffer_count :: "('b, 'f) frame_state \<Rightarrow> nat" where
  "registered_buffer_count s = length (fs_buffers s)"

definition in_flight_count :: "('b, 'f) frame_state \<Rightarrow> nat" where
  "in_flight_count s = length (filter (\<lambda>b. rb_in_flight b \<noteq> None) (fs_buffers s))"

subsection \<open>Layout\<close>

text \<open>An accepted layout is exact: no size calculation wrapped.\<close>

lemma frame_layout_new_exact:
  assumes "frame_layout_new w h = Inr l"
  shows "fl_width l = w" and "fl_height l = h" and "w \<noteq> 0" and "h \<noteq> 0"
    and "unat (fl_stride l) = 4 * unat w"
    and "unat (fl_byte_length l) = 4 * unat w * unat h"
proof -
  from assms obtain stride len where wh: "w \<noteq> 0" "h \<noteq> 0"
    and stride: "checked_mul w BYTES_PER_PIXEL = Some stride"
    and len: "checked_mul (ucast stride :: u64) (ucast h) = Some len"
    and l: "l = \<lparr>fl_width = w, fl_height = h, fl_stride = stride, fl_byte_length = len\<rparr>"
    by (auto simp: frame_layout_new_def split: if_splits)
  from stride have s: "unat stride = 4 * unat w"
    by (simp add: checked_mul_Some)
  from len have "unat len = unat (ucast stride :: u64) * unat (ucast h :: u64)"
    by (simp only: checked_mul_Some)
  also have "\<dots> = unat stride * unat h"
    by (simp add: unat_ucast_widen)
  finally have "unat len = 4 * unat w * unat h" using s by simp
  with wh s l show "fl_width l = w" "fl_height l = h" "w \<noteq> 0" "h \<noteq> 0"
    "unat (fl_stride l) = 4 * unat w" "unat (fl_byte_length l) = 4 * unat w * unat h"
    by simp_all
qed

lemma not_exceeds:
  "\<not> exceeds start extent limit \<longleftrightarrow> unat start + unat extent \<le> unat limit"
proof (cases "checked_add start extent")
  case None
  then have "2 ^ 32 \<le> unat start + unat extent" by (simp add: checked_add_None)
  moreover have "unat limit < 2 ^ 32" using unsigned_less [of limit] by simp
  ultimately show ?thesis using None by (simp add: exceeds_def)
next
  case (Some e)
  then have "unat e = unat start + unat extent" by (simp add: checked_add_Some)
  with Some show ?thesis by (simp add: exceeds_def word_less_nat_alt not_less)
qed

lemma exceeds_origin [simp]: "\<not> exceeds 0 extent extent"
  by (simp add: not_exceeds)

text \<open>What a client may assume of a submission's damage: within the display, never empty.\<close>

lemma fs_validate_damage_bounds:
  assumes "fs_validate_damage s damage = Inr rs" and "r \<in> set rs"
  shows "unat (dr_x r) + unat (dr_width r) \<le> unat (fl_width (fs_layout s))"
    and "unat (dr_y r) + unat (dr_height r) \<le> unat (fl_height (fs_layout s))"
  using assms
  by (auto simp: fs_validate_damage_def not_exceeds [symmetric] split: if_splits)

lemma fs_validate_damage_count:
  "fs_validate_damage s damage = Inr rs \<Longrightarrow> rs \<noteq> [] \<and> length rs \<le> MAX_DAMAGE_RECTANGLES"
  by (auto simp: fs_validate_damage_def split: if_splits)

subsection \<open>Ownership\<close>

text \<open>
  The abstract state of the registry: which buffers exist, and for each the frame in flight.
\<close>

definition frame_owner :: "('b, 'f) frame_state \<Rightarrow> 'b \<rightharpoonup> 'f option" where
  "frame_owner s = map_option rb_in_flight \<circ> keyed rb_id (fs_buffers s)"

definition frame_state_inv :: "('b, 'f) frame_state \<Rightarrow> bool" where
  "frame_state_inv s \<longleftrightarrow> distinct (map rb_id (fs_buffers s))
     \<and> length (fs_buffers s) \<le> MAX_REGISTERED_BUFFERS"

lemma frame_owner_new [simp]: "frame_owner (frame_state_new l) = Map.empty"
  by (simp add: frame_owner_def frame_state_new_def fun_eq_iff)

lemma frame_state_inv_new [simp]: "frame_state_inv (frame_state_new l)"
  by (simp add: frame_state_inv_def frame_state_new_def)

lemma frame_owner_disconnect [simp]: "frame_owner (fs_disconnect s) = Map.empty"
  by (simp add: frame_owner_def fs_disconnect_def fun_eq_iff)

lemma frame_state_inv_disconnect [simp]: "frame_state_inv (fs_disconnect s)"
  by (simp add: frame_state_inv_def fs_disconnect_def)

lemma frame_owner_position:
  "position (\<lambda>b. rb_id b = i) (fs_buffers s) = Some n \<Longrightarrow>
     frame_owner s i = Some (rb_in_flight (fs_buffers s ! n))"
  by (simp add: frame_owner_def keyed_position)

lemma frame_owner_None:
  "frame_owner s i = None \<longleftrightarrow> position (\<lambda>b. rb_id b = i) (fs_buffers s) = None"
  by (auto simp: frame_owner_def keyed_None)

lemma frame_owner_assign:
  assumes "frame_state_inv s" and n: "position (\<lambda>b. rb_id b = i) (fs_buffers s) = Some n"
    and s': "s' = s\<lparr>fs_buffers := (fs_buffers s)[n := (fs_buffers s ! n)\<lparr>rb_in_flight := v\<rparr>]\<rparr>"
  shows "frame_owner s' = (frame_owner s)(i \<mapsto> v)" and "frame_state_inv s'"
proof -
  from n have "n < length (fs_buffers s)" and "rb_id (fs_buffers s ! n) = i"
    by (simp_all add: position_Some)
  with assms show "frame_owner s' = (frame_owner s)(i \<mapsto> v)"
    by (simp add: frame_owner_def frame_state_inv_def keyed_update fun_eq_iff)
  have "map rb_id (fs_buffers s') = map rb_id (fs_buffers s)"
    by (simp add: s' map_update) (metis list_update_id map_update)
  with assms(1) s' show "frame_state_inv s'"
    by (simp add: frame_state_inv_def)
qed

lemma register_buffer_owner:
  assumes "frame_state_inv s" and "register_buffer i m s = Inr s'"
  shows "frame_owner s i = None" and "frame_owner s' = (frame_owner s)(i \<mapsto> None)"
    and "frame_state_inv s'"
  using assms
  by (auto simp: register_buffer_def frame_owner_def frame_state_inv_def keyed_None keyed_snoc
      fun_eq_iff split: if_splits)

lemma submit_frame_owner:
  assumes "frame_state_inv s" and "submit_frame i f d s = Inr (v, s')"
  shows "frame_owner s i = Some None" and "frame_owner s' = (frame_owner s)(i \<mapsto> Some f)"
    and "frame_state_inv s'" and "fs_layout s' = fs_layout s"
    and "vs_buffer_id v = i" and "vs_frame_id v = f"
    and "fs_validate_damage s d = Inr (vs_damage v)"
proof -
  from assms(2) obtain n where n: "position (\<lambda>b. rb_id b = i) (fs_buffers s) = Some n"
    and free: "rb_in_flight (fs_buffers s ! n) = None"
    and damage: "fs_validate_damage s d = Inr (vs_damage v)"
    and v: "vs_buffer_id v = rb_id (fs_buffers s ! n)" "vs_frame_id v = f"
    and s': "s' = s\<lparr>fs_buffers := (fs_buffers s)[n := (fs_buffers s ! n)\<lparr>rb_in_flight := Some f\<rparr>]\<rparr>"
    by (auto simp: submit_frame_def Let_def split: if_splits)
  from n free show "frame_owner s i = Some None" by (simp add: frame_owner_position)
  from n v show "vs_buffer_id v = i" "vs_frame_id v = f" by (simp_all add: position_Some)
  show "frame_owner s' = (frame_owner s)(i \<mapsto> Some f)" "frame_state_inv s'" by (rule frame_owner_assign [OF assms(1) n s'])+
  from s' show "fs_layout s' = fs_layout s" by simp
  show "fs_validate_damage s d = Inr (vs_damage v)" by (rule damage)
qed

lemma submit_frame_ok:
  assumes "frame_owner s i = Some None" and "fs_validate_damage s d = Inr rs"
  shows "\<exists>v s'. submit_frame i f d s = Inr (v, s')"
proof -
  from assms(1) obtain n where n: "position (\<lambda>b. rb_id b = i) (fs_buffers s) = Some n"
    by (metis frame_owner_None option.exhaust option.distinct(1))
  with assms show ?thesis
    by (simp add: submit_frame_def Let_def frame_owner_position)
qed

lemma release_frame_ok:
  "frame_owner s i = Some (Some f) \<Longrightarrow> \<exists>r s'. release_frame i f s = Inr (r, s')"
proof -
  assume own: "frame_owner s i = Some (Some f)"
  then obtain n where n: "position (\<lambda>b. rb_id b = i) (fs_buffers s) = Some n"
    by (metis frame_owner_None option.exhaust option.distinct(1))
  with own show ?thesis
    by (simp add: release_frame_def Let_def frame_owner_position)
qed

lemma release_frame_owner:
  assumes "frame_state_inv s" and "release_frame i f s = Inr (r, s')"
  shows "frame_owner s i = Some (Some f)" and "frame_owner s' = (frame_owner s)(i \<mapsto> None)"
    and "frame_state_inv s'" and "fs_layout s' = fs_layout s"
    and "rel_buffer_id r = i" and "rel_frame_id r = f"
proof -
  from assms(2) obtain n where n: "position (\<lambda>b. rb_id b = i) (fs_buffers s) = Some n"
    and busy: "rb_in_flight (fs_buffers s ! n) = Some f"
    and r: "r = \<lparr>rel_buffer_id = rb_id (fs_buffers s ! n), rel_frame_id = f\<rparr>"
    and s': "s' = s\<lparr>fs_buffers := (fs_buffers s)[n := (fs_buffers s ! n)\<lparr>rb_in_flight := None\<rparr>]\<rparr>"
    by (auto simp: release_frame_def Let_def split: if_splits option.splits)
  from n busy show "frame_owner s i = Some (Some f)" by (simp add: frame_owner_position)
  from n r show "rel_buffer_id r = i" "rel_frame_id r = f" by (simp_all add: position_Some)
  show "frame_owner s' = (frame_owner s)(i \<mapsto> None)" "frame_state_inv s'" by (rule frame_owner_assign [OF assms(1) n s'])+
  from s' show "fs_layout s' = fs_layout s" by simp
qed

subsection \<open>The interface to the service\<close>

text \<open>
  A run of an ownership protocol: operations that are refused leave the state alone, and the
  accepted ones are recorded in order.
\<close>

datatype ('b, 'f, 'd) frame_op = Submit 'b 'f 'd | Release 'b 'f

fun op_buffer :: "('b, 'f, 'd) frame_op \<Rightarrow> 'b" where
  "op_buffer (Submit b f d) = b"
| "op_buffer (Release b f) = b"

fun ownership_run ::
  "('b \<Rightarrow> 'f \<Rightarrow> 'd \<Rightarrow> 's \<Rightarrow> 'e + ('v \<times> 's)) \<Rightarrow> ('b \<Rightarrow> 'f \<Rightarrow> 's \<Rightarrow> 'e + ('r \<times> 's))
    \<Rightarrow> ('b, 'f, 'd) frame_op list \<Rightarrow> 's \<Rightarrow> 's \<times> ('b, 'f, 'd) frame_op list" where
  "ownership_run sub rel [] s = (s, [])"
| "ownership_run sub rel (Submit b f d # ops) s =
     (case sub b f d s of
        Inl e \<Rightarrow> ownership_run sub rel ops s
      | Inr (v, s') \<Rightarrow> map_prod id (Cons (Submit b f d)) (ownership_run sub rel ops s'))"
| "ownership_run sub rel (Release b f # ops) s =
     (case rel b f s of
        Inl e \<Rightarrow> ownership_run sub rel ops s
      | Inr (r, s') \<Rightarrow> map_prod id (Cons (Release b f)) (ownership_run sub rel ops s'))"

text \<open>The accepted operations on one buffer alternate: a submission, then its own release.\<close>

fun alternates :: "'f option \<Rightarrow> ('b, 'f, 'd) frame_op list \<Rightarrow> bool" where
  "alternates x [] = True"
| "alternates None (Submit b f d # ops) = alternates (Some f) ops"
| "alternates (Some g) (Release b f # ops) = (f = g \<and> alternates None ops)"
| "alternates x (y # ops) = False"

locale frame_ownership =
  fixes inv :: "'s \<Rightarrow> bool"
    and owner :: "'s \<Rightarrow> 'b \<rightharpoonup> 'f option"
    and sub :: "'b \<Rightarrow> 'f \<Rightarrow> 'd \<Rightarrow> 's \<Rightarrow> 'e + ('v \<times> 's)"
    and rel :: "'b \<Rightarrow> 'f \<Rightarrow> 's \<Rightarrow> 'e + ('r \<times> 's)"
  assumes submit_takes: "inv s \<Longrightarrow> sub b f d s = Inr (v, s') \<Longrightarrow>
      owner s b = Some None \<and> owner s' = (owner s)(b \<mapsto> Some f) \<and> inv s'"
    and release_enabled: "inv s \<Longrightarrow> owner s b = Some (Some f) \<Longrightarrow> \<exists>r s'. rel b f s = Inr (r, s')"
    and release_returns: "inv s \<Longrightarrow> rel b f s = Inr (r, s') \<Longrightarrow>
      owner s b = Some (Some f) \<and> owner s' = (owner s)(b \<mapsto> None) \<and> inv s'"
begin

lemma busy_until_released:
  "inv s \<Longrightarrow> sub b f d s = Inr (v, s') \<Longrightarrow> sub b g d' s' \<noteq> Inr w"
proof
  assume "inv s" "sub b f d s = Inr (v, s')" "sub b g d' s' = Inr w"
  moreover obtain v' s'' where "w = (v', s'')" by (cases w)
  ultimately show False using submit_takes [of s b f d v s'] submit_takes [of s' b g d' v' s''] by simp
qed

lemma released_by_its_frame_only:
  "inv s \<Longrightarrow> sub b f d s = Inr (v, s') \<Longrightarrow> rel b g s' = Inr w \<Longrightarrow> g = f"
proof -
  assume "inv s" "sub b f d s = Inr (v, s')" "rel b g s' = Inr w"
  moreover obtain r s'' where "w = (r, s'')" by (cases w)
  ultimately show ?thesis using submit_takes [of s b f d v s'] release_returns [of s' b g r s''] by simp
qed

lemma submit_then_release:
  assumes "inv s" and "sub b f d s = Inr (v, s')"
  shows "\<exists>r s''. rel b f s' = Inr (r, s'') \<and> owner s'' = owner s \<and> inv s''"
proof -
  from submit_takes [OF assms] have free: "owner s b = Some None"
    and s': "owner s' = (owner s)(b \<mapsto> Some f)" "inv s'" by auto
  then obtain r s'' where r: "rel b f s' = Inr (r, s'')"
    using release_enabled [of s' b f] by auto
  from release_returns [OF s'(2) r] s'(1) free show ?thesis
    using r by (auto simp: fun_eq_iff)
qed

lemma run_alternates:
  assumes "inv s" and "owner s b = Some x" and "ownership_run sub rel ops s = (s', acc)"
  shows "alternates x (filter (\<lambda>p. op_buffer p = b) acc) \<and> inv s' \<and> b \<in> dom (owner s')"
  using assms
proof (induction ops arbitrary: s x acc)
  case Nil
  then show ?case by auto
next
  case (Cons p ops)
  show ?case
  proof (cases p)
    case p: (Submit c f d)
    show ?thesis
    proof (cases "sub c f d s")
      case (Inl e)
      with Cons p show ?thesis by auto
    next
      case (Inr vs)
      obtain v s1 where vs: "vs = (v, s1)" by (cases vs)
      from submit_takes [of s c f d v s1] Cons.prems(1) Inr vs have own: "owner s c = Some None"
        "owner s1 = (owner s)(c \<mapsto> Some f)" "inv s1" by auto
      obtain acc' where run: "ownership_run sub rel ops s1 = (s', acc')" "acc = p # acc'"
        using Cons.prems(3) p Inr vs by (cases "ownership_run sub rel ops s1") auto
      show ?thesis
        using Cons.IH [OF own(3) _ run(1)] Cons.prems(2) own run(2) p by (cases "c = b") auto
    qed
  next
    case p: (Release c f)
    show ?thesis
    proof (cases "rel c f s")
      case (Inl e)
      with Cons p show ?thesis by auto
    next
      case (Inr rs)
      obtain r s1 where rs: "rs = (r, s1)" by (cases rs)
      from release_returns [of s c f r s1] Cons.prems(1) Inr rs have own:
        "owner s c = Some (Some f)" "owner s1 = (owner s)(c \<mapsto> None)" "inv s1" by auto
      obtain acc' where run: "ownership_run sub rel ops s1 = (s', acc')" "acc = p # acc'"
        using Cons.prems(3) p Inr rs by (cases "ownership_run sub rel ops s1") auto
      show ?thesis
        using Cons.IH [OF own(3) _ run(1)] Cons.prems(2) own run(2) p by (cases "c = b") auto
    qed
  qed
qed

end

interpretation frames: frame_ownership frame_state_inv frame_owner submit_frame release_frame
proof (unfold_locales, goal_cases)
  case (1 s b f d v s')
  then show ?case by (intro conjI) (rule submit_frame_owner, assumption+)+
next
  case (2 s b f)
  then show ?case by (intro release_frame_ok)
next
  case (3 s b f r s')
  then show ?case by (intro conjI) (rule release_frame_owner, assumption+)+
qed

subsection \<open>Properties\<close>

lemma frame_layout_accepts:
  "(\<exists>l. frame_layout_new w h = Inr l) \<longleftrightarrow> w \<noteq> 0 \<and> h \<noteq> 0 \<and> 4 * unat w < 2 ^ 32"
proof
  assume "\<exists>l. frame_layout_new w h = Inr l"
  then obtain l where "frame_layout_new w h = Inr l" ..
  moreover have "unat (fl_stride l) < 2 ^ 32" using unsigned_less [of "fl_stride l"] by simp
  ultimately show "w \<noteq> 0 \<and> h \<noteq> 0 \<and> 4 * unat w < 2 ^ 32"
    using frame_layout_new_exact [of w h l] by simp
next
  assume ok: "w \<noteq> 0 \<and> h \<noteq> 0 \<and> 4 * unat w < 2 ^ 32"
  then obtain stride where stride: "checked_mul w BYTES_PER_PIXEL = Some stride"
    by (cases "checked_mul w BYTES_PER_PIXEL") (auto simp: checked_mul_None)
  have "unat stride < 2 ^ 32" "unat h < 2 ^ 32"
    using unsigned_less [of stride] unsigned_less [of h] by simp_all
  then have "unat stride * unat h < 2 ^ 32 * 2 ^ 32" by (intro mult_strict_mono) simp_all
  then have "unat (ucast stride :: u64) * unat (ucast h :: u64) < 2 ^ 64"
    by (simp add: unat_ucast_widen)
  then obtain len where "checked_mul (ucast stride :: u64) (ucast h) = Some len"
    by (cases "checked_mul (ucast stride :: u64) (ucast h)") (auto simp: checked_mul_None)
  with stride ok show "\<exists>l. frame_layout_new w h = Inr l" by (auto simp: frame_layout_new_def)
qed

text \<open>
  A frame layout exists exactly when both dimensions are nonzero and four bytes per pixel of one row
  fit in 32 bits; its stride and byte length are then the mathematical products, so no multiplication wraps.
\<close>

theorem frame_layout_exact:
  "case frame_layout_new w h of
     Inl e \<Rightarrow> w = 0 \<or> h = 0 \<or> 2 ^ 32 \<le> 4 * unat w
   | Inr l \<Rightarrow> w \<noteq> 0 \<and> h \<noteq> 0 \<and> fl_width l = w \<and> fl_height l = h
       \<and> unat (fl_stride l) = 4 * unat w \<and> unat (fl_byte_length l) = 4 * unat w * unat h"
  using frame_layout_accepts [of w h] frame_layout_new_exact [of w h]
  by (auto split: sum.split)

text \<open>
  C23. Whatever sequence of submissions and releases a connection asks for, the accepted operations on a
  registered buffer alternate: a submission, then the release of exactly that frame, and so on. No buffer is
  handed out twice and no frame is released twice.
\<close>

theorem frame_ownership_alternates:
  assumes "frame_state_inv s" and "register_buffer b m s = Inr s0"
    and "ownership_run submit_frame release_frame ops s0 = (s', accepted)"
  shows "alternates None (filter (\<lambda>p. op_buffer p = b) accepted) \<and> frame_state_inv s'"
proof -
  have "frame_state_inv s0" and "frame_owner s0 b = Some None"
    using register_buffer_owner [OF assms(1,2)] by simp_all
  then show ?thesis using frames.run_alternates [OF _ _ assms(3)] by blast
qed

theorem frame_ownership_alternates_witness:
  "alternates None (filter (\<lambda>p. op_buffer p = 7) [Submit 7 1 [], Release 7 (1::nat)
      :: (nat, nat, damage_rectangle list) frame_op])"
proof -
  let ?l = "\<lparr>fl_width = 2, fl_height = 1, fl_stride = 8, fl_byte_length = 8\<rparr>"
  let ?s0 = "\<lparr>fs_layout = ?l, fs_buffers = [\<lparr>rb_id = 7, rb_in_flight = None\<rparr>]\<rparr>
    :: (nat, nat) frame_state"
  have reg: "register_buffer 7 \<lparr>bm_stride = 8, bm_byte_length = 8\<rparr> (frame_state_new ?l) = Inr ?s0"
    by (simp add: register_buffer_def frame_state_new_def)
  have run: "ownership_run submit_frame release_frame
      [Release 7 1, Submit 7 1 [], Submit 7 2 [], Release 7 2, Release 7 1] ?s0 = (?s0, [Submit 7 1 [], Release 7 1])"
    by (simp add: submit_frame_def release_frame_def fs_validate_damage_def)
  show ?thesis
    using frame_ownership_alternates [OF frame_state_inv_new reg run] by simp
qed

end
