(* ===== verification/Hw_Digitizer.thy ===== *)
theory Hw_Digitizer
  imports T1_Prelude
begin

section \<open>Digitizer reports\<close>

text \<open>
  Models the parser of \<^verbatim>\<open>crates/t1-touchbar-hw/src/digitizer.rs\<close>: the negotiated display
  dimensions and the 52-byte report of the Touch Bar's digitizer, ten contact slots of four bytes
  and twelve vendor bytes. The lemmas give the bounds of every reported contact, that active
  contacts have distinct identifiers, and which slots a report keeps.
  The scaling to display coordinates is in \<open>Hw_Input_State\<close>.
\<close>

definition CONTACT_SLOT_COUNT :: nat where
  [simp]: "CONTACT_SLOT_COUNT = 10"

definition CONTACT_SLOT_SIZE :: nat where
  [simp]: "CONTACT_SLOT_SIZE = 4"

definition DIGITIZER_PAYLOAD_SIZE :: nat where
  [simp]: "DIGITIZER_PAYLOAD_SIZE = 52"

definition CONTACT_BYTES :: nat where
  [simp]: "CONTACT_BYTES = CONTACT_SLOT_COUNT * CONTACT_SLOT_SIZE"

definition RAW_X_MAX :: u16 where
  [simp]: "RAW_X_MAX = 32767"

definition RAW_Y_MAX :: u8 where
  [simp]: "RAW_Y_MAX = 127"

definition CONTACT_ID_MASK :: u8 where
  [simp]: "CONTACT_ID_MASK = 0x0f"

definition TIP_MASK :: u8 where
  [simp]: "TIP_MASK = 0x10"

definition IN_RANGE_MASK :: u8 where
  [simp]: "IN_RANGE_MASK = 0x20"

definition RESERVED_MASK :: u8 where
  [simp]: "RESERVED_MASK = 0xc0"

datatype digitizer_error =
    WrongPayloadLength | ReservedFlagBits | XOutOfRange | YOutOfRange | DuplicateActiveContact
  | InvalidDisplayDimensions

record display_dimensions =
  dd_width :: u32
  dd_height :: u32

definition display_dimensions_new :: "u32 \<Rightarrow> u32 \<Rightarrow> digitizer_error + display_dimensions" where
  "display_dimensions_new width height =
     (if width = 0 \<or> height = 0 then Inl InvalidDisplayDimensions
      else Inr \<lparr>dd_width = width, dd_height = height\<rparr>)"

record raw_contact =
  rc_id :: u8
  rc_x :: u16
  rc_y :: u8
  rc_tip :: bool
  rc_in_range :: bool

record digitizer_report =
  report_contacts :: "raw_contact list"

text \<open>The bit of a contact identifier in the set of active identifiers, \<^verbatim>\<open>1_u16 << id\<close>.\<close>

definition id_bit :: "u8 \<Rightarrow> u16" where
  "id_bit i = push_bit (unat i) 1"

text \<open>One slot: the checks in the source's order, then the contact it encodes.\<close>

definition parse_slot :: "bytes \<Rightarrow> digitizer_error + raw_contact" where
  "parse_slot slot =
     (let flags = slot ! 0; x = from_le [slot ! 1, slot ! 2]; y = slot ! 3 in
      if flags AND RESERVED_MASK \<noteq> 0 then Inl ReservedFlagBits
      else if x > RAW_X_MAX then Inl XOutOfRange
      else if y > RAW_Y_MAX then Inl YOutOfRange
      else Inr \<lparr>rc_id = flags AND CONTACT_ID_MASK, rc_x = x, rc_y = y,
                rc_tip = (flags AND TIP_MASK \<noteq> 0),
                rc_in_range = (flags AND IN_RANGE_MASK \<noteq> 0)\<rparr>)"

definition rc_active :: "raw_contact \<Rightarrow> bool" where
  "rc_active c \<longleftrightarrow> rc_tip c \<or> rc_in_range c"

fun parse_slots :: "u16 \<Rightarrow> raw_contact list \<Rightarrow> bytes list \<Rightarrow> digitizer_error + raw_contact list" where
  "parse_slots active_ids contacts [] = Inr contacts"
| "parse_slots active_ids contacts (slot # slots) =
     rbind (parse_slot slot) (\<lambda>c.
       if rc_active c then
         if active_ids AND id_bit (rc_id c) \<noteq> 0 then Inl DuplicateActiveContact
         else parse_slots (active_ids OR id_bit (rc_id c)) (contacts @ [c]) slots
       else parse_slots active_ids contacts slots)"

definition parse_digitizer_payload :: "bytes \<Rightarrow> digitizer_error + digitizer_report" where
  "parse_digitizer_payload payload =
     (if length payload \<noteq> DIGITIZER_PAYLOAD_SIZE then Inl WrongPayloadLength
      else rbind (parse_slots 0 [] (chunks CONTACT_SLOT_SIZE (take CONTACT_BYTES payload)))
        (\<lambda>contacts. Inr \<lparr>report_contacts = contacts\<rparr>))"

subsection \<open>The set of active identifiers\<close>

lemma bit_id_bit: "bit (id_bit i) k \<longleftrightarrow> k < 16 \<and> k = unat i"
  by (auto simp: id_bit_def bit_simps)

lemma id_bit_disjoint: "unat i < 16 \<Longrightarrow> ids AND id_bit i = 0 \<longleftrightarrow> \<not> bit ids (unat i)"
proof
  assume small: "unat i < 16" and zero: "ids AND id_bit i = 0"
  then have "\<not> bit (ids AND id_bit i) (unat i)" by simp
  with small show "\<not> bit ids (unat i)" by (simp add: bit_and_iff bit_id_bit)
next
  assume "\<not> bit ids (unat i)"
  then show "ids AND id_bit i = 0"
    by (intro bit_word_eqI) (auto simp: bit_and_iff bit_id_bit)
qed

definition active_set :: "u16 \<Rightarrow> nat set" where
  "active_set ids = {k. bit ids k}"

lemma active_set_0 [simp]: "active_set 0 = {}"
  by (simp add: active_set_def)

lemma active_set_insert:
  "unat i < 16 \<Longrightarrow> active_set (ids OR id_bit i) = insert (unat i) (active_set ids)"
  by (auto simp: active_set_def bit_or_iff bit_id_bit)

subsection \<open>Reports\<close>

definition raw_contact_ok :: "raw_contact \<Rightarrow> bool" where
  "raw_contact_ok c \<longleftrightarrow> unat (rc_id c) < 16 \<and> unat (rc_x c) \<le> 32767 \<and> unat (rc_y c) \<le> 127"

lemma parse_slot_ok: "parse_slot slot = Inr c \<Longrightarrow> raw_contact_ok c"
proof -
  assume p: "parse_slot slot = Inr c"
  have "unat (flags AND 0x0f) < 16" for flags :: u8
  proof -
    have "flags AND 0x0f \<le> 0x0f" by (rule word_and_le1)
    then show ?thesis by (simp add: word_le_nat_alt)
  qed
  with p show ?thesis
    by (auto simp: parse_slot_def Let_def raw_contact_ok_def word_less_nat_alt not_less
        split: if_splits)
qed

text \<open>
  The loop: what it keeps are the active slots, in order, with identifiers outside the set it
  started from and distinct.
\<close>

lemma parse_slots_spec:
  assumes "parse_slots ids acc slots = Inr cs"
  shows "\<exists>parsed. map parse_slot slots = map Inr parsed \<and> cs = acc @ filter rc_active parsed
      \<and> distinct (map (\<lambda>c. unat (rc_id c)) (filter rc_active parsed))
      \<and> (\<lambda>c. unat (rc_id c)) ` set (filter rc_active parsed) \<inter> active_set ids = {}"
  using assms
proof (induction slots arbitrary: ids acc)
  case Nil
  then show ?case by auto
next
  case (Cons slot slots)
  then obtain c where c: "parse_slot slot = Inr c" by auto
  then have small: "unat (rc_id c) < 16" using parse_slot_ok raw_contact_ok_def by blast
  show ?case
  proof (cases "rc_active c")
    case False
    with Cons.prems c have "parse_slots ids acc slots = Inr cs" by simp
    from Cons.IH [OF this] obtain parsed where "map parse_slot slots = map Inr parsed"
      "cs = acc @ filter rc_active parsed" "distinct (map (\<lambda>c. unat (rc_id c)) (filter rc_active parsed))"
      "(\<lambda>c. unat (rc_id c)) ` set (filter rc_active parsed) \<inter> active_set ids = {}" by blast
    with c False show ?thesis by (intro exI [of _ "c # parsed"]) auto
  next
    case True
    with Cons.prems c have fresh: "ids AND id_bit (rc_id c) = 0"
      and rest: "parse_slots (ids OR id_bit (rc_id c)) (acc @ [c]) slots = Inr cs"
      by (auto split: if_splits)
    from Cons.IH [OF rest] obtain parsed where "map parse_slot slots = map Inr parsed"
      "cs = (acc @ [c]) @ filter rc_active parsed"
      "distinct (map (\<lambda>c. unat (rc_id c)) (filter rc_active parsed))"
      "(\<lambda>c. unat (rc_id c)) ` set (filter rc_active parsed) \<inter> active_set (ids OR id_bit (rc_id c)) = {}"
      by blast
    moreover from fresh small have "unat (rc_id c) \<notin> active_set ids"
      by (simp add: id_bit_disjoint active_set_def)
    ultimately show ?thesis using c True small
      by (intro exI [of _ "c # parsed"]) (auto simp: active_set_insert)
  qed
qed

lemma parse_digitizer_payload_spec:
  assumes "parse_digitizer_payload payload = Inr r"
  shows "\<exists>parsed. map parse_slot (chunks 4 (take 40 payload)) = map Inr parsed
      \<and> report_contacts r = filter rc_active parsed
      \<and> distinct (map (\<lambda>c. unat (rc_id c)) (report_contacts r))"
  using assms parse_slots_spec [of 0 "[]"]
  by (fastforce simp: parse_digitizer_payload_def split: if_splits)

lemma digitizer_contacts_ok:
  "parse_digitizer_payload payload = Inr r \<Longrightarrow> c \<in> set (report_contacts r) \<Longrightarrow>
     raw_contact_ok c \<and> rc_active c"
proof -
  assume "parse_digitizer_payload payload = Inr r" and c: "c \<in> set (report_contacts r)"
  then obtain parsed where p: "map parse_slot (chunks 4 (take 40 payload)) = map Inr parsed"
    "report_contacts r = filter rc_active parsed"
    using parse_digitizer_payload_spec by blast
  with c have "Inr c \<in> set (map parse_slot (chunks 4 (take 40 payload)))" by auto
  then have "raw_contact_ok c" by (auto simp: parse_slot_ok)
  with p c show ?thesis by auto
qed

subsection \<open>Properties\<close>

text \<open>
  C29. An accepted digitizer report lists exactly the slots whose tip or in-range flag is set, in slot
  order; every contact has an identifier below 16 and raw coordinates within the sensor's range, and no
  two active contacts share an identifier.
\<close>

theorem digitizer_report_sound:
  assumes "parse_digitizer_payload payload = Inr r"
  shows "(\<exists>parsed. map parse_slot (chunks 4 (take 40 payload)) = map Inr parsed
           \<and> report_contacts r = filter rc_active parsed)
    \<and> distinct (map (\<lambda>c. unat (rc_id c)) (report_contacts r))
    \<and> list_all raw_contact_ok (report_contacts r)"
  using parse_digitizer_payload_spec [OF assms] digitizer_contacts_ok [OF assms]
  by (auto simp: list_all_iff)

theorem digitizer_report_sound_witness:
  "list_all raw_contact_ok [\<lparr>rc_id = 3, rc_x = 0x0201, rc_y = 5, rc_tip = True, rc_in_range = False\<rparr>]"
proof -
  have "parse_digitizer_payload ([0x13, 1, 2, 5] @ replicate 48 0) =
      Inr \<lparr>report_contacts = [\<lparr>rc_id = 3, rc_x = 0x0201, rc_y = 5, rc_tip = True, rc_in_range = False\<rparr>]\<rparr>"
    by code_simp
  from digitizer_report_sound [OF this] show ?thesis by simp
qed

end
