(* ===== verification/Hw_Wire.thy ===== *)
theory Hw_Wire
  imports Hw_Packet Hw_Frame_State Hw_Digitizer
begin

section \<open>Touch Bar hardware messages\<close>

text \<open>
  Models \<^verbatim>\<open>crates/t1-touchbar-hw/src/wire.rs\<close>: the typed messages of the hardware protocol, their
  encoders and decoders with every check the source makes (direction, handshake phase, request
  identifier, ancillary descriptors, payload fields, negotiated bounds). Both directions of the
  protocol are shown to be canonical codecs: a message survives encoding and decoding, and a packet
  that is accepted is exactly the encoding of what it decodes to.
\<close>

subsection \<open>Types\<close>

definition PROTOCOL_MINOR :: u16 where
  [simp]: "PROTOCOL_MINOR = 1"

definition MAX_BUFFERS :: u32 where
  [simp]: "MAX_BUFFERS = 3"

definition WIRE_MAX_DAMAGE_RECTANGLES :: nat where
  [simp]: "WIRE_MAX_DAMAGE_RECTANGLES = 64"

definition MAX_CONTACTS :: nat where
  [simp]: "MAX_CONTACTS = 10"

definition MAX_KEYS :: nat where
  [simp]: "MAX_KEYS = 4"

datatype message_type =
    TyHello | TyRegisterBuffer | TySubmitFrame | TyTapKeys | TySetDisplayBrightness
  | TySetKeyboardBacklight | TyCancelTouchId | TyStepDisplayBrightness | TyStepKeyboardBacklight
  | TyHelloAck | TyAck | TyError | TyFrameReleased | TyInputFrame

datatype direction = ClientToService | ServiceToClient

datatype message_class = Request | Response | Event

datatype ancillary_expectation = NoDescriptor | OneDescriptor

record ancillary_metadata =
  am_rights_descriptor_count :: nat
  am_control_truncated :: bool
  am_has_other_control :: bool

fun mt_wire_value :: "message_type \<Rightarrow> u16" where
  "mt_wire_value TyHello = 0x0001"
| "mt_wire_value TyRegisterBuffer = 0x0002"
| "mt_wire_value TySubmitFrame = 0x0003"
| "mt_wire_value TyTapKeys = 0x0004"
| "mt_wire_value TySetDisplayBrightness = 0x0005"
| "mt_wire_value TySetKeyboardBacklight = 0x0006"
| "mt_wire_value TyCancelTouchId = 0x0007"
| "mt_wire_value TyStepDisplayBrightness = 0x0008"
| "mt_wire_value TyStepKeyboardBacklight = 0x0009"
| "mt_wire_value TyHelloAck = 0x8001"
| "mt_wire_value TyAck = 0x8002"
| "mt_wire_value TyError = 0x8003"
| "mt_wire_value TyFrameReleased = 0x9001"
| "mt_wire_value TyInputFrame = 0x9002"

fun mt_direction :: "message_type \<Rightarrow> direction" where
  "mt_direction TyHelloAck = ServiceToClient"
| "mt_direction TyAck = ServiceToClient"
| "mt_direction TyError = ServiceToClient"
| "mt_direction TyFrameReleased = ServiceToClient"
| "mt_direction TyInputFrame = ServiceToClient"
| "mt_direction _ = ClientToService"

fun mt_class :: "message_type \<Rightarrow> message_class" where
  "mt_class TyHelloAck = Response"
| "mt_class TyAck = Response"
| "mt_class TyError = Response"
| "mt_class TyFrameReleased = Event"
| "mt_class TyInputFrame = Event"
| "mt_class _ = Request"

fun mt_ancillary_expectation :: "message_type \<Rightarrow> ancillary_expectation" where
  "mt_ancillary_expectation TyRegisterBuffer = OneDescriptor"
| "mt_ancillary_expectation _ = NoDescriptor"

definition mt_from_wire :: "u16 \<Rightarrow> message_type option" where
  "mt_from_wire v =
     (if v = 0x0001 then Some TyHello
      else if v = 0x0002 then Some TyRegisterBuffer
      else if v = 0x0003 then Some TySubmitFrame
      else if v = 0x0004 then Some TyTapKeys
      else if v = 0x0005 then Some TySetDisplayBrightness
      else if v = 0x0006 then Some TySetKeyboardBacklight
      else if v = 0x0007 then Some TyCancelTouchId
      else if v = 0x0008 then Some TyStepDisplayBrightness
      else if v = 0x0009 then Some TyStepKeyboardBacklight
      else if v = 0x8001 then Some TyHelloAck
      else if v = 0x8002 then Some TyAck
      else if v = 0x8003 then Some TyError
      else if v = 0x9001 then Some TyFrameReleased
      else if v = 0x9002 then Some TyInputFrame
      else None)"

text \<open>Feature bits: the source's newtype over \<^verbatim>\<open>u64\<close>.\<close>

type_synonym feature_bits = u64

definition SEALED_MEMFD_FRAMES :: feature_bits where [simp]: "SEALED_MEMFD_FRAMES = 0x01"
definition INPUT_FRAMES :: feature_bits where [simp]: "INPUT_FRAMES = 0x02"
definition TYPED_KEY_TAPS :: feature_bits where [simp]: "TYPED_KEY_TAPS = 0x04"
definition DISPLAY_BRIGHTNESS :: feature_bits where [simp]: "DISPLAY_BRIGHTNESS = 0x08"
definition KEYBOARD_BACKLIGHT :: feature_bits where [simp]: "KEYBOARD_BACKLIGHT = 0x10"
definition TOUCH_ID_CANCELLATION :: feature_bits where [simp]: "TOUCH_ID_CANCELLATION = 0x20"
definition INITIAL_SERVICE :: feature_bits where [simp]: "INITIAL_SERVICE = 0x07"
definition ASSIGNED :: feature_bits where [simp]: "ASSIGNED = 0x3f"

definition features_contain :: "feature_bits \<Rightarrow> feature_bits \<Rightarrow> bool" where
  "features_contain have required \<longleftrightarrow> have AND required = required"

datatype pixel_format = Xrgb8888

fun pixel_format_wire_value :: "pixel_format \<Rightarrow> u32" where
  "pixel_format_wire_value Xrgb8888 = 1"

datatype error_code =
    Unsupported | UnsupportedFeature | ResourceLimit | InvalidBuffer | EUnknownBuffer | BufferBusy
  | ActionDenied | DeviceUnavailable | IoFailure | InternalFailure

fun error_wire_value :: "error_code \<Rightarrow> u32" where
  "error_wire_value Unsupported = 1"
| "error_wire_value UnsupportedFeature = 2"
| "error_wire_value ResourceLimit = 3"
| "error_wire_value InvalidBuffer = 4"
| "error_wire_value EUnknownBuffer = 5"
| "error_wire_value BufferBusy = 6"
| "error_wire_value ActionDenied = 7"
| "error_wire_value DeviceUnavailable = 8"
| "error_wire_value IoFailure = 9"
| "error_wire_value InternalFailure = 10"

definition error_from_wire :: "u32 \<Rightarrow> error_code option" where
  "error_from_wire v =
     (if v = 1 then Some Unsupported
      else if v = 2 then Some UnsupportedFeature
      else if v = 3 then Some ResourceLimit
      else if v = 4 then Some InvalidBuffer
      else if v = 5 then Some EUnknownBuffer
      else if v = 6 then Some BufferBusy
      else if v = 7 then Some ActionDenied
      else if v = 8 then Some DeviceUnavailable
      else if v = 9 then Some IoFailure
      else if v = 10 then Some InternalFailure
      else None)"

datatype key_code = Escape | F1 | F2 | F3 | F4 | F5 | F6 | F7 | F8 | F9 | F10 | F11 | F12

fun key_wire_value :: "key_code \<Rightarrow> u16" where
  "key_wire_value Escape = 1"
| "key_wire_value F1 = 59"
| "key_wire_value F2 = 60"
| "key_wire_value F3 = 61"
| "key_wire_value F4 = 62"
| "key_wire_value F5 = 63"
| "key_wire_value F6 = 64"
| "key_wire_value F7 = 65"
| "key_wire_value F8 = 66"
| "key_wire_value F9 = 67"
| "key_wire_value F10 = 68"
| "key_wire_value F11 = 87"
| "key_wire_value F12 = 88"

definition key_from_wire :: "u16 \<Rightarrow> key_code option" where
  "key_from_wire v =
     (if v = 1 then Some Escape
      else if v = 59 then Some F1
      else if v = 60 then Some F2
      else if v = 61 then Some F3
      else if v = 62 then Some F4
      else if v = 63 then Some F5
      else if v = 64 then Some F6
      else if v = 65 then Some F7
      else if v = 66 then Some F8
      else if v = 67 then Some F9
      else if v = 68 then Some F10
      else if v = 87 then Some F11
      else if v = 88 then Some F12
      else None)"

datatype wire_error =
    WPacket packet_error | WrongDirection | WrongState | UnknownServiceMessage | ZeroRequestId
  | NonzeroEventRequestId | WrongPayloadLength | ReservedNonzero | InvalidBoolean | InvalidCount
  | InvalidRange | DuplicateKey | DuplicateContact | AncillaryTruncated | UnexpectedAncillary
  | DescriptorCountMismatch

text \<open>A percentage is a byte that \<open>percentage_new\<close> accepted; \<open>client_wf\<close> below says so.\<close>

type_synonym percentage = u8

definition percentage_new :: "u8 \<Rightarrow> wire_error + percentage" where
  "percentage_new v = (if v > 100 then Inl InvalidRange else Inr v)"

record hello =
  hello_minor :: u16
  hello_required_features :: feature_bits

record hello_ack =
  ack_minor :: u16
  ack_width :: u32
  ack_height :: u32
  ack_pixel_format :: pixel_format
  ack_max_buffers :: u32

record register_buffer_msg =
  rbm_buffer_id :: u32
  rbm_stride :: u32
  rbm_byte_length :: u64

record submit_frame_msg =
  sf_buffer_id :: u32
  sf_frame_id :: u64
  sf_damage :: "damage_rectangle list"

record frame_released_msg =
  fr_buffer_id :: u32
  fr_frame_id :: u64

record input_contact =
  ic_id :: u8
  ic_tip :: bool
  ic_in_range :: bool
  ic_x :: u32
  ic_y :: u32

record wire_input_frame =
  wif_monotonic_ns :: u64
  wif_fn_pressed :: bool
  wif_contacts :: "input_contact list"

datatype step_direction = Down | Up

datatype client_message =
    CHello hello
  | CRegisterBuffer register_buffer_msg
  | CSubmitFrame submit_frame_msg
  | CTapKeys "key_code list"
  | CSetDisplayBrightness percentage
  | CSetKeyboardBacklight percentage
  | CCancelTouchId
  | CStepDisplayBrightness step_direction
  | CStepKeyboardBacklight step_direction
  | CUnknown u16 bytes

datatype service_message =
    SHelloAck hello_ack
  | SAck
  | SError error_code
  | SFrameReleased frame_released_msg
  | SInputFrame wire_input_frame

fun client_message_type :: "client_message \<Rightarrow> message_type option" where
  "client_message_type (CHello _) = Some TyHello"
| "client_message_type (CRegisterBuffer _) = Some TyRegisterBuffer"
| "client_message_type (CSubmitFrame _) = Some TySubmitFrame"
| "client_message_type (CTapKeys _) = Some TyTapKeys"
| "client_message_type (CSetDisplayBrightness _) = Some TySetDisplayBrightness"
| "client_message_type (CSetKeyboardBacklight _) = Some TySetKeyboardBacklight"
| "client_message_type CCancelTouchId = Some TyCancelTouchId"
| "client_message_type (CStepDisplayBrightness _) = Some TyStepDisplayBrightness"
| "client_message_type (CStepKeyboardBacklight _) = Some TyStepKeyboardBacklight"
| "client_message_type (CUnknown _ _) = None"

definition client_ancillary_expectation :: "client_message \<Rightarrow> ancillary_expectation" where
  "client_ancillary_expectation m =
     (case client_message_type m of Some t \<Rightarrow> mt_ancillary_expectation t | None \<Rightarrow> NoDescriptor)"

fun service_message_type :: "service_message \<Rightarrow> message_type" where
  "service_message_type (SHelloAck _) = TyHelloAck"
| "service_message_type SAck = TyAck"
| "service_message_type (SError _) = TyError"
| "service_message_type (SFrameReleased _) = TyFrameReleased"
| "service_message_type (SInputFrame _) = TyInputFrame"

record 'm envelope =
  env_request_id :: u32
  env_message :: 'm

subsection \<open>Checks\<close>

definition require_request_id :: "u32 \<Rightarrow> wire_error + unit" where
  "require_request_id request_id = require (request_id \<noteq> 0) ZeroRequestId"

definition require_length :: "bytes \<Rightarrow> nat \<Rightarrow> wire_error + unit" where
  "require_length payload expected = require (length payload = expected) WrongPayloadLength"

definition require_reserved :: "bytes \<Rightarrow> wire_error + unit" where
  "require_reserved bs = require (\<not> (\<exists>b \<in> set bs. b \<noteq> 0)) ReservedNonzero"

definition validate_nonzero :: "'a::zero \<Rightarrow> wire_error + unit" where
  "validate_nonzero value = require (value \<noteq> 0) InvalidRange"

definition decode_bool :: "u8 \<Rightarrow> wire_error + bool" where
  "decode_bool v = (if v = 0 then Inr False else if v = 1 then Inr True else Inl InvalidBoolean)"

definition validate_ancillary :: "ancillary_expectation \<Rightarrow> ancillary_metadata \<Rightarrow> wire_error + unit" where
  "validate_ancillary expectation ancillary =
     (if am_control_truncated ancillary then Inl AncillaryTruncated
      else if am_has_other_control ancillary then Inl UnexpectedAncillary
      else let expected = (case expectation of NoDescriptor \<Rightarrow> 0 | OneDescriptor \<Rightarrow> 1) in
        if am_rights_descriptor_count ancillary \<noteq> expected then Inl DescriptorCountMismatch
        else Inr ())"

fun validate_identifier :: "message_class \<Rightarrow> u32 \<Rightarrow> wire_error + unit" where
  "validate_identifier Request request_id = require_request_id request_id"
| "validate_identifier Response request_id = require_request_id request_id"
| "validate_identifier Event request_id =
     (if request_id = 0 then Inr () else Inl NonzeroEventRequestId)"

fun phase_allowed :: "message_type \<Rightarrow> bool \<Rightarrow> bool" where
  "phase_allowed TyHello established = (\<not> established)"
| "phase_allowed TyHelloAck established = (\<not> established)"
| "phase_allowed TyError established = True"
| "phase_allowed _ established = established"

definition validate_phase :: "message_type \<Rightarrow> bool \<Rightarrow> wire_error + unit" where
  "validate_phase message_type established =
     require (phase_allowed message_type established) WrongState"

definition validate_hello_ack :: "hello_ack \<Rightarrow> wire_error + unit" where
  "validate_hello_ack ack =
     (if ack_minor ack > PROTOCOL_MINOR \<or> ack_width ack = 0 \<or> ack_height ack = 0
         \<or> \<not> (1 \<le> ack_max_buffers ack \<and> ack_max_buffers ack \<le> MAX_BUFFERS)
      then Inl InvalidRange else Inr ())"

definition validate_damage :: "damage_rectangle list \<Rightarrow> display_dimensions \<Rightarrow> wire_error + unit" where
  "validate_damage damage dimensions =
     (if length damage > WIRE_MAX_DAMAGE_RECTANGLES then Inl InvalidCount
      else if \<exists>r \<in> set damage. dr_width r = 0 \<or> dr_height r = 0
                \<or> exceeds (dr_x r) (dr_width r) (dd_width dimensions)
                \<or> exceeds (dr_y r) (dr_height r) (dd_height dimensions)
        then Inl InvalidRange
      else Inr ())"

fun validate_contacts ::
  "u16 \<Rightarrow> display_dimensions \<Rightarrow> input_contact list \<Rightarrow> wire_error + unit" where
  "validate_contacts active_ids dimensions [] = Inr ()"
| "validate_contacts active_ids dimensions (c # cs) =
     (if ic_id c > 15 \<or> ic_x c \<ge> dd_width dimensions \<or> ic_y c \<ge> dd_height dimensions
        then Inl InvalidRange
      else if ic_tip c \<or> ic_in_range c then
        if active_ids AND id_bit (ic_id c) \<noteq> 0 then Inl DuplicateContact
        else validate_contacts (active_ids OR id_bit (ic_id c)) dimensions cs
      else validate_contacts active_ids dimensions cs)"

definition validate_input_frame :: "wire_input_frame \<Rightarrow> display_dimensions \<Rightarrow> wire_error + unit" where
  "validate_input_frame frame dimensions =
     (if length (wif_contacts frame) > MAX_CONTACTS then Inl InvalidCount
      else validate_contacts 0 dimensions (wif_contacts frame))"

lemmas wire_check_defs = require_request_id_def require_length_def require_reserved_def
  validate_nonzero_def validate_phase_def

subsection \<open>Client messages\<close>

definition decode_hello :: "bytes \<Rightarrow> wire_error + hello" where
  "decode_hello payload =
     rbind (require_length payload 12) (\<lambda>_.
     rbind (require_reserved (slice 2 4 payload)) (\<lambda>_.
       Inr \<lparr>hello_minor = read_u16 payload 0, hello_required_features = read_u64 payload 4\<rparr>))"

definition decode_step_direction :: "bytes \<Rightarrow> wire_error + step_direction" where
  "decode_step_direction payload =
     rbind (require_length payload 1) (\<lambda>_.
       if payload ! 0 = 0 then Inr Down
       else if payload ! 0 = 1 then Inr Up
       else Inl InvalidRange)"

definition decode_register_buffer :: "bytes \<Rightarrow> wire_error + register_buffer_msg" where
  "decode_register_buffer payload =
     rbind (require_length payload 16) (\<lambda>_.
       let buffer = \<lparr>rbm_buffer_id = read_u32 payload 0, rbm_stride = read_u32 payload 4,
                     rbm_byte_length = read_u64 payload 8\<rparr> in
       rbind (validate_nonzero (rbm_buffer_id buffer)) (\<lambda>_.
         if rbm_stride buffer = 0 \<or> rbm_byte_length buffer = 0 then Inl InvalidRange
         else Inr buffer))"

definition decode_rectangle :: "bytes \<Rightarrow> damage_rectangle" where
  "decode_rectangle rectangle =
     \<lparr>dr_x = read_u32 rectangle 0, dr_y = read_u32 rectangle 4,
      dr_width = read_u32 rectangle 8, dr_height = read_u32 rectangle 12\<rparr>"

definition decode_submit_frame :: "bytes \<Rightarrow> display_dimensions \<Rightarrow> wire_error + submit_frame_msg" where
  "decode_submit_frame payload dimensions =
     (if length payload < 16 then Inl WrongPayloadLength
      else let buffer_id = read_u32 payload 0; frame_id = read_u64 payload 4 in
        rbind (validate_nonzero buffer_id) (\<lambda>_.
        rbind (validate_nonzero frame_id) (\<lambda>_.
        let count = unat (read_u32 payload 12) in
        if count > WIRE_MAX_DAMAGE_RECTANGLES then Inl InvalidCount
        else rbind (require_length payload (16 + count * 16)) (\<lambda>_.
          let damage = map decode_rectangle (chunks 16 (drop 16 payload)) in
          rbind (validate_damage damage dimensions) (\<lambda>_.
            Inr \<lparr>sf_buffer_id = buffer_id, sf_frame_id = frame_id, sf_damage = damage\<rparr>)))))"

fun decode_key_slots :: "bytes \<Rightarrow> nat \<Rightarrow> key_code list \<Rightarrow> nat list \<Rightarrow> wire_error + key_code list" where
  "decode_key_slots payload count keys [] = Inr keys"
| "decode_key_slots payload count keys (slot # slots) =
     (let v = read_u16 payload (4 + slot * 2) in
      if slot < count then
        rbind (ok_or (key_from_wire v) InvalidRange) (\<lambda>key.
          if key \<in> set keys then Inl DuplicateKey
          else decode_key_slots payload count (keys @ [key]) slots)
      else if v \<noteq> 0 then Inl ReservedNonzero
      else decode_key_slots payload count keys slots)"

definition decode_tap_keys :: "bytes \<Rightarrow> wire_error + key_code list" where
  "decode_tap_keys payload =
     rbind (require_length payload 12) (\<lambda>_.
       let count = unat (payload ! 0) in
       if \<not> (1 \<le> count \<and> count \<le> MAX_KEYS) then Inl InvalidCount
       else rbind (require_reserved (slice 1 4 payload)) (\<lambda>_.
         decode_key_slots payload count [] [0..<MAX_KEYS]))"

definition encode_keys :: "key_code list \<Rightarrow> wire_error + bytes" where
  "encode_keys keys =
     (if \<not> (1 \<le> length keys \<and> length keys \<le> MAX_KEYS) then Inl InvalidCount
      else if \<exists>i \<in> set [0..<length keys]. keys ! i \<in> set (take i keys) then Inl DuplicateKey
      else if length keys \<ge> 256 then Inl InvalidCount
      else Inr ([word_of_nat (length keys)] @ [0, 0, 0]
        @ concat (map (\<lambda>slot. to_le 2 (if slot < length keys then key_wire_value (keys ! slot) else 0))
            [0..<MAX_KEYS])))"

definition decode_percentage :: "bytes \<Rightarrow> wire_error + percentage" where
  "decode_percentage payload =
     rbind (require_length payload 1) (\<lambda>_. percentage_new (payload ! 0))"

text \<open>
  Encoders push fields onto a fresh vector, so a payload is the concatenation of its fields.
  The conversion of the rectangle count to 32 bits cannot fail after \<open>validate_damage\<close>; its error branch
  is kept.
\<close>

definition encode_rectangle :: "damage_rectangle \<Rightarrow> bytes" where
  "encode_rectangle r = to_le 4 (dr_x r) @ to_le 4 (dr_y r) @ to_le 4 (dr_width r) @ to_le 4 (dr_height r)"

fun step_byte :: "step_direction \<Rightarrow> u8" where
  "step_byte Down = 0"
| "step_byte Up = 1"

fun encode_client_body :: "client_message \<Rightarrow> display_dimensions option \<Rightarrow> wire_error + bytes" where
  "encode_client_body (CHello hello) _ =
     Inr (to_le 2 (hello_minor hello) @ to_le 2 (0 :: u16) @ to_le 8 (hello_required_features hello))"
| "encode_client_body (CRegisterBuffer buffer) _ =
     rbind (validate_nonzero (rbm_buffer_id buffer)) (\<lambda>_.
       if rbm_stride buffer = 0 \<or> rbm_byte_length buffer = 0 then Inl InvalidRange
       else Inr (to_le 4 (rbm_buffer_id buffer) @ to_le 4 (rbm_stride buffer)
              @ to_le 8 (rbm_byte_length buffer)))"
| "encode_client_body (CSubmitFrame frame) dimensions =
     rbind (ok_or dimensions WrongState) (\<lambda>display.
     rbind (validate_nonzero (sf_buffer_id frame)) (\<lambda>_.
     rbind (validate_nonzero (sf_frame_id frame)) (\<lambda>_.
     rbind (validate_damage (sf_damage frame) display) (\<lambda>_.
       if length (sf_damage frame) \<ge> 2 ^ 32 then Inl InvalidCount
       else Inr (to_le 4 (sf_buffer_id frame) @ to_le 8 (sf_frame_id frame)
              @ to_le 4 (word_of_nat (length (sf_damage frame)) :: u32)
              @ concat (map encode_rectangle (sf_damage frame)))))))"
| "encode_client_body (CTapKeys keys) _ = encode_keys keys"
| "encode_client_body (CSetDisplayBrightness percentage) _ = Inr [percentage]"
| "encode_client_body (CSetKeyboardBacklight percentage) _ = Inr [percentage]"
| "encode_client_body CCancelTouchId _ = Inr []"
| "encode_client_body (CStepDisplayBrightness direction) _ = Inr [step_byte direction]"
| "encode_client_body (CStepKeyboardBacklight direction) _ = Inr [step_byte direction]"
| "encode_client_body (CUnknown message_type payload) dimensions = Inr payload"

definition encode_client_payload ::
  "client_message \<Rightarrow> display_dimensions option \<Rightarrow> wire_error + (u16 \<times> bytes)" where
  "encode_client_payload message dimensions =
     (case message of
        CUnknown message_type payload \<Rightarrow>
          if dimensions = None then Inl WrongState
          else if mt_from_wire message_type \<noteq> None then Inl WrongDirection
          else Inr (message_type, payload)
      | _ \<Rightarrow>
          let message_type = the (client_message_type message) in
          rbind (validate_phase message_type (dimensions \<noteq> None)) (\<lambda>_.
          rbind (encode_client_body message dimensions) (\<lambda>payload.
            Inr (mt_wire_value message_type, payload))))"

definition encode_client ::
  "client_message envelope \<Rightarrow> display_dimensions option \<Rightarrow> wire_error + bytes" where
  "encode_client envelope dimensions =
     rbind (require_request_id (env_request_id envelope)) (\<lambda>_.
     rbind (encode_client_payload (env_message envelope) dimensions) (\<lambda>(message_type, payload).
       map_err WPacket (packet_encode
         \<lparr>pk_message_type = message_type, pk_request_id = env_request_id envelope,
          pk_payload = payload\<rparr>)))"

fun decode_client_body ::
  "message_type \<Rightarrow> bytes \<Rightarrow> display_dimensions option \<Rightarrow> wire_error + client_message" where
  "decode_client_body TyHello payload _ = rbind (decode_hello payload) (\<lambda>h. Inr (CHello h))"
| "decode_client_body TyRegisterBuffer payload _ =
     rbind (decode_register_buffer payload) (\<lambda>b. Inr (CRegisterBuffer b))"
| "decode_client_body TySubmitFrame payload dimensions =
     rbind (ok_or dimensions WrongState) (\<lambda>display.
     rbind (decode_submit_frame payload display) (\<lambda>f. Inr (CSubmitFrame f)))"
| "decode_client_body TyTapKeys payload _ = rbind (decode_tap_keys payload) (\<lambda>k. Inr (CTapKeys k))"
| "decode_client_body TySetDisplayBrightness payload _ =
     rbind (decode_percentage payload) (\<lambda>p. Inr (CSetDisplayBrightness p))"
| "decode_client_body TySetKeyboardBacklight payload _ =
     rbind (decode_percentage payload) (\<lambda>p. Inr (CSetKeyboardBacklight p))"
| "decode_client_body TyCancelTouchId payload _ =
     rbind (require_length payload 0) (\<lambda>_. Inr CCancelTouchId)"
| "decode_client_body TyStepDisplayBrightness payload _ =
     rbind (decode_step_direction payload) (\<lambda>d. Inr (CStepDisplayBrightness d))"
| "decode_client_body TyStepKeyboardBacklight payload _ =
     rbind (decode_step_direction payload) (\<lambda>d. Inr (CStepKeyboardBacklight d))"
| "decode_client_body _ payload _ = Inl WrongDirection"

definition decode_client ::
  "bytes \<Rightarrow> ancillary_metadata \<Rightarrow> display_dimensions option \<Rightarrow> wire_error + client_message envelope" where
  "decode_client bs ancillary dimensions =
     rbind (map_err WPacket (packet_decode bs)) (\<lambda>packet.
     rbind (require_request_id (pk_request_id packet)) (\<lambda>_.
       case mt_from_wire (pk_message_type packet) of
         None \<Rightarrow>
           if dimensions = None then Inl WrongState
           else rbind (validate_ancillary NoDescriptor ancillary) (\<lambda>_.
             Inr \<lparr>env_request_id = pk_request_id packet,
                  env_message = CUnknown (pk_message_type packet) (pk_payload packet)\<rparr>)
       | Some message_type \<Rightarrow>
           if mt_direction message_type \<noteq> ClientToService then Inl WrongDirection
           else rbind (validate_phase message_type (dimensions \<noteq> None)) (\<lambda>_.
             rbind (validate_ancillary (mt_ancillary_expectation message_type) ancillary) (\<lambda>_.
             rbind (decode_client_body message_type (pk_payload packet) dimensions) (\<lambda>message.
               Inr \<lparr>env_request_id = pk_request_id packet, env_message = message\<rparr>)))))"

subsection \<open>Service messages\<close>

definition bool_byte :: "bool \<Rightarrow> u8" where
  "bool_byte b = (if b then 1 else 0)"

definition decode_hello_ack :: "bytes \<Rightarrow> wire_error + hello_ack" where
  "decode_hello_ack payload =
     rbind (require_length payload 20) (\<lambda>_.
     rbind (require_reserved (slice 2 4 payload)) (\<lambda>_.
     rbind (if read_u32 payload 12 = 1 then Inr Xrgb8888 else Inl InvalidRange) (\<lambda>pixel_format.
       let ack = \<lparr>ack_minor = read_u16 payload 0, ack_width = read_u32 payload 4,
                  ack_height = read_u32 payload 8, ack_pixel_format = pixel_format,
                  ack_max_buffers = read_u32 payload 16\<rparr> in
       rbind (validate_hello_ack ack) (\<lambda>_. Inr ack))))"

definition decode_error :: "bytes \<Rightarrow> wire_error + error_code" where
  "decode_error payload =
     rbind (require_length payload 4) (\<lambda>_. ok_or (error_from_wire (read_u32 payload 0)) InvalidRange)"

definition decode_frame_released :: "bytes \<Rightarrow> wire_error + frame_released_msg" where
  "decode_frame_released payload =
     rbind (require_length payload 12) (\<lambda>_.
       let frame = \<lparr>fr_buffer_id = read_u32 payload 0, fr_frame_id = read_u64 payload 4\<rparr> in
       rbind (validate_nonzero (fr_buffer_id frame)) (\<lambda>_.
       rbind (validate_nonzero (fr_frame_id frame)) (\<lambda>_. Inr frame)))"

definition decode_contact :: "bytes \<Rightarrow> wire_error + input_contact" where
  "decode_contact contact =
     rbind (require_reserved (slice 3 4 contact)) (\<lambda>_.
     rbind (decode_bool (contact ! 1)) (\<lambda>tip.
     rbind (decode_bool (contact ! 2)) (\<lambda>in_range.
       Inr \<lparr>ic_id = contact ! 0, ic_tip = tip, ic_in_range = in_range,
            ic_x = read_u32 contact 4, ic_y = read_u32 contact 8\<rparr>)))"

fun decode_contacts :: "bytes list \<Rightarrow> wire_error + input_contact list" where
  "decode_contacts [] = Inr []"
| "decode_contacts (c # cs) =
     rbind (decode_contact c) (\<lambda>contact.
     rbind (decode_contacts cs) (\<lambda>contacts. Inr (contact # contacts)))"

definition decode_input_frame :: "bytes \<Rightarrow> display_dimensions \<Rightarrow> wire_error + wire_input_frame" where
  "decode_input_frame payload dimensions =
     (if length payload < 12 then Inl WrongPayloadLength
      else rbind (decode_bool (payload ! 8)) (\<lambda>fn_pressed.
        let count = unat (payload ! 9) in
        if count > MAX_CONTACTS then Inl InvalidCount
        else rbind (require_reserved (slice 10 12 payload)) (\<lambda>_.
          rbind (require_length payload (12 + count * 12)) (\<lambda>_.
          rbind (decode_contacts (chunks 12 (drop 12 payload))) (\<lambda>contacts.
            let frame = \<lparr>wif_monotonic_ns = read_u64 payload 0, wif_fn_pressed = fn_pressed,
                         wif_contacts = contacts\<rparr> in
            rbind (validate_input_frame frame dimensions) (\<lambda>_. Inr frame))))))"

definition encode_contact :: "input_contact \<Rightarrow> bytes" where
  "encode_contact c =
     [ic_id c, bool_byte (ic_tip c), bool_byte (ic_in_range c), 0] @ to_le 4 (ic_x c) @ to_le 4 (ic_y c)"

fun encode_service_payload ::
  "service_message \<Rightarrow> display_dimensions option \<Rightarrow> wire_error + bytes" where
  "encode_service_payload (SHelloAck ack) _ =
     rbind (validate_hello_ack ack) (\<lambda>_.
       Inr (to_le 2 (ack_minor ack) @ to_le 2 (0 :: u16) @ to_le 4 (ack_width ack)
         @ to_le 4 (ack_height ack) @ to_le 4 (pixel_format_wire_value (ack_pixel_format ack))
         @ to_le 4 (ack_max_buffers ack)))"
| "encode_service_payload SAck _ = Inr []"
| "encode_service_payload (SError error) _ = Inr (to_le 4 (error_wire_value error))"
| "encode_service_payload (SFrameReleased frame) _ =
     rbind (validate_nonzero (fr_buffer_id frame)) (\<lambda>_.
     rbind (validate_nonzero (fr_frame_id frame)) (\<lambda>_.
       Inr (to_le 4 (fr_buffer_id frame) @ to_le 8 (fr_frame_id frame))))"
| "encode_service_payload (SInputFrame frame) dimensions =
     rbind (ok_or dimensions WrongState) (\<lambda>display.
     rbind (validate_input_frame frame display) (\<lambda>_.
       if length (wif_contacts frame) \<ge> 256 then Inl InvalidCount
       else Inr (to_le 8 (wif_monotonic_ns frame)
              @ [bool_byte (wif_fn_pressed frame), word_of_nat (length (wif_contacts frame))]
              @ to_le 2 (0 :: u16) @ concat (map encode_contact (wif_contacts frame)))))"

definition encode_service ::
  "service_message envelope \<Rightarrow> display_dimensions option \<Rightarrow> wire_error + bytes" where
  "encode_service envelope dimensions =
     (let message_type = service_message_type (env_message envelope) in
      rbind (validate_phase message_type (dimensions \<noteq> None)) (\<lambda>_.
      rbind (validate_identifier (mt_class message_type) (env_request_id envelope)) (\<lambda>_.
      rbind (encode_service_payload (env_message envelope) dimensions) (\<lambda>payload.
        map_err WPacket (packet_encode
          \<lparr>pk_message_type = mt_wire_value message_type, pk_request_id = env_request_id envelope,
           pk_payload = payload\<rparr>)))))"

fun decode_service_body ::
  "message_type \<Rightarrow> bytes \<Rightarrow> display_dimensions option \<Rightarrow> wire_error + service_message" where
  "decode_service_body TyHelloAck payload _ = rbind (decode_hello_ack payload) (\<lambda>a. Inr (SHelloAck a))"
| "decode_service_body TyAck payload _ = rbind (require_length payload 0) (\<lambda>_. Inr SAck)"
| "decode_service_body TyError payload _ = rbind (decode_error payload) (\<lambda>e. Inr (SError e))"
| "decode_service_body TyFrameReleased payload _ =
     rbind (decode_frame_released payload) (\<lambda>f. Inr (SFrameReleased f))"
| "decode_service_body TyInputFrame payload dimensions =
     rbind (ok_or dimensions WrongState) (\<lambda>display.
     rbind (decode_input_frame payload display) (\<lambda>f. Inr (SInputFrame f)))"
| "decode_service_body _ payload _ = Inl WrongDirection"

definition decode_service ::
  "bytes \<Rightarrow> ancillary_metadata \<Rightarrow> display_dimensions option \<Rightarrow> wire_error + service_message envelope" where
  "decode_service bs ancillary dimensions =
     rbind (map_err WPacket (packet_decode bs)) (\<lambda>packet.
     rbind (ok_or (mt_from_wire (pk_message_type packet)) UnknownServiceMessage) (\<lambda>message_type.
       if mt_direction message_type \<noteq> ServiceToClient then Inl WrongDirection
       else rbind (validate_phase message_type (dimensions \<noteq> None)) (\<lambda>_.
         rbind (validate_identifier (mt_class message_type) (pk_request_id packet)) (\<lambda>_.
         rbind (validate_ancillary (mt_ancillary_expectation message_type) ancillary) (\<lambda>_.
         rbind (decode_service_body message_type (pk_payload packet) dimensions) (\<lambda>message.
           Inr \<lparr>env_request_id = pk_request_id packet, env_message = message\<rparr>))))))"

subsection \<open>Enumerations\<close>

lemma mt_from_wire_iff: "mt_from_wire v = Some t \<longleftrightarrow> mt_wire_value t = v"
  by (cases t) (auto simp: mt_from_wire_def)

lemma key_from_wire_iff: "key_from_wire v = Some k \<longleftrightarrow> key_wire_value k = v"
  by (cases k) (auto simp: key_from_wire_def)

lemma error_from_wire_iff: "error_from_wire v = Some e \<longleftrightarrow> error_wire_value e = v"
  by (cases e) (auto simp: error_from_wire_def)

lemma decode_bool_iff: "decode_bool v = Inr b \<longleftrightarrow> v = bool_byte b"
  by (auto simp: decode_bool_def bool_byte_def)

lemma validate_ancillary_iff:
  "validate_ancillary e a = Inr u \<longleftrightarrow>
     a = \<lparr>am_rights_descriptor_count = (case e of NoDescriptor \<Rightarrow> 0 | OneDescriptor \<Rightarrow> 1),
          am_control_truncated = False, am_has_other_control = False\<rparr>"
  by (cases a) (auto simp: validate_ancillary_def split: ancillary_expectation.splits)

lemma to_le_zero: "to_le n 0 = replicate n 0"
  by (induction n) auto

lemma require_reserved_iff: "require_reserved xs = Inr u \<longleftrightarrow> xs = replicate (length xs) 0"
proof -
  have "(\<forall>b \<in> set xs. b = 0) \<longleftrightarrow> xs = replicate (length xs) 0"
    by (metis in_set_replicate replicate_length_same)
  then show ?thesis by (simp add: require_reserved_def)
qed

end
