(* ===== verification/Hw_Wire_Codec.thy ===== *)
theory Hw_Wire_Codec
  imports Hw_Wire
begin

section \<open>The hardware messages as canonical codecs\<close>

text \<open>
  For every payload of \<^verbatim>\<open>wire.rs\<close> one equivalence: the decoder accepts a byte string for a value
  exactly when the encoder produces it. They compose to the two interpretations \<open>client_wire\<close> and
  \<open>service_wire\<close> of \<open>canonical_codec\<close>, one per direction, on packets together with their
  ancillary data.
\<close>

subsection \<open>Payloads of fixed length\<close>

lemma decode_hello_iff:
  "decode_hello p = Inr h \<longleftrightarrow>
     p = to_le 2 (hello_minor h) @ to_le 2 (0 :: u16) @ to_le 8 (hello_required_features h)"
proof
  assume "decode_hello p = Inr h"
  then have "length p = 12" "slice 2 4 p = to_le 2 (0 :: u16)"
    and "h = \<lparr>hello_minor = read_u16 p 0, hello_required_features = read_u64 p 4\<rparr>"
    by (auto simp: decode_hello_def require_length_def require_reserved_iff to_le_zero)
  then show "p = to_le 2 (hello_minor h) @ to_le 2 (0 :: u16) @ to_le 8 (hello_required_features h)"
    using slice_full [of p] by (simp add: le_simps slice_simps flip: \<open>slice 2 4 p = _\<close>)
next
  assume "p = to_le 2 (hello_minor h) @ to_le 2 (0 :: u16) @ to_le 8 (hello_required_features h)"
  then show "decode_hello p = Inr h"
    by (simp add: decode_hello_def require_length_def require_reserved_iff to_le_zero read_defs)
qed

lemma decode_register_buffer_iff:
  "decode_register_buffer p = Inr b \<longleftrightarrow> rbm_buffer_id b \<noteq> 0 \<and> rbm_stride b \<noteq> 0 \<and> rbm_byte_length b \<noteq> 0
     \<and> p = to_le 4 (rbm_buffer_id b) @ to_le 4 (rbm_stride b) @ to_le 8 (rbm_byte_length b)"
    (is "_ \<longleftrightarrow> ?a \<and> ?b \<and> ?c \<and> p = ?enc")
proof
  assume "decode_register_buffer p = Inr b"
  then have "length p = 16" ?a ?b ?c
    and "b = \<lparr>rbm_buffer_id = read_u32 p 0, rbm_stride = read_u32 p 4, rbm_byte_length = read_u64 p 8\<rparr>"
    by (auto simp: decode_register_buffer_def wire_check_defs split: if_splits)
  then show "?a \<and> ?b \<and> ?c \<and> p = ?enc" by (simp add: le_simps slice_simps)
next
  assume "?a \<and> ?b \<and> ?c \<and> p = ?enc"
  then show "decode_register_buffer p = Inr b"
    by (simp add: decode_register_buffer_def wire_check_defs read_defs)
qed

lemma decode_frame_released_iff:
  "decode_frame_released p = Inr f \<longleftrightarrow> fr_buffer_id f \<noteq> 0 \<and> fr_frame_id f \<noteq> 0
     \<and> p = to_le 4 (fr_buffer_id f) @ to_le 8 (fr_frame_id f)" (is "_ \<longleftrightarrow> _ \<and> _ \<and> p = ?enc")
proof
  assume "decode_frame_released p = Inr f"
  then have "length p = 12" "fr_buffer_id f \<noteq> 0" "fr_frame_id f \<noteq> 0"
    and "f = \<lparr>fr_buffer_id = read_u32 p 0, fr_frame_id = read_u64 p 4\<rparr>"
    by (auto simp: decode_frame_released_def wire_check_defs split: if_splits)
  then show "fr_buffer_id f \<noteq> 0 \<and> fr_frame_id f \<noteq> 0 \<and> p = ?enc" by (simp add: le_simps slice_simps)
next
  assume "fr_buffer_id f \<noteq> 0 \<and> fr_frame_id f \<noteq> 0 \<and> p = ?enc"
  then show "decode_frame_released p = Inr f"
    by (simp add: decode_frame_released_def wire_check_defs read_defs)
qed

lemma decode_hello_ack_iff:
  "decode_hello_ack p = Inr a \<longleftrightarrow> validate_hello_ack a = Inr ()
     \<and> p = to_le 2 (ack_minor a) @ to_le 2 (0 :: u16) @ to_le 4 (ack_width a) @ to_le 4 (ack_height a)
         @ to_le 4 (pixel_format_wire_value (ack_pixel_format a)) @ to_le 4 (ack_max_buffers a)"
    (is "_ \<longleftrightarrow> ?ok \<and> p = ?enc")
proof
  assume "decode_hello_ack p = Inr a"
  then have p: "length p = 20" "slice 2 4 p = to_le 2 (0 :: u16)" ?ok "read_u32 p 12 = 1"
    and a: "a = \<lparr>ack_minor = read_u16 p 0, ack_width = read_u32 p 4, ack_height = read_u32 p 8,
              ack_pixel_format = Xrgb8888, ack_max_buffers = read_u32 p 16\<rparr>"
    by (auto simp: decode_hello_ack_def Let_def require_length_def require_reserved_iff to_le_zero
        split: if_splits)
  then show "?ok \<and> p = ?enc"
    by (simp add: le_simps slice_simps flip: p(2,4))
next
  assume ok: "?ok \<and> p = ?enc"
  obtain minor width height format buffers where "a = \<lparr>ack_minor = minor, ack_width = width,
      ack_height = height, ack_pixel_format = format, ack_max_buffers = buffers\<rparr>" by (cases a)
  with ok show "decode_hello_ack p = Inr a"
    by (cases format) (simp add: decode_hello_ack_def Let_def require_length_def require_reserved_iff
        to_le_zero read_defs)
qed

lemma decode_error_iff: "decode_error p = Inr e \<longleftrightarrow> p = to_le 4 (error_wire_value e)"
proof
  assume "decode_error p = Inr e"
  then have "length p = 4" "error_wire_value e = read_u32 p 0"
    by (auto simp: decode_error_def wire_check_defs error_from_wire_iff)
  then show "p = to_le 4 (error_wire_value e)" by (simp add: le_simps slice_simps)
next
  assume "p = to_le 4 (error_wire_value e)"
  then show "decode_error p = Inr e"
    by (simp add: decode_error_def wire_check_defs error_from_wire_iff read_defs)
qed

lemma singleton_iff: "length p = Suc 0 \<and> p ! 0 = x \<longleftrightarrow> p = [x]"
  by (cases p) auto

lemma decode_percentage_iff: "decode_percentage p = Inr v \<longleftrightarrow> v \<le> 100 \<and> p = [v]"
  using singleton_iff [of p v]
  by (auto simp: decode_percentage_def require_length_def percentage_new_def not_less split: if_splits)

lemma decode_step_direction_iff: "decode_step_direction p = Inr d \<longleftrightarrow> p = [step_byte d]"
  using singleton_iff [of p "step_byte d"]
  by (cases d) (auto simp: decode_step_direction_def require_length_def split: if_splits)

subsection \<open>Rectangles and contacts\<close>

lemma length_encode_rectangle [simp]: "length (encode_rectangle r) = 16"
  by (simp add: encode_rectangle_def)

lemma decode_encode_rectangle [simp]: "decode_rectangle (encode_rectangle r) = r"
  by (simp add: decode_rectangle_def encode_rectangle_def read_defs)

lemma encode_decode_rectangle: "length c = 16 \<Longrightarrow> encode_rectangle (decode_rectangle c) = c"
  by (simp add: decode_rectangle_def encode_rectangle_def le_simps slice_simps)

text \<open>A vector of fixed-size elements, read back by chunks.\<close>

lemma chunks_of_elements:
  assumes "0 < n" and "\<And>x. length (e x) = n" and "\<And>x. d (e x) = x"
    and "\<And>c. length c = n \<Longrightarrow> e (d c) = c"
  shows "n dvd length p \<and> xs = map d (chunks n p) \<longleftrightarrow> p = concat (map e xs)"
proof
  assume "n dvd length p \<and> xs = map d (chunks n p)"
  moreover have "map (\<lambda>c. e (d c)) (chunks n p) = chunks n p"
    using assms(4) by (intro map_idI) (auto dest: length_in_chunks)
  ultimately show "p = concat (map e xs)"
    using concat_chunks [OF assms(1), of p] by (simp add: comp_def)
next
  assume p: "p = concat (map e xs)"
  then have "chunks n p = map e xs" using assms(1,2) by (simp add: chunks_concat)
  moreover have "length p = n * length xs" unfolding p by (induction xs) (auto simp: assms(2))
  ultimately show "n dvd length p \<and> xs = map d (chunks n p)"
    by (simp add: comp_def assms(3))
qed

lemma bool_byte_inject [simp]: "bool_byte a = bool_byte b \<longleftrightarrow> a = b"
  by (simp add: bool_byte_def)

lemma decode_contact_iff: "length c = 12 \<Longrightarrow> decode_contact c = Inr x \<longleftrightarrow> c = encode_contact x"
proof
  assume len: "length c = 12" and "decode_contact c = Inr x"
  then have c: "slice 3 4 c = [0]" "c ! 1 = bool_byte (ic_tip x)" "c ! 2 = bool_byte (ic_in_range x)"
    and x: "ic_id x = c ! 0" "ic_x x = read_u32 c 4" "ic_y x = read_u32 c 8"
    by (auto simp: decode_contact_def require_reserved_iff decode_bool_iff)
  from len have "slice 0 4 c = [c ! 0, c ! 1, c ! 2, c ! 3]"
    by (auto simp: slice_def numeral_eq_Suc Cons_nth_drop_Suc take_Suc_conv_app_nth)
  moreover from len have "slice 3 4 c = [c ! 3]"
    by (auto simp: slice_def take_Suc_conv_app_nth)
  ultimately have "slice 0 4 c = [c ! 0, c ! 1, c ! 2, 0]" using c(1) by simp
  with len x c(2,3) have "encode_contact x = slice 0 4 c @ slice 4 8 c @ slice 8 12 c"
    by (simp add: encode_contact_def le_simps)
  with len show "c = encode_contact x" by (simp add: slice_simps)
next
  assume "c = encode_contact x"
  then show "decode_contact c = Inr x"
    by (simp add: decode_contact_def encode_contact_def require_reserved_iff decode_bool_iff read_defs)
qed

lemma length_encode_contact [simp]: "length (encode_contact x) = 12"
  by (simp add: encode_contact_def)

lemma decode_contacts_iff:
  "\<forall>c \<in> set cs. length c = 12 \<Longrightarrow> decode_contacts cs = Inr xs \<longleftrightarrow> cs = map encode_contact xs"
proof (induction cs arbitrary: xs)
  case Nil
  then show ?case by auto
next
  case (Cons c cs)
  then show ?case by (cases xs) (auto simp: decode_contact_iff)
qed

lemma decode_contacts_chunks:
  "12 dvd length p \<Longrightarrow> decode_contacts (chunks 12 p) = Inr xs \<longleftrightarrow> p = concat (map encode_contact xs)"
proof -
  assume "12 dvd length p"
  then have "chunks 12 p = map encode_contact xs \<longleftrightarrow> p = concat (map encode_contact xs)"
    using concat_chunks [of 12 p] chunks_concat [of 12 "map encode_contact xs"] by auto
  moreover have "\<forall>c \<in> set (chunks 12 p). length c = 12" by (simp add: length_in_chunks)
  ultimately show ?thesis by (simp add: decode_contacts_iff)
qed

lemma length_concat_map:
  "(\<And>x. length (e x) = n) \<Longrightarrow> length (concat (map e xs)) = length xs * n"
  by (induction xs) auto

lemma small_unat: "n < 2 ^ LENGTH('a) \<Longrightarrow> unat (word_of_nat n :: 'a::len word) = n"
  by (simp add: unat_of_nat take_bit_nat_eq_self)

lemma decode_submit_frame_iff:
  "decode_submit_frame p dims = Inr f \<longleftrightarrow> sf_buffer_id f \<noteq> 0 \<and> sf_frame_id f \<noteq> 0
     \<and> validate_damage (sf_damage f) dims = Inr ()
     \<and> p = to_le 4 (sf_buffer_id f) @ to_le 8 (sf_frame_id f)
         @ to_le 4 (word_of_nat (length (sf_damage f)) :: u32) @ concat (map encode_rectangle (sf_damage f))"
    (is "_ \<longleftrightarrow> ?a \<and> ?b \<and> ?c \<and> p = ?enc")
proof
  assume "decode_submit_frame p dims = Inr f"
  then have ok: ?a ?b ?c and len: "length p = 16 + unat (read_u32 p 12) * 16"
    and f: "f = \<lparr>sf_buffer_id = read_u32 p 0, sf_frame_id = read_u64 p 4,
          sf_damage = map decode_rectangle (chunks 16 (drop 16 p))\<rparr>"
    by (auto simp: decode_submit_frame_def Let_def wire_check_defs split: if_splits)
  have "drop 16 p = concat (map encode_rectangle (sf_damage f))"
    using len f chunks_of_elements [of 16 encode_rectangle decode_rectangle "drop 16 p" "sf_damage f"]
    by (simp add: encode_decode_rectangle)
  moreover from len f have "length (sf_damage f) = unat (read_u32 p 12)"
    by (simp add: length_chunks)
  then have "to_le 4 (word_of_nat (length (sf_damage f)) :: u32) = slice 12 16 p"
    using len by (simp add: le_simps)
  ultimately have "?enc = slice 0 4 p @ slice 4 12 p @ slice 12 16 p @ drop 16 p"
    using f len by (simp add: le_simps)
  with ok show "?a \<and> ?b \<and> ?c \<and> p = ?enc" by (simp add: slice_simps)
next
  assume ok: "?a \<and> ?b \<and> ?c \<and> p = ?enc"
  then have count: "length (sf_damage f) \<le> 64"
    by (auto simp: validate_damage_def split: if_splits)
  let ?ds = "concat (map encode_rectangle (sf_damage f))"
  have "map decode_rectangle (chunks 16 ?ds) = sf_damage f"
    using chunks_of_elements [of 16 encode_rectangle decode_rectangle ?ds "sf_damage f"]
    by (simp add: encode_decode_rectangle)
  moreover have "length ?ds = length (sf_damage f) * 16" by (simp add: length_concat_map)
  ultimately show "decode_submit_frame p dims = Inr f"
    using ok count
    by (simp add: decode_submit_frame_def Let_def wire_check_defs read_defs small_unat)
qed

lemma decode_input_frame_iff:
  "decode_input_frame p dims = Inr f \<longleftrightarrow> validate_input_frame f dims = Inr ()
     \<and> p = to_le 8 (wif_monotonic_ns f)
         @ [bool_byte (wif_fn_pressed f), word_of_nat (length (wif_contacts f))]
         @ to_le 2 (0 :: u16) @ concat (map encode_contact (wif_contacts f))"
    (is "_ \<longleftrightarrow> ?ok \<and> p = ?enc")
proof
  assume "decode_input_frame p dims = Inr f"
  then have ok: ?ok and len: "length p = 12 + unat (p ! 9) * 12" and res: "slice 10 12 p = replicate 2 0"
    and fn: "p ! 8 = bool_byte (wif_fn_pressed f)" and ns: "wif_monotonic_ns f = read_u64 p 0"
    and cs: "decode_contacts (chunks 12 (drop 12 p)) = Inr (wif_contacts f)"
    by (auto simp: decode_input_frame_def Let_def require_length_def require_reserved_iff
        decode_bool_iff split: if_splits)
  from cs len have rest: "drop 12 p = concat (map encode_contact (wif_contacts f))"
    by (simp add: decode_contacts_chunks)
  then have "length (drop 12 p) = length (wif_contacts f) * 12" by (simp add: length_concat_map)
  then have "length (wif_contacts f) = unat (p ! 9)" using len by simp
  then have "[bool_byte (wif_fn_pressed f), word_of_nat (length (wif_contacts f))] = slice 8 10 p"
    using len fn by (simp add: slice_def numeral_eq_Suc Cons_nth_drop_Suc take_Suc_conv_app_nth)
  moreover have "slice 10 12 p = to_le 2 (0 :: u16)" by (simp add: res to_le_zero)
  ultimately have "?enc = slice 0 8 p @ slice 8 10 p @ slice 10 12 p @ drop 12 p"
    using ns rest len by (simp add: le_simps)
  with ok show "?ok \<and> p = ?enc" by (simp add: slice_simps)
next
  assume ok: "?ok \<and> p = ?enc"
  then have "length (wif_contacts f) \<le> 10"
    by (auto simp: validate_input_frame_def split: if_splits)
  moreover have "length (concat (map encode_contact (wif_contacts f))) = length (wif_contacts f) * 12"
    by (simp add: length_concat_map)
  moreover from this have "decode_contacts (chunks 12 (concat (map encode_contact (wif_contacts f))))
      = Inr (wif_contacts f)" by (simp add: decode_contacts_chunks)
  moreover have "decode_bool (bool_byte (wif_fn_pressed f)) = Inr (wif_fn_pressed f)"
    by (simp add: decode_bool_iff)
  moreover obtain ns fn contacts where "f = \<lparr>wif_monotonic_ns = ns, wif_fn_pressed = fn,
      wif_contacts = contacts\<rparr>" by (cases f)
  ultimately show "decode_input_frame p dims = Inr f" using ok
    by (simp add: decode_input_frame_def Let_def require_length_def require_reserved_iff to_le_zero
        read_defs small_unat nth_append)
qed

subsection \<open>Key taps\<close>

text \<open>The duplicate test of the encoder, one prefix at a time, is distinctness.\<close>

lemma prefix_duplicates: "(\<exists>i \<in> {0..<length xs}. xs ! i \<in> set (take i xs)) \<longleftrightarrow> \<not> distinct xs"
proof (induction xs rule: rev_induct)
  case Nil
  show ?case by simp
next
  case (snoc x xs)
  have "(\<exists>i \<in> {0..<length xs}. (xs @ [x]) ! i \<in> set (take i (xs @ [x])))
      \<longleftrightarrow> (\<exists>i \<in> {0..<length xs}. xs ! i \<in> set (take i xs))"
    by (intro bex_cong) (auto simp: nth_append)
  with snoc show ?case by (auto simp: nth_append atLeast0_lessThan_Suc)
qed

text \<open>The slots of a key payload: used ones hold distinct keys, unused ones zero.\<close>

definition key_slot :: "key_code list \<Rightarrow> nat \<Rightarrow> u16" where
  "key_slot keys slot = (if slot < length keys then key_wire_value (keys ! slot) else 0)"

lemma four_slots: "[0..<MAX_KEYS] = [0, 1, 2, 3]"
  by (simp add: upt_rec)

lemma key_wire_value_inject [simp]: "key_wire_value a = key_wire_value b \<longleftrightarrow> a = b"
  by (metis key_from_wire_iff option.inject)

lemma key_from_wire_value [simp]: "key_from_wire (key_wire_value k) = Some k"
  by (simp add: key_from_wire_iff)

lemma short_list_cases:
  obtains "xs = []" | a where "xs = [a]" | a b where "xs = [a, b]" | a b c where "xs = [a, b, c]"
    | a b c d ds where "xs = a # b # c # d # ds"
  by (metis list.exhaust)

lemma decode_key_slots_iff:
  assumes "1 \<le> count" and "count \<le> 4"
  shows "decode_key_slots p count [] [0..<MAX_KEYS] = Inr ks \<longleftrightarrow>
     length ks = count \<and> distinct ks
       \<and> map (\<lambda>slot. read_u16 p (4 + slot * 2)) [0..<MAX_KEYS] = map (key_slot ks) [0..<MAX_KEYS]"
    (is "?dec \<longleftrightarrow> ?spec")
proof -
  from assms consider "count = 1" | "count = 2" | "count = 3" | "count = 4" by linarith
  then have "?dec \<Longrightarrow> ?spec"
    unfolding four_slots by cases (auto simp: key_slot_def Let_def key_from_wire_iff numeral_eq_Suc split: if_splits)
  moreover have "?spec \<Longrightarrow> ?dec"
  proof -
    assume spec: ?spec
    with assms consider a where "ks = [a]" | a b where "ks = [a, b]" | a b c where "ks = [a, b, c]"
      | a b c d where "ks = [a, b, c, d]"
      by (cases ks rule: short_list_cases) auto
    then show ?dec using spec unfolding four_slots by cases (auto simp: key_slot_def Let_def)
  qed
  ultimately show ?thesis by blast
qed

lemma encode_keys_slots:
  "encode_keys keys = Inr p \<longleftrightarrow> 1 \<le> length keys \<and> length keys \<le> 4 \<and> distinct keys
     \<and> p = [word_of_nat (length keys), 0, 0, 0] @ concat (map (to_le 2) (map (key_slot keys) [0..<MAX_KEYS]))"
  by (simp add: encode_keys_def prefix_duplicates key_slot_def comp_def del: bex_simps) auto

lemma decode_tap_keys_iff: "decode_tap_keys p = Inr keys \<longleftrightarrow> encode_keys keys = Inr p"
proof
  assume "decode_tap_keys p = Inr keys"
  then have len: "length p = 12" and count: "1 \<le> unat (p ! 0)" "unat (p ! 0) \<le> 4"
    and res: "slice 1 4 p = replicate 3 0"
    and "decode_key_slots p (unat (p ! 0)) [] [0..<MAX_KEYS] = Inr keys"
    by (auto simp: decode_tap_keys_def Let_def require_length_def require_reserved_iff split: if_splits)
  then have keys: "length keys = unat (p ! 0)" "distinct keys"
    and slots: "map (key_slot keys) [0..<MAX_KEYS] = map (\<lambda>slot. read_u16 p (4 + slot * 2)) [0..<MAX_KEYS]"
    by (simp_all only: decode_key_slots_iff)
  have "concat (map (to_le 2) (map (key_slot keys) [0..<MAX_KEYS]))
      = slice 4 6 p @ slice 6 8 p @ slice 8 10 p @ slice 10 12 p"
    unfolding slots unfolding four_slots using len by (simp add: le_simps)
  moreover have "[p ! 0] = slice 0 1 p" using len by (simp add: slice_def take_Suc_conv_app_nth)
  moreover have "replicate 3 (0 :: u8) = [0, 0, 0]" by (simp add: numeral_eq_Suc)
  ultimately have "[p ! 0, 0, 0, 0] @ concat (map (to_le 2) (map (key_slot keys) [0..<MAX_KEYS])) =
      slice 0 1 p @ slice 1 4 p @ slice 4 6 p @ slice 6 8 p @ slice 8 10 p @ slice 10 12 p"
    using res by simp
  with len have "p = [p ! 0, 0, 0, 0] @ concat (map (to_le 2) (map (key_slot keys) [0..<MAX_KEYS]))"
    by (simp add: slice_simps)
  with keys count show "encode_keys keys = Inr p" by (simp add: encode_keys_slots)
next
  assume "encode_keys keys = Inr p"
  then have keys: "1 \<le> length keys" "length keys \<le> 4" "distinct keys"
    and p: "p = [word_of_nat (length keys), 0, 0, 0] @ concat (map (to_le 2) (map (key_slot keys) [0..<MAX_KEYS]))"
    by (simp_all add: encode_keys_slots)
  from p have "length p = 12" and count: "unat (p ! 0) = length keys" and "slice 1 4 p = replicate 3 0"
    using keys by (simp_all add: four_slots small_unat numeral_eq_Suc)
  moreover have "map (\<lambda>slot. read_u16 p (4 + slot * 2)) [0..<MAX_KEYS] = map (key_slot keys) [0..<MAX_KEYS]"
    unfolding p four_slots by (simp add: read_defs)
  ultimately show "decode_tap_keys p = Inr keys"
    using keys decode_key_slots_iff [of "length keys" p keys]
    by (simp add: decode_tap_keys_def Let_def require_length_def require_reserved_iff)
qed

subsection \<open>Messages and packets\<close>

text \<open>
  The one invariant of the source's types that the model's types do not carry: a \<^verbatim>\<open>Percentage\<close> is
  built only by its checked constructor.
\<close>

fun client_wf :: "client_message \<Rightarrow> bool" where
  "client_wf (CSetDisplayBrightness v) \<longleftrightarrow> v \<le> 100"
| "client_wf (CSetKeyboardBacklight v) \<longleftrightarrow> v \<le> 100"
| "client_wf _ \<longleftrightarrow> True"

lemma validate_damage_count: "validate_damage ds d = Inr u \<Longrightarrow> length ds < 2 ^ 32"
  by (auto simp: validate_damage_def split: if_splits)

lemma validate_contacts_count: "validate_input_frame f d = Inr u \<Longrightarrow> length (wif_contacts f) < 256"
  by (auto simp: validate_input_frame_def split: if_splits)

lemmas client_payload_iffs = decode_hello_iff decode_register_buffer_iff decode_submit_frame_iff
  decode_tap_keys_iff decode_percentage_iff decode_step_direction_iff

lemmas service_payload_iffs = decode_hello_ack_iff decode_error_iff decode_frame_released_iff
  decode_input_frame_iff

lemma decode_client_body_iff:
  "decode_client_body t p d = Inr m \<longleftrightarrow>
     client_message_type m = Some t \<and> client_wf m \<and> encode_client_body m d = Inr p"
  by (cases t; cases m)
    (auto simp: client_payload_iffs require_length_def validate_nonzero_def
      dest: validate_damage_count)

lemma decode_service_body_iff:
  "decode_service_body t p d = Inr m \<longleftrightarrow>
     service_message_type m = t \<and> encode_service_payload m d = Inr p"
  by (cases t; cases m)
    (auto simp: service_payload_iffs require_length_def validate_nonzero_def
      dest: validate_contacts_count)

text \<open>The ancillary data a message travels with.\<close>

fun expected_ancillary :: "ancillary_expectation \<Rightarrow> ancillary_metadata" where
  "expected_ancillary NoDescriptor =
     \<lparr>am_rights_descriptor_count = 0, am_control_truncated = False, am_has_other_control = False\<rparr>"
| "expected_ancillary OneDescriptor =
     \<lparr>am_rights_descriptor_count = 1, am_control_truncated = False, am_has_other_control = False\<rparr>"

lemma validate_ancillary_expected: "validate_ancillary e a = Inr u \<longleftrightarrow> a = expected_ancillary e"
  by (cases e) (auto simp: validate_ancillary_iff)

lemma client_type_direction:
  "client_message_type m = Some t \<Longrightarrow> mt_direction t = ClientToService"
  by (cases m) auto

lemma service_type_direction: "mt_direction (service_message_type m) = ServiceToClient"
  by (cases m) auto

lemma client_known_iff: "client_message_type m = None \<longleftrightarrow> (\<exists>t p. m = CUnknown t p)"
  by (cases m) auto

lemma encode_client_payload_known:
  "client_message_type m = Some t \<Longrightarrow> encode_client_payload m d = Inr (v, p) \<longleftrightarrow>
     phase_allowed t (d \<noteq> None) \<and> encode_client_body m d = Inr p \<and> v = mt_wire_value t"
  by (cases m) (auto simp: encode_client_payload_def validate_phase_def Let_def)

lemma decode_client_iff:
  "decode_client bs anc d = Inr e \<longleftrightarrow> client_wf (env_message e) \<and> encode_client e d = Inr bs
     \<and> anc = expected_ancillary (client_ancillary_expectation (env_message e))"
proof (cases "client_message_type (env_message e)")
  case None
  then obtain t p where m: "env_message e = CUnknown t p" by (auto simp: client_known_iff)
  then have "decode_client_body t' p' d \<noteq> Inr (env_message e)" for t' p'
    by (simp add: decode_client_body_iff)
  then show ?thesis
    using m by (cases e; cases d)
      (auto simp: decode_client_def encode_client_def encode_client_payload_def require_request_id_def
        client_ancillary_expectation_def validate_ancillary_expected packets.dec_iff_enc
        split: option.splits if_splits)
next
  case (Some t)
  have type: "mt_from_wire (mt_wire_value t) = Some t" by (simp add: mt_from_wire_iff)
  show ?thesis
  proof
    assume "decode_client bs anc d = Inr e"
    with Some show "client_wf (env_message e) \<and> encode_client e d = Inr bs
        \<and> anc = expected_ancillary (client_ancillary_expectation (env_message e))"
      by (auto simp: decode_client_def encode_client_def encode_client_payload_known decode_client_body_iff
          mt_from_wire_iff require_request_id_def validate_phase_def client_ancillary_expectation_def
          validate_ancillary_expected packets.dec_iff_enc split: option.splits if_splits)
  next
    assume "client_wf (env_message e) \<and> encode_client e d = Inr bs
        \<and> anc = expected_ancillary (client_ancillary_expectation (env_message e))"
    with Some type show "decode_client bs anc d = Inr e"
      by (cases e) (auto simp: decode_client_def encode_client_def encode_client_payload_known
          decode_client_body_iff require_request_id_def validate_phase_def client_type_direction
          client_ancillary_expectation_def validate_ancillary_expected packets.dec_iff_enc)
  qed
qed

lemma decode_service_iff:
  "decode_service bs anc d = Inr e \<longleftrightarrow> encode_service e d = Inr bs \<and> anc = expected_ancillary NoDescriptor"
proof -
  let ?t = "service_message_type (env_message e)"
  have none: "mt_ancillary_expectation ?t = NoDescriptor" by (cases "env_message e") auto
  have type: "mt_from_wire (mt_wire_value ?t) = Some ?t" by (simp add: mt_from_wire_iff)
  show ?thesis
  proof
    assume "decode_service bs anc d = Inr e"
    with none show "encode_service e d = Inr bs \<and> anc = expected_ancillary NoDescriptor"
      by (auto simp: decode_service_def encode_service_def decode_service_body_iff mt_from_wire_iff Let_def
          validate_ancillary_expected packets.dec_iff_enc split: if_splits)
  next
    assume "encode_service e d = Inr bs \<and> anc = expected_ancillary NoDescriptor"
    moreover from this obtain p where "validate_phase ?t (d \<noteq> None) = Inr ()"
        "validate_identifier (mt_class ?t) (env_request_id e) = Inr ()"
        "decode_service_body ?t p d = Inr (env_message e)"
        "packet_decode bs = Inr \<lparr>pk_message_type = mt_wire_value ?t, pk_request_id = env_request_id e,
            pk_payload = p\<rparr>"
      by (auto simp: encode_service_def Let_def decode_service_body_iff packets.dec_iff_enc)
    ultimately show "decode_service bs anc d = Inr e"
      using none type by (simp add: decode_service_def service_type_direction validate_ancillary_def)
  qed
qed

text \<open>
  What crosses the socket is a packet together with its ancillary data; a message is sent with the
  ancillary data its type calls for.
\<close>

definition client_send ::
  "display_dimensions option \<Rightarrow> client_message envelope \<Rightarrow> wire_error + (bytes \<times> ancillary_metadata)" where
  "client_send d e = rbind (encode_client e d)
     (\<lambda>bs. Inr (bs, expected_ancillary (client_ancillary_expectation (env_message e))))"

definition service_send ::
  "display_dimensions option \<Rightarrow> service_message envelope \<Rightarrow> wire_error + (bytes \<times> ancillary_metadata)" where
  "service_send d e = rbind (encode_service e d) (\<lambda>bs. Inr (bs, expected_ancillary NoDescriptor))"

interpretation client_wire: canonical_codec "\<lambda>e. client_wf (env_message e)" "client_send d"
  "\<lambda>(bs, anc). decode_client bs anc d" for d
  by unfold_locales (auto simp: client_send_def decode_client_iff)

interpretation service_wire: canonical_codec "\<lambda>e. True" "service_send d"
  "\<lambda>(bs, anc). decode_service bs anc d" for d
  by unfold_locales (auto simp: service_send_def decode_service_iff)

subsection \<open>What an accepted message promises\<close>

lemma validate_damage_iff:
  "validate_damage ds d = Inr u \<longleftrightarrow> length ds \<le> 64 \<and> (\<forall>r \<in> set ds. dr_width r \<noteq> 0 \<and> dr_height r \<noteq> 0
     \<and> unat (dr_x r) + unat (dr_width r) \<le> unat (dd_width d)
     \<and> unat (dr_y r) + unat (dr_height r) \<le> unat (dd_height d))"
  by (auto simp: validate_damage_def not_exceeds [symmetric] not_less)

lemma validate_contacts_iff:
  "validate_contacts ids d cs = Inr () \<longleftrightarrow>
     (\<forall>c \<in> set cs. unat (ic_id c) < 16 \<and> ic_x c < dd_width d \<and> ic_y c < dd_height d)
     \<and> distinct (map ic_id (filter (\<lambda>c. ic_tip c \<or> ic_in_range c) cs))
     \<and> (\<forall>c \<in> set cs. ic_tip c \<or> ic_in_range c \<longrightarrow> unat (ic_id c) \<notin> active_set ids)"
proof (induction cs arbitrary: ids)
  case Nil
  then show ?case by simp
next
  case (Cons c cs)
  have id: "\<not> ic_id c > 15 \<longleftrightarrow> unat (ic_id c) < 16" by (simp add: word_less_nat_alt) linarith
  have inj: "unat (ic_id a) = unat (ic_id b) \<longleftrightarrow> ic_id a = ic_id b" for a b :: input_contact
    by (metis unsigned_word_eqI)
  show ?case
  proof (cases "unat (ic_id c) < 16 \<and> (ic_tip c \<or> ic_in_range c)")
    case True
    then have "ids AND id_bit (ic_id c) = 0 \<longleftrightarrow> unat (ic_id c) \<notin> active_set ids"
      by (simp add: id_bit_disjoint active_set_def)
    with True show ?thesis
      by (auto simp: Cons.IH id [symmetric] active_set_insert not_le inj image_iff)
  next
    case False
    then show ?thesis by (auto simp: Cons.IH id [symmetric] not_le)
  qed
qed

text \<open>
  C17. A packet and its ancillary data decode to a client request exactly when the request is well formed,
  encodes to that packet and carries the descriptors its type calls for: requests survive the wire,
  and no other packet is accepted for them.
\<close>

theorem client_wire_exact:
  "decode_client bs anc d = Inr e \<longleftrightarrow> client_wf (env_message e) \<and> encode_client e d = Inr bs
     \<and> anc = expected_ancillary (client_ancillary_expectation (env_message e))"
  using client_wire.dec_iff_enc [where x = e and d = d and w = "(bs, anc)"]
    client_wire.dec_wf [where x = e and d = d and w = "(bs, anc)"]
  by (auto simp: client_send_def)

text \<open>
  C18. The same for the service's responses and events: the client accepts exactly the encodings of
  well-formed messages, without descriptors.
\<close>

theorem service_wire_exact:
  "decode_service bs anc d = Inr e \<longleftrightarrow> encode_service e d = Inr bs \<and> anc = expected_ancillary NoDescriptor"
  using service_wire.dec_iff_enc [where x = e and d = d and w = "(bs, anc)"] by (auto simp: service_send_def)

text \<open>
  C27. Phase and identifier discipline of accepted messages: before the handshake completes the service
  accepts nothing but a Hello and the client nothing but a HelloAck or an error; afterwards neither
  accepts another handshake. Requests and responses carry a nonzero identifier, events carry zero.
\<close>

theorem handshake_gates_messages:
  "(decode_client bs anc d = Inr e \<longrightarrow>
      env_request_id e \<noteq> 0 \<and> (d = None \<longleftrightarrow> (\<exists>h. env_message e = CHello h)))
   \<and> (decode_service bs' anc' d = Inr e' \<longrightarrow>
      (d = None \<longrightarrow> (\<exists>a. env_message e' = SHelloAck a) \<or> (\<exists>c. env_message e' = SError c))
      \<and> (d \<noteq> None \<longrightarrow> \<not> (\<exists>a. env_message e' = SHelloAck a))
      \<and> (env_request_id e' = 0 \<longleftrightarrow>
           (\<exists>f. env_message e' = SFrameReleased f) \<or> (\<exists>f. env_message e' = SInputFrame f)))"
proof (intro conjI impI)
  assume "decode_client bs anc d = Inr e"
  then have enc: "encode_client e d = Inr bs" by (simp add: decode_client_iff)
  then show "env_request_id e \<noteq> 0" by (auto simp: encode_client_def require_request_id_def)
  from enc show "d = None \<longleftrightarrow> (\<exists>h. env_message e = CHello h)"
    by (cases "env_message e")
      (auto simp: encode_client_def encode_client_payload_def validate_phase_def Let_def split: if_splits)
next
  assume "decode_service bs' anc' d = Inr e'"
  then have enc: "encode_service e' d = Inr bs'" by (simp add: decode_service_iff)
  then show "d = None \<Longrightarrow> (\<exists>a. env_message e' = SHelloAck a) \<or> (\<exists>c. env_message e' = SError c)"
    and "d \<noteq> None \<Longrightarrow> \<not> (\<exists>a. env_message e' = SHelloAck a)"
    and "env_request_id e' = 0 \<longleftrightarrow>
        (\<exists>f. env_message e' = SFrameReleased f) \<or> (\<exists>f. env_message e' = SInputFrame f)"
    by (cases "env_message e'";
        auto simp: encode_service_def validate_phase_def require_request_id_def Let_def split: if_splits)+
qed

lemmas sent_message_defs = encode_client_def encode_client_payload_def encode_service_def Let_def
  validate_phase_def require_request_id_def validate_nonzero_def packet_encode_def

theorem handshake_gates_messages_witness:
  "\<exists>bs bs' e e'. decode_client bs (expected_ancillary NoDescriptor) None = Inr e
     \<and> env_request_id e = 1 \<and> (\<exists>h. env_message e = CHello h)
     \<and> decode_service bs' (expected_ancillary NoDescriptor) None = Inr e'
     \<and> env_message e' = SError BufferBusy \<and> env_request_id e' \<noteq> 0"
proof -
  let ?anc = "expected_ancillary NoDescriptor"
  obtain bs bs' where "encode_client \<lparr>env_request_id = 1, env_message =
        CHello \<lparr>hello_minor = 1, hello_required_features = 7\<rparr>\<rparr> None = Inr bs"
      and "encode_service \<lparr>env_request_id = 5, env_message = SError BufferBusy\<rparr> None = Inr bs'"
    by (simp add: sent_message_defs)
  then have hello: "decode_client bs ?anc None = Inr \<lparr>env_request_id = 1, env_message =
        CHello \<lparr>hello_minor = 1, hello_required_features = 7\<rparr>\<rparr>"
      and error: "decode_service bs' ?anc None = Inr \<lparr>env_request_id = 5, env_message = SError BufferBusy\<rparr>"
    by (simp_all add: decode_client_iff decode_service_iff client_ancillary_expectation_def)
  from hello error show ?thesis
    using handshake_gates_messages [of _ _ None, THEN conjunct1, THEN mp, OF hello]
      handshake_gates_messages [of _ _ None, THEN conjunct2, THEN mp, OF error] by fastforce
qed

text \<open>
  C28. A submission the service accepts from the wire names a nonzero buffer and frame and at most 64
  nonempty damage rectangles, each inside the negotiated display; an input frame the client accepts
  has at most ten contacts, each inside the display, with distinct identifiers among the active ones.
\<close>

theorem accepted_messages_in_bounds:
  "(decode_client bs anc (Some d) = Inr e \<and> env_message e = CSubmitFrame f \<longrightarrow>
      sf_buffer_id f \<noteq> 0 \<and> sf_frame_id f \<noteq> 0 \<and> length (sf_damage f) \<le> 64
      \<and> (\<forall>r \<in> set (sf_damage f). dr_width r \<noteq> 0 \<and> dr_height r \<noteq> 0
          \<and> unat (dr_x r) + unat (dr_width r) \<le> unat (dd_width d)
          \<and> unat (dr_y r) + unat (dr_height r) \<le> unat (dd_height d)))
   \<and> (decode_service bs' anc' (Some d) = Inr e' \<and> env_message e' = SInputFrame g \<longrightarrow>
      length (wif_contacts g) \<le> 10
      \<and> (\<forall>c \<in> set (wif_contacts g). unat (ic_id c) < 16 \<and> ic_x c < dd_width d \<and> ic_y c < dd_height d)
      \<and> distinct (map ic_id (filter (\<lambda>c. ic_tip c \<or> ic_in_range c) (wif_contacts g))))"
proof (intro conjI impI; elim conjE)
  assume "decode_client bs anc (Some d) = Inr e" "env_message e = CSubmitFrame f"
  then have "sf_buffer_id f \<noteq> 0" "sf_frame_id f \<noteq> 0" "validate_damage (sf_damage f) d = Inr ()"
    by (auto simp: decode_client_iff encode_client_def encode_client_payload_def validate_nonzero_def
        Let_def)
  then show "sf_buffer_id f \<noteq> 0" "sf_frame_id f \<noteq> 0" "length (sf_damage f) \<le> 64"
    "\<forall>r \<in> set (sf_damage f). dr_width r \<noteq> 0 \<and> dr_height r \<noteq> 0
          \<and> unat (dr_x r) + unat (dr_width r) \<le> unat (dd_width d)
          \<and> unat (dr_y r) + unat (dr_height r) \<le> unat (dd_height d)"
    by (simp_all add: validate_damage_iff)
next
  assume "decode_service bs' anc' (Some d) = Inr e'" "env_message e' = SInputFrame g"
  then have "validate_input_frame g d = Inr ()"
    by (auto simp: decode_service_iff encode_service_def Let_def)
  then show "length (wif_contacts g) \<le> 10"
    "\<forall>c \<in> set (wif_contacts g). unat (ic_id c) < 16 \<and> ic_x c < dd_width d \<and> ic_y c < dd_height d"
    "distinct (map ic_id (filter (\<lambda>c. ic_tip c \<or> ic_in_range c) (wif_contacts g)))"
    by (auto simp: validate_input_frame_def validate_contacts_iff split: if_splits)
qed

theorem accepted_messages_in_bounds_witness:
  "\<exists>bs bs' f g.
     decode_client bs (expected_ancillary NoDescriptor) (Some \<lparr>dd_width = 10, dd_height = 3\<rparr>)
       = Inr \<lparr>env_request_id = 7, env_message = CSubmitFrame f\<rparr>
     \<and> sf_damage f = [\<lparr>dr_x = 4, dr_y = 0, dr_width = 6, dr_height = 3\<rparr>]
     \<and> (\<forall>r \<in> set (sf_damage f). unat (dr_x r) + unat (dr_width r) \<le> 10 \<and> unat (dr_y r) + unat (dr_height r) \<le> 3)
     \<and> decode_service bs' (expected_ancillary NoDescriptor) (Some \<lparr>dd_width = 10, dd_height = 3\<rparr>)
       = Inr \<lparr>env_request_id = 0, env_message = SInputFrame g\<rparr>
     \<and> wif_contacts g = [\<lparr>ic_id = 3, ic_tip = True, ic_in_range = True, ic_x = 9, ic_y = 2\<rparr>]
     \<and> (\<forall>c \<in> set (wif_contacts g). unat (ic_id c) < 16 \<and> ic_x c < 10 \<and> ic_y c < 3)
     \<and> distinct (map ic_id (filter (\<lambda>c. ic_tip c \<or> ic_in_range c) (wif_contacts g)))"
proof -
  let ?d = "\<lparr>dd_width = 10, dd_height = 3\<rparr>"
  let ?f = "\<lparr>sf_buffer_id = 1, sf_frame_id = 2,
    sf_damage = [\<lparr>dr_x = 4, dr_y = 0, dr_width = 6, dr_height = 3\<rparr>]\<rparr>"
  let ?g = "\<lparr>wif_monotonic_ns = 0, wif_fn_pressed = True,
    wif_contacts = [\<lparr>ic_id = 3, ic_tip = True, ic_in_range = True, ic_x = 9, ic_y = 2\<rparr>]\<rparr>"
  let ?anc = "expected_ancillary NoDescriptor"
  obtain bs bs' where
    "encode_client \<lparr>env_request_id = 7, env_message = CSubmitFrame ?f\<rparr> (Some ?d) = Inr bs"
    "encode_service \<lparr>env_request_id = 0, env_message = SInputFrame ?g\<rparr> (Some ?d) = Inr bs'"
    by (simp add: sent_message_defs validate_damage_iff validate_input_frame_def length_concat_map
        word_less_nat_alt encode_rectangle_def encode_contact_def)
  then have submit: "decode_client bs ?anc (Some ?d) = Inr \<lparr>env_request_id = 7, env_message = CSubmitFrame ?f\<rparr>"
    and input: "decode_service bs' ?anc (Some ?d) = Inr \<lparr>env_request_id = 0, env_message = SInputFrame ?g\<rparr>"
    by (simp_all add: decode_client_iff decode_service_iff client_ancillary_expectation_def)
  from submit input show ?thesis
    using accepted_messages_in_bounds [of _ _ ?d _ ?f, THEN conjunct1, THEN mp, OF conjI [OF submit]]
      accepted_messages_in_bounds [of _ _ ?d _ ?f, THEN conjunct2, THEN mp, OF conjI [OF input]]
    by (intro exI [of _ bs] exI [of _ bs'] exI [of _ ?f] exI [of _ ?g]) simp
qed

end
