(* ===== verification/T1_Float.thy ===== *)
theory T1_Float
  imports T1_Prelude "HOL-Library.Log_Nat"
begin

section \<open>Double-precision arithmetic on nonnegative values\<close>

text \<open>
  A nonnegative double in the normal range is the rational it denotes, and an operation is the exact one followed by
  rounding to 53 significant bits, ties to even. Holds the operations the components use and the error of one rounding.
\<close>

type_synonym f64 = rat

definition f64_exponent :: "rat \<Rightarrow> int" where
  "f64_exponent q =
     (let (n, d) = quotient_of q; e = int (floorlog 2 (nat n)) - int (floorlog 2 (nat d)) in
      if q < 2 powi e then e - 1 else e)"

definition round_half_even :: "rat \<Rightarrow> int" where
  "round_half_even m =
     (let k = \<lfloor>m\<rfloor>; f = m - of_int k in
      if f < 1 / 2 then k else if f > 1 / 2 then k + 1 else if even k then k else k + 1)"

definition f64_round :: "rat \<Rightarrow> f64" where
  "f64_round q =
     (if q = 0 then 0
      else let u = 2 powi (f64_exponent q - 52) in of_int (round_half_even (q / u)) * u)"

definition f64_mul :: "f64 \<Rightarrow> f64 \<Rightarrow> f64" where
  "f64_mul a b = f64_round (a * b)"

definition f64_div :: "f64 \<Rightarrow> f64 \<Rightarrow> f64" where
  "f64_div a b = f64_round (a / b)"

text \<open>\<^verbatim>\<open>f64::from\<close> of an integer of at most 32 bits is exact.\<close>

definition f64_from :: "'a::len word \<Rightarrow> f64" where
  "f64_from w = of_nat (unat w)"

text \<open>\<^verbatim>\<open>f64::round\<close> rounds half away from zero; on nonnegative values that is \<open>round\<close> of HOL.\<close>

definition f64_clamp :: "f64 \<Rightarrow> f64 \<Rightarrow> f64 \<Rightarrow> f64" where
  "f64_clamp low high v = (if v < low then low else if v > high then high else v)"

text \<open>The saturating cast \<^verbatim>\<open>as u32\<close>.\<close>

definition f64_to_u32 :: "f64 \<Rightarrow> u32" where
  "f64_to_u32 v = word_of_int (max 0 (min (2 ^ 32 - 1) \<lfloor>v\<rfloor>))"

lemma f64_exponent_bounds:
  assumes "0 < q"
  shows "2 powi (f64_exponent q) \<le> q" and "q < 2 powi (f64_exponent q + 1)"
proof -
  obtain n d where nd: "quotient_of q = (n, d)" by (cases "quotient_of q")
  then have d: "0 < d" and q: "q = of_int n / of_int d"
    by (simp_all add: quotient_of_denom_pos quotient_of_div)
  with assms have n: "0 < n" by (simp add: zero_less_divide_iff)
  let ?a = "floorlog 2 (nat n)" and ?b = "floorlog 2 (nat d)"
  have pos: "0 < ?a" "0 < ?b" using n d by (simp_all add: floorlog_def)
  have "2 ^ (?a - 1) \<le> nat n" "nat n < 2 ^ ?a" "2 ^ (?b - 1) \<le> nat d" "nat d < 2 ^ ?b"
    using floorlog_bounds [of "nat n" 2] floorlog_bounds [of "nat d" 2] n d by auto
  then have "rat_of_nat (2 ^ (?a - 1)) \<le> rat_of_nat (nat n)" "rat_of_nat (nat n) < rat_of_nat (2 ^ ?a)"
    "rat_of_nat (2 ^ (?b - 1)) \<le> rat_of_nat (nat d)" "rat_of_nat (nat d) < rat_of_nat (2 ^ ?b)"
    by (simp_all only: of_nat_le_iff of_nat_less_iff)
  then have bn: "(2 :: rat) ^ (?a - 1) \<le> of_int n" "of_int n < (2 :: rat) ^ ?a"
    and bd: "(2 :: rat) ^ (?b - 1) \<le> of_int d" "of_int d < (2 :: rat) ^ ?b"
    using n d by simp_all
  have pow: "(2 :: rat) ^ k = 2 powi int k" for k by (simp add: power_int_def)
  have "2 powi (int ?a - 1 - int ?b) = (2 :: rat) ^ (?a - 1) / 2 ^ ?b"
    unfolding pow using pos by (subst power_int_diff [symmetric]) (simp_all add: of_nat_diff)
  also have "\<dots> < q" unfolding q using bn bd n d
    by (intro frac_less2) auto
  finally have low: "2 powi (int ?a - 1 - int ?b) < q" .
  have "q < (2 :: rat) ^ ?a / 2 ^ (?b - 1)" unfolding q using bn bd n d
    by (intro frac_less) auto
  also have "\<dots> = 2 powi (int ?a - int ?b + 1)"
    unfolding pow using pos by (subst power_int_diff [symmetric]) (simp_all add: of_nat_diff algebra_simps)
  finally have high: "q < 2 powi (int ?a - int ?b + 1)" .
  from low high show "2 powi (f64_exponent q) \<le> q" "q < 2 powi (f64_exponent q + 1)"
    by (auto simp: f64_exponent_def nd Let_def algebra_simps)
qed

lemma round_half_even_close: "\<bar>of_int (round_half_even m) - m\<bar> \<le> 1 / 2"
  using floor_correct [of m] by (auto simp: round_half_even_def Let_def abs_le_iff field_simps)

lemma round_half_even_int [simp]: "round_half_even (of_int k) = k"
  by (simp add: round_half_even_def)

text \<open>The relative error of one rounding is at most \<open>2\<^sup>-\<^sup>5\<^sup>3\<close>.\<close>

lemma f64_round_error:
  assumes "0 \<le> q"
  shows "\<bar>f64_round q - q\<bar> \<le> q / 2 ^ 53"
proof (cases "q = 0")
  case False
  let ?u = "2 powi (f64_exponent q - 52) :: rat"
  have u: "0 < ?u" by simp
  have "f64_round q - q = (of_int (round_half_even (q / ?u)) - q / ?u) * ?u"
    using False u by (simp add: f64_round_def Let_def algebra_simps)
  then have "\<bar>f64_round q - q\<bar> = \<bar>of_int (round_half_even (q / ?u)) - q / ?u\<bar> * ?u"
    using u by (simp add: abs_mult)
  also have "\<dots> \<le> 1 / 2 * ?u"
    using round_half_even_close u by (intro mult_right_mono) (auto simp: less_imp_le)
  also have "\<dots> = 2 powi (f64_exponent q) / 2 ^ 53"
    by (simp add: power_int_diff)
  also have "\<dots> \<le> q / 2 ^ 53"
    using False assms f64_exponent_bounds(1) [of q] by (intro divide_right_mono) auto
  finally show ?thesis .
qed (simp add: f64_round_def)

text \<open>An integer of at most 53 bits is a double.\<close>

lemma f64_round_nat:
  assumes "n < 2 ^ 53"
  shows "f64_round (of_nat n) = of_nat n"
proof (cases "n = 0")
  case False
  let ?e = "f64_exponent (of_nat n)"
  have e: "2 powi ?e \<le> rat_of_nat n" "rat_of_nat n < 2 powi (?e + 1)"
    using f64_exponent_bounds [of "of_nat n"] False by auto
  have "rat_of_nat n < 2 ^ 53" using assms by (metis of_nat_less_iff of_nat_numeral of_nat_power)
  with e(1) have "(2 :: rat) powi ?e < 2 powi 53" by (simp add: power_int_def)
  then have "?e \<le> 52" using power_int_increasing [of 53 ?e "2 :: rat"] by linarith
  then obtain k where k: "?e = 52 - int k" by (metis diff_diff_eq2 zero_le_imp_eq_int diff_ge_0_iff_ge
        add.commute diff_add_cancel add_diff_cancel_left')
  have "rat_of_nat n / 2 powi (?e - 52) = of_int (int (n * 2 ^ k))"
    by (simp add: k power_int_minus divide_inverse)
  then have "f64_round (of_nat n) = of_int (int (n * 2 ^ k)) * 2 powi (?e - 52)"
    using False by (simp only: f64_round_def Let_def round_half_even_int) simp
  then show ?thesis by (simp add: k power_int_minus)
qed (simp add: f64_round_def)

text \<open>Which values round to at least one: the largest double below one is \<open>1 - 2\<^sup>-\<^sup>5\<^sup>3\<close>, and a tie goes to one.\<close>

lemma round_half_even_ge:
  assumes "even k"
  shows "k \<le> round_half_even m \<longleftrightarrow> of_int k - 1 / 2 \<le> m"
proof -
  consider "k \<le> \<lfloor>m\<rfloor>" | "\<lfloor>m\<rfloor> = k - 1" | "\<lfloor>m\<rfloor> \<le> k - 2" by linarith
  then show ?thesis
  proof cases
    case 1
    then have "of_int k \<le> m" by (simp add: le_floor_iff)
    with 1 show ?thesis by (auto simp: round_half_even_def Let_def)
  next
    case 2
    with assms show ?thesis by (auto simp: round_half_even_def Let_def)
  next
    case 3
    then have "\<lfloor>m\<rfloor> < k - 1" by simp
    then have "m < of_int (k - 1)" by (simp only: floor_less_iff)
    with 3 show ?thesis by (auto simp: round_half_even_def Let_def)
  qed
qed

lemma f64_round_ge_one:
  assumes "0 \<le> q"
  shows "1 \<le> f64_round q \<longleftrightarrow> 1 - 1 / 2 ^ 54 \<le> q"
proof -
  consider "q < 1 / 2" | "1 / 2 \<le> q" "q < 1" | "1 \<le> q" by linarith
  then show ?thesis
  proof cases
    case 1
    have "f64_round q - q \<le> q / 2 ^ 53" using f64_round_error [OF assms] by (rule order_trans [OF abs_ge_self])
    moreover have "q / 2 ^ 53 \<le> q / 1" using assms by (intro divide_left_mono) simp_all
    ultimately have "f64_round q < 1" using 1 by linarith
    moreover have "q < 1 - 1 / 2 ^ 54" using 1 by simp
    ultimately show ?thesis by linarith
  next
    case 2
    note b = f64_exponent_bounds [of q]
    have "(2 :: rat) powi f64_exponent q < 2 powi 0" "(2 :: rat) powi (-1) < 2 powi (f64_exponent q + 1)"
      using b 2 by simp_all
    then have e: "f64_exponent q = -1"
      using power_int_increasing [of 0 "f64_exponent q" "2 :: rat"]
        power_int_increasing [of "f64_exponent q + 1" "-1" "2 :: rat"] by linarith
    define r where "r = round_half_even (q * 2 ^ 53)"
    have u: "(2 :: rat) powi (f64_exponent q - 52) = 1 / 2 ^ 53" by (simp add: e power_int_minus inverse_eq_divide)
    have "q \<noteq> 0" using 2 by auto
    then have "f64_round q = of_int (round_half_even (q / (1 / 2 ^ 53))) * (1 / 2 ^ 53)"
      by (simp only: f64_round_def Let_def u if_False)
    then have "f64_round q = of_int r / 2 ^ 53" by (simp add: r_def)
    then have "1 \<le> f64_round q \<longleftrightarrow> of_int (2 ^ 53) \<le> (of_int r :: rat)"
      by (simp only: le_divide_eq_1 zero_less_power zero_less_numeral of_int_power of_int_numeral) simp
    also have "\<dots> \<longleftrightarrow> 2 ^ 53 \<le> r" by (simp only: of_int_le_iff)
    also have "\<dots> \<longleftrightarrow> of_int (2 ^ 53) - 1 / 2 \<le> q * 2 ^ 53" unfolding r_def by (rule round_half_even_ge) simp
    finally show ?thesis by (simp add: field_simps)
  next
    case 3
    let ?u = "2 powi (f64_exponent q - 52) :: rat"
    note b = f64_exponent_bounds [of q]
    have "(2 :: rat) powi 0 < 2 powi (f64_exponent q + 1)" using b(2) 3 by simp
    then have e: "0 \<le> f64_exponent q" using power_int_increasing [of "f64_exponent q + 1" 0 "2 :: rat"] by linarith
    have s: "(2 :: rat) powi f64_exponent q = 2 ^ 52 * ?u" by (simp add: power_int_diff)
    then have "of_int (2 ^ 52) \<le> q / ?u" using b(1) 3 by (simp add: le_divide_eq)
    then have "of_int (2 ^ 52) - 1 / 2 \<le> q / ?u" by linarith
    then have "2 ^ 52 \<le> round_half_even (q / ?u)" by (subst round_half_even_ge) simp_all
    then have "of_int (2 ^ 52) \<le> (of_int (round_half_even (q / ?u)) :: rat)" by (simp only: of_int_le_iff)
    then have "2 ^ 52 * ?u \<le> of_int (round_half_even (q / ?u)) * ?u" by (intro mult_right_mono) simp_all
    moreover have "f64_round q = of_int (round_half_even (q / ?u)) * ?u"
      using 3 by (simp only: f64_round_def Let_def split: if_split) simp
    moreover have "(1 :: rat) \<le> 2 powi f64_exponent q" using power_int_increasing [OF e, of "2 :: rat"] by simp
    ultimately have "1 \<le> f64_round q" using s by linarith
    with 3 show ?thesis by simp
  qed
qed

end
