(* ===== verification/Hw_Input_State.thy ===== *)
theory Hw_Input_State
  imports Hw_Wire_Codec T1_Float
begin

section \<open>Touch input: scaling, coalescing and normalisation\<close>

text \<open>
  Models the scaling half of \<^verbatim>\<open>crates/t1-touchbar-hw/src/digitizer.rs\<close>, all of
  \<^verbatim>\<open>input_state.rs\<close>, and \<^verbatim>\<open>normalize_input\<close> and \<^verbatim>\<open>rounded_coordinate\<close> of \<^verbatim>\<open>service.rs\<close>.
  The source scales in \<^verbatim>\<open>f64\<close>. Every double that occurs is a nonnegative value in the
  normal range (the operands are at most \<open>2\<^sup>3\<^sup>2\<close>, a nonzero quotient is at least \<open>2\<^sup>-\<^sup>1\<^sup>5\<close>), so a double is the
  rational it denotes and an operation is the exact one followed by rounding to 53 significant bits,
  ties to even.
\<close>

subsection \<open>Scaling\<close>

record display_contact =
  dc_id :: u8
  dc_x :: f64
  dc_y :: f64
  dc_tip :: bool
  dc_in_range :: bool

definition scale_contact :: "display_dimensions \<Rightarrow> raw_contact \<Rightarrow> display_contact" where
  "scale_contact dimensions c =
     \<lparr>dc_id = rc_id c,
      dc_x = f64_div (f64_mul (f64_from (rc_x c)) (f64_from (dd_width dimensions - 1))) (f64_from RAW_X_MAX),
      dc_y = f64_div (f64_mul (f64_from (rc_y c)) (f64_from (dd_height dimensions - 1))) (f64_from RAW_Y_MAX),
      dc_tip = rc_tip c, dc_in_range = rc_in_range c\<rparr>"

definition scaled_contacts :: "digitizer_report \<Rightarrow> display_dimensions \<Rightarrow> display_contact list" where
  "scaled_contacts report dimensions = map (scale_contact dimensions) (report_contacts report)"

definition rounded_coordinate :: "f64 \<Rightarrow> u32 \<Rightarrow> u32" where
  "rounded_coordinate v maximum = f64_to_u32 (f64_clamp 0 (f64_from maximum) (of_int (round v)))"

subsection \<open>Input state\<close>

record input_frame =
  if_timestamp :: nat
  if_fn_pressed :: bool
  if_contacts :: "display_contact list"

record input_state =
  is_dimensions :: display_dimensions
  is_fn_pressed :: bool
  is_contacts :: "display_contact list"

definition input_state_new :: "display_dimensions \<Rightarrow> bool \<Rightarrow> input_state" where
  "input_state_new dimensions initial_fn_pressed =
     \<lparr>is_dimensions = dimensions, is_fn_pressed = initial_fn_pressed, is_contacts = []\<rparr>"

definition input_frame_of :: "nat \<Rightarrow> input_state \<Rightarrow> input_frame" where
  "input_frame_of timestamp s =
     \<lparr>if_timestamp = timestamp, if_fn_pressed = is_fn_pressed s, if_contacts = is_contacts s\<rparr>"

definition ingest_touch :: "nat \<Rightarrow> digitizer_report \<Rightarrow> input_state \<Rightarrow> input_frame \<times> input_state" where
  "ingest_touch timestamp report s =
     (let s' = s\<lparr>is_contacts := scaled_contacts report (is_dimensions s)\<rparr> in
      (input_frame_of timestamp s', s'))"

definition set_fn_pressed :: "nat \<Rightarrow> bool \<Rightarrow> input_state \<Rightarrow> input_frame option \<times> input_state" where
  "set_fn_pressed timestamp fn_pressed s =
     (if is_fn_pressed s = fn_pressed then (None, s)
      else let s' = s\<lparr>is_fn_pressed := fn_pressed\<rparr> in (Some (input_frame_of timestamp s'), s'))"

definition touch_idle :: "nat \<Rightarrow> input_state \<Rightarrow> input_frame option \<times> input_state" where
  "touch_idle timestamp s =
     (if is_contacts s = [] then (None, s)
      else let s' = s\<lparr>is_contacts := []\<rparr> in (Some (input_frame_of timestamp s'), s'))"

definition normalize_contact :: "u32 \<Rightarrow> u32 \<Rightarrow> display_contact \<Rightarrow> input_contact" where
  "normalize_contact max_x max_y c =
     \<lparr>ic_id = dc_id c, ic_tip = dc_tip c, ic_in_range = dc_in_range c,
      ic_x = rounded_coordinate (dc_x c) max_x, ic_y = rounded_coordinate (dc_y c) max_y\<rparr>"

definition normalize_input :: "input_frame \<Rightarrow> display_dimensions \<Rightarrow> wire_input_frame" where
  "normalize_input frame dimensions =
     (let max_x = dd_width dimensions - 1; max_y = dd_height dimensions - 1 in
      \<lparr>wif_monotonic_ns = (if if_timestamp frame < 2 ^ 64 then word_of_nat (if_timestamp frame) else - 1),
       wif_fn_pressed = if_fn_pressed frame,
       wif_contacts = map (normalize_contact max_x max_y) (if_contacts frame)\<rparr>)"

subsection \<open>The rounded coordinate\<close>

text \<open>
  A quotient by an odd number is never close to a half, so one correctly rounded division followed by
  rounding gives the integer nearest to the exact quotient.
\<close>

lemma round_stable:
  assumes "odd d" and d: "d \<le> 32767" and n: "n \<le> d * 2 ^ 32"
  shows "round (f64_round (rat_of_nat n / rat_of_nat d)) = int ((2 * n + d) div (2 * d))"
proof -
  let ?q = "rat_of_nat n / rat_of_nat d" and ?k = "(2 * n + d) div (2 * d)"
  let ?r = "(2 * n + d) mod (2 * d)"
  have pos: "0 < d" using assms(1) by (cases d) auto
  have sum: "2 * n + d = 2 * d * ?k + ?r" by simp
  have "odd (2 * n + d)" using assms(1) by simp
  then have "?r \<noteq> 0" by (metis add.right_neutral dvd_mult2 dvd_triv_left sum)
  moreover have "?r < 2 * d" using pos by simp
  ultimately have r: "1 \<le> rat_of_nat ?r" "rat_of_nat ?r \<le> rat_of_nat (2 * d) - 1"
    by (simp_all add: of_nat_diff [symmetric] del: of_nat_mod)
  have "?q + 1 / 2 = rat_of_nat (2 * n + d) / rat_of_nat (2 * d)" using pos by (simp add: field_simps)
  also have "\<dots> = of_nat ?k + rat_of_nat ?r / rat_of_nat (2 * d)"
    using pos by (subst sum) (simp add: field_simps del: of_nat_mod)
  finally have q: "?q + 1 / 2 = of_nat ?k + rat_of_nat ?r / rat_of_nat (2 * d)" .
  have "rat_of_nat n \<le> rat_of_nat (d * 2 ^ 32)" using n by (simp only: of_nat_le_iff)
  then have "?q \<le> 2 ^ 32" using pos by (simp add: pos_divide_le_eq mult.commute)
  then have "\<bar>f64_round ?q - ?q\<bar> \<le> 2 ^ 32 / 2 ^ 53"
    using f64_round_error [of ?q] by (simp add: field_simps)
  moreover have "rat_of_nat (2 * d) \<le> 65534" using d by simp
  then have "1 / 65534 \<le> 1 / rat_of_nat (2 * d)" using pos by (intro divide_left_mono) auto
  ultimately have close: "\<bar>f64_round ?q - ?q\<bar> < 1 / rat_of_nat (2 * d)" by simp
  have "1 / rat_of_nat (2 * d) \<le> rat_of_nat ?r / rat_of_nat (2 * d)"
    "rat_of_nat ?r / rat_of_nat (2 * d) \<le> 1 - 1 / rat_of_nat (2 * d)"
    using r pos by (simp_all add: divide_right_mono field_simps)
  then have "\<lfloor>f64_round ?q + 1 / 2\<rfloor> = int ?k"
    using close q unfolding floor_eq_iff by simp linarith
  then show ?thesis by (simp add: round_def)
qed

lemma rounded_coordinate_eq:
  assumes "round v = int k" and "k \<le> unat m"
  shows "unat (rounded_coordinate v m) = k"
proof -
  have m: "unat m < 2 ^ 32" using unsigned_less [of m] by simp
  from assms have "f64_clamp 0 (f64_from m) (of_int (round v)) = of_nat k"
    by (simp add: f64_clamp_def f64_from_def del: of_nat_unat)
  moreover have "max 0 (min (2 ^ 32 - 1) (int k)) = int k" using assms(2) m by simp
  ultimately have "rounded_coordinate v m = word_of_nat k"
    by (simp add: rounded_coordinate_def f64_to_u32_def)
  then show ?thesis using assms(2) m by (simp add: unat_of_nat take_bit_nat_eq_self)
qed

text \<open>Whatever the value, the clamp keeps the coordinate within the display.\<close>

lemma rounded_coordinate_le: "rounded_coordinate v m \<le> m"
proof -
  have m: "unat m < 2 ^ 32" using unsigned_less [of m] by simp
  let ?c = "f64_clamp 0 (f64_from m) (of_int (round v))"
  have c: "0 \<le> ?c" "?c \<le> of_nat (unat m)" by (auto simp: f64_clamp_def f64_from_def simp del: of_nat_unat)
  then have "\<lfloor>?c\<rfloor> \<le> int (unat m)" "0 \<le> \<lfloor>?c\<rfloor>" using floor_mono [OF c(2)]
    by (simp_all del: of_nat_unat)
  then obtain k where k: "\<lfloor>?c\<rfloor> = int k" "k \<le> unat m" by (metis nonneg_int_cases of_nat_le_iff)
  then have "max 0 (min (2 ^ 32 - 1) (int k)) = int k" using m by simp
  then have "rounded_coordinate v m = word_of_nat k"
    by (simp add: rounded_coordinate_def f64_to_u32_def k)
  then show ?thesis using k m by (simp add: word_le_nat_alt unat_of_nat take_bit_nat_eq_self)
qed

lemma scaled_axis:
  assumes "odd d" and "d \<le> 32767" and "unat (x :: 'a::len word) \<le> d" and "unat (r :: 'b::len word) = d"
  shows "unat (rounded_coordinate (f64_div (f64_mul (f64_from x) (f64_from m)) (f64_from r)) m)
      = (2 * (unat x * unat m) + d) div (2 * d)"
proof -
  have m: "unat m < 2 ^ 32" using unsigned_less [of m] by simp
  let ?n = "unat x * unat m"
  have n: "?n \<le> d * unat m" using assms(3) by simp
  also have "\<dots> \<le> d * 2 ^ 32" using m by simp
  finally have n32: "?n \<le> d * 2 ^ 32" .
  also have "\<dots> < 2 ^ 53" using assms(2) by simp
  finally have "f64_mul (f64_from x) (f64_from m) = of_nat ?n"
    using f64_round_nat [of ?n] by (simp add: f64_mul_def f64_from_def)
  then have round: "round (f64_div (f64_mul (f64_from x) (f64_from m)) (f64_from r)) = int ((2 * ?n + d) div (2 * d))"
    using round_stable [OF assms(1,2) n32] assms(4) by (simp add: f64_div_def f64_from_def)
  have "(2 * ?n + d) div (2 * d) \<le> (2 * d * unat m + d) div (2 * d)"
    using n by (intro div_le_mono) simp
  moreover have "(d + unat m * (2 * d)) div (2 * d) = unat m"
    using assms(1) by (subst div_mult_self1) (auto intro: Nat.gr0I)
  ultimately have "(2 * ?n + d) div (2 * d) \<le> unat m" by (simp add: ac_simps)
  with round show ?thesis by (rule rounded_coordinate_eq)
qed

lemma unat_pred: "w \<noteq> 0 \<Longrightarrow> unat (w - 1) = unat w - 1" for w :: "'a::len word"
  by (simp add: unat_minus_one)

lemma lt_of_le_pred: "w \<noteq> 0 \<Longrightarrow> x \<le> w - 1 \<Longrightarrow> x < w" for w :: u32
  using unat_gt_0 [of w] by (simp add: word_le_nat_alt word_less_nat_alt unat_pred)

subsection \<open>Frames the service sends\<close>

definition input_frame_ok :: "input_frame \<Rightarrow> bool" where
  "input_frame_ok f \<longleftrightarrow> length (if_contacts f) \<le> 10 \<and> (\<forall>c \<in> set (if_contacts f). unat (dc_id c) < 16)
     \<and> distinct (map dc_id (if_contacts f))"

definition input_state_ok :: "input_state \<Rightarrow> bool" where
  "input_state_ok s \<longleftrightarrow> input_frame_ok (input_frame_of 0 s)"

text \<open>A normalised frame always passes the checks of the wire encoder.\<close>

lemma normalize_input_valid:
  assumes "input_frame_ok f" and "dd_width d \<noteq> 0" and "dd_height d \<noteq> 0"
  shows "length (wif_contacts (normalize_input f d)) \<le> 10"
    and "c \<in> set (wif_contacts (normalize_input f d)) \<Longrightarrow>
      unat (ic_id c) < 16 \<and> ic_x c < dd_width d \<and> ic_y c < dd_height d"
    and "distinct (map ic_id (wif_contacts (normalize_input f d)))"
  using assms
  by (auto simp: normalize_input_def normalize_contact_def input_frame_ok_def Let_def comp_def
      intro!: lt_of_le_pred rounded_coordinate_le)

lemma parsed_report_ok:
  assumes "parse_digitizer_payload payload = Inr r"
  shows "length (report_contacts r) \<le> 10" and "c \<in> set (report_contacts r) \<Longrightarrow> raw_contact_ok c"
    and "distinct (map rc_id (report_contacts r))"
proof -
  from assms obtain parsed where p: "map parse_slot (chunks 4 (take 40 payload)) = map Inr parsed"
    "report_contacts r = filter rc_active parsed"
    "distinct (map (\<lambda>c. unat (rc_id c)) (report_contacts r))"
    using parse_digitizer_payload_spec by blast
  have "length parsed = length (chunks 4 (take 40 payload))" using p(1) by (metis length_map)
  also have "\<dots> \<le> 10" by (simp add: length_chunks)
  finally show "length (report_contacts r) \<le> 10"
    using p(2) by (metis length_filter_le le_trans)
  show "c \<in> set (report_contacts r) \<Longrightarrow> raw_contact_ok c"
    using digitizer_contacts_ok [OF assms] by blast
  have "map (\<lambda>c. unat (rc_id c)) (report_contacts r) = map unat (map rc_id (report_contacts r))" by simp
  with p(3) show "distinct (map rc_id (report_contacts r))" by (simp only: distinct_map)
qed

lemma ingest_touch_ok:
  assumes "parse_digitizer_payload payload = Inr r" and "ingest_touch t r s = (f, s')"
  shows "input_frame_ok f" and "input_state_ok s'" and "is_dimensions s' = is_dimensions s"
  using assms parsed_report_ok [OF assms(1)]
  by (auto simp: ingest_touch_def input_state_ok_def input_frame_ok_def input_frame_of_def Let_def
      scaled_contacts_def scale_contact_def raw_contact_ok_def comp_def)

lemma set_fn_pressed_ok:
  assumes "input_state_ok s" and "set_fn_pressed t b s = (fo, s')"
  shows "input_state_ok s'" and "is_dimensions s' = is_dimensions s" and "fo = Some f \<Longrightarrow> input_frame_ok f"
  using assms
  by (auto simp: set_fn_pressed_def input_state_ok_def input_frame_ok_def input_frame_of_def Let_def
      split: if_splits)

lemma touch_idle_ok:
  assumes "input_state_ok s" and "touch_idle t s = (fo, s')"
  shows "input_state_ok s'" and "is_dimensions s' = is_dimensions s" and "is_contacts s' = []"
  using assms
  by (auto simp: touch_idle_def input_state_ok_def input_frame_ok_def input_frame_of_def Let_def
      split: if_splits)

lemma input_state_new_ok [simp]: "input_state_ok (input_state_new d b)"
  by (simp add: input_state_new_def input_state_ok_def input_frame_ok_def input_frame_of_def)

subsection \<open>Properties\<close>

text \<open>
  C24. The coordinate the renderer receives for a raw contact, computed by the service in double
  precision, is the display pixel nearest to the exact ratio (the raw range mapped linearly onto
  \<open>0..width-1\<close> and \<open>0..height-1\<close>): no rounding error of the floating-point arithmetic reaches the wire.
\<close>

theorem scaled_coordinate_exact:
  assumes "raw_contact_ok c" and "dd_width d \<noteq> 0" and "dd_height d \<noteq> 0"
    and "n = normalize_contact (dd_width d - 1) (dd_height d - 1) (scale_contact d c)"
  shows "unat (ic_x n) = (2 * (unat (rc_x c) * (unat (dd_width d) - 1)) + 32767) div (2 * 32767)
    \<and> unat (ic_y n) = (2 * (unat (rc_y c) * (unat (dd_height d) - 1)) + 127) div (2 * 127)
    \<and> ic_x n < dd_width d \<and> ic_y n < dd_height d"
  using assms scaled_axis [of 32767 "rc_x c" RAW_X_MAX "dd_width d - 1"]
    scaled_axis [of 127 "rc_y c" RAW_Y_MAX "dd_height d - 1"]
  by (simp add: normalize_contact_def scale_contact_def raw_contact_ok_def unat_pred
      lt_of_le_pred rounded_coordinate_le)

theorem scaled_coordinate_exact_witness:
  "unat (ic_x (normalize_contact 2169 59 (scale_contact \<lparr>dd_width = 2170, dd_height = 60\<rparr>
      \<lparr>rc_id = 0, rc_x = 32767, rc_y = 64, rc_tip = True, rc_in_range = True\<rparr>))) = 2169"
  using scaled_coordinate_exact [of "\<lparr>rc_id = 0, rc_x = 32767, rc_y = 64, rc_tip = True, rc_in_range = True\<rparr>"
      "\<lparr>dd_width = 2170, dd_height = 60\<rparr>", OF _ _ _ refl]
  by (simp add: raw_contact_ok_def)

lemma encode_input_frame_ok:
  assumes "validate_input_frame g d = Inr ()"
  shows "\<exists>bs. encode_service \<lparr>env_request_id = 0, env_message = SInputFrame g\<rparr> (Some d) = Inr bs"
proof -
  have "length (wif_contacts g) \<le> 10"
    using assms by (auto simp: validate_input_frame_def split: if_splits)
  then show ?thesis
    using assms by (simp add: sent_message_defs length_concat_map)
qed

lemma normalized_frame_encodable:
  assumes "input_frame_ok f" and "dd_width d \<noteq> 0" and "dd_height d \<noteq> 0"
  shows "\<exists>bs. encode_service \<lparr>env_request_id = 0,
      env_message = SInputFrame (normalize_input f d)\<rparr> (Some d) = Inr bs"
proof (rule encode_input_frame_ok)
  show "validate_input_frame (normalize_input f d) d = Inr ()"
    using normalize_input_valid [OF assms] distinct_map_filter [of ic_id "wif_contacts (normalize_input f d)"]
    by (simp add: validate_input_frame_def validate_contacts_iff)
qed

text \<open>
  C30. Every digitizer report the parser accepts becomes an input frame the wire encoder accepts,
  whatever the time stamp: no touch report is lost to a validation failure.
\<close>

theorem touch_reports_encodable:
  assumes "parse_digitizer_payload payload = Inr r" and "ingest_touch t r s = (f, s')"
    and "dd_width d \<noteq> 0" and "dd_height d \<noteq> 0"
  shows "\<exists>bs. encode_service \<lparr>env_request_id = 0,
      env_message = SInputFrame (normalize_input f d)\<rparr> (Some d) = Inr bs"
  using ingest_touch_ok [OF assms(1,2)] assms(3,4) by (intro normalized_frame_encodable)

theorem touch_reports_encodable_witness:
  "\<exists>f bs. encode_service \<lparr>env_request_id = 0,
      env_message = SInputFrame (normalize_input f \<lparr>dd_width = 2170, dd_height = 60\<rparr>)\<rparr>
      (Some \<lparr>dd_width = 2170, dd_height = 60\<rparr>) = Inr bs"
proof -
  let ?d = "\<lparr>dd_width = 2170, dd_height = 60\<rparr>"
  have "parse_digitizer_payload ([0x13, 1, 2, 5] @ replicate 48 0) =
      Inr \<lparr>report_contacts = [\<lparr>rc_id = 3, rc_x = 0x0201, rc_y = 5, rc_tip = True, rc_in_range = False\<rparr>]\<rparr>"
    by code_simp
  from touch_reports_encodable [OF this surjective_pairing, of ?d 0 "input_state_new ?d False"]
  show ?thesis by auto
qed

end
