(* ===== verification/Hw_Brightness.thy ===== *)
theory Hw_Brightness
  imports Hw_Wire
begin

section \<open>Brightness controls\<close>

text \<open>
  Models \<^verbatim>\<open>crates/t1-platform/src/system_brightness.rs\<close> (the two optional brightness classes, their
  discovery by name, percentages and sixteenth steps) and \<^verbatim>\<open>HardwareActions\<close> of
  \<^verbatim>\<open>crates/t1-touchbar-hw/src/service.rs\<close> (rate limit and dispatch). Directory listings, attribute
  reads, the clock and the logind call are inputs: their results are arguments. An
  instant is a number of nanoseconds.
\<close>

datatype brightness_kind = BDisplay | BKeyboard

datatype brightness_error = BUnavailable | BAmbiguous | BInvalidAttribute | BIo

definition BRIGHTNESS_STEPS :: u32 where
  [simp]: "BRIGHTNESS_STEPS = 16"

definition KEYBOARD_BACKLIGHT_FUNCTION :: string where
  "KEYBOARD_BACKLIGHT_FUNCTION = ''kbd_backlight''"

record brightness_device =
  bd_name :: string
  bd_maximum :: u32

record brightness_setting =
  bs_kind :: brightness_kind
  bs_device_name :: string
  bs_value :: u32

record brightness_controls =
  bc_display :: "brightness_device option"
  bc_keyboard :: "brightness_device option"

subsection \<open>Discovery\<close>

text \<open>\<^verbatim>\<open>rsplit_once(':')\<close>: the text after the last colon, if there is one.\<close>

definition after_last_colon :: "string \<Rightarrow> string option" where
  "after_last_colon name =
     (if CHR '':'' \<in> set name then Some (rev (takeWhile (\<lambda>c. c \<noteq> CHR '':'') (rev name))) else None)"

definition is_keyboard_backlight :: "string \<Rightarrow> bool" where
  "is_keyboard_backlight name \<longleftrightarrow> name = KEYBOARD_BACKLIGHT_FUNCTION
     \<or> (case after_last_colon name of None \<Rightarrow> False | Some f \<Rightarrow> f = KEYBOARD_BACKLIGHT_FUNCTION)"

text \<open>
  The entries of a class directory as the listing yields them: an I/O error, a name that is not UTF-8
  (\<open>None\<close>), or a name. The loop keeps the one candidate it has seen.
\<close>

fun discover_candidate ::
  "(string \<Rightarrow> bool) \<Rightarrow> (unit + string option) list \<Rightarrow> string option \<Rightarrow> brightness_error + string option" where
  "discover_candidate accepts [] candidate = Inr candidate"
| "discover_candidate accepts (Inl _ # entries) candidate = Inl BIo"
| "discover_candidate accepts (Inr None # entries) candidate = discover_candidate accepts entries candidate"
| "discover_candidate accepts (Inr (Some name) # entries) candidate =
     (if take 1 name = ''.'' \<or> \<not> accepts name then discover_candidate accepts entries candidate
      else if candidate \<noteq> None then Inl BAmbiguous
      else discover_candidate accepts entries (Some name))"

definition read_maximum :: "brightness_error + u32 \<Rightarrow> brightness_error + u32" where
  "read_maximum attribute = rbind attribute (\<lambda>m. if m = 0 then Inl BInvalidAttribute else Inr m)"

text \<open>
  \<open>opened\<close> is what opening the device directory yields for a name: the \<^verbatim>\<open>max_brightness\<close> attribute and
  whether \<^verbatim>\<open>brightness\<close> opens as a regular file.
\<close>

definition open_device ::
  "(string \<Rightarrow> (brightness_error + u32) \<times> (brightness_error + bool)) \<Rightarrow> string
    \<Rightarrow> brightness_error + brightness_device" where
  "open_device opened name =
     rbind (read_maximum (fst (opened name))) (\<lambda>m.
     rbind (snd (opened name)) (\<lambda>is_file.
       if \<not> is_file then Inl BInvalidAttribute
       else Inr \<lparr>bd_name = name, bd_maximum = m\<rparr>))"

definition discover_unique ::
  "(string \<Rightarrow> (brightness_error + u32) \<times> (brightness_error + bool)) \<Rightarrow> (string \<Rightarrow> bool)
    \<Rightarrow> (unit + (unit + string option) list) \<Rightarrow> brightness_error + brightness_device" where
  "discover_unique opened accepts listing =
     rbind (map_err (\<lambda>_. BUnavailable) listing) (\<lambda>entries.
     rbind (discover_candidate accepts entries None) (\<lambda>candidate.
     rbind (ok_or candidate BUnavailable) (open_device opened)))"

definition ok :: "'e + 'a \<Rightarrow> 'a option" where
  "ok r = (case r of Inl _ \<Rightarrow> None | Inr x \<Rightarrow> Some x)"

definition discover_in where
  "discover_in opened_display displays opened_led leds =
     \<lparr>bc_display = ok (discover_unique opened_display (\<lambda>_. True) displays),
      bc_keyboard = ok (discover_unique opened_led is_keyboard_backlight leds)\<rparr>"

subsection \<open>Settings\<close>

fun brightness_device_of :: "brightness_controls \<Rightarrow> brightness_kind \<Rightarrow> brightness_device option" where
  "brightness_device_of controls BDisplay = bc_display controls"
| "brightness_device_of controls BKeyboard = bc_keyboard controls"

definition brightness_available :: "brightness_controls \<Rightarrow> brightness_kind \<Rightarrow> bool" where
  "brightness_available controls kind \<longleftrightarrow> brightness_device_of controls kind \<noteq> None"

definition setting ::
  "brightness_controls \<Rightarrow> brightness_kind \<Rightarrow> u8 \<Rightarrow> brightness_error + brightness_setting" where
  "setting controls kind percentage =
     (if percentage > 100 then Inl BInvalidAttribute
      else rbind (ok_or (brightness_device_of controls kind) BUnavailable) (\<lambda>device.
        let v = ((ucast (bd_maximum device) :: u64) * ucast percentage + 50) div 100 in
        if v \<ge> 2 ^ 32 then Inl BInvalidAttribute
        else Inr \<lparr>bs_kind = kind, bs_device_name = bd_name device, bs_value = ucast v\<rparr>))"

definition saturating_add :: "u32 \<Rightarrow> u32 \<Rightarrow> u32" where
  "saturating_add a b = (if unat a + unat b < 2 ^ 32 then a + b else - 1)"

definition saturating_sub :: "u32 \<Rightarrow> u32 \<Rightarrow> u32" where
  "saturating_sub a b = (if b \<le> a then a - b else 0)"

definition div_ceil :: "u32 \<Rightarrow> u32 \<Rightarrow> u32" where
  "div_ceil a b = (if a mod b = 0 then a div b else a div b + 1)"

definition step_setting ::
  "brightness_controls \<Rightarrow> brightness_kind \<Rightarrow> step_direction \<Rightarrow> (string \<Rightarrow> brightness_error + u32)
    \<Rightarrow> brightness_error + brightness_setting" where
  "step_setting controls kind direction read_attribute =
     rbind (ok_or (brightness_device_of controls kind) BUnavailable) (\<lambda>device.
     rbind (read_attribute (bd_name device)) (\<lambda>current.
       if current > bd_maximum device then Inl BInvalidAttribute
       else let step = max (div_ceil (bd_maximum device) BRIGHTNESS_STEPS) 1;
                v = (case direction of
                       Down \<Rightarrow> saturating_sub current step
                     | Up \<Rightarrow> min (saturating_add current step) (bd_maximum device)) in
         Inr \<lparr>bs_kind = kind, bs_device_name = bd_name device, bs_value = v\<rparr>))"

fun brightness_disable :: "brightness_kind \<Rightarrow> brightness_controls \<Rightarrow> brightness_controls" where
  "brightness_disable BDisplay controls = controls\<lparr>bc_display := None\<rparr>"
| "brightness_disable BKeyboard controls = controls\<lparr>bc_keyboard := None\<rparr>"

subsection \<open>Hardware actions\<close>

definition BRIGHTNESS_ACTION_INTERVAL :: nat where
  [simp]: "BRIGHTNESS_ACTION_INTERVAL = 20000000"

definition BASE_SERVICE_FEATURES :: feature_bits where
  "BASE_SERVICE_FEATURES = INITIAL_SERVICE OR TOUCH_ID_CANCELLATION"

record hardware_actions =
  ha_brightness :: brightness_controls
  ha_display_last :: "nat option"
  ha_keyboard_last :: "nat option"

definition actions_discover :: "brightness_controls \<Rightarrow> hardware_actions" where
  "actions_discover controls =
     \<lparr>ha_brightness = controls, ha_display_last = None, ha_keyboard_last = None\<rparr>"

definition actions_features :: "hardware_actions \<Rightarrow> feature_bits" where
  "actions_features a =
     (let bits = BASE_SERVICE_FEATURES;
          bits = (if brightness_available (ha_brightness a) BDisplay
                  then bits OR DISPLAY_BRIGHTNESS else bits) in
      if brightness_available (ha_brightness a) BKeyboard then bits OR KEYBOARD_BACKLIGHT else bits)"

fun ha_last :: "brightness_kind \<Rightarrow> hardware_actions \<Rightarrow> nat option" where
  "ha_last BDisplay a = ha_display_last a"
| "ha_last BKeyboard a = ha_keyboard_last a"

fun set_ha_last :: "brightness_kind \<Rightarrow> nat \<Rightarrow> hardware_actions \<Rightarrow> hardware_actions" where
  "set_ha_last BDisplay now a = a\<lparr>ha_display_last := Some now\<rparr>"
| "set_ha_last BKeyboard now a = a\<lparr>ha_keyboard_last := Some now\<rparr>"

text \<open>
  The two actions share everything but how the setting is computed; the clock and the logind
  write are the arguments \<open>now\<close> and \<open>session\<close>, which read and change the outside world \<open>w\<close>.
\<close>

definition brightness_action ::
  "(brightness_controls \<Rightarrow> 'w \<Rightarrow> brightness_error + brightness_setting) \<Rightarrow> ('w \<Rightarrow> nat \<times> 'w)
    \<Rightarrow> (brightness_kind \<Rightarrow> string \<Rightarrow> u32 \<Rightarrow> 'w \<Rightarrow> bool \<times> 'w) \<Rightarrow> brightness_kind
    \<Rightarrow> hardware_actions \<Rightarrow> 'w \<Rightarrow> service_message \<times> hardware_actions \<times> 'w" where
  "brightness_action compute now session kind a w =
     (if \<not> brightness_available (ha_brightness a) kind then (SError UnsupportedFeature, a, w)
      else let (t, w) = now w in
        if (case ha_last kind a of None \<Rightarrow> False | Some previous \<Rightarrow> t - previous < BRIGHTNESS_ACTION_INTERVAL)
        then (SError ResourceLimit, a, w)
        else let a = set_ha_last kind t a in
          case compute (ha_brightness a) w of
            Inl e \<Rightarrow> (SError IoFailure, a, w)
          | Inr s \<Rightarrow>
              let (written, w) = session (bs_kind s) (bs_device_name s) (bs_value s) w in
              if written then (SAck, a, w)
              else (SError IoFailure, a\<lparr>ha_brightness := brightness_disable kind (ha_brightness a)\<rparr>, w))"

definition set_brightness where
  "set_brightness now session kind percentage =
     brightness_action (\<lambda>controls w. setting controls kind percentage) now session kind"

definition step_brightness where
  "step_brightness now session read_attribute kind direction =
     brightness_action (\<lambda>controls w. step_setting controls kind direction (read_attribute w)) now session kind"

subsection \<open>Values written\<close>

lemma setting_value:
  assumes "brightness_device_of c kind = Some d" and "p \<le> 100"
  shows "\<exists>s. setting c kind p = Inr s \<and> bs_kind s = kind \<and> bs_device_name s = bd_name d
    \<and> unat (bs_value s) = (unat (bd_maximum d) * unat p + 50) div 100 \<and> bs_value s \<le> bd_maximum d"
proof -
  let ?m = "ucast (bd_maximum d) :: u64" and ?p = "ucast p :: u64"
  have m: "unat ?m = unat (bd_maximum d)" and p: "unat ?p = unat p" by (simp_all add: unat_ucast_widen)
  have m32: "unat (bd_maximum d) < 2 ^ 32" using unsigned_less [of "bd_maximum d"] by simp
  have p100: "unat p \<le> 100" using assms(2) by (simp add: word_le_nat_alt)
  then have prod: "unat (bd_maximum d) * unat p \<le> unat (bd_maximum d) * 100" by simp
  then have small: "unat (bd_maximum d) * unat p < 2 ^ 40" by (rule le_less_trans) (use m32 in simp)
  have "unat (?m * ?p) = unat ?m * unat ?p"
    using small by (intro unat_mult_lem [THEN iffD1]) (simp add: m p)
  moreover from this have "unat (?m * ?p + 50) = unat (?m * ?p) + 50"
    using small by (simp add: unat_word_ariths m p)
  ultimately have v: "unat ((?m * ?p + 50) div 100) = (unat (bd_maximum d) * unat p + 50) div 100"
    by (simp add: unat_div m p)
  have le: "(unat (bd_maximum d) * unat p + 50) div 100 \<le> unat (bd_maximum d)"
    using mult_le_mono2 [OF p100, of "unat (bd_maximum d)"] by linarith
  with v m32 have "\<not> (?m * ?p + 50) div 100 \<ge> 2 ^ 32" by (simp add: word_le_nat_alt)
  moreover have "unat (ucast ((?m * ?p + 50) div 100) :: u32) = (unat (bd_maximum d) * unat p + 50) div 100"
    using v le m32 by (simp add: unsigned_ucast_eq take_bit_nat_eq_self)
  ultimately show ?thesis
    using assms le by (simp add: setting_def Let_def word_le_nat_alt not_less)
qed

text \<open>One step on natural numbers: a sixteenth of the range rounded up, at least one, clipped to the range.\<close>

definition step_level :: "nat \<Rightarrow> step_direction \<Rightarrow> nat \<Rightarrow> nat" where
  "step_level maximum direction level =
     (let step = max ((maximum + 15) div 16) 1 in
      case direction of Down \<Rightarrow> level - step | Up \<Rightarrow> min (level + step) maximum)"

lemma sixteenth: "(n + 15) div 16 = (if n mod 16 = 0 then n div 16 else n div 16 + 1)" for n :: nat
proof (cases "n mod 16 = 0")
  case True
  then obtain q where "n = 16 * q" by auto
  then show ?thesis by simp
next
  case False
  then have "16 * (n div 16) + 1 \<le> n" "n < 16 * (n div 16) + 16"
    using mult_div_mod_eq [of 16 n] by linarith+
  then have "(n + 15) div 16 = n div 16 + 1" by (intro div_nat_eqI) simp_all
  with False show ?thesis by simp
qed

lemma unat_div_ceil: "unat (div_ceil m 16) = (unat m + 15) div 16"
proof -
  have m: "unat m < 2 ^ 32" using unsigned_less [of m] by simp
  have quot: "unat (m div 16) = unat m div 16" and rest: "unat (m mod 16) = unat m mod 16"
    by (simp_all add: unat_div unat_mod)
  have "unat (m div 16 + 1) = unat (m div 16) + 1"
    using m by (simp add: unat_word_ariths unat_div)
  moreover have "m mod 16 = 0 \<longleftrightarrow> unat m mod 16 = 0" unfolding rest [symmetric] by (simp add: unat_eq_0)
  ultimately show ?thesis by (simp add: div_ceil_def quot sixteenth)
qed

lemma unat_saturating_sub: "unat (saturating_sub a b) = unat a - unat b"
  by (auto simp: saturating_sub_def unat_sub word_le_nat_alt)

lemma unat_min_saturating_add: "unat (min (saturating_add a b) c) = min (unat a + unat b) (unat c)"
proof (cases "unat a + unat b < 2 ^ 32")
  case True
  then have "unat (a + b) = unat a + unat b" by (simp add: unat_word_ariths)
  with True show ?thesis by (simp add: saturating_add_def min_def word_le_nat_alt)
next
  case False
  have "unat c < 2 ^ 32" using unsigned_less [of c] by simp
  with False show ?thesis by (simp add: saturating_add_def min.absorb2)
qed

lemma step_setting_value:
  assumes "brightness_device_of c kind = Some d" and "read (bd_name d) = Inr current"
    and "current \<le> bd_maximum d"
  shows "\<exists>s. step_setting c kind dir read = Inr s \<and> bs_kind s = kind \<and> bs_device_name s = bd_name d
    \<and> unat (bs_value s) = step_level (unat (bd_maximum d)) dir (unat current)"
proof -
  have "unat (max (div_ceil (bd_maximum d) 16) 1) = max ((unat (bd_maximum d) + 15) div 16) 1"
    by (simp add: max_def word_le_nat_alt unat_div_ceil)
  then show ?thesis
    using assms
    by (cases dir) (simp_all add: step_setting_def step_level_def Let_def not_less
        unat_saturating_sub unat_min_saturating_add)
qed

lemma step_level_range: "level \<le> m \<Longrightarrow> step_level m dir level \<le> m"
  by (cases dir) (auto simp: step_level_def Let_def)

lemma iterate_up: "x \<le> m \<Longrightarrow> ((\<lambda>l. min (l + k) m) ^^ n) x = min (x + n * k) m" for m :: nat
  by (induction n) (auto simp: min_def algebra_simps)

lemma iterate_down: "((\<lambda>l. l - k) ^^ n) x = x - n * k" for x :: nat
  by (induction n) (auto simp: algebra_simps)

lemma step_level_iterate:
  "level \<le> m \<Longrightarrow> (step_level m Up ^^ n) level = min (level + n * max ((m + 15) div 16) 1) m"
  "(step_level m Down ^^ n) level = level - n * max ((m + 15) div 16) 1"
proof -
  have "step_level m Up = (\<lambda>l. min (l + max ((m + 15) div 16) 1) m)"
    "step_level m Down = (\<lambda>l. l - max ((m + 15) div 16) 1)"
    by (simp_all add: step_level_def fun_eq_iff)
  then show "level \<le> m \<Longrightarrow> (step_level m Up ^^ n) level = min (level + n * max ((m + 15) div 16) 1) m"
    "(step_level m Down ^^ n) level = level - n * max ((m + 15) div 16) 1"
    by (simp_all only: iterate_up iterate_down)
qed

lemma sixteen_steps: "m \<le> 16 * max ((m + 15) div 16) 1" for m :: nat
  by linarith

subsection \<open>Properties\<close>

text \<open>
  Setting an available control to a percentage always yields a value, the exact percentage of the
  device's maximum rounded to nearest, and never above the maximum: the 64-bit product does not wrap
  and the conversion back to 32 bits does not fail.
\<close>

theorem brightness_percentage_exact:
  assumes "brightness_device_of c kind = Some d" and "p \<le> 100"
  shows "\<exists>s. setting c kind p = Inr s \<and> bs_kind s = kind \<and> bs_device_name s = bd_name d
    \<and> unat (bs_value s) = (unat (bd_maximum d) * unat p + 50) div 100 \<and> bs_value s \<le> bd_maximum d"
  using assms by (rule setting_value)

theorem brightness_percentage_exact_witness:
  "\<exists>s. setting \<lparr>bc_display = Some \<lparr>bd_name = ''panel'', bd_maximum = 1023\<rparr>, bc_keyboard = None\<rparr> BDisplay 79
      = Inr s \<and> unat (bs_value s) = 808"
  using brightness_percentage_exact [of "\<lparr>bc_display = Some \<lparr>bd_name = ''panel'', bd_maximum = 1023\<rparr>,
      bc_keyboard = None\<rparr>" BDisplay "\<lparr>bd_name = ''panel'', bd_maximum = 1023\<rparr>" 79]
  by auto

text \<open>
  C31. Stepping reads the current level and moves it by a sixteenth of the range: the written value is
  exactly \<open>step_level\<close>, always within the range, and sixteen steps from any level reach the
  maximum or zero.
\<close>

theorem brightness_steps:
  assumes "brightness_device_of c kind = Some d" and "read (bd_name d) = Inr current"
    and "current \<le> bd_maximum d"
  shows "(\<exists>s. step_setting c kind dir read = Inr s \<and> bs_device_name s = bd_name d
      \<and> unat (bs_value s) = step_level (unat (bd_maximum d)) dir (unat current) \<and> bs_value s \<le> bd_maximum d)
    \<and> (step_level (unat (bd_maximum d)) Up ^^ 16) (unat current) = unat (bd_maximum d)
    \<and> (step_level (unat (bd_maximum d)) Down ^^ 16) (unat current) = 0"
proof -
  have "unat current \<le> unat (bd_maximum d)" using assms(3) by (simp add: word_le_nat_alt)
  then have "step_level (unat (bd_maximum d)) dir (unat current) \<le> unat (bd_maximum d)"
    and "(step_level (unat (bd_maximum d)) Up ^^ 16) (unat current) = unat (bd_maximum d)"
    and "(step_level (unat (bd_maximum d)) Down ^^ 16) (unat current) = 0"
    using sixteen_steps [of "unat (bd_maximum d)"] by (simp_all only: step_level_range step_level_iterate)
  with step_setting_value [of c kind d read current dir, OF assms] show ?thesis
    unfolding word_le_nat_alt by metis
qed

theorem brightness_steps_witness:
  "(step_level 100 Up ^^ 16) 3 = 100"
  using brightness_steps [of "\<lparr>bc_display = Some \<lparr>bd_name = ''panel'', bd_maximum = 100\<rparr>,
      bc_keyboard = None\<rparr>" BDisplay "\<lparr>bd_name = ''panel'', bd_maximum = 100\<rparr>" "\<lambda>_. Inr 3" 3 Up]
  by simp

end
