(* ===== verification/Hw_Service.thy ===== *)
theory Hw_Service
  imports Hw_Input_State Hw_Brightness
begin

section \<open>The Touch Bar hardware service\<close>

text \<open>
  Models \<^verbatim>\<open>crates/t1-touchbar-hw/src/service.rs\<close>: one connection with its pending control packet,
  pending input and registered buffers, the request handlers, the after-send actions that present a
  frame and hand its buffer back, revocation, and the body of the service loop.
  Everything the service reads from or does to the machine goes through the \<open>platform\<close> record, one field
  per call of \<^verbatim>\<open>t1-platform\<close>, on a world \<open>'w\<close> of any type; the functions thread that world in
  the order of the source's calls. Diagnostics records are left out: they influence nothing.
  Instants and durations are nanoseconds.
\<close>

subsection \<open>The machine\<close>

datatype touch_bar_key = KEscape | K1 | K2 | K3 | K4 | K5 | K6 | K7 | K8 | K9 | K10 | K11 | K12

datatype 'fd receive_result = Received bytes "'fd option" | ReceiveRetry | ReceiveFailed

datatype send_result = Sent | SendRetry | SendFailed

datatype session_revalidation = Retained | SessionRevoked

datatype digitizer_read = Report bytes | DigitizerIdle

datatype fn_read = FnEdges "bool list" | FnIdle | FnResync

record ready_inputs =
  ri_digitizer :: bool
  ri_function :: bool

record ('w, 'fd, 'fr) platform =
  p_now :: "'w \<Rightarrow> nat \<times> 'w"
  p_receive :: "'w \<Rightarrow> 'fd receive_result \<times> 'w"
  p_send :: "bytes \<Rightarrow> 'w \<Rightarrow> send_result \<times> 'w"
  p_accept_frame :: "'fd \<Rightarrow> u64 \<Rightarrow> 'w \<Rightarrow> 'fr option \<times> 'w"
  p_copy_into :: "'fr \<Rightarrow> bytes \<Rightarrow> 'w \<Rightarrow> bytes option \<times> 'w"
  p_present :: "bytes \<Rightarrow> damage_rectangle list \<Rightarrow> 'w \<Rightarrow> bool \<times> 'w"
  p_tap :: "touch_bar_key \<Rightarrow> 'w \<Rightarrow> bool \<times> 'w"
  p_release_all :: "'w \<Rightarrow> bool \<times> 'w"
  p_cancel :: "'w \<Rightarrow> int \<times> 'w"
  p_read_attribute :: "'w \<Rightarrow> string \<Rightarrow> brightness_error + u32"
  p_session_brightness :: "brightness_kind \<Rightarrow> string \<Rightarrow> u32 \<Rightarrow> 'w \<Rightarrow> bool \<times> 'w"
  p_session_refresh :: "'w \<Rightarrow> session_revalidation option \<times> 'w"
  p_session_admit :: "u32 \<Rightarrow> 'w \<Rightarrow> bool \<times> 'w"
  p_session_release :: "'w \<Rightarrow> 'w"
  p_listener_ready :: "'w \<Rightarrow> bool option \<times> 'w"
  p_listener_accept :: "'w \<Rightarrow> bool \<times> 'w"
  p_peer_user_id :: "'w \<Rightarrow> u32 option \<times> 'w"
  p_peer_in_group :: "'w \<Rightarrow> bool \<times> 'w"
  p_wait_events :: "(bool \<times> bool) option \<Rightarrow> 'w \<Rightarrow> ready_inputs option option \<times> 'w"
  p_digitizer_read :: "'w \<Rightarrow> digitizer_read option \<times> 'w"
  p_fn_read :: "'w \<Rightarrow> fn_read option \<times> 'w"
  p_fn_pressed :: "'w \<Rightarrow> bool option \<times> 'w"

fun platform_key :: "key_code \<Rightarrow> touch_bar_key" where
  "platform_key Escape = KEscape"
| "platform_key F1 = K1"
| "platform_key F2 = K2"
| "platform_key F3 = K3"
| "platform_key F4 = K4"
| "platform_key F5 = K5"
| "platform_key F6 = K6"
| "platform_key F7 = K7"
| "platform_key F8 = K8"
| "platform_key F9 = K9"
| "platform_key F10 = K10"
| "platform_key F11 = K11"
| "platform_key F12 = K12"

subsection \<open>One connection\<close>

datatype service_error =
    SEActivation | SEListener | SEDisplay | SEInput | SEKeyboard | SESession | SEGeometry

datatype after_send =
    AfterNone
  | Establish u16
  | Present u32 u64 "damage_rectangle list"
  | ReleaseAfter u32 u64 bool
  | CloseAfter

record pending_packet =
  pp_bytes :: bytes
  pp_after_send :: after_send

record 'fr connection =
  cn_established :: bool
  cn_negotiated_minor :: "u16 option"
  cn_frames :: "(u32, u64) frame_state"
  cn_buffers :: "(u32 \<times> 'fr) list"
  cn_control :: "pending_packet option"
  cn_input :: "bytes option"
  cn_needs_full_present :: bool

definition connection_new :: "frame_layout \<Rightarrow> 'fr connection" where
  "connection_new layout =
     \<lparr>cn_established = False, cn_negotiated_minor = None, cn_frames = frame_state_new layout,
      cn_buffers = [], cn_control = None, cn_input = None, cn_needs_full_present = True\<rparr>"

definition phase_dimensions :: "'fr connection \<Rightarrow> display_dimensions \<Rightarrow> display_dimensions option" where
  "phase_dimensions c dimensions = (if cn_established c then Some dimensions else None)"

text \<open>A handler that fails leaves the connection as it is at that point; the caller then revokes it.\<close>

definition queue_control ::
  "u32 \<Rightarrow> service_message \<Rightarrow> display_dimensions option \<Rightarrow> after_send \<Rightarrow> 'fr connection
    \<Rightarrow> bool \<times> 'fr connection" where
  "queue_control request_id message dimensions after_send c =
     (case encode_service \<lparr>env_request_id = request_id, env_message = message\<rparr> dimensions of
        Inl e \<Rightarrow> (False, c)
      | Inr bs \<Rightarrow> (True, c\<lparr>cn_control := Some \<lparr>pp_bytes = bs, pp_after_send = after_send\<rparr>\<rparr>))"

definition queue_error ::
  "u32 \<Rightarrow> error_code \<Rightarrow> display_dimensions \<Rightarrow> 'fr connection \<Rightarrow> bool \<times> 'fr connection" where
  "queue_error request_id code dimensions c =
     queue_control request_id (SError code) (phase_dimensions c dimensions) AfterNone c"

definition queue_input :: "input_frame \<Rightarrow> display_dimensions \<Rightarrow> 'fr connection \<Rightarrow> 'fr connection" where
  "queue_input frame dimensions c =
     (if \<not> cn_established c then c
      else case encode_service \<lparr>env_request_id = 0,
                  env_message = SInputFrame (normalize_input frame dimensions)\<rparr> (Some dimensions) of
        Inl e \<Rightarrow> c
      | Inr bs \<Rightarrow> c\<lparr>cn_input := Some bs\<rparr>)"

definition connection_disconnect :: "'fr connection \<Rightarrow> 'fr connection" where
  "connection_disconnect c =
     c\<lparr>cn_frames := fs_disconnect (cn_frames c), cn_buffers := [], cn_control := None, cn_input := None\<rparr>"

fun frame_error_code :: "frame_state_error \<Rightarrow> error_code" where
  "frame_error_code TooManyBuffers = ResourceLimit"
| "frame_error_code UnknownBuffer = EUnknownBuffer"
| "frame_error_code BufferInFlight = BufferBusy"
| "frame_error_code _ = InvalidBuffer"

definition decode_result :: "int \<Rightarrow> unit + bool" where
  "decode_result result = (if result = 0 then Inr True else if result = 1 then Inr False else Inl ())"

definition cancellation_response :: "unit + bool \<Rightarrow> service_message" where
  "cancellation_response result =
     (case result of
        Inr True \<Rightarrow> SAck
      | Inr False \<Rightarrow> SError ActionDenied
      | Inl _ \<Rightarrow> SError IoFailure)"

subsection \<open>Requests\<close>

text \<open>What a request handler reads and changes beside the connection: the actions and the world.\<close>

record ('w, 'fr) request_state =
  rs_conn :: "'fr connection"
  rs_actions :: hardware_actions
  rs_world :: 'w

definition on_conn ::
  "('fr connection \<Rightarrow> bool \<times> 'fr connection) \<Rightarrow> ('w, 'fr) request_state \<Rightarrow> bool \<times> ('w, 'fr) request_state" where
  "on_conn f s = (let (okay, c) = f (rs_conn s) in (okay, s\<lparr>rs_conn := c\<rparr>))"

definition queue_hello ::
  "u32 \<Rightarrow> feature_bits \<Rightarrow> u16 \<Rightarrow> display_dimensions \<Rightarrow> hardware_actions \<Rightarrow> 'fr connection
    \<Rightarrow> bool \<times> 'fr connection" where
  "queue_hello request_id required client_minor dimensions actions c =
     (if \<not> features_contain (actions_features actions) required
      then queue_control request_id (SError UnsupportedFeature) None CloseAfter c
      else let negotiated_minor = min client_minor PROTOCOL_MINOR in
        queue_control request_id
          (SHelloAck \<lparr>ack_minor = negotiated_minor, ack_width = dd_width dimensions,
             ack_height = dd_height dimensions, ack_pixel_format = Xrgb8888, ack_max_buffers = 3\<rparr>)
          None (Establish negotiated_minor) c)"

definition queue_buffer_registration ::
  "('w, 'fd, 'fr) platform \<Rightarrow> u32 \<Rightarrow> display_dimensions \<Rightarrow> frame_layout \<Rightarrow> register_buffer_msg \<Rightarrow> 'fd
    \<Rightarrow> ('w, 'fr) request_state \<Rightarrow> bool \<times> ('w, 'fr) request_state" where
  "queue_buffer_registration P request_id dimensions layout buffer descriptor s =
     (let (frame, w) = p_accept_frame P descriptor (fl_byte_length layout) (rs_world s);
          s = s\<lparr>rs_world := w\<rparr> in
      case frame of
        None \<Rightarrow> on_conn (queue_error request_id InvalidBuffer dimensions) s
      | Some fr \<Rightarrow>
          (case register_buffer (rbm_buffer_id buffer)
                  \<lparr>bm_stride = rbm_stride buffer, bm_byte_length = rbm_byte_length buffer\<rparr>
                  (cn_frames (rs_conn s)) of
             Inr frames \<Rightarrow>
               on_conn (\<lambda>c. queue_control request_id SAck (Some dimensions) AfterNone
                 (c\<lparr>cn_frames := frames, cn_buffers := cn_buffers c @ [(rbm_buffer_id buffer, fr)]\<rparr>)) s
           | Inl error \<Rightarrow> on_conn (queue_error request_id (frame_error_code error) dimensions) s))"

definition queue_frame_submission ::
  "u32 \<Rightarrow> display_dimensions \<Rightarrow> submit_frame_msg \<Rightarrow> 'fr connection \<Rightarrow> bool \<times> 'fr connection" where
  "queue_frame_submission request_id dimensions frame c =
     (case submit_frame (sf_buffer_id frame) (sf_frame_id frame) (sf_damage frame) (cn_frames c) of
        Inr (submission, frames) \<Rightarrow>
          queue_control request_id SAck (Some dimensions)
            (Present (vs_buffer_id submission) (vs_frame_id submission) (vs_damage submission))
            (c\<lparr>cn_frames := frames\<rparr>)
      | Inl error \<Rightarrow> queue_error request_id (frame_error_code error) dimensions c)"

fun tap_keys :: "('w, 'fd, 'fr) platform \<Rightarrow> key_code list \<Rightarrow> 'w \<Rightarrow> bool \<times> 'w" where
  "tap_keys P [] w = (True, w)"
| "tap_keys P (key # keys) w =
     (let (tapped, w) = p_tap P (platform_key key) w in
      if tapped then tap_keys P keys w else (False, w))"

definition handle_tap_keys ::
  "('w, 'fd, 'fr) platform \<Rightarrow> u32 \<Rightarrow> display_dimensions \<Rightarrow> key_code list \<Rightarrow> ('w, 'fr) request_state
    \<Rightarrow> bool \<times> ('w, 'fr) request_state" where
  "handle_tap_keys P request_id dimensions keys s =
     (let (tapped, w) = tap_keys P keys (rs_world s) in
      if tapped
      then on_conn (queue_control request_id SAck (Some dimensions) AfterNone) (s\<lparr>rs_world := w\<rparr>)
      else let (released, w) = p_release_all P w; s = s\<lparr>rs_world := w\<rparr> in
        if \<not> released then (False, s) else on_conn (queue_error request_id IoFailure dimensions) s)"

definition queue_brightness ::
  "('w, 'fd, 'fr) platform \<Rightarrow> u32 \<Rightarrow> display_dimensions \<Rightarrow> brightness_kind \<Rightarrow> percentage
    \<Rightarrow> ('w, 'fr) request_state \<Rightarrow> bool \<times> ('w, 'fr) request_state" where
  "queue_brightness P request_id dimensions kind percentage s =
     (let (message, actions, w) =
            set_brightness (p_now P) (p_session_brightness P) kind percentage (rs_actions s) (rs_world s) in
      on_conn (queue_control request_id message (Some dimensions) AfterNone)
        (s\<lparr>rs_actions := actions, rs_world := w\<rparr>))"

definition queue_brightness_step ::
  "('w, 'fd, 'fr) platform \<Rightarrow> u32 \<Rightarrow> display_dimensions \<Rightarrow> brightness_kind \<Rightarrow> step_direction
    \<Rightarrow> ('w, 'fr) request_state \<Rightarrow> bool \<times> ('w, 'fr) request_state" where
  "queue_brightness_step P request_id dimensions kind direction s =
     (if (case cn_negotiated_minor (rs_conn s) of None \<Rightarrow> 0 | Some minor \<Rightarrow> minor) < 1
      then on_conn (queue_error request_id Unsupported dimensions) s
      else let (message, actions, w) =
             step_brightness (p_now P) (p_session_brightness P) (p_read_attribute P) kind direction
               (rs_actions s) (rs_world s) in
        on_conn (queue_control request_id message (Some dimensions) AfterNone)
          (s\<lparr>rs_actions := actions, rs_world := w\<rparr>))"

definition queue_cancellation ::
  "('w, 'fd, 'fr) platform \<Rightarrow> u32 \<Rightarrow> display_dimensions \<Rightarrow> ('w, 'fr) request_state
    \<Rightarrow> bool \<times> ('w, 'fr) request_state" where
  "queue_cancellation P request_id dimensions s =
     (let (status, w) = p_cancel P (rs_world s) in
      on_conn (queue_control request_id (cancellation_response (decode_result status)) (Some dimensions)
        AfterNone) (s\<lparr>rs_world := w\<rparr>))"

definition handle_request ::
  "('w, 'fd, 'fr) platform \<Rightarrow> display_dimensions \<Rightarrow> frame_layout \<Rightarrow> client_message envelope \<Rightarrow> 'fd option
    \<Rightarrow> ('w, 'fr) request_state \<Rightarrow> bool \<times> ('w, 'fr) request_state" where
  "handle_request P dimensions layout envelope descriptor s =
     (let request_id = env_request_id envelope in
      case env_message envelope of
        CHello hello \<Rightarrow>
          on_conn (queue_hello request_id (hello_required_features hello) (hello_minor hello) dimensions
            (rs_actions s)) s
      | CRegisterBuffer buffer \<Rightarrow>
          (case descriptor of
             None \<Rightarrow> (False, s)
           | Some fd \<Rightarrow> queue_buffer_registration P request_id dimensions layout buffer fd s)
      | CSubmitFrame frame \<Rightarrow> on_conn (queue_frame_submission request_id dimensions frame) s
      | CTapKeys keys \<Rightarrow> handle_tap_keys P request_id dimensions keys s
      | CCancelTouchId \<Rightarrow> queue_cancellation P request_id dimensions s
      | CSetDisplayBrightness percentage \<Rightarrow> queue_brightness P request_id dimensions BDisplay percentage s
      | CSetKeyboardBacklight percentage \<Rightarrow> queue_brightness P request_id dimensions BKeyboard percentage s
      | CStepDisplayBrightness direction \<Rightarrow> queue_brightness_step P request_id dimensions BDisplay direction s
      | CStepKeyboardBacklight direction \<Rightarrow> queue_brightness_step P request_id dimensions BKeyboard direction s
      | CUnknown _ _ \<Rightarrow> on_conn (queue_error request_id Unsupported dimensions) s)"

definition receive_request ::
  "('w, 'fd, 'fr) platform \<Rightarrow> display_dimensions \<Rightarrow> frame_layout \<Rightarrow> ('w, 'fr) request_state
    \<Rightarrow> bool \<times> ('w, 'fr) request_state" where
  "receive_request P dimensions layout s =
     (let (received, w) = p_receive P (rs_world s); s = s\<lparr>rs_world := w\<rparr> in
      case received of
        ReceiveRetry \<Rightarrow> (True, s)
      | ReceiveFailed \<Rightarrow> (False, s)
      | Received bs descriptor \<Rightarrow>
          (case decode_client bs
                  \<lparr>am_rights_descriptor_count = (if descriptor \<noteq> None then 1 else 0),
                   am_control_truncated = False, am_has_other_control = False\<rparr>
                  (phase_dimensions (rs_conn s) dimensions) of
             Inl e \<Rightarrow> (False, s)
           | Inr envelope \<Rightarrow> handle_request P dimensions layout envelope descriptor s))"

subsection \<open>Sending and presenting\<close>

definition full_damage :: "display_dimensions \<Rightarrow> damage_rectangle list" where
  "full_damage dimensions =
     [\<lparr>dr_x = 0, dr_y = 0, dr_width = dd_width dimensions, dr_height = dd_height dimensions\<rparr>]"

text \<open>The new flag and the new damage.\<close>

definition expand_first_present_damage ::
  "bool \<Rightarrow> damage_rectangle list \<Rightarrow> display_dimensions \<Rightarrow> bool \<times> damage_rectangle list" where
  "expand_first_present_damage needs_full_present damage dimensions =
     (False, if needs_full_present then full_damage dimensions else damage)"

text \<open>
  The native damage array has room for \<^verbatim>\<open>MAX_DAMAGE_RECTANGLES\<close>; it is filled from the damage and the
  prefix of the damage's length is presented. The slice would panic for a longer damage, which the
  wire's limit excludes.
\<close>

definition native_damage :: "damage_rectangle list \<Rightarrow> damage_rectangle list" where
  "native_damage damage =
     take (length damage) (take WIRE_MAX_DAMAGE_RECTANGLES damage
       @ replicate (WIRE_MAX_DAMAGE_RECTANGLES - length damage)
           \<lparr>dr_x = 0, dr_y = 0, dr_width = 0, dr_height = 0\<rparr>)"

definition present_buffer ::
  "('w, 'fd, 'fr) platform \<Rightarrow> u32 \<Rightarrow> damage_rectangle list \<Rightarrow> (u32 \<times> 'fr) list \<Rightarrow> bytes \<Rightarrow> 'w
    \<Rightarrow> bool \<times> bytes \<times> 'w" where
  "present_buffer P buffer_id damage buffers snapshot w =
     (case find (\<lambda>b. fst b = buffer_id) buffers of
        None \<Rightarrow> (False, snapshot, w)
      | Some (_, frame) \<Rightarrow>
          let (copied, w) = p_copy_into P frame snapshot w in
          (case copied of
             None \<Rightarrow> (False, snapshot, w)
           | Some snapshot \<Rightarrow>
               let (presented, w) = p_present P snapshot (native_damage damage) w in
               (presented, snapshot, w)))"

definition apply_after_send ::
  "('w, 'fd, 'fr) platform \<Rightarrow> display_dimensions \<Rightarrow> after_send \<Rightarrow> 'fr connection \<Rightarrow> bytes \<Rightarrow> 'w
    \<Rightarrow> bool \<times> 'fr connection \<times> bytes \<times> 'w" where
  "apply_after_send P dimensions action c snapshot w =
     (case action of
        AfterNone \<Rightarrow> (True, c, snapshot, w)
      | Establish minor \<Rightarrow>
          (True, c\<lparr>cn_established := True, cn_negotiated_minor := Some minor\<rparr>, snapshot, w)
      | CloseAfter \<Rightarrow> (False, c, snapshot, w)
      | Present buffer_id frame_id damage \<Rightarrow>
          let (needs_full, damage) = expand_first_present_damage (cn_needs_full_present c) damage dimensions;
              c = c\<lparr>cn_needs_full_present := needs_full\<rparr>;
              (presented, snapshot, w) = present_buffer P buffer_id damage (cn_buffers c) snapshot w;
              (okay, c) = queue_control 0
                (SFrameReleased \<lparr>fr_buffer_id = buffer_id, fr_frame_id = frame_id\<rparr>) (Some dimensions)
                (ReleaseAfter buffer_id frame_id (\<not> presented)) c in
          (okay, c, snapshot, w)
      | ReleaseAfter buffer_id frame_id close_after \<Rightarrow>
          (case release_frame buffer_id frame_id (cn_frames c) of
             Inl e \<Rightarrow> (False, c, snapshot, w)
           | Inr (_, frames) \<Rightarrow> (\<not> close_after, c\<lparr>cn_frames := frames\<rparr>, snapshot, w)))"

definition flush_input ::
  "('w, 'fd, 'fr) platform \<Rightarrow> 'fr connection \<Rightarrow> bytes \<Rightarrow> 'w \<Rightarrow> bool \<times> 'fr connection \<times> bytes \<times> 'w" where
  "flush_input P c snapshot w =
     (if cn_control c = None then
        (case cn_input c of
           None \<Rightarrow> (True, c, snapshot, w)
         | Some input \<Rightarrow>
             let (sent, w) = p_send P input w in
             (case sent of
                Sent \<Rightarrow> (True, c\<lparr>cn_input := None\<rparr>, snapshot, w)
              | SendRetry \<Rightarrow> (True, c, snapshot, w)
              | SendFailed \<Rightarrow> (False, c\<lparr>cn_input := None\<rparr>, snapshot, w)))
      else (True, c, snapshot, w))"

definition flush_connection ::
  "('w, 'fd, 'fr) platform \<Rightarrow> display_dimensions \<Rightarrow> 'fr connection \<Rightarrow> bytes \<Rightarrow> 'w
    \<Rightarrow> bool \<times> 'fr connection \<times> bytes \<times> 'w" where
  "flush_connection P dimensions c snapshot w =
     (case cn_control c of
        None \<Rightarrow> flush_input P c snapshot w
      | Some pending \<Rightarrow>
          let (sent, w) = p_send P (pp_bytes pending) w in
          (case sent of
             SendRetry \<Rightarrow> (True, c, snapshot, w)
           | SendFailed \<Rightarrow> (False, c\<lparr>cn_control := None\<rparr>, snapshot, w)
           | Sent \<Rightarrow>
               let (okay, c, snapshot, w) =
                     apply_after_send P dimensions (pp_after_send pending) (c\<lparr>cn_control := None\<rparr>) snapshot w in
               if okay then flush_input P c snapshot w else (False, c, snapshot, w)))"

subsection \<open>The service loop\<close>

definition SESSION_REVALIDATE_INTERVAL :: nat where
  [simp]: "SESSION_REVALIDATE_INTERVAL = 50000000"

definition MAX_INPUT_DRAIN :: nat where
  [simp]: "MAX_INPUT_DRAIN = 32"

record ('w, 'fr) service_state =
  ss_connection :: "'fr connection option"
  ss_input :: input_state
  ss_actions :: hardware_actions
  ss_snapshot :: bytes
  ss_last_session_check :: nat
  ss_world :: 'w

text \<open>What \<^verbatim>\<open>frame_setup\<close> derives from the display's geometry (width, height, stride, byte length).\<close>

definition frame_setup ::
  "u32 \<Rightarrow> u32 \<Rightarrow> u32 \<Rightarrow> u64 \<Rightarrow> service_error + (display_dimensions \<times> frame_layout \<times> bytes)" where
  "frame_setup width height stride byte_length =
     rbind (map_err (\<lambda>_. SEGeometry) (frame_layout_new width height)) (\<lambda>layout.
       if stride \<noteq> fl_stride layout \<or> byte_length \<noteq> fl_byte_length layout then Inl SEGeometry
       else rbind (map_err (\<lambda>_. SEGeometry) (display_dimensions_new (fl_width layout) (fl_height layout)))
         (\<lambda>dimensions. Inr (dimensions, layout, replicate (unat (fl_byte_length layout)) 0)))"

definition revoke ::
  "('w, 'fd, 'fr) platform \<Rightarrow> nat \<Rightarrow> ('w, 'fr) service_state \<Rightarrow> service_error + ('w, 'fr) service_state" where
  "revoke P origin s =
     (let s = s\<lparr>ss_connection := None\<rparr>;
          (released, w) = p_release_all P (ss_world s);
          w = p_session_release P w;
          (t, w) = p_now P w;
          (_, input) = touch_idle (t - origin) (ss_input s) in
      if \<not> released then Inl SEKeyboard
      else Inr (s\<lparr>ss_input := input, ss_world := w\<rparr>))"

definition admit_peer :: "('w, 'fd, 'fr) platform \<Rightarrow> 'w \<Rightarrow> bool \<times> 'w" where
  "admit_peer P w =
     (let (user, w) = p_peer_user_id P w in
      case user of
        None \<Rightarrow> (False, w)
      | Some user_id \<Rightarrow>
          if user_id = 0 then (False, w)
          else let (in_group, w) = p_peer_in_group P w in
            if \<not> in_group then (False, w) else p_session_admit P user_id w)"

definition client_interest :: "bool \<Rightarrow> bool \<Rightarrow> bool \<times> bool" where
  "client_interest has_control has_input = (\<not> has_control, has_control \<or> has_input)"

definition queue_input_opt where
  "queue_input_opt frame dimensions c = map_option (queue_input frame dimensions) c"

fun drain_digitizer ::
  "('w, 'fd, 'fr) platform \<Rightarrow> display_dimensions \<Rightarrow> nat \<Rightarrow> nat \<Rightarrow> ('w, 'fr) service_state
    \<Rightarrow> service_error + ('w, 'fr) service_state" where
  "drain_digitizer P dimensions origin 0 s = Inr s"
| "drain_digitizer P dimensions origin (Suc n) s =
     (let (read, w) = p_digitizer_read P (ss_world s); s = s\<lparr>ss_world := w\<rparr> in
      case read of
        None \<Rightarrow> Inl SEInput
      | Some DigitizerIdle \<Rightarrow> Inr s
      | Some (Report bs) \<Rightarrow>
          rbind (map_err (\<lambda>_. SEInput) (parse_digitizer_payload bs)) (\<lambda>report.
            let (t, w) = p_now P (ss_world s);
                (frame, input) = ingest_touch (t - origin) report (ss_input s) in
            drain_digitizer P dimensions origin n
              (s\<lparr>ss_world := w, ss_input := input,
                 ss_connection := queue_input_opt frame dimensions (ss_connection s)\<rparr>)))"

definition apply_fn_edge ::
  "('w, 'fd, 'fr) platform \<Rightarrow> display_dimensions \<Rightarrow> nat \<Rightarrow> bool \<Rightarrow> ('w, 'fr) service_state
    \<Rightarrow> ('w, 'fr) service_state" where
  "apply_fn_edge P dimensions origin pressed s =
     (let (t, w) = p_now P (ss_world s);
          (frame, input) = set_fn_pressed (t - origin) pressed (ss_input s);
          s = s\<lparr>ss_world := w, ss_input := input\<rparr> in
      case frame of
        None \<Rightarrow> s
      | Some f \<Rightarrow> s\<lparr>ss_connection := queue_input_opt f dimensions (ss_connection s)\<rparr>)"

definition process_function ::
  "('w, 'fd, 'fr) platform \<Rightarrow> display_dimensions \<Rightarrow> nat \<Rightarrow> ('w, 'fr) service_state
    \<Rightarrow> service_error + ('w, 'fr) service_state" where
  "process_function P dimensions origin s =
     (let (read, w) = p_fn_read P (ss_world s); s = s\<lparr>ss_world := w\<rparr> in
      case read of
        None \<Rightarrow> Inl SEInput
      | Some (FnEdges edges) \<Rightarrow> Inr (fold (apply_fn_edge P dimensions origin) edges s)
      | Some FnResync \<Rightarrow>
          let (pressed, w) = p_fn_pressed P (ss_world s); s = s\<lparr>ss_world := w\<rparr> in
          (case pressed of
             None \<Rightarrow> Inl SEInput
           | Some b \<Rightarrow> Inr (apply_fn_edge P dimensions origin b s))
      | Some FnIdle \<Rightarrow> Inr s)"

definition process_input ::
  "('w, 'fd, 'fr) platform \<Rightarrow> display_dimensions \<Rightarrow> nat \<Rightarrow> ready_inputs \<Rightarrow> ('w, 'fr) service_state
    \<Rightarrow> service_error + ('w, 'fr) service_state" where
  "process_input P dimensions origin ready s =
     rbind (if ri_digitizer ready then drain_digitizer P dimensions origin MAX_INPUT_DRAIN s else Inr s) (\<lambda>s.
       if ri_function ready then process_function P dimensions origin s else Inr s)"

definition check_session ::
  "('w, 'fd, 'fr) platform \<Rightarrow> nat \<Rightarrow> ('w, 'fr) service_state \<Rightarrow> service_error + ('w, 'fr) service_state" where
  "check_session P origin s =
     (if ss_connection s = None then Inr s
      else let (t, w) = p_now P (ss_world s); s = s\<lparr>ss_world := w\<rparr> in
        if t - ss_last_session_check s < SESSION_REVALIDATE_INTERVAL then Inr s
        else let (t, w) = p_now P (ss_world s);
                 (status, w) = p_session_refresh P w;
                 s = s\<lparr>ss_last_session_check := t, ss_world := w\<rparr> in
          if status = Some Retained then Inr s else revoke P origin s)"

definition flush_active ::
  "('w, 'fd, 'fr) platform \<Rightarrow> display_dimensions \<Rightarrow> nat \<Rightarrow> ('w, 'fr) service_state
    \<Rightarrow> service_error + ('w, 'fr) service_state" where
  "flush_active P dimensions origin s =
     (case ss_connection s of
        None \<Rightarrow> Inr s
      | Some active \<Rightarrow>
          let (okay, active, snapshot, w) = flush_connection P dimensions active (ss_snapshot s) (ss_world s);
              s = s\<lparr>ss_connection := Some active, ss_snapshot := snapshot, ss_world := w\<rparr> in
          if okay then Inr s else revoke P origin s)"

definition receive_active ::
  "('w, 'fd, 'fr) platform \<Rightarrow> display_dimensions \<Rightarrow> frame_layout \<Rightarrow> nat \<Rightarrow> ('w, 'fr) service_state
    \<Rightarrow> service_error + ('w, 'fr) service_state" where
  "receive_active P dimensions layout origin s =
     (case ss_connection s of
        None \<Rightarrow> Inr s
      | Some active \<Rightarrow>
          if cn_control active \<noteq> None then Inr s
          else let (okay, r) = receive_request P dimensions layout
                     \<lparr>rs_conn = active, rs_actions = ss_actions s, rs_world = ss_world s\<rparr>;
                   s = s\<lparr>ss_connection := Some (rs_conn r), ss_actions := rs_actions r,
                         ss_world := rs_world r\<rparr> in
            if okay then Inr s else revoke P origin s)"

definition admit_next ::
  "('w, 'fd, 'fr) platform \<Rightarrow> frame_layout \<Rightarrow> ('w, 'fr) service_state
    \<Rightarrow> service_error + ('w, 'fr) service_state" where
  "admit_next P layout s =
     (if ss_connection s \<noteq> None then Inr s
      else let (ready, w) = p_listener_ready P (ss_world s); s = s\<lparr>ss_world := w\<rparr> in
        case ready of
          None \<Rightarrow> Inl SEListener
        | Some False \<Rightarrow> Inr s
        | Some True \<Rightarrow>
            let (accepted, w) = p_listener_accept P (ss_world s); s = s\<lparr>ss_world := w\<rparr> in
            if \<not> accepted then Inr s
            else let (admitted, w) = admit_peer P (ss_world s); s = s\<lparr>ss_world := w\<rparr> in
              if \<not> admitted then Inr s
              else let (t, w) = p_now P (ss_world s) in
                Inr (s\<lparr>ss_connection := Some (connection_new layout), ss_last_session_check := t,
                       ss_world := w\<rparr>))"

definition wait_for_service_events ::
  "('w, 'fd, 'fr) platform \<Rightarrow> ('w, 'fr) service_state
    \<Rightarrow> service_error + (ready_inputs \<times> ('w, 'fr) service_state)" where
  "wait_for_service_events P s =
     (let client = map_option (\<lambda>c. client_interest (cn_control c \<noteq> None) (cn_input c \<noteq> None)) (ss_connection s);
          (events, w) = p_wait_events P client (ss_world s); s = s\<lparr>ss_world := w\<rparr> in
      case events of
        None \<Rightarrow> Inl SEInput
      | Some None \<Rightarrow> Inr (\<lparr>ri_digitizer = False, ri_function = False\<rparr>, s)
      | Some (Some inputs) \<Rightarrow> Inr (inputs, s))"

text \<open>One turn of the loop.\<close>

definition service_turn ::
  "('w, 'fd, 'fr) platform \<Rightarrow> display_dimensions \<Rightarrow> frame_layout \<Rightarrow> nat \<Rightarrow> ('w, 'fr) service_state
    \<Rightarrow> service_error + ('w, 'fr) service_state" where
  "service_turn P dimensions layout origin s =
     rbind (check_session P origin s) (\<lambda>s.
     rbind (flush_active P dimensions origin s) (\<lambda>s.
     rbind (receive_active P dimensions layout origin s) (\<lambda>s.
     rbind (admit_next P layout s) (\<lambda>s.
     rbind (wait_for_service_events P s) (\<lambda>(ready, s).
       process_input P dimensions origin ready s)))))"

definition service_start ::
  "display_dimensions \<Rightarrow> bytes \<Rightarrow> bool \<Rightarrow> brightness_controls \<Rightarrow> nat \<Rightarrow> 'w \<Rightarrow> ('w, 'fr) service_state" where
  "service_start dimensions snapshot initial_fn controls origin w =
     \<lparr>ss_connection = None, ss_input = input_state_new dimensions initial_fn,
      ss_actions = actions_discover controls, ss_snapshot = snapshot,
      ss_last_session_check = origin, ss_world = w\<rparr>"

text \<open>
  The states the loop passes through: the loop runs until a turn fails, so a state is reached when it
  is the result of finitely many successful turns.
\<close>

inductive service_reaches ::
  "('w, 'fd, 'fr) platform \<Rightarrow> display_dimensions \<Rightarrow> frame_layout \<Rightarrow> nat \<Rightarrow> ('w, 'fr) service_state
    \<Rightarrow> ('w, 'fr) service_state \<Rightarrow> bool" for P d l o' s0 where
  start: "service_reaches P d l o' s0 s0"
| turn: "service_reaches P d l o' s0 s \<Longrightarrow> service_turn P d l o' s = Inr s' \<Longrightarrow> service_reaches P d l o' s0 s'"

end
