(* ===== verification/Hw_Service_Correct.thy ===== *)
theory Hw_Service_Correct
  imports Hw_Service
begin

section \<open>Correctness of the Touch Bar hardware service\<close>

text \<open>
  The invariant of a connection and its preservation by every handler and by every turn of the loop,
  for any behaviour of the machine. Its heart: a frame is in flight exactly while
  the control packet that acknowledges or returns it is pending, so the release of a frame never fails,
  and the next request is read only when no frame is in flight.
\<close>

subsection \<open>The invariant\<close>

definition geometry_ok :: "display_dimensions \<Rightarrow> frame_layout \<Rightarrow> bool" where
  "geometry_ok d l \<longleftrightarrow> dd_width d \<noteq> 0 \<and> dd_height d \<noteq> 0 \<and> fl_width l = dd_width d \<and> fl_height l = dd_height d"

definition damage_ok :: "display_dimensions \<Rightarrow> damage_rectangle list \<Rightarrow> bool" where
  "damage_ok d rs \<longleftrightarrow> rs \<noteq> [] \<and> length rs \<le> 64 \<and> (\<forall>r \<in> set rs. dr_width r \<noteq> 0 \<and> dr_height r \<noteq> 0
     \<and> unat (dr_x r) + unat (dr_width r) \<le> unat (dd_width d)
     \<and> unat (dr_y r) + unat (dr_height r) \<le> unat (dd_height d))"

definition flights :: "('b, 'f) frame_state \<Rightarrow> ('b \<times> 'f) set" where
  "flights s = {(b, f). frame_owner s b = Some (Some f)}"

fun pending_flights :: "pending_packet option \<Rightarrow> (u32 \<times> u64) set" where
  "pending_flights None = {}"
| "pending_flights (Some p) =
     (case pp_after_send p of
        Present b f _ \<Rightarrow> {(b, f)}
      | ReleaseAfter b f _ \<Rightarrow> {(b, f)}
      | _ \<Rightarrow> {})"

definition released_packet :: "display_dimensions \<Rightarrow> u32 \<Rightarrow> u64 \<Rightarrow> wire_error + bytes" where
  "released_packet d b f = encode_service \<lparr>env_request_id = 0,
     env_message = SFrameReleased \<lparr>fr_buffer_id = b, fr_frame_id = f\<rparr>\<rparr> (Some d)"

definition acknowledges :: "display_dimensions \<Rightarrow> bytes \<Rightarrow> bool" where
  "acknowledges d bs \<longleftrightarrow> (\<exists>i. encode_service \<lparr>env_request_id = i, env_message = SAck\<rparr> (Some d) = Inr bs)"

fun control_ok :: "display_dimensions \<Rightarrow> bool \<Rightarrow> pending_packet option \<Rightarrow> bool" where
  "control_ok d established None = True"
| "control_ok d established (Some p) =
     (case pp_after_send p of
        AfterNone \<Rightarrow> True
      | CloseAfter \<Rightarrow> True
      | Establish minor \<Rightarrow> \<not> established \<and> minor \<le> 1
      | Present b f rs \<Rightarrow> established \<and> b \<noteq> 0 \<and> f \<noteq> 0 \<and> damage_ok d rs \<and> acknowledges d (pp_bytes p)
      | ReleaseAfter b f _ \<Rightarrow> established \<and> released_packet d b f = Inr (pp_bytes p))"

definition conn_base :: "frame_layout \<Rightarrow> 'fr connection \<Rightarrow> bool" where
  "conn_base l c \<longleftrightarrow> frame_state_inv (cn_frames c) \<and> fs_layout (cn_frames c) = l
     \<and> map fst (cn_buffers c) = map rb_id (fs_buffers (cn_frames c))
     \<and> (cn_established c \<longleftrightarrow> cn_negotiated_minor c \<noteq> None)
     \<and> (\<not> cn_established c \<longrightarrow> cn_buffers c = [])"

definition conn_inv :: "display_dimensions \<Rightarrow> frame_layout \<Rightarrow> 'fr connection \<Rightarrow> bool" where
  "conn_inv d l c \<longleftrightarrow> conn_base l c \<and> flights (cn_frames c) = pending_flights (cn_control c)
     \<and> control_ok d (cn_established c) (cn_control c)"

lemma conn_inv_new: "conn_inv d l (connection_new l)"
proof -
  have "flights (frame_state_new l :: (u32, u64) frame_state) = {}" by (simp add: flights_def)
  then show ?thesis
    by (simp add: conn_inv_def conn_base_def connection_new_def)
      (simp add: frame_state_new_def frame_state_inv_def)
qed

subsection \<open>Responses always encode\<close>

lemma encode_ack: "i \<noteq> 0 \<Longrightarrow> \<exists>bs. encode_service \<lparr>env_request_id = i, env_message = SAck\<rparr> (Some d) = Inr bs"
  by (simp add: sent_message_defs)

lemma encode_error: "i \<noteq> 0 \<Longrightarrow> \<exists>bs. encode_service \<lparr>env_request_id = i, env_message = SError e\<rparr> d = Inr bs"
  by (simp add: sent_message_defs)

lemma encode_hello_ack:
  "i \<noteq> 0 \<Longrightarrow> validate_hello_ack a = Inr () \<Longrightarrow>
     \<exists>bs. encode_service \<lparr>env_request_id = i, env_message = SHelloAck a\<rparr> None = Inr bs"
  by (simp add: sent_message_defs)

lemma encode_released: "b \<noteq> 0 \<Longrightarrow> f \<noteq> 0 \<Longrightarrow> \<exists>bs. released_packet d b f = Inr bs"
  by (simp add: sent_message_defs released_packet_def)

lemma queue_control_cases:
  obtains (queued) bs where "encode_service \<lparr>env_request_id = i, env_message = m\<rparr> d = Inr bs"
    "queue_control i m d a c = (True, c\<lparr>cn_control := Some \<lparr>pp_bytes = bs, pp_after_send = a\<rparr>\<rparr>)"
  | (unencodable) e where "encode_service \<lparr>env_request_id = i, env_message = m\<rparr> d = Inl e"
    "queue_control i m d a c = (False, c)"
  by (cases "encode_service \<lparr>env_request_id = i, env_message = m\<rparr> d") (auto simp: queue_control_def)

text \<open>
  A plain reply (an acknowledgement or an error) can always be queued on an idle connection and keeps
  the invariant.
\<close>

lemma queue_reply:
  assumes "conn_inv d l c" and "cn_control c = None" and "i \<noteq> 0"
    and "m = SAck \<and> dims = Some d \<or> (\<exists>e. m = SError e)" and "a = AfterNone \<or> a = CloseAfter"
    and "queue_control i m dims a c = (okay, c')"
  shows "okay" and "conn_inv d l c'"
proof -
  from assms(3,4) obtain bs where "encode_service \<lparr>env_request_id = i, env_message = m\<rparr> dims = Inr bs"
    using encode_ack [of i d] encode_error [of i] by auto
  with assms(6) have okay and c': "c' = c\<lparr>cn_control := Some \<lparr>pp_bytes = bs, pp_after_send = a\<rparr>\<rparr>"
    by (auto simp: queue_control_def)
  then show okay by simp
  from assms(1,2,5) show "conn_inv d l c'" by (auto simp: c' conn_inv_def conn_base_def)
qed

lemma queue_error_reply:
  assumes "conn_inv d l c" and "cn_control c = None" and "i \<noteq> 0" and "queue_error i e d c = (okay, c')"
  shows "okay" and "conn_inv d l c'"
  using queue_reply [OF assms(1-3), of "SError e" "phase_dimensions c d" AfterNone okay c'] assms(4)
  by (simp_all add: queue_error_def)

subsection \<open>Handlers\<close>

lemma flights_assign:
  assumes "frame_owner s' = (frame_owner s)(b \<mapsto> v)"
  shows "flights s' = flights s - {b} \<times> UNIV \<union> {(b, f) |f. v = Some f}"
  using assms by (auto simp: flights_def split: if_splits)

lemma queue_hello_ok:
  assumes "conn_inv d l c" and "cn_control c = None" and "\<not> cn_established c" and "i \<noteq> 0"
    and "geometry_ok d l" and "queue_hello i required minor d actions c = (okay, c')"
  shows "okay" and "conn_inv d l c'"
proof -
  have "okay \<and> conn_inv d l c'"
  proof (cases "features_contain (actions_features actions) required")
    case False
    with assms queue_reply [OF assms(1,2,4), of "SError UnsupportedFeature" None CloseAfter okay c']
    show ?thesis by (simp add: queue_hello_def)
  next
    case True
    let ?a = "\<lparr>ack_minor = min minor 1, ack_width = dd_width d, ack_height = dd_height d,
      ack_pixel_format = Xrgb8888, ack_max_buffers = 3\<rparr>"
    have "validate_hello_ack ?a = Inr ()"
      using assms(5) by (simp add: validate_hello_ack_def geometry_ok_def not_less)
    then obtain bs where "encode_service \<lparr>env_request_id = i, env_message = SHelloAck ?a\<rparr> None = Inr bs"
      using encode_hello_ack [OF assms(4)] by blast
    with True assms(6) have "okay"
      and "c' = c\<lparr>cn_control := Some \<lparr>pp_bytes = bs, pp_after_send = Establish (min minor 1)\<rparr>\<rparr>"
      by (simp_all add: queue_hello_def queue_control_def)
    with assms(1-3) show ?thesis by (auto simp: conn_inv_def conn_base_def)
  qed
  then show "okay" and "conn_inv d l c'" by simp_all
qed

lemma register_buffer_ids:
  "register_buffer b m s = Inr s' \<Longrightarrow>
     map rb_id (fs_buffers s') = map rb_id (fs_buffers s) @ [b] \<and> fs_layout s' = fs_layout s"
  by (auto simp: register_buffer_def split: if_splits)

lemma rb_ids_assign: "map rb_id (xs[i := (xs ! i)\<lparr>rb_in_flight := v\<rparr>]) = map rb_id xs"
  by (simp add: map_update) (metis list_update_id map_update)

lemma submit_frame_ids:
  "submit_frame b f rs s = Inr (v, s') \<Longrightarrow> map rb_id (fs_buffers s') = map rb_id (fs_buffers s)"
  by (auto simp: submit_frame_def Let_def rb_ids_assign split: if_splits)

lemma release_frame_ids:
  "release_frame b f s = Inr (r, s') \<Longrightarrow> map rb_id (fs_buffers s') = map rb_id (fs_buffers s)"
  by (auto simp: release_frame_def Let_def rb_ids_assign split: if_splits option.splits)

lemma on_conn_cases:
  "on_conn f s = (okay, s') \<Longrightarrow> \<exists>c'. f (rs_conn s) = (okay, c') \<and> s' = s\<lparr>rs_conn := c'\<rparr>"
  by (auto simp: on_conn_def split: prod.splits)

lemma queue_buffer_registration_ok:
  assumes inv: "conn_inv d l (rs_conn s)" and "cn_control (rs_conn s) = None"
    and "cn_established (rs_conn s)" and "i \<noteq> 0"
    and "queue_buffer_registration P i d l buffer fd s = (okay, s')"
  shows "okay \<and> conn_inv d l (rs_conn s')"
proof -
  obtain frame w where acc: "p_accept_frame P fd (fl_byte_length l) (rs_world s) = (frame, w)"
    by (cases "p_accept_frame P fd (fl_byte_length l) (rs_world s)")
  let ?c = "rs_conn s"
  let ?reg = "register_buffer (rbm_buffer_id buffer) \<lparr>bm_stride = rbm_stride buffer,
    bm_byte_length = rbm_byte_length buffer\<rparr> (cn_frames ?c)"
  consider "frame = None" | e where "frame \<noteq> None" "?reg = Inl e"
    | fr fs where "frame = Some fr" "?reg = Inr fs" by (cases frame; cases ?reg) auto
  then show ?thesis
  proof cases
    case 3
    let ?c1 = "?c\<lparr>cn_frames := fs, cn_buffers := cn_buffers ?c @ [(rbm_buffer_id buffer, fr)]\<rparr>"
    have fsi: "frame_state_inv (cn_frames ?c)" using inv by (simp add: conn_inv_def conn_base_def)
    have "flights fs = flights (cn_frames ?c)"
      using register_buffer_owner(1,2) [OF fsi 3(2)] flights_assign [of fs]
      by (auto simp: flights_def)
    then have "conn_inv d l ?c1"
      using inv assms(3) register_buffer_ids [OF 3(2)] register_buffer_owner(3) [OF fsi 3(2)]
      by (simp add: conn_inv_def conn_base_def)
    moreover obtain c' where "queue_control i SAck (Some d) AfterNone ?c1 = (okay, c')"
      "s' = s\<lparr>rs_world := w, rs_conn := c'\<rparr>"
      using assms(5) 3 acc by (auto simp: queue_buffer_registration_def dest!: on_conn_cases)
    ultimately show ?thesis
      using queue_reply [of d l ?c1 i SAck "Some d" AfterNone okay c'] assms(2,4) by simp
  next
    case 1
    then obtain c' where "queue_error i InvalidBuffer d ?c = (okay, c')" "rs_conn s' = c'"
      using assms(5) acc by (auto simp: queue_buffer_registration_def dest!: on_conn_cases)
    with queue_error_reply [OF inv assms(2,4), of InvalidBuffer okay c'] show ?thesis by simp
  next
    case 2
    then obtain c' where "queue_error i (frame_error_code e) d ?c = (okay, c')" "rs_conn s' = c'"
      using assms(5) acc by (auto simp: queue_buffer_registration_def dest!: on_conn_cases)
    with queue_error_reply [OF inv assms(2,4), of "frame_error_code e" okay c'] show ?thesis by simp
  qed
qed

lemma submitted_damage_ok:
  assumes "fs_validate_damage s rs = Inr rs'" and "validate_damage rs d = Inr ()"
    and "geometry_ok d (fs_layout s)"
  shows "damage_ok d rs'"
proof -
  have "rs' = rs \<or> rs = [] \<and> rs' = full_damage d"
    using assms by (auto simp: fs_validate_damage_def geometry_ok_def full_damage_def split: if_splits)
  moreover have "rs' \<noteq> [] \<and> length rs' \<le> 64" using fs_validate_damage_count [OF assms(1)] by simp
  ultimately show ?thesis
    using assms(2,3) by (auto simp: damage_ok_def validate_damage_iff full_damage_def geometry_ok_def)
qed

lemma queue_frame_submission_ok:
  assumes inv: "conn_inv d l c" and idle: "cn_control c = None" and "cn_established c" and "i \<noteq> 0"
    and frame: "sf_buffer_id frame \<noteq> 0" "sf_frame_id frame \<noteq> 0" "validate_damage (sf_damage frame) d = Inr ()"
    and geo: "geometry_ok d l" and q: "queue_frame_submission i d frame c = (okay, c')"
  shows "okay \<and> conn_inv d l c'"
proof (cases "submit_frame (sf_buffer_id frame) (sf_frame_id frame) (sf_damage frame) (cn_frames c)")
  case (Inl e)
  with q have "queue_error i (frame_error_code e) d c = (okay, c')"
    by (simp add: queue_frame_submission_def)
  from queue_error_reply [OF inv idle assms(4) this] show ?thesis by simp
next
  case (Inr vs)
  then obtain v fs where sub: "submit_frame (sf_buffer_id frame) (sf_frame_id frame) (sf_damage frame)
      (cn_frames c) = Inr (v, fs)" by (cases vs) auto
  have fsi: "frame_state_inv (cn_frames c)" and lay: "fs_layout (cn_frames c) = l"
    using inv by (simp_all add: conn_inv_def conn_base_def)
  note own = submit_frame_owner [OF fsi sub]
  have "map rb_id (fs_buffers fs) = map rb_id (fs_buffers (cn_frames c))"
    by (rule submit_frame_ids [OF sub])
  moreover have "flights fs = {(sf_buffer_id frame, sf_frame_id frame)}"
    using inv idle flights_assign [OF own(2)] by (simp add: conn_inv_def)
  moreover have "damage_ok d (vs_damage v)"
    using submitted_damage_ok [OF own(7) frame(3)] geo lay by simp
  moreover obtain bs where ack: "encode_service \<lparr>env_request_id = i, env_message = SAck\<rparr> (Some d) = Inr bs"
    using encode_ack [OF assms(4)] by blast
  moreover from sub q ack own have okay
    and "c' = c\<lparr>cn_frames := fs, cn_control := Some \<lparr>pp_bytes = bs,
          pp_after_send = Present (sf_buffer_id frame) (sf_frame_id frame) (vs_damage v)\<rparr>\<rparr>"
    by (auto simp: queue_frame_submission_def queue_control_def)
  ultimately show ?thesis
    using inv frame assms(3) own(3,4) by (auto simp: conn_inv_def conn_base_def acknowledges_def)
qed

lemma brightness_action_reply:
  "brightness_action compute now session kind a w = (m, a', w') \<Longrightarrow> m = SAck \<or> (\<exists>e. m = SError e)"
  by (auto simp: brightness_action_def Let_def split: if_splits prod.splits sum.splits option.splits)

lemma cancellation_reply: "cancellation_response r = SAck \<or> (\<exists>e. cancellation_response r = SError e)"
  by (auto simp: cancellation_response_def split: sum.split bool.split)

lemma decoded_request:
  assumes "decode_client bs anc (phase_dimensions c d) = Inr e"
  shows "env_request_id e \<noteq> 0"
    and "cn_established c \<longleftrightarrow> (\<forall>h. env_message e \<noteq> CHello h)"
    and "env_message e = CSubmitFrame f \<Longrightarrow>
      sf_buffer_id f \<noteq> 0 \<and> sf_frame_id f \<noteq> 0 \<and> validate_damage (sf_damage f) d = Inr ()"
    and "env_message e = CRegisterBuffer b \<Longrightarrow> am_rights_descriptor_count anc = 1"
proof -
  from assms have enc: "encode_client e (phase_dimensions c d) = Inr bs"
    and anc: "anc = expected_ancillary (client_ancillary_expectation (env_message e))"
    by (simp_all add: decode_client_iff)
  from enc show "env_request_id e \<noteq> 0" by (auto simp: encode_client_def require_request_id_def)
  from enc show "cn_established c \<longleftrightarrow> (\<forall>h. env_message e \<noteq> CHello h)"
    by (cases "env_message e") (auto simp: encode_client_def encode_client_payload_def validate_phase_def
        phase_dimensions_def Let_def split: if_splits)
  from enc show "env_message e = CSubmitFrame f \<Longrightarrow>
      sf_buffer_id f \<noteq> 0 \<and> sf_frame_id f \<noteq> 0 \<and> validate_damage (sf_damage f) d = Inr ()"
    by (auto simp: encode_client_def encode_client_payload_def validate_nonzero_def
        phase_dimensions_def Let_def split: if_splits)
  from anc show "env_message e = CRegisterBuffer b \<Longrightarrow> am_rights_descriptor_count anc = 1"
    by (simp add: client_ancillary_expectation_def)
qed

text \<open>Replies of the handlers that only read the machine and answer.\<close>

lemma queue_reply_on_conn:
  assumes "conn_inv d l (rs_conn s)" and "cn_control (rs_conn s) = None" and "i \<noteq> 0"
    and "m = SAck \<or> (\<exists>e. m = SError e)"
    and "on_conn (queue_control i m (Some d) AfterNone) s = (okay, s')"
  shows "okay \<and> conn_inv d l (rs_conn s')"
proof -
  from on_conn_cases [OF assms(5)] obtain c' where
    q: "queue_control i m (Some d) AfterNone (rs_conn s) = (okay, c')" "s' = s\<lparr>rs_conn := c'\<rparr>" by blast
  with queue_reply [OF assms(1-3) _ _ q(1)] assms(4) show ?thesis by auto
qed

lemma queue_error_on_conn:
  assumes "conn_inv d l (rs_conn s)" and "cn_control (rs_conn s) = None" and "i \<noteq> 0"
    and "on_conn (queue_error i e d) s = (okay, s')"
  shows "okay \<and> conn_inv d l (rs_conn s')"
proof -
  from on_conn_cases [OF assms(4)] obtain c' where
    q: "queue_error i e d (rs_conn s) = (okay, c')" "s' = s\<lparr>rs_conn := c'\<rparr>" by blast
  with queue_error_reply [OF assms(1-3) q(1)] show ?thesis by simp
qed

lemma queue_brightness_ok:
  assumes "conn_inv d l (rs_conn s)" and "cn_control (rs_conn s) = None" and "i \<noteq> 0"
    and "queue_brightness P i d kind p s = (okay, s')"
  shows "okay \<and> conn_inv d l (rs_conn s')"
proof -
  obtain m a w where b: "set_brightness (p_now P) (p_session_brightness P) kind p (rs_actions s) (rs_world s)
      = (m, a, w)" by (metis prod_cases3)
  with assms(4) have "on_conn (queue_control i m (Some d) AfterNone) (s\<lparr>rs_actions := a, rs_world := w\<rparr>)
      = (okay, s')" by (simp add: queue_brightness_def)
  then show ?thesis
    using queue_reply_on_conn [of d l "s\<lparr>rs_actions := a, rs_world := w\<rparr>" i m okay s'] assms(1-3)
      brightness_action_reply [OF b [unfolded set_brightness_def]] by simp
qed

lemma queue_brightness_step_ok:
  assumes "conn_inv d l (rs_conn s)" and "cn_control (rs_conn s) = None" and "i \<noteq> 0"
    and "queue_brightness_step P i d kind dir s = (okay, s')"
  shows "okay \<and> conn_inv d l (rs_conn s')"
proof (cases "(case cn_negotiated_minor (rs_conn s) of None \<Rightarrow> 0 | Some minor \<Rightarrow> minor) < 1")
  case True
  with assms queue_error_on_conn [OF assms(1-3), of Unsupported okay s'] show ?thesis
    by (simp add: queue_brightness_step_def)
next
  case False
  obtain m a w where b: "step_brightness (p_now P) (p_session_brightness P) (p_read_attribute P) kind dir
      (rs_actions s) (rs_world s) = (m, a, w)" by (metis prod_cases3)
  with False assms(4) have "on_conn (queue_control i m (Some d) AfterNone)
      (s\<lparr>rs_actions := a, rs_world := w\<rparr>) = (okay, s')" by (simp add: queue_brightness_step_def)
  then show ?thesis
    using queue_reply_on_conn [of d l "s\<lparr>rs_actions := a, rs_world := w\<rparr>" i m okay s'] assms(1-3)
      brightness_action_reply [OF b [unfolded step_brightness_def]] by simp
qed

text \<open>The one way a request handler can fail: a key tap failed and so did the release of all keys.\<close>

definition keys_stuck :: "('w, 'fd, 'fr) platform \<Rightarrow> client_message \<Rightarrow> 'w \<Rightarrow> bool" where
  "keys_stuck P m w \<longleftrightarrow> (\<exists>keys w1 w2. m = CTapKeys keys \<and> tap_keys P keys w = (False, w1)
     \<and> p_release_all P w1 = (False, w2))"

lemma handle_tap_keys_ok:
  assumes "conn_inv d l (rs_conn s)" and "cn_control (rs_conn s) = None" and "i \<noteq> 0"
    and "handle_tap_keys P i d keys s = (okay, s')"
  shows "conn_inv d l (rs_conn s') \<and> (okay \<or> keys_stuck P (CTapKeys keys) (rs_world s))"
proof -
  obtain tapped w where tap: "tap_keys P keys (rs_world s) = (tapped, w)"
    by (cases "tap_keys P keys (rs_world s)")
  obtain released w1 where rel: "p_release_all P w = (released, w1)" by (cases "p_release_all P w")
  consider "tapped" | "\<not> tapped" "released" | "\<not> tapped" "\<not> released" by blast
  then show ?thesis
  proof cases
    case 1
    with assms tap queue_reply_on_conn [of d l "s\<lparr>rs_world := w\<rparr>" i SAck okay s'] show ?thesis
      by (simp add: handle_tap_keys_def)
  next
    case 2
    with assms tap rel queue_error_on_conn [of d l "s\<lparr>rs_world := w1\<rparr>" i IoFailure okay s'] show ?thesis
      by (simp add: handle_tap_keys_def)
  next
    case 3
    with assms tap rel show ?thesis by (auto simp: handle_tap_keys_def keys_stuck_def)
  qed
qed

lemma handle_request_ok:
  assumes inv: "conn_inv d l (rs_conn s)" and idle: "cn_control (rs_conn s) = None"
    and geo: "geometry_ok d l"
    and dec: "decode_client bs \<lparr>am_rights_descriptor_count = (if descriptor \<noteq> None then 1 else 0),
      am_control_truncated = False, am_has_other_control = False\<rparr> (phase_dimensions (rs_conn s) d) = Inr e"
    and h: "handle_request P d l e descriptor s = (okay, s')"
  shows "conn_inv d l (rs_conn s') \<and> (okay \<or> keys_stuck P (env_message e) (rs_world s))"
proof -
  have i: "env_request_id e \<noteq> 0" by (rule decoded_request(1) [OF dec])
  note est = decoded_request(2) [OF dec]
  show ?thesis
  proof (cases "env_message e")
    case (CHello hello)
    with est have "\<not> cn_established (rs_conn s)" by simp
    moreover obtain c' where "queue_hello (env_request_id e) (hello_required_features hello)
        (hello_minor hello) d (rs_actions s) (rs_conn s) = (okay, c')" "rs_conn s' = c'"
      using h CHello by (auto simp: handle_request_def dest!: on_conn_cases)
    ultimately show ?thesis 
      using queue_hello_ok [OF inv idle _ i geo, of "hello_required_features hello" "hello_minor hello"
          "rs_actions s" okay c'] by simp
  next
    case (CRegisterBuffer b)
    with decoded_request(4) [OF dec] obtain fd where "descriptor = Some fd" by (cases descriptor) auto
    with h CRegisterBuffer have "queue_buffer_registration P (env_request_id e) d l b fd s = (okay, s')"
      by (simp add: handle_request_def)
    moreover from CRegisterBuffer est have "cn_established (rs_conn s)" by simp
    ultimately show ?thesis using queue_buffer_registration_ok [OF inv idle _ i, of P b fd okay s'] by simp
  next
    case (CSubmitFrame f)
    with h obtain c' where "queue_frame_submission (env_request_id e) d f (rs_conn s) = (okay, c')"
      "rs_conn s' = c'" by (auto simp: handle_request_def dest!: on_conn_cases)
    moreover from CSubmitFrame est have "cn_established (rs_conn s)" by simp
    ultimately show ?thesis
      using queue_frame_submission_ok [OF inv idle _ i _ _ _ geo, of f okay c']
        decoded_request(3) [OF dec CSubmitFrame] by simp
  next
    case (CTapKeys keys)
    with h handle_tap_keys_ok [OF inv idle i] show ?thesis by (simp add: handle_request_def)
  next
    case CCancelTouchId
    obtain st w where c: "p_cancel P (rs_world s) = (st, w)" by (cases "p_cancel P (rs_world s)")
    with h CCancelTouchId have "on_conn (queue_control (env_request_id e)
        (cancellation_response (decode_result st)) (Some d) AfterNone) (s\<lparr>rs_world := w\<rparr>) = (okay, s')"
      by (simp add: handle_request_def queue_cancellation_def)
    with queue_reply_on_conn [of d l "s\<lparr>rs_world := w\<rparr>" "env_request_id e"
        "cancellation_response (decode_result st)" okay s'] inv idle i cancellation_reply show ?thesis
      by simp
  next
    case (CSetDisplayBrightness p)
    with h queue_brightness_ok [OF inv idle i, of P BDisplay p okay s'] show ?thesis
      by (simp add: handle_request_def)
  next
    case (CSetKeyboardBacklight p)
    with h queue_brightness_ok [OF inv idle i, of P BKeyboard p okay s'] show ?thesis
      by (simp add: handle_request_def)
  next
    case (CStepDisplayBrightness dir)
    with h queue_brightness_step_ok [OF inv idle i, of P BDisplay dir okay s'] show ?thesis
      by (simp add: handle_request_def)
  next
    case (CStepKeyboardBacklight dir)
    with h queue_brightness_step_ok [OF inv idle i, of P BKeyboard dir okay s'] show ?thesis
      by (simp add: handle_request_def)
  next
    case (CUnknown t p)
    with h queue_error_on_conn [OF inv idle i, of Unsupported okay s'] show ?thesis
      by (simp add: handle_request_def)
  qed
qed

lemma receive_request_inv:
  assumes "conn_inv d l (rs_conn s)" and "cn_control (rs_conn s) = None" and "geometry_ok d l"
    and "receive_request P d l s = (okay, s')"
  shows "conn_inv d l (rs_conn s')"
proof -
  obtain r w where r: "p_receive P (rs_world s) = (r, w)" by (cases "p_receive P (rs_world s)")
  show ?thesis
  proof (cases r)
    case (Received bs fd)
    show ?thesis
    proof (cases "decode_client bs \<lparr>am_rights_descriptor_count = (if fd \<noteq> None then 1 else 0),
        am_control_truncated = False, am_has_other_control = False\<rparr> (phase_dimensions (rs_conn s) d)")
      case (Inl e)
      with assms r Received show ?thesis by (auto simp: receive_request_def)
    next
      case (Inr e)
      then have "handle_request P d l e fd (s\<lparr>rs_world := w\<rparr>) = (okay, s')"
        using assms(4) r Received by (simp add: receive_request_def)
      with handle_request_ok [of d l "s\<lparr>rs_world := w\<rparr>" bs fd e P okay s'] assms Inr show ?thesis by simp
    qed
  qed (use assms r in \<open>auto simp: receive_request_def\<close>)
qed

subsection \<open>Sending\<close>

lemma full_damage_ok: "geometry_ok d l \<Longrightarrow> damage_ok d (full_damage d)"
  by (simp add: damage_ok_def full_damage_def geometry_ok_def)

lemma native_damage_id: "damage_ok d rs \<Longrightarrow> native_damage rs = rs"
  by (simp add: native_damage_def damage_ok_def)

text \<open>The pending control packet has been sent and taken from the connection.\<close>

lemma apply_after_send_inv:
  assumes inv: "conn_inv d l c" and p: "cn_control c = Some p"
    and a: "apply_after_send P d (pp_after_send p) (c\<lparr>cn_control := None\<rparr>) snapshot w = (okay, c', snapshot', w')"
  shows "conn_inv d l c' \<and> (okay \<or> (pp_after_send p = CloseAfter \<or> (\<exists>b f. pp_after_send p = ReleaseAfter b f True)))"
proof (cases "pp_after_send p")
  case (Present b f rs)
  from inv p Present have b: "b \<noteq> 0" "f \<noteq> 0" "cn_established c" "flights (cn_frames c) = {(b, f)}"
    by (simp_all add: conn_inv_def)
  then obtain bs where bs: "released_packet d b f = Inr bs" using encode_released by blast
  obtain presented snap1 w1 where pres: "present_buffer P b (snd (expand_first_present_damage
      (cn_needs_full_present c) rs d)) (cn_buffers c) snapshot w = (presented, snap1, w1)"
    by (metis prod_cases3)
  have "okay" and "c' = c\<lparr>cn_needs_full_present := False,
      cn_control := Some \<lparr>pp_bytes = bs, pp_after_send = ReleaseAfter b f (\<not> presented)\<rparr>\<rparr>"
    using a Present bs pres
    by (simp_all add: apply_after_send_def expand_first_present_damage_def queue_control_def
        released_packet_def)
  with inv b bs show ?thesis by (simp add: conn_inv_def conn_base_def)
next
  case (ReleaseAfter b f close)
  from inv p ReleaseAfter have own: "frame_owner (cn_frames c) b = Some (Some f)"
    and fl: "flights (cn_frames c) = {(b, f)}" and fsi: "frame_state_inv (cn_frames c)"
    by (auto simp: conn_inv_def conn_base_def flights_def)
  obtain r fs where rel: "release_frame b f (cn_frames c) = Inr (r, fs)"
    using release_frame_ok [OF own] by auto
  note rown = release_frame_owner [OF fsi rel]
  have "map rb_id (fs_buffers fs) = map rb_id (fs_buffers (cn_frames c))" by (rule release_frame_ids [OF rel])
  moreover have "flights fs = {}" using flights_assign [OF rown(2)] fl by auto
  moreover from a ReleaseAfter rel have "okay = (\<not> close)" "c' = c\<lparr>cn_control := None, cn_frames := fs\<rparr>"
    by (auto simp: apply_after_send_def)
  ultimately show ?thesis
    using inv rown(3,4) ReleaseAfter by (auto simp: conn_inv_def conn_base_def)
next
  case (Establish minor)
  with inv p a show ?thesis by (auto simp: apply_after_send_def conn_inv_def conn_base_def)
next
  case AfterNone
  with inv p a show ?thesis by (auto simp: apply_after_send_def conn_inv_def conn_base_def)
next
  case CloseAfter
  with inv p a show ?thesis by (auto simp: apply_after_send_def conn_inv_def conn_base_def)
qed

lemma conn_inv_input [simp]: "conn_inv d l (c\<lparr>cn_input := x\<rparr>) = conn_inv d l c"
  by (simp add: conn_inv_def conn_base_def)

lemma flush_input_inv:
  assumes "conn_inv d l c" and "flush_input P c snapshot w = (okay, c', snapshot', w')"
  shows "conn_inv d l c'"
  using assms by (auto simp: flush_input_def Let_def split: if_splits option.splits prod.splits send_result.splits)

lemma flush_connection_inv:
  assumes inv: "conn_inv d l c" and fl: "flush_connection P d c snapshot w = (True, c', snapshot', w')"
  shows "conn_inv d l c'"
proof (cases "cn_control c")
  case None
  with assms flush_input_inv [OF inv] show ?thesis by (auto simp: flush_connection_def)
next
  case (Some p)
  obtain sent w1 where snd: "p_send P (pp_bytes p) w = (sent, w1)" by (cases "p_send P (pp_bytes p) w")
  obtain okay c1 snap1 w2 where app: "apply_after_send P d (pp_after_send p) (c\<lparr>cn_control := None\<rparr>)
      snapshot w1 = (okay, c1, snap1, w2)" by (metis prod_cases4)
  have "conn_inv d l c1" using apply_after_send_inv [OF inv Some app] by simp
  with fl Some snd app inv show ?thesis
    by (cases sent) (auto simp: flush_connection_def split: if_splits dest: flush_input_inv)
qed

lemma queue_input_inv: "conn_inv d l c \<Longrightarrow> conn_inv d l (queue_input f d' c)"
  by (simp add: queue_input_def split: sum.split)

subsection \<open>The loop\<close>

definition service_inv :: "display_dimensions \<Rightarrow> frame_layout \<Rightarrow> ('w, 'fr) service_state \<Rightarrow> bool" where
  "service_inv d l s \<longleftrightarrow> (case ss_connection s of None \<Rightarrow> True | Some c \<Rightarrow> conn_inv d l c)
     \<and> input_state_ok (ss_input s) \<and> is_dimensions (ss_input s) = d"

lemma service_inv_update [simp]:
  "service_inv d l (s\<lparr>ss_world := w\<rparr>) = service_inv d l s"
  "service_inv d l (s\<lparr>ss_last_session_check := t\<rparr>) = service_inv d l s"
  "service_inv d l (s\<lparr>ss_actions := a\<rparr>) = service_inv d l s"
  "service_inv d l (s\<lparr>ss_snapshot := p\<rparr>) = service_inv d l s"
  by (simp_all add: service_inv_def)

lemma service_inv_connection:
  "service_inv d l (s\<lparr>ss_connection := c\<rparr>) \<longleftrightarrow> (case c of None \<Rightarrow> True | Some c \<Rightarrow> conn_inv d l c)
     \<and> input_state_ok (ss_input s) \<and> is_dimensions (ss_input s) = d"
  by (simp add: service_inv_def)

lemma revoke_inv: "service_inv d l s \<Longrightarrow> revoke P o' s = Inr s' \<Longrightarrow>
     service_inv d l s' \<and> ss_connection s' = None"
  by (auto simp: revoke_def service_inv_def Let_def split: prod.splits if_splits dest: touch_idle_ok)

lemma check_session_inv: "service_inv d l s \<Longrightarrow> check_session P o' s = Inr s' \<Longrightarrow> service_inv d l s'"
  by (auto simp: check_session_def Let_def split: prod.splits if_splits dest: revoke_inv [rotated])

lemma flush_active_inv:
  assumes inv: "service_inv d l s" and f: "flush_active P d o' s = Inr s'"
  shows "service_inv d l s'"
proof (cases "ss_connection s")
  case None
  with assms show ?thesis by (simp add: flush_active_def)
next
  case (Some c)
  obtain okay c' snap w where fl: "flush_connection P d c (ss_snapshot s) (ss_world s) = (okay, c', snap, w)"
    by (metis prod_cases4)
  let ?s = "s\<lparr>ss_connection := Some c', ss_snapshot := snap, ss_world := w\<rparr>"
  show ?thesis
  proof (cases okay)
    case True
    with f Some fl have "s' = ?s" by (simp add: flush_active_def)
    with True inv Some fl flush_connection_inv [of d l c] show ?thesis by (simp add: service_inv_def)
  next
    case False
    with f Some fl have "revoke P o' ?s = Inr s'" by (simp add: flush_active_def)
    then have "revoke P o' (?s\<lparr>ss_connection := None\<rparr>) = Inr s'" by (simp add: revoke_def)
    moreover have "service_inv d l (?s\<lparr>ss_connection := None\<rparr>)" using inv by (simp add: service_inv_def)
    ultimately show ?thesis using revoke_inv by blast
  qed
qed

lemma receive_active_inv:
  assumes inv: "service_inv d l s" and geo: "geometry_ok d l" and r: "receive_active P d l o' s = Inr s'"
  shows "service_inv d l s'"
proof (cases "ss_connection s")
  case None
  with assms show ?thesis by (simp add: receive_active_def)
next
  case (Some c)
  show ?thesis
  proof (cases "cn_control c")
    case None
    obtain okay q where rec: "receive_request P d l \<lparr>rs_conn = c, rs_actions = ss_actions s,
        rs_world = ss_world s\<rparr> = (okay, q)" by fastforce
    let ?s = "s\<lparr>ss_connection := Some (rs_conn q), ss_actions := rs_actions q, ss_world := rs_world q\<rparr>"
    have "conn_inv d l (rs_conn q)"
      using receive_request_inv [OF _ _ geo rec] inv Some None by (simp add: service_inv_def)
    then have "service_inv d l ?s" using inv by (simp add: service_inv_def)
    moreover have "s' = ?s \<or> revoke P o' ?s = Inr s'"
      using r Some None rec by (cases okay) (simp_all add: receive_active_def)
    ultimately show ?thesis using revoke_inv [of d l ?s P o' s'] by auto
  qed (use assms Some in \<open>auto simp: receive_active_def\<close>)
qed

lemma admit_next_inv:
  assumes "service_inv d l s" and "admit_next P l s = Inr s'"
  shows "service_inv d l s'"
  using assms
  by (auto simp: admit_next_def service_inv_def conn_inv_new Let_def
      split: prod.splits if_splits option.splits bool.splits)

lemma drain_digitizer_inv:
  "service_inv d l s \<Longrightarrow> drain_digitizer P d o' n s = Inr s' \<Longrightarrow> service_inv d l s'"
proof (induction n arbitrary: s)
  case 0
  then show ?case by simp
next
  case (Suc n)
  obtain r w where r: "p_digitizer_read P (ss_world s) = (r, w)" by fastforce
  show ?case
  proof (cases "\<exists>bs. r = Some (Report bs)")
    case True
    then obtain bs report where bs: "r = Some (Report bs)" and p: "parse_digitizer_payload bs = Inr report"
      using Suc.prems(2) r by auto
    obtain t w1 where t: "p_now P w = (t, w1)" by fastforce
    obtain f input where i: "ingest_touch (t - o') report (ss_input s) = (f, input)" by fastforce
    let ?s = "s\<lparr>ss_world := w1, ss_input := input,
      ss_connection := queue_input_opt f d (ss_connection s)\<rparr>"
    have "service_inv d l ?s"
      using Suc.prems(1) ingest_touch_ok [OF p i]
      by (auto simp: service_inv_def queue_input_opt_def queue_input_inv split: option.splits)
    moreover have "drain_digitizer P d o' n ?s = Inr s'"
      using Suc.prems(2) r bs p t i by simp
    ultimately show ?thesis by (rule Suc.IH)
  next
    case False
    with Suc.prems r show ?thesis by (auto simp: Let_def split: option.splits digitizer_read.splits)
  qed
qed

lemma apply_fn_edge_inv: "service_inv d l s \<Longrightarrow> service_inv d l (apply_fn_edge P d o' b s)"
  by (auto simp: apply_fn_edge_def service_inv_def queue_input_opt_def queue_input_inv Let_def
      split: prod.splits option.splits dest: set_fn_pressed_ok)

lemma process_function_inv:
  assumes "service_inv d l s" and "process_function P d o' s = Inr s'"
  shows "service_inv d l s'"
proof -
  have "service_inv d l x \<Longrightarrow> service_inv d l (fold (apply_fn_edge P d o') edges x)" for edges x
    by (induction edges arbitrary: x) (auto intro: apply_fn_edge_inv)
  with assms show ?thesis
    by (auto simp: process_function_def apply_fn_edge_inv Let_def
        split: prod.splits option.splits fn_read.splits)
qed

lemma process_input_inv:
  assumes "service_inv d l s" and "process_input P d o' ready s = Inr s'"
  shows "service_inv d l s'"
proof -
  from assms(2) obtain s1 where
    d: "(if ri_digitizer ready then drain_digitizer P d o' MAX_INPUT_DRAIN s else Inr s) = Inr s1"
    and f: "(if ri_function ready then process_function P d o' s1 else Inr s1) = Inr s'"
    unfolding process_input_def rbind_Inr by blast
  have "service_inv d l s1"
  proof (cases "ri_digitizer ready")
    case True
    with d drain_digitizer_inv [OF assms(1), of P o' MAX_INPUT_DRAIN s1] show ?thesis by simp
  next
    case False
    with d assms(1) show ?thesis by simp
  qed
  with f show ?thesis by (auto split: if_splits intro: process_function_inv)
qed

lemma service_turn_inv:
  assumes "service_inv d l s" and "geometry_ok d l" and "service_turn P d l o' s = Inr s'"
  shows "service_inv d l s'"
proof -
  from assms(3) obtain s1 s2 s3 s4 s5 ready where "check_session P o' s = Inr s1"
    "flush_active P d o' s1 = Inr s2" "receive_active P d l o' s2 = Inr s3" "admit_next P l s3 = Inr s4"
    "wait_for_service_events P s4 = Inr (ready, s5)" "process_input P d o' ready s5 = Inr s'"
    by (auto simp: service_turn_def)
  moreover from this(5) have "service_inv d l s4 \<Longrightarrow> service_inv d l s5"
    by (auto simp: wait_for_service_events_def Let_def split: prod.splits option.splits)
  ultimately show ?thesis
    using assms(1,2) by (meson check_session_inv flush_active_inv receive_active_inv admit_next_inv
        process_input_inv)
qed

lemma frame_setup_geometry: "frame_setup w h st len = Inr (d, l, snap) \<Longrightarrow> geometry_ok d l"
  by (auto simp: frame_setup_def geometry_ok_def display_dimensions_new_def split: if_splits
      dest: frame_layout_new_exact)

lemma service_reaches_inv:
  assumes "service_reaches P d l o' s0 s" and "geometry_ok d l" and "service_inv d l s0"
  shows "service_inv d l s"
  using assms by (induction rule: service_reaches.induct) (auto intro: service_turn_inv)

lemma service_start_inv: "service_inv d l (service_start d snap fn controls t w)"
  by (simp add: service_start_def service_inv_def) (simp add: input_state_new_def)

subsection \<open>The reply a request gets\<close>

text \<open>
  What the protocol promises for each request, in terms of the buffers the client owns
  (\<open>frame_owner\<close>) and of the machine's answer: the reply and what happens once it is sent. A request is
  read only while no frame is in flight, so a submission never meets a busy buffer, and its damage was
  checked on the wire.
\<close>

fun request_reply ::
  "('w, 'fd, 'fr) platform \<Rightarrow> display_dimensions \<Rightarrow> frame_layout \<Rightarrow> 'fd option \<Rightarrow> ('w, 'fr) request_state
    \<Rightarrow> client_message \<Rightarrow> service_message \<times> after_send" where
  "request_reply P d l fd r (CHello h) =
     (if features_contain (actions_features (rs_actions r)) (hello_required_features h)
      then (SHelloAck \<lparr>ack_minor = min (hello_minor h) 1, ack_width = dd_width d, ack_height = dd_height d,
              ack_pixel_format = Xrgb8888, ack_max_buffers = 3\<rparr>, Establish (min (hello_minor h) 1))
      else (SError UnsupportedFeature, CloseAfter))"
| "request_reply P d l fd r (CRegisterBuffer b) =
     (if fst (p_accept_frame P (the fd) (fl_byte_length l) (rs_world r)) = None
         \<or> rbm_stride b \<noteq> fl_stride l \<or> rbm_byte_length b \<noteq> fl_byte_length l
         \<or> frame_owner (cn_frames (rs_conn r)) (rbm_buffer_id b) \<noteq> None
      then SError InvalidBuffer
      else if length (cn_buffers (rs_conn r)) = 3 then SError ResourceLimit else SAck, AfterNone)"
| "request_reply P d l fd r (CSubmitFrame f) =
     (if frame_owner (cn_frames (rs_conn r)) (sf_buffer_id f) = None then (SError EUnknownBuffer, AfterNone)
      else (SAck, Present (sf_buffer_id f) (sf_frame_id f)
              (if sf_damage f = [] then full_damage d else sf_damage f)))"
| "request_reply P d l fd r (CTapKeys keys) =
     (if fst (tap_keys P keys (rs_world r)) then SAck else SError IoFailure, AfterNone)"
| "request_reply P d l fd r CCancelTouchId =
     (if fst (p_cancel P (rs_world r)) = 0 then SAck
      else if fst (p_cancel P (rs_world r)) = 1 then SError ActionDenied else SError IoFailure, AfterNone)"
| "request_reply P d l fd r (CSetDisplayBrightness p) =
     (fst (set_brightness (p_now P) (p_session_brightness P) BDisplay p (rs_actions r) (rs_world r)), AfterNone)"
| "request_reply P d l fd r (CSetKeyboardBacklight p) =
     (fst (set_brightness (p_now P) (p_session_brightness P) BKeyboard p (rs_actions r) (rs_world r)), AfterNone)"
| "request_reply P d l fd r (CStepDisplayBrightness dir) =
     (if cn_negotiated_minor (rs_conn r) = Some 0 then SError Unsupported
      else fst (step_brightness (p_now P) (p_session_brightness P) (p_read_attribute P) BDisplay dir
             (rs_actions r) (rs_world r)), AfterNone)"
| "request_reply P d l fd r (CStepKeyboardBacklight dir) =
     (if cn_negotiated_minor (rs_conn r) = Some 0 then SError Unsupported
      else fst (step_brightness (p_now P) (p_session_brightness P) (p_read_attribute P) BKeyboard dir
             (rs_actions r) (rs_world r)), AfterNone)"
| "request_reply P d l fd r (CUnknown t p) = (SError Unsupported, AfterNone)"

text \<open>How an acknowledged request changes who owns the buffers.\<close>

definition owners_after ::
  "client_message \<Rightarrow> service_message \<Rightarrow> (u32 \<rightharpoonup> u64 option) \<Rightarrow> (u32 \<rightharpoonup> u64 option)" where
  "owners_after request reply own =
     (case request of
        CRegisterBuffer b \<Rightarrow> if reply = SAck then own(rbm_buffer_id b \<mapsto> None) else own
      | CSubmitFrame f \<Rightarrow> if reply = SAck then own(sf_buffer_id f \<mapsto> Some (sf_frame_id f)) else own
      | _ \<Rightarrow> own)"

text \<open>
  The connection holds one pending packet, which the client's decoder reads as the reply to this request;
  apart from it and the buffers' owners the connection is as before.
\<close>

definition answered ::
  "display_dimensions option \<Rightarrow> u32 \<Rightarrow> service_message \<times> after_send \<Rightarrow> (u32 \<rightharpoonup> u64 option)
    \<Rightarrow> 'fr connection \<Rightarrow> 'fr connection \<Rightarrow> bool" where
  "answered dims i reply own c c' \<longleftrightarrow>
     (\<exists>bs. cn_control c' = Some \<lparr>pp_bytes = bs, pp_after_send = snd reply\<rparr>
        \<and> decode_service bs (expected_ancillary NoDescriptor) dims
          = Inr \<lparr>env_request_id = i, env_message = fst reply\<rparr>)
     \<and> frame_owner (cn_frames c') = own \<and> cn_established c' = cn_established c
     \<and> cn_negotiated_minor c' = cn_negotiated_minor c \<and> cn_input c' = cn_input c"

lemma queue_control_answered:
  assumes "queue_control i m dims a c = (True, c')"
  shows "answered dims i (m, a) (frame_owner (cn_frames c)) c c'"
  using assms by (cases rule: queue_control_cases [of i m dims a c])
    (auto simp: answered_def decode_service_iff)

lemma queue_error_answered:
  assumes "queue_error i e d c = (True, c')"
  shows "answered (phase_dimensions c d) i (SError e, AfterNone) (frame_owner (cn_frames c)) c c'"
  using queue_control_answered assms unfolding queue_error_def by blast

lemma queue_hello_answered:
  assumes "queue_hello i (hello_required_features h) (hello_minor h) d actions c = (True, c')"
    and "\<not> cn_established c"
  shows "answered (phase_dimensions c d) i
    (request_reply P d l fd \<lparr>rs_conn = c, rs_actions = actions, rs_world = w\<rparr>
      (CHello h)) (frame_owner (cn_frames c)) c c'"
  using assms by (auto simp: queue_hello_def phase_dimensions_def Let_def split: if_splits dest!: queue_control_answered)

lemma register_buffer_reply:
  assumes "conn_inv d l c"
  shows "(case register_buffer b \<lparr>bm_stride = s, bm_byte_length = n\<rparr> (cn_frames c) of
      Inl e \<Rightarrow> SError (frame_error_code e) | Inr fs \<Rightarrow> SAck) =
    (if s \<noteq> fl_stride l \<or> n \<noteq> fl_byte_length l \<or> frame_owner (cn_frames c) b \<noteq> None then SError InvalidBuffer
     else if length (cn_buffers c) = 3 then SError ResourceLimit else SAck)"
proof -
  have "length (cn_buffers c) = length (fs_buffers (cn_frames c))" and "fs_layout (cn_frames c) = l"
    using assms by (simp_all add: conn_inv_def conn_base_def) (metis length_map)
  then show ?thesis by (auto simp: register_buffer_def frame_owner_def keyed_None)
qed

lemma queue_buffer_registration_answered:
  assumes inv: "conn_inv d l (rs_conn r)" and est: "cn_established (rs_conn r)"
    and q: "queue_buffer_registration P i d l b fd r = (True, r')"
  shows "answered (Some d) i (request_reply P d l (Some fd) r (CRegisterBuffer b))
    (owners_after (CRegisterBuffer b) (fst (request_reply P d l (Some fd) r (CRegisterBuffer b)))
      (frame_owner (cn_frames (rs_conn r)))) (rs_conn r) (rs_conn r')"
proof -
  let ?c = "rs_conn r" and ?reply = "request_reply P d l (Some fd) r (CRegisterBuffer b)"
  obtain frame w where acc: "p_accept_frame P fd (fl_byte_length l) (rs_world r) = (frame, w)"
    by (cases "p_accept_frame P fd (fl_byte_length l) (rs_world r)")
  let ?reg = "register_buffer (rbm_buffer_id b) \<lparr>bm_stride = rbm_stride b,
    bm_byte_length = rbm_byte_length b\<rparr> (cn_frames ?c)"
  note rep = register_buffer_reply [OF inv, of "rbm_buffer_id b" "rbm_stride b" "rbm_byte_length b"]
  have dims: "phase_dimensions ?c d = Some d" using est by (simp add: phase_dimensions_def)
  consider "frame = None" | fr e where "frame = Some fr" "?reg = Inl e"
    | fr fs where "frame = Some fr" "?reg = Inr fs" by (cases frame; cases ?reg) auto
  then show ?thesis
  proof cases
    case 1
    then obtain c' where "queue_error i InvalidBuffer d ?c = (True, c')" "rs_conn r' = c'"
      using q acc by (auto simp: queue_buffer_registration_def dest!: on_conn_cases)
    with 1 acc queue_error_answered [of i InvalidBuffer d ?c c'] dims show ?thesis by (simp add: owners_after_def)
  next
    case 2
    then obtain c' where "queue_error i (frame_error_code e) d ?c = (True, c')" "rs_conn r' = c'"
      using q acc by (auto simp: queue_buffer_registration_def dest!: on_conn_cases)
    moreover from 2 acc rep have "?reply = (SError (frame_error_code e), AfterNone)" by (simp split: if_splits)
    ultimately show ?thesis
      using queue_error_answered [of i "frame_error_code e" d ?c c'] dims by (simp add: owners_after_def)
  next
    case 3
    let ?c1 = "?c\<lparr>cn_frames := fs, cn_buffers := cn_buffers ?c @ [(rbm_buffer_id b, fr)]\<rparr>"
    obtain c' where qc: "queue_control i SAck (Some d) AfterNone ?c1 = (True, c')" "rs_conn r' = c'"
      using q acc 3 by (auto simp: queue_buffer_registration_def dest!: on_conn_cases)
    have "frame_owner fs = (frame_owner (cn_frames ?c))(rbm_buffer_id b \<mapsto> None)"
      using register_buffer_owner(2) [OF _ 3(2)] inv by (simp add: conn_inv_def conn_base_def)
    moreover from 3 acc rep have "?reply = (SAck, AfterNone)" by (simp split: if_splits)
    ultimately show ?thesis
      using queue_control_answered [OF qc(1)] qc(2) by (simp add: answered_def owners_after_def)
  qed
qed

lemma submit_frame_cases:
  assumes inv: "conn_inv d l c" and idle: "cn_control c = None" and geo: "geometry_ok d l"
    and dam: "validate_damage rs d = Inr ()"
  obtains "submit_frame b f rs (cn_frames c) = Inl UnknownBuffer" "frame_owner (cn_frames c) b = None"
  | v fs where "submit_frame b f rs (cn_frames c) = Inr (v, fs)"
    "frame_owner (cn_frames c) b \<noteq> None" "frame_owner fs = (frame_owner (cn_frames c))(b \<mapsto> Some f)"
    "v = \<lparr>vs_buffer_id = b, vs_frame_id = f, vs_damage = (if rs = [] then full_damage d else rs)\<rparr>"
proof (cases "frame_owner (cn_frames c) b")
  case None
  then have "position (\<lambda>x. rb_id x = b) (fs_buffers (cn_frames c)) = None" by (simp only: frame_owner_None)
  then have "submit_frame b f rs (cn_frames c) = Inl UnknownBuffer"
    unfolding submit_frame_def by (simp only: ok_or.simps rbind.simps)
  with None that(1) show ?thesis by simp
next
  case (Some own)
  have fsi: "frame_state_inv (cn_frames c)" and lay: "fs_layout (cn_frames c) = l"
    and "flights (cn_frames c) = {}" using inv idle by (simp_all add: conn_inv_def conn_base_def)
  with Some have free: "frame_owner (cn_frames c) b = Some None" by (cases own) (auto simp: flights_def)
  have val: "fs_validate_damage (cn_frames c) rs = Inr (if rs = [] then full_damage d else rs)"
    using dam geo lay
    by (auto simp: fs_validate_damage_def validate_damage_iff geometry_ok_def full_damage_def
        not_exceeds [symmetric])
  obtain v fs where sub: "submit_frame b f rs (cn_frames c) = Inr (v, fs)"
    using submit_frame_ok [OF free val] by blast
  note own = submit_frame_owner [OF fsi sub]
  from own(5-7) val have "v = \<lparr>vs_buffer_id = b, vs_frame_id = f,
      vs_damage = (if rs = [] then full_damage d else rs)\<rparr>" by (cases v) simp
  with that(2) [OF sub _ own(2)] free show ?thesis by simp
qed

lemma queue_frame_submission_answered:
  assumes inv: "conn_inv d l (rs_conn r)" and idle: "cn_control (rs_conn r) = None"
    and geo: "geometry_ok d l" and est: "cn_established (rs_conn r)"
    and dam: "validate_damage (sf_damage f) d = Inr ()"
    and q: "queue_frame_submission i d f (rs_conn r) = (True, c')"
  shows "answered (Some d) i (request_reply P d l fd r (CSubmitFrame f))
    (owners_after (CSubmitFrame f) (fst (request_reply P d l fd r (CSubmitFrame f)))
      (frame_owner (cn_frames (rs_conn r)))) (rs_conn r) c'"
proof (cases rule: submit_frame_cases [OF inv idle geo dam, of "sf_buffer_id f" "sf_frame_id f"])
  case 1
  with q have "queue_error i EUnknownBuffer d (rs_conn r) = (True, c')" by (simp add: queue_frame_submission_def)
  from queue_error_answered [OF this] 1 est show ?thesis
    by (simp add: owners_after_def phase_dimensions_def)
next
  case (2 v fs)
  with q have "queue_control i SAck (Some d) (Present (sf_buffer_id f) (sf_frame_id f) (vs_damage v))
      ((rs_conn r)\<lparr>cn_frames := fs\<rparr>) = (True, c')" by (simp add: queue_frame_submission_def)
  from queue_control_answered [OF this] 2 show ?thesis
    by (auto simp: answered_def owners_after_def)
qed

lemma reply_on_conn:
  assumes "on_conn (queue_control i m (Some d) AfterNone) s = (True, r')" and "rs_conn s = rs_conn r"
  shows "answered (Some d) i (m, AfterNone) (frame_owner (cn_frames (rs_conn r))) (rs_conn r) (rs_conn r')"
  using on_conn_cases [OF assms(1)] queue_control_answered assms(2) by fastforce

lemma error_on_conn:
  assumes "on_conn (queue_error i e d) s = (True, r')" and "rs_conn s = rs_conn r"
    and "cn_established (rs_conn r)"
  shows "answered (Some d) i (SError e, AfterNone) (frame_owner (cn_frames (rs_conn r))) (rs_conn r) (rs_conn r')"
  using on_conn_cases [OF assms(1)] queue_error_answered assms(2,3) by (fastforce simp: phase_dimensions_def)

lemmas on_conn_answered = reply_on_conn error_on_conn

lemma machine_request_answered:
  assumes inv: "conn_inv d l (rs_conn r)" and est: "cn_established (rs_conn r)"
    and h: "handle_request P d l e fd r = (True, r')"
    and m: "\<And>h. env_message e \<noteq> CHello h" "\<And>b. env_message e \<noteq> CRegisterBuffer b"
      "\<And>f. env_message e \<noteq> CSubmitFrame f"
  shows "answered (Some d) (env_request_id e) (request_reply P d l fd r (env_message e))
    (frame_owner (cn_frames (rs_conn r))) (rs_conn r) (rs_conn r')"
proof -
  obtain minor where "cn_negotiated_minor (rs_conn r) = Some minor"
    using inv est by (auto simp: conn_inv_def conn_base_def)
  moreover have "minor < 1 \<longleftrightarrow> minor = 0" by (simp add: word_less_1)
  ultimately show ?thesis
    using h m
    by (cases "env_message e")
      (auto simp: handle_request_def handle_tap_keys_def queue_brightness_def queue_brightness_step_def
        queue_cancellation_def cancellation_response_def decode_result_def Let_def
        split: prod.splits if_splits elim!: on_conn_answered intro: est)
qed

lemma handle_request_answered:
  assumes inv: "conn_inv d l (rs_conn r)" and idle: "cn_control (rs_conn r) = None"
    and geo: "geometry_ok d l"
    and dec: "decode_client bs \<lparr>am_rights_descriptor_count = (if fd \<noteq> None then 1 else 0),
      am_control_truncated = False, am_has_other_control = False\<rparr> (phase_dimensions (rs_conn r) d) = Inr e"
    and h: "handle_request P d l e fd r = (True, r')"
  shows "answered (phase_dimensions (rs_conn r) d) (env_request_id e) (request_reply P d l fd r (env_message e))
    (owners_after (env_message e) (fst (request_reply P d l fd r (env_message e)))
      (frame_owner (cn_frames (rs_conn r)))) (rs_conn r) (rs_conn r')"
proof -
  note est = decoded_request(2) [OF dec]
  consider (hello) hello where "env_message e = CHello hello" | (register) b where "env_message e = CRegisterBuffer b"
    | (submit) f where "env_message e = CSubmitFrame f"
    | (other) "\<forall>h. env_message e \<noteq> CHello h" "\<forall>b. env_message e \<noteq> CRegisterBuffer b"
      "\<forall>f. env_message e \<noteq> CSubmitFrame f" by blast
  then show ?thesis
  proof cases
    case hello
    with h obtain c' where "queue_hello (env_request_id e) (hello_required_features hello) (hello_minor hello) d
        (rs_actions r) (rs_conn r) = (True, c')" "rs_conn r' = c'"
      by (auto simp: handle_request_def dest!: on_conn_cases)
    moreover have "\<not> cn_established (rs_conn r)" using est hello by simp
    ultimately show ?thesis
      using queue_hello_answered [of "env_request_id e" hello d "rs_actions r" "rs_conn r" c' P l fd "rs_world r"] hello by (simp add: owners_after_def)
  next
    case register
    with decoded_request(4) [OF dec] obtain x where fd: "fd = Some x" by (cases fd) auto
    with h register have "queue_buffer_registration P (env_request_id e) d l b x r = (True, r')"
      by (simp add: handle_request_def)
    moreover have "cn_established (rs_conn r)" using est register by simp
    ultimately show ?thesis
      using queue_buffer_registration_answered [OF inv] register fd
      by (simp add: phase_dimensions_def del: request_reply.simps)
  next
    case submit
    with h obtain c' where "queue_frame_submission (env_request_id e) d f (rs_conn r) = (True, c')"
      "rs_conn r' = c'" by (auto simp: handle_request_def dest!: on_conn_cases)
    moreover have "cn_established (rs_conn r)" using est submit by simp
    ultimately show ?thesis
      using queue_frame_submission_answered [OF inv idle geo, of f "env_request_id e" c' P fd] decoded_request(3) [OF dec submit] submit
      by (simp add: phase_dimensions_def del: request_reply.simps)
  next
    case other
    then have "cn_established (rs_conn r)" using est by simp
    with machine_request_answered [OF inv _ h] other show ?thesis
      by (cases "env_message e") (simp_all add: phase_dimensions_def owners_after_def)
  qed
qed

subsection \<open>A quiet machine\<close>

text \<open>
  A machine whose clock stands still, whose sends and presents succeed, with one peer that is always
  ready to connect and never sends anything: the hypotheses of the properties hold on it.
\<close>

definition quiet_machine :: "(unit, unit, unit) platform" where
  "quiet_machine = \<lparr>p_now = \<lambda>w. (0, w), p_receive = \<lambda>w. (ReceiveRetry, w), p_send = \<lambda>bs w. (Sent, w),
     p_accept_frame = \<lambda>fd n w. (Some (), w), p_copy_into = \<lambda>fr bs w. (Some bs, w),
     p_present = \<lambda>bs rs w. (True, w), p_tap = \<lambda>k w. (True, w), p_release_all = \<lambda>w. (True, w),
     p_cancel = \<lambda>w. (0, w), p_read_attribute = \<lambda>w n. Inl BIo,
     p_session_brightness = \<lambda>k n v w. (True, w), p_session_refresh = \<lambda>w. (Some SessionRevoked, w),
     p_session_admit = \<lambda>u w. (True, w), p_session_release = \<lambda>w. w,
     p_listener_ready = \<lambda>w. (Some True, w), p_listener_accept = \<lambda>w. (True, w),
     p_peer_user_id = \<lambda>w. (Some 1000, w), p_peer_in_group = \<lambda>w. (True, w),
     p_wait_events = \<lambda>i w. (Some None, w), p_digitizer_read = \<lambda>w. (Some DigitizerIdle, w),
     p_fn_read = \<lambda>w. (Some FnIdle, w), p_fn_pressed = \<lambda>w. (Some False, w)\<rparr>"

definition small_display :: display_dimensions where
  "small_display = \<lparr>dd_width = 4, dd_height = 2\<rparr>"

definition small_layout :: frame_layout where
  "small_layout = \<lparr>fl_width = 4, fl_height = 2, fl_stride = 16, fl_byte_length = 32\<rparr>"

lemma small_setup: "frame_setup 4 2 16 32 = Inr (small_display, small_layout, replicate 32 0)"
  by (simp add: frame_setup_def frame_layout_new_def checked_mul_def small_display_def small_layout_def
      display_dimensions_new_def)

lemma quiet_turn:
  "service_turn quiet_machine small_display small_layout 0
     (service_start small_display [] False \<lparr>bc_display = None, bc_keyboard = None\<rparr> 0 ()) =
   Inr ((service_start small_display [] False \<lparr>bc_display = None, bc_keyboard = None\<rparr> 0 ())
     \<lparr>ss_connection := Some (connection_new small_layout)\<rparr>)"
  by (simp add: service_turn_def check_session_def flush_active_def receive_active_def admit_next_def
      wait_for_service_events_def process_input_def service_start_def quiet_machine_def admit_peer_def)

subsection \<open>Properties\<close>

text \<open>
  C3. In every state the service loop reaches, on any machine, a frame of the connection is in flight
  exactly while the packet that acknowledges it or hands it back is pending; the mapped buffers
  are exactly the registered ones, at most three, and with no packet pending nothing is in flight.
\<close>

theorem frames_in_flight_tracked:
  assumes "frame_setup width height stride len = Inr (d, l, snap)"
    and "service_reaches P d l t (service_start d snap' fn controls t w) s"
    and "ss_connection s = Some c"
  shows "flights (cn_frames c) = pending_flights (cn_control c)
    \<and> map fst (cn_buffers c) = map rb_id (fs_buffers (cn_frames c)) \<and> length (cn_buffers c) \<le> 3"
proof -
  have "conn_inv d l c"
    using service_reaches_inv [OF assms(2) frame_setup_geometry [OF assms(1)] service_start_inv] assms(3)
    by (simp add: service_inv_def)
  then have ids: "map fst (cn_buffers c) = map rb_id (fs_buffers (cn_frames c))"
    and "length (fs_buffers (cn_frames c)) \<le> 3"
    and "flights (cn_frames c) = pending_flights (cn_control c)"
    by (simp_all add: conn_inv_def conn_base_def frame_state_inv_def)
  moreover from ids have "length (cn_buffers c) = length (fs_buffers (cn_frames c))" by (metis length_map)
  ultimately show ?thesis by simp
qed

theorem frames_in_flight_tracked_witness:
  "flights (cn_frames (connection_new small_layout :: unit connection)) = {}"
proof -
  let ?s0 = "service_start small_display [] False \<lparr>bc_display = None, bc_keyboard = None\<rparr> 0 ()"
  have "service_reaches quiet_machine small_display small_layout 0 ?s0
      (?s0\<lparr>ss_connection := Some (connection_new small_layout)\<rparr>)"
    by (rule turn [OF start quiet_turn])
  from frames_in_flight_tracked [OF small_setup this] show ?thesis
    by (simp add: connection_new_def)
qed

text \<open>
  C6. Every request the service decodes gets exactly one reply, the one the protocol promises for it: on a
  connection the loop reaches that has no packet pending, the handler leaves one pending packet, which the
  client's decoder reads as the promised message (\<open>request_reply\<close>) under the request's own
  identifier, with the action that follows its sending; the buffers change owner exactly as an
  acknowledgement says, and the rest of the connection stays as it is. The handler fails only
  when a key could not be tapped and the keys could not be released, and then nothing is queued.
\<close>

theorem requests_always_answered:
  assumes "frame_setup width height stride len = Inr (d, l, snap)"
    and "service_reaches P d l t (service_start d snap' fn controls t w) s"
    and "ss_connection s = Some (rs_conn r)" and "cn_control (rs_conn r) = None"
    and "decode_client bs \<lparr>am_rights_descriptor_count = (if descriptor \<noteq> None then 1 else 0),
      am_control_truncated = False, am_has_other_control = False\<rparr> (phase_dimensions (rs_conn r) d) = Inr e"
    and "handle_request P d l e descriptor r = (okay, r')"
    and "reply = request_reply P d l descriptor r (env_message e)"
  shows "conn_inv d l (rs_conn r')
    \<and> (if okay
       then (\<exists>packet. cn_control (rs_conn r') = Some \<lparr>pp_bytes = packet, pp_after_send = snd reply\<rparr>
           \<and> decode_service packet (expected_ancillary NoDescriptor) (phase_dimensions (rs_conn r) d)
             = Inr \<lparr>env_request_id = env_request_id e, env_message = fst reply\<rparr>)
         \<and> frame_owner (cn_frames (rs_conn r')) =
             owners_after (env_message e) (fst reply) (frame_owner (cn_frames (rs_conn r)))
         \<and> cn_established (rs_conn r') = cn_established (rs_conn r)
         \<and> cn_negotiated_minor (rs_conn r') = cn_negotiated_minor (rs_conn r)
         \<and> cn_input (rs_conn r') = cn_input (rs_conn r)
       else keys_stuck P (env_message e) (rs_world r) \<and> rs_conn r' = rs_conn r)"
proof -
  have geo: "geometry_ok d l" by (rule frame_setup_geometry [OF assms(1)])
  have inv: "conn_inv d l (rs_conn r)"
    using service_reaches_inv [OF assms(2) geo service_start_inv] assms(3) by (simp add: service_inv_def)
  note ok = handle_request_ok [OF inv assms(4) geo assms(5,6)]
  show ?thesis
  proof (cases okay)
    case True
    with handle_request_answered [OF inv assms(4) geo assms(5)] assms(6,7) ok show ?thesis
      by (simp add: answered_def)
  next
    case False
    with ok have "keys_stuck P (env_message e) (rs_world r)" by simp
    with ok False assms(6) show ?thesis by (auto simp: keys_stuck_def handle_request_def handle_tap_keys_def)
  qed
qed

theorem requests_always_answered_witness:
  "\<exists>(r' :: (unit, unit) request_state) packet.
     handle_request quiet_machine small_display small_layout
       \<lparr>env_request_id = 9, env_message = CHello \<lparr>hello_minor = 5, hello_required_features = 7\<rparr>\<rparr> None
       \<lparr>rs_conn = connection_new small_layout,
        rs_actions = actions_discover \<lparr>bc_display = None, bc_keyboard = None\<rparr>, rs_world = ()\<rparr> = (True, r')
     \<and> cn_control (rs_conn r') = Some \<lparr>pp_bytes = packet, pp_after_send = Establish 1\<rparr>
     \<and> decode_service packet (expected_ancillary NoDescriptor) None =
         Inr \<lparr>env_request_id = 9, env_message = SHelloAck \<lparr>ack_minor = 1, ack_width = 4, ack_height = 2,
           ack_pixel_format = Xrgb8888, ack_max_buffers = 3\<rparr>\<rparr>"
proof -
  let ?s0 = "service_start small_display [] False \<lparr>bc_display = None, bc_keyboard = None\<rparr> 0 ()
    :: (unit, unit) service_state"
  let ?r = "\<lparr>rs_conn = connection_new small_layout,
    rs_actions = actions_discover \<lparr>bc_display = None, bc_keyboard = None\<rparr>, rs_world = ()\<rparr>
    :: (unit, unit) request_state"
  let ?e = "\<lparr>env_request_id = 9, env_message = CHello \<lparr>hello_minor = 5, hello_required_features = 7\<rparr>\<rparr>"
  have reach: "service_reaches quiet_machine small_display small_layout 0 ?s0
      (?s0\<lparr>ss_connection := Some (connection_new small_layout)\<rparr>)"
    by (rule turn [OF start quiet_turn])
  obtain bs where "encode_client ?e None = Inr bs" by (simp add: sent_message_defs)
  then have dec: "decode_client bs \<lparr>am_rights_descriptor_count = (if (None :: unit option) \<noteq> None then 1 else 0),
      am_control_truncated = False, am_has_other_control = False\<rparr>
      (phase_dimensions (rs_conn ?r) small_display) = Inr ?e"
    by (simp add: decode_client_iff phase_dimensions_def connection_new_def client_ancillary_expectation_def)
  obtain okay r' where h: "handle_request quiet_machine small_display small_layout ?e None ?r = (okay, r')"
    by (cases "handle_request quiet_machine small_display small_layout ?e None ?r")
  have "ss_connection (?s0\<lparr>ss_connection := Some (connection_new small_layout)\<rparr>) = Some (rs_conn ?r)"
    and "cn_control (rs_conn ?r) = None" by (simp_all add: connection_new_def)
  note answer = requests_always_answered [OF small_setup reach this dec h refl]
  have feat: "features_contain (actions_features (rs_actions ?r)) 7"
    by (simp add: features_contain_def actions_features_def actions_discover_def brightness_available_def
        BASE_SERVICE_FEATURES_def)
  from answer h feat show ?thesis
    by (auto simp: keys_stuck_def phase_dimensions_def connection_new_def small_display_def split: if_splits)
qed

text \<open>The two sends that follow an accepted submission, when the socket takes them.\<close>

lemma flush_present:
  assumes inv: "conn_inv d l c" and p: "cn_control c = Some p" "pp_after_send p = Present b f rs"
    and sent: "p_send P (pp_bytes p) w = (Sent, w1)"
    and pres: "present_buffer P b (snd (expand_first_present_damage (cn_needs_full_present c) rs d))
      (cn_buffers c) snapshot w1 = (presented, snap, w2)"
  shows "\<exists>bs. released_packet d b f = Inr bs \<and> flush_connection P d c snapshot w =
    (True, c\<lparr>cn_needs_full_present := False,
             cn_control := Some \<lparr>pp_bytes = bs, pp_after_send = ReleaseAfter b f (\<not> presented)\<rparr>\<rparr>, snap, w2)"
proof -
  from inv p have "b \<noteq> 0" "f \<noteq> 0" by (simp_all add: conn_inv_def)
  then obtain bs where bs: "released_packet d b f = Inr bs" using encode_released by blast
  then show ?thesis
    using p sent pres
    by (simp add: flush_connection_def apply_after_send_def expand_first_present_damage_def
        queue_control_def released_packet_def flush_input_def)
qed

lemma flush_release:
  assumes inv: "conn_inv d l c" and p: "cn_control c = Some p" "pp_after_send p = ReleaseAfter b f close"
    and sent: "p_send P (pp_bytes p) w = (Sent, w1)" and "cn_input c = None"
  shows "\<exists>fs. frame_owner fs = (frame_owner (cn_frames c))(b \<mapsto> None) \<and> flush_connection P d c snapshot w =
    (\<not> close, c\<lparr>cn_control := None, cn_frames := fs\<rparr>, snapshot, w1)"
proof -
  from inv p have "frame_owner (cn_frames c) b = Some (Some f)" and fsi: "frame_state_inv (cn_frames c)"
    by (auto simp: conn_inv_def conn_base_def flights_def)
  then obtain r fs where rel: "release_frame b f (cn_frames c) = Inr (r, fs)"
    using release_frame_ok [of "cn_frames c" b f] by auto
  with release_frame_owner(2) [OF fsi rel] assms show ?thesis
    by (intro exI [of _ fs]) (simp add: flush_connection_def apply_after_send_def flush_input_def)
qed

text \<open>
  C9. The life of a frame: a valid submission for a free buffer is acknowledged; when the socket takes the
  acknowledgement the frame is presented (in full the first time) and exactly its FrameReleased event
  is queued; when the socket takes that, the buffer belongs to the client again, whether or not
  the display accepted the frame, and a failed presentation closes the connection only then.
\<close>

theorem submission_lifecycle:
  assumes geo: "geometry_ok d l" and inv: "conn_inv d l c" and idle: "cn_control c = None" "cn_input c = None"
    and est: "cn_established c" and i: "i \<noteq> 0"
    and frame: "b = sf_buffer_id frame" "f = sf_frame_id frame" "b \<noteq> 0" "f \<noteq> 0"
      "validate_damage (sf_damage frame) d = Inr ()"
    and free: "frame_owner (cn_frames c) b = Some None" and sends: "\<forall>bs w. fst (p_send P bs w) = Sent"
  shows "\<exists>c1 ack rs c2 rel presented snap2 w2 c3 w3.
    queue_frame_submission i d frame c = (True, c1)
    \<and> cn_control c1 = Some \<lparr>pp_bytes = ack, pp_after_send = Present b f rs\<rparr>
    \<and> encode_service \<lparr>env_request_id = i, env_message = SAck\<rparr> (Some d) = Inr ack
    \<and> damage_ok d rs
    \<and> present_buffer P b (if cn_needs_full_present c then full_damage d else rs) (cn_buffers c) snap
        (snd (p_send P ack w)) = (presented, snap2, w2)
    \<and> flush_connection P d c1 snap w = (True, c2, snap2, w2)
    \<and> cn_control c2 = Some \<lparr>pp_bytes = rel, pp_after_send = ReleaseAfter b f (\<not> presented)\<rparr>
    \<and> released_packet d b f = Inr rel \<and> \<not> cn_needs_full_present c2
    \<and> flush_connection P d c2 snap2 w2 = (presented, c3, snap2, w3)
    \<and> cn_control c3 = None \<and> frame_owner (cn_frames c3) = frame_owner (cn_frames c)"
proof -
  have fsi: "frame_state_inv (cn_frames c)" and lay: "fs_layout (cn_frames c) = l"
    using inv by (simp_all add: conn_inv_def conn_base_def)
  have "\<exists>rs'. fs_validate_damage (cn_frames c) (sf_damage frame) = Inr rs'"
    using frame(5) geo lay
    by (auto simp: fs_validate_damage_def validate_damage_iff geometry_ok_def not_exceeds [symmetric])
  then obtain v fs where sub: "submit_frame b f (sf_damage frame) (cn_frames c) = Inr (v, fs)"
    using submit_frame_ok [OF free] by blast
  note own = submit_frame_owner [OF fsi sub]
  obtain ack where ack: "encode_service \<lparr>env_request_id = i, env_message = SAck\<rparr> (Some d) = Inr ack"
    using encode_ack [OF i] by blast
  let ?c1 = "c\<lparr>cn_frames := fs, cn_control := Some \<lparr>pp_bytes = ack,
    pp_after_send = Present b f (vs_damage v)\<rparr>\<rparr>"
  have q: "queue_frame_submission i d frame c = (True, ?c1)"
    using sub ack own(5,6) frame(1,2) by (simp add: queue_frame_submission_def queue_control_def)
  have inv1: "conn_inv d l ?c1"
    using queue_frame_submission_ok [OF inv idle(1) est i _ _ frame(5) geo q] frame by simp
  have dmg: "damage_ok d (vs_damage v)" using inv1 by (simp add: conn_inv_def)
  obtain w1 where w1: "p_send P ack w = (Sent, w1)" using sends by (metis prod.collapse)
  obtain presented snap2 w2 where pres: "present_buffer P b (if cn_needs_full_present c then full_damage d
      else vs_damage v) (cn_buffers c) snap w1 = (presented, snap2, w2)" by (metis prod_cases3)
  then obtain rel where rel: "released_packet d b f = Inr rel"
    and fl1: "flush_connection P d ?c1 snap w = (True, ?c1\<lparr>cn_needs_full_present := False,
      cn_control := Some \<lparr>pp_bytes = rel, pp_after_send = ReleaseAfter b f (\<not> presented)\<rparr>\<rparr>, snap2, w2)"
      (is "_ = (True, ?c2, _)")
    using flush_present [OF inv1 _ _ , of "\<lparr>pp_bytes = ack, pp_after_send = Present b f (vs_damage v)\<rparr>"
        b f "vs_damage v" P w w1 snap presented snap2 w2] w1
    by (auto simp: expand_first_present_damage_def)
  have inv2: "conn_inv d l ?c2" using flush_connection_inv [OF inv1 fl1] .
  obtain w3 where w3: "p_send P rel w2 = (Sent, w3)" using sends by (metis prod.collapse)
  obtain fs3 where fs3: "frame_owner fs3 = (frame_owner fs)(b \<mapsto> None)"
    "flush_connection P d ?c2 snap2 w2 = (presented, ?c2\<lparr>cn_control := None, cn_frames := fs3\<rparr>, snap2, w3)"
    using flush_release [OF inv2 _ _ , of "\<lparr>pp_bytes = rel, pp_after_send = ReleaseAfter b f (\<not> presented)\<rparr>"
        b f "\<not> presented" P w2 w3 snap2] w3 idle(2) by auto
  have "frame_owner fs3 = frame_owner (cn_frames c)" using fs3(1) own(2) free by (auto simp: fun_eq_iff)
  with q dmg ack pres w1 fl1 rel fs3(2) show ?thesis
    by (intro exI [of _ ?c1] exI [of _ ack] exI [of _ "vs_damage v"] exI [of _ ?c2] exI [of _ rel]
        exI [of _ presented] exI [of _ snap2] exI [of _ w2]
        exI [of _ "?c2\<lparr>cn_control := None, cn_frames := fs3\<rparr>"] exI [of _ w3])
      auto
qed

definition one_buffer_connection :: "unit connection" where
  "one_buffer_connection =
     \<lparr>cn_established = True, cn_negotiated_minor = Some 1,
      cn_frames = \<lparr>fs_layout = small_layout, fs_buffers = [\<lparr>rb_id = 1, rb_in_flight = None\<rparr>]\<rparr>,
      cn_buffers = [(1, ())], cn_control = None, cn_input = None, cn_needs_full_present = True\<rparr>"

lemma one_buffer_owner: "frame_owner (cn_frames one_buffer_connection) = [1 \<mapsto> None]"
  by (auto simp: one_buffer_connection_def frame_owner_def keyed_def fun_eq_iff)

lemma one_buffer_inv: "conn_inv small_display small_layout one_buffer_connection"
proof -
  have "flights (cn_frames one_buffer_connection) = {}"
    unfolding flights_def one_buffer_owner by (auto split: if_splits)
  then show ?thesis
    unfolding conn_inv_def conn_base_def by (simp add: one_buffer_connection_def frame_state_inv_def)
qed

theorem submission_lifecycle_witness:
  "\<exists>c1 c2 c3 snap w2 w3.
     queue_frame_submission 5 small_display \<lparr>sf_buffer_id = 1, sf_frame_id = 8, sf_damage = []\<rparr>
       one_buffer_connection = (True, c1)
     \<and> flush_connection quiet_machine small_display c1 [] () = (True, c2, snap, w2)
     \<and> flush_connection quiet_machine small_display c2 snap w2 = (True, c3, snap, w3)
     \<and> frame_owner (cn_frames c3) = [1 \<mapsto> None]"
proof -
  have geo: "geometry_ok small_display small_layout"
    by (simp add: geometry_ok_def small_display_def small_layout_def)
  have "validate_damage [] small_display = Inr ()" by (simp add: validate_damage_def)
  moreover have "\<forall>bs w. fst (p_send quiet_machine bs w) = Sent" by (simp add: quiet_machine_def)
  moreover have "present_buffer quiet_machine 1 rs (cn_buffers one_buffer_connection) s w
      = (presented, snap2, w2) \<Longrightarrow> presented" for rs s w presented snap2 w2
    by (simp add: present_buffer_def quiet_machine_def one_buffer_connection_def)
  ultimately show ?thesis
    using submission_lifecycle [OF geo one_buffer_inv, of 5 1
        "\<lparr>sf_buffer_id = 1, sf_frame_id = 8, sf_damage = []\<rparr>" 8 quiet_machine "[]" "()"]
    by (simp add: one_buffer_owner) (fastforce simp: one_buffer_connection_def)
qed

end
