(* ===== verification/Hw_Session_Watch.thy ===== *)
theory Hw_Session_Watch
  imports Hw_Service_Correct
begin

section \<open>Access to the Touch Bar follows the session\<close>

text \<open>
  The access the service loop of \<open>Hw_Service\<close> gives, judged from outside: a monitor states in which
  order the calls that admit, confirm and serve a client may come, a recording machine notes those
  calls, and every run of the loop is shown to be accepted by the monitor.
\<close>

subsection \<open>The monitor\<close>

text \<open>
  What access to the Touch Bar means, as a monitor of the calls the service makes. A client must be
  accepted, name a user other than root, be in the service's group and be admitted to the session as
  that very user, in this order and one client at a time; its access is dated by the clock reading that
  follows. Anything done for a client (a packet sent, a frame presented, a key tapped, a brightness
  written, a cancellation passed on) needs access, and a request is read only when the
  last confirmation of the session is less than the revalidation interval old. A session check that does
  not report the session as retained takes the access away.
\<close>

datatype session_event =
    ClientAccepted bool
  | PeerUser "u32 option"
  | PeerGroup bool
  | UserAdmitted u32 bool
  | SessionChecked "session_revalidation option"
  | SessionEnded
  | ClockRead nat
  | RequestRead
  | Served

datatype access = Closed | Accepted | Identified u32 | Member u32 | Granted | Live nat | Lost

fun monitor_step :: "session_event \<Rightarrow> access \<times> nat \<Rightarrow> (access \<times> nat) option" where
  "monitor_step (ClockRead t) (a, clock) = Some (if a = Granted then Live t else a, t)"
| "monitor_step (ClientAccepted b) (a, clock) =
     (if a \<noteq> Closed then None else Some (if b then Accepted else Closed, clock))"
| "monitor_step (PeerUser user) (a, clock) =
     (if a \<noteq> Accepted then None
      else Some (case user of None \<Rightarrow> Closed | Some u \<Rightarrow> if u = 0 then Closed else Identified u, clock))"
| "monitor_step (PeerGroup b) (a, clock) =
     (case a of Identified u \<Rightarrow> Some (if b then Member u else Closed, clock) | _ \<Rightarrow> None)"
| "monitor_step (UserAdmitted user b) (a, clock) =
     (if a \<noteq> Member user then None else Some (if b then Granted else Closed, clock))"
| "monitor_step (SessionChecked status) (a, clock) =
     (case a of Live since \<Rightarrow> Some (if status = Some Retained then Live clock else Lost, clock) | _ \<Rightarrow> None)"
| "monitor_step SessionEnded (a, clock) = Some (Closed, clock)"
| "monitor_step RequestRead (a, clock) =
     (case a of
        Live since \<Rightarrow> if clock - since < SESSION_REVALIDATE_INTERVAL then Some (a, clock) else None
      | _ \<Rightarrow> None)"
| "monitor_step Served (a, clock) = (case a of Live since \<Rightarrow> Some (a, clock) | _ \<Rightarrow> None)"

fun monitor_run :: "session_event list \<Rightarrow> access \<times> nat \<Rightarrow> (access \<times> nat) option" where
  "monitor_run [] m = Some m"
| "monitor_run (e # es) m = (case monitor_step e m of None \<Rightarrow> None | Some m' \<Rightarrow> monitor_run es m')"

lemma monitor_run_append:
  "monitor_run (xs @ ys) m = (case monitor_run xs m of None \<Rightarrow> None | Some m' \<Rightarrow> monitor_run ys m')"
  by (induction xs arbitrary: m) (auto split: option.split)

subsection \<open>The recorder\<close>

text \<open>
  A machine that notes the calls the monitor is about and passes every call on to the machine itself.
\<close>

definition noting ::
  "('w \<Rightarrow> 'a \<times> 'w) \<Rightarrow> ('a \<Rightarrow> session_event list) \<Rightarrow> 'w \<times> session_event list
    \<Rightarrow> 'a \<times> 'w \<times> session_event list" where
  "noting call events x = (let (a, w) = call (fst x) in (a, w, snd x @ events a))"

definition recording ::
  "('w, 'fd, 'fr) platform \<Rightarrow> ('w \<times> session_event list, 'fd, 'fr) platform" where
  "recording P = \<lparr>
     p_now = noting (p_now P) (\<lambda>t. [ClockRead t]),
     p_receive = noting (p_receive P) (\<lambda>_. [RequestRead]),
     p_send = \<lambda>bs. noting (p_send P bs) (\<lambda>_. [Served]),
     p_accept_frame = \<lambda>fd n. noting (p_accept_frame P fd n) (\<lambda>_. []),
     p_copy_into = \<lambda>fr bs. noting (p_copy_into P fr bs) (\<lambda>_. []),
     p_present = \<lambda>bs rs. noting (p_present P bs rs) (\<lambda>_. [Served]),
     p_tap = \<lambda>k. noting (p_tap P k) (\<lambda>_. [Served]),
     p_release_all = noting (p_release_all P) (\<lambda>_. []),
     p_cancel = noting (p_cancel P) (\<lambda>_. [Served]),
     p_read_attribute = \<lambda>x. p_read_attribute P (fst x),
     p_session_brightness = \<lambda>k n v. noting (p_session_brightness P k n v) (\<lambda>_. [Served]),
     p_session_refresh = noting (p_session_refresh P) (\<lambda>status. [SessionChecked status]),
     p_session_admit = \<lambda>u. noting (p_session_admit P u) (\<lambda>b. [UserAdmitted u b]),
     p_session_release = \<lambda>x. (p_session_release P (fst x), snd x @ [SessionEnded]),
     p_listener_ready = noting (p_listener_ready P) (\<lambda>_. []),
     p_listener_accept = noting (p_listener_accept P) (\<lambda>b. [ClientAccepted b]),
     p_peer_user_id = noting (p_peer_user_id P) (\<lambda>u. [PeerUser u]),
     p_peer_in_group = noting (p_peer_in_group P) (\<lambda>b. [PeerGroup b]),
     p_wait_events = \<lambda>i. noting (p_wait_events P i) (\<lambda>_. []),
     p_digitizer_read = noting (p_digitizer_read P) (\<lambda>_. []),
     p_fn_read = noting (p_fn_read P) (\<lambda>_. []),
     p_fn_pressed = noting (p_fn_pressed P) (\<lambda>_. [])\<rparr>"

text \<open>Between two worlds only events of a set were noted.\<close>

definition noted :: "session_event set \<Rightarrow> 'w \<times> session_event list \<Rightarrow> 'w \<times> session_event list \<Rightarrow> bool" where
  "noted A x y \<longleftrightarrow> (\<exists>es. snd y = snd x @ es \<and> set es \<subseteq> A)"

lemma noted_refl [simp]: "noted A x x"
  by (auto simp: noted_def)

lemma noted_trans: "noted A x y \<Longrightarrow> noted A y z \<Longrightarrow> noted A x z"
  by (fastforce simp: noted_def)

lemma noted_mono: "noted A x y \<Longrightarrow> A \<subseteq> B \<Longrightarrow> noted B x y"
  by (auto simp: noted_def)

lemma noting_noted: "noting call events x = (a, y) \<Longrightarrow> set (events a) \<subseteq> A \<Longrightarrow> noted A x y"
  by (auto simp: noting_def noted_def split: prod.splits)

abbreviation ticks :: "session_event set" where
  "ticks \<equiv> range ClockRead"

lemma monitor_run_served: "set es \<subseteq> {Served} \<Longrightarrow> monitor_run es (Live since, clock) = Some (Live since, clock)"
  by (induction es) auto

lemma monitor_run_ticks: "set es \<subseteq> ticks \<Longrightarrow> a \<noteq> Granted \<Longrightarrow> \<exists>clock'. monitor_run es (a, clock) = Some (a, clock')"
  by (induction es arbitrary: clock) auto

lemma monitor_run_busy:
  "set es \<subseteq> insert Served ticks \<Longrightarrow> \<exists>clock'. monitor_run es (Live since, clock) = Some (Live since, clock')"
  by (induction es arbitrary: clock) auto

subsection \<open>What the parts of a turn note\<close>

lemma recording_served:
  "p_send (recording P) bs x = (sent, y) \<Longrightarrow> noted {Served} x y"
  "p_copy_into (recording P) fr bs x = (copied, y) \<Longrightarrow> noted {Served} x y"
  "p_present (recording P) bs rs x = (presented, y) \<Longrightarrow> noted {Served} x y"
  "p_tap (recording P) k x = (tapped, y) \<Longrightarrow> noted {Served} x y"
  "p_cancel (recording P) x = (status, y) \<Longrightarrow> noted {Served} x y"
  "p_accept_frame (recording P) fd n x = (frame, y) \<Longrightarrow> noted {Served} x y"
  "p_release_all (recording P) x = (released, y) \<Longrightarrow> noted {Served} x y"
  "p_session_brightness (recording P) kind device v x = (written, y) \<Longrightarrow> noted {Served} x y"
  by (auto simp: recording_def intro: noting_noted)

lemma recording_ticks:
  "p_now (recording P) x = (t, y) \<Longrightarrow> noted ticks x y"
  "p_digitizer_read (recording P) x = (read, y) \<Longrightarrow> noted ticks x y"
  "p_fn_read (recording P) x = (edges, y) \<Longrightarrow> noted ticks x y"
  "p_fn_pressed (recording P) x = (pressed, y) \<Longrightarrow> noted ticks x y"
  "p_wait_events (recording P) i x = (events, y) \<Longrightarrow> noted ticks x y"
  by (auto simp: recording_def intro: noting_noted)

lemma present_buffer_noted:
  "present_buffer (recording P) b rs buffers snapshot x = (presented, snapshot', y) \<Longrightarrow> noted {Served} x y"
  by (auto simp: present_buffer_def Let_def split: option.splits prod.splits
      intro: noted_trans dest!: recording_served)

lemma apply_after_send_noted:
  "apply_after_send (recording P) d action c snapshot x = (okay, c', snapshot', y) \<Longrightarrow> noted {Served} x y"
  by (auto simp: apply_after_send_def Let_def split: after_send.splits prod.splits sum.splits
      dest!: present_buffer_noted)

lemma flush_input_noted:
  "flush_input (recording P) c snapshot x = (okay, c', snapshot', y) \<Longrightarrow> noted {Served} x y"
  by (auto simp: flush_input_def Let_def split: if_splits option.splits prod.splits send_result.splits
      dest!: recording_served)

lemma flush_connection_noted:
  "flush_connection (recording P) d c snapshot x = (okay, c', snapshot', y) \<Longrightarrow> noted {Served} x y"
  by (auto simp: flush_connection_def Let_def
      split: if_splits option.splits prod.splits send_result.splits
      intro: noted_trans dest!: recording_served apply_after_send_noted flush_input_noted)

lemma tap_keys_noted: "tap_keys (recording P) keys x = (tapped, y) \<Longrightarrow> noted {Served} x y"
proof (induction keys arbitrary: x)
  case (Cons key keys)
  then show ?case
    by (auto simp: Let_def split: prod.splits if_splits intro: noted_trans dest!: recording_served)
qed simp

lemma brightness_action_noted:
  assumes "brightness_action compute (p_now (recording P)) (p_session_brightness (recording P)) kind a x = (m, a', y)"
  shows "noted (insert Served ticks) x y"
proof -
  have now: "p_now (recording P) x = (t, y) \<Longrightarrow> noted (insert Served ticks) x y" for t x y
    using recording_ticks(1) noted_mono by blast
  have set: "p_session_brightness (recording P) kind n v x = (written, y) \<Longrightarrow> noted (insert Served ticks) x y"
    for kind n v written x y using recording_served(8) noted_mono by blast
  from assms show ?thesis
    by (auto simp: brightness_action_def Let_def split: if_splits prod.splits sum.splits
        intro: noted_trans dest!: now set)
qed

lemma on_conn_world: "on_conn f s = (okay, s') \<Longrightarrow> rs_world s' = rs_world s"
  by (auto simp: on_conn_def split: prod.splits)

lemma handle_request_noted:
  assumes "handle_request (recording P) d l e fd r = (okay, r')"
  shows "noted (insert Served ticks) (rs_world r) (rs_world r')"
proof -
  have served: "noted {Served} x y \<Longrightarrow> noted (insert Served ticks) x y" for x y :: "'a \<times> session_event list"
    by (rule noted_mono) auto
  note served_twice = served [OF noted_trans]
  show ?thesis
    using assms
    by (auto simp: handle_request_def queue_buffer_registration_def handle_tap_keys_def queue_brightness_def
        queue_brightness_step_def queue_cancellation_def set_brightness_def step_brightness_def Let_def
        split: client_message.splits option.splits sum.splits prod.splits if_splits
        intro: noted_trans served served_twice
        dest!: on_conn_world brightness_action_noted tap_keys_noted recording_served)
qed

lemma drain_digitizer_noted:
  "drain_digitizer (recording P) d o' n s = Inr s' \<Longrightarrow> noted ticks (ss_world s) (ss_world s')
     \<and> (ss_connection s' = None \<longleftrightarrow> ss_connection s = None) \<and> ss_last_session_check s' = ss_last_session_check s"
proof (induction n arbitrary: s)
  case (Suc n)
  obtain r w where r: "p_digitizer_read (recording P) (ss_world s) = (r, w)" by (metis surj_pair)
  show ?case
  proof (cases "\<exists>bs. r = Some (Report bs)")
    case True
    then obtain bs report where bs: "r = Some (Report bs)" and p: "parse_digitizer_payload bs = Inr report"
      using Suc.prems r by auto
    obtain t w1 where t: "p_now (recording P) w = (t, w1)" by (metis surj_pair)
    obtain f input where i: "ingest_touch (t - o') report (ss_input s) = (f, input)" by fastforce
    have "drain_digitizer (recording P) d o' n (s\<lparr>ss_world := w1, ss_input := input,
        ss_connection := queue_input_opt f d (ss_connection s)\<rparr>) = Inr s'"
      using Suc.prems r bs p t i by simp
    from Suc.IH [OF this] recording_ticks(2) [OF r] recording_ticks(1) [OF t] show ?thesis
      by (auto simp: queue_input_opt_def intro: noted_trans)
  next
    case False
    with Suc.prems r show ?thesis
      by (auto simp: Let_def split: option.splits digitizer_read.splits dest: recording_ticks)
  qed
qed simp

lemma apply_fn_edge_noted:
  "noted ticks (ss_world s) (ss_world (apply_fn_edge (recording P) d o' b s))
     \<and> (ss_connection (apply_fn_edge (recording P) d o' b s) = None \<longleftrightarrow> ss_connection s = None)
     \<and> ss_last_session_check (apply_fn_edge (recording P) d o' b s) = ss_last_session_check s"
  by (auto simp: apply_fn_edge_def queue_input_opt_def Let_def split: prod.split option.split
      dest: recording_ticks)

lemma process_function_noted:
  assumes "process_function (recording P) d o' s = Inr s'"
  shows "noted ticks (ss_world s) (ss_world s')
     \<and> (ss_connection s' = None \<longleftrightarrow> ss_connection s = None) \<and> ss_last_session_check s' = ss_last_session_check s"
proof -
  have fold: "noted ticks (ss_world x) (ss_world (fold (apply_fn_edge (recording P) d o') edges x))
     \<and> (ss_connection (fold (apply_fn_edge (recording P) d o') edges x) = None \<longleftrightarrow> ss_connection x = None)
     \<and> ss_last_session_check (fold (apply_fn_edge (recording P) d o') edges x) = ss_last_session_check x" for edges x
  proof (induction edges arbitrary: x)
    case (Cons a edges)
    from Cons [of "apply_fn_edge (recording P) d o' a x"] apply_fn_edge_noted [of x P d o' a] show ?case
      by (auto intro: noted_trans)
  qed simp
  obtain read w where read: "p_fn_read (recording P) (ss_world s) = (read, w)" by (metis surj_pair)
  obtain b w1 where b: "p_fn_pressed (recording P) w = (b, w1)" by (metis surj_pair)
  note reads = recording_ticks(3) [OF read] recording_ticks(4) [OF b]
  from assms read b reads fold [of "s\<lparr>ss_world := w\<rparr>"] apply_fn_edge_noted [of "s\<lparr>ss_world := w1\<rparr>"]
  show ?thesis
    by (auto simp: process_function_def Let_def split: option.splits fn_read.splits) (blast intro: noted_trans)+
qed

subsection \<open>Every turn is accepted\<close>

text \<open>The monitor accepts what was noted and agrees with the service about the client's access.\<close>

definition watched :: "('w \<times> session_event list, 'fr) service_state \<Rightarrow> nat \<Rightarrow> bool" where
  "watched s clock \<longleftrightarrow> monitor_run (snd (ss_world s)) (Closed, 0) =
     Some (if ss_connection s = None then Closed else Live (ss_last_session_check s), clock)"

text \<open>The client's session was confirmed within the interval before the last clock reading.\<close>

definition fresh :: "('w, 'fr) service_state \<Rightarrow> nat \<Rightarrow> bool" where
  "fresh s clock \<longleftrightarrow> ss_connection s = None \<or> clock - ss_last_session_check s < SESSION_REVALIDATE_INTERVAL"

lemma watched_ticks:
  assumes "watched s clock" and "noted ticks (ss_world s) (ss_world s')"
    and "ss_connection s' = None \<longleftrightarrow> ss_connection s = None" and "ss_last_session_check s' = ss_last_session_check s"
  shows "\<exists>clock'. watched s' clock'"
proof -
  from assms(2) obtain es where "snd (ss_world s') = snd (ss_world s) @ es" "set es \<subseteq> ticks"
    by (auto simp: noted_def)
  with assms(1,3,4) monitor_run_ticks [of es "if ss_connection s = None then Closed else Live (ss_last_session_check s)" clock]
  show ?thesis by (auto simp: watched_def monitor_run_append split: if_splits)
qed

lemma revoke_watched:
  assumes "monitor_run (snd (ss_world s)) (Closed, 0) = Some m" and "revoke (recording P) o' s = Inr s'"
  shows "\<exists>clock. watched s' clock \<and> ss_connection s' = None"
  using assms
  by (cases m) (auto simp: revoke_def recording_def noting_def watched_def monitor_run_append Let_def
      split: prod.splits if_splits)

lemma check_session_watched:
  assumes w: "watched s clock" and c: "check_session (recording P) o' s = Inr s'"
  shows "\<exists>clock'. watched s' clock' \<and> fresh s' clock'"
proof (cases "ss_connection s")
  case None
  with assms show ?thesis by (auto simp: check_session_def fresh_def)
next
  case (Some active)
  obtain t1 w1 where t1: "p_now P (fst (ss_world s)) = (t1, w1)" by fastforce
  obtain t2 w2 where t2: "p_now P w1 = (t2, w2)" by fastforce
  obtain status w3 where st: "p_session_refresh P w2 = (status, w3)" by fastforce
  let ?log = "snd (ss_world s) @ [ClockRead t1, ClockRead t2, SessionChecked status]"
  let ?s1 = "s\<lparr>ss_world := (w1, snd (ss_world s) @ [ClockRead t1])\<rparr>"
  let ?s3 = "s\<lparr>ss_last_session_check := t2, ss_world := (w3, ?log)\<rparr>"
  have s': "if t1 - ss_last_session_check s < SESSION_REVALIDATE_INTERVAL then s' = ?s1
    else if status = Some Retained then s' = ?s3 else revoke (recording P) o' ?s3 = Inr s'"
    using c Some t1 t2 st by (auto simp: check_session_def recording_def noting_def split: if_splits)
  from w Some have run: "monitor_run (snd (ss_world s)) (Closed, 0) = Some (Live (ss_last_session_check s), clock)"
    by (simp add: watched_def)
  then have run3: "monitor_run ?log (Closed, 0) = Some (if status = Some Retained then Live t2 else Lost, t2)"
    by (simp add: monitor_run_append)
  consider "t1 - ss_last_session_check s < SESSION_REVALIDATE_INTERVAL" | "s' = ?s3" "status = Some Retained"
    | "revoke (recording P) o' ?s3 = Inr s'" using s' by (auto split: if_splits)
  then show ?thesis
  proof cases
    case 1
    with s' run Some show ?thesis by (auto simp: watched_def fresh_def monitor_run_append)
  next
    case 2
    with run3 Some show ?thesis by (auto simp: watched_def fresh_def)
  next
    case 3
    from run3 have "monitor_run (snd (ss_world ?s3)) (Closed, 0) =
        Some (if status = Some Retained then Live t2 else Lost, t2)" by simp
    from revoke_watched [OF this 3] show ?thesis by (auto simp: fresh_def)
  qed
qed

lemma flush_active_watched:
  assumes w: "watched s clock" "fresh s clock" and f: "flush_active (recording P) d o' s = Inr s'"
  shows "\<exists>clock'. watched s' clock' \<and> fresh s' clock'"
proof (cases "ss_connection s")
  case None
  with assms show ?thesis by (auto simp: flush_active_def)
next
  case (Some c)
  obtain okay c' snap y where fl: "flush_connection (recording P) d c (ss_snapshot s) (ss_world s) = (okay, c', snap, y)"
    by (metis prod_cases4)
  then obtain es where es: "snd y = snd (ss_world s) @ es" "set es \<subseteq> {Served}"
    using flush_connection_noted unfolding noted_def by blast
  let ?s = "s\<lparr>ss_connection := Some c', ss_snapshot := snap, ss_world := y\<rparr>"
  from w(1) Some es have run: "monitor_run (snd (ss_world ?s)) (Closed, 0) = Some (Live (ss_last_session_check s), clock)"
    by (simp add: watched_def monitor_run_append monitor_run_served)
  have "s' = ?s \<or> revoke (recording P) o' ?s = Inr s'"
    using f Some fl by (auto simp: flush_active_def Let_def split: if_splits)
  then show ?thesis
  proof
    assume "s' = ?s"
    with run w(2) Some show ?thesis by (auto simp: watched_def fresh_def)
  next
    assume "revoke (recording P) o' ?s = Inr s'"
    from revoke_watched [OF run this] show ?thesis by (auto simp: fresh_def)
  qed
qed

lemma receive_request_run:
  assumes run: "monitor_run (snd (rs_world r)) (Closed, 0) = Some (Live since, clock)"
    and "clock - since < SESSION_REVALIDATE_INTERVAL" and rec: "receive_request (recording P) d l r = (okay, r')"
  shows "\<exists>clock'. monitor_run (snd (rs_world r')) (Closed, 0) = Some (Live since, clock')"
proof -
  obtain received w where "p_receive P (fst (rs_world r)) = (received, w)" by fastforce
  then have p: "p_receive (recording P) (rs_world r) = (received, w, snd (rs_world r) @ [RequestRead])"
    by (simp add: recording_def noting_def)
  let ?r = "r\<lparr>rs_world := (w, snd (rs_world r) @ [RequestRead])\<rparr>"
  have read: "monitor_run (snd (rs_world ?r)) (Closed, 0) = Some (Live since, clock)"
    using run assms(2) by (simp add: monitor_run_append)
  have "r' = ?r \<or> (\<exists>e fd. handle_request (recording P) d l e fd ?r = (okay, r'))"
    using rec p by (auto simp: receive_request_def Let_def split: receive_result.splits sum.splits)
  then have "noted (insert Served ticks) (rs_world ?r) (rs_world r')" using handle_request_noted by fastforce
  then obtain es where "snd (rs_world r') = snd (rs_world ?r) @ es" "set es \<subseteq> insert Served ticks"
    unfolding noted_def by blast
  moreover have "monitor_run (snd (rs_world ?r) @ es) (Closed, 0) = monitor_run es (Live since, clock)"
    unfolding monitor_run_append [of "snd (rs_world ?r)"] read by simp
  ultimately show ?thesis using monitor_run_busy [of es since clock] by (simp only:)
qed

lemma receive_active_watched:
  assumes w: "watched s clock" "fresh s clock" and f: "receive_active (recording P) d l o' s = Inr s'"
  shows "\<exists>clock'. watched s' clock'"
proof (cases "\<exists>c. ss_connection s = Some c \<and> cn_control c = None")
  case False
  with assms show ?thesis by (cases "ss_connection s") (auto simp: receive_active_def)
next
  case True
  then obtain c where c: "ss_connection s = Some c" "cn_control c = None" by blast
  let ?r = "\<lparr>rs_conn = c, rs_actions = ss_actions s, rs_world = ss_world s\<rparr>"
  obtain okay q where rec: "receive_request (recording P) d l ?r = (okay, q)" by (metis surj_pair)
  let ?s = "s\<lparr>ss_connection := Some (rs_conn q), ss_actions := rs_actions q, ss_world := rs_world q\<rparr>"
  obtain clock' where "monitor_run (snd (rs_world q)) (Closed, 0) = Some (Live (ss_last_session_check s), clock')"
    using receive_request_run [OF _ _ rec] w c by (auto simp: watched_def fresh_def)
  then have run: "monitor_run (snd (ss_world ?s)) (Closed, 0) = Some (Live (ss_last_session_check s), clock')" by simp
  have "s' = ?s \<or> revoke (recording P) o' ?s = Inr s'"
    using f c rec by (auto simp: receive_active_def Let_def split: if_splits)
  then show ?thesis
  proof
    assume "s' = ?s"
    with run show ?thesis by (auto simp: watched_def)
  next
    assume "revoke (recording P) o' ?s = Inr s'"
    from revoke_watched [OF run this] show ?thesis by blast
  qed
qed

lemma admit_next_watched:
  assumes "watched s clock" and "admit_next (recording P) l s = Inr s'"
  shows "\<exists>clock'. watched s' clock'"
proof (cases "ss_connection s")
  case None
  with assms show ?thesis
    by (auto simp: admit_next_def admit_peer_def recording_def noting_def watched_def monitor_run_append Let_def
        split: prod.splits option.splits bool.splits if_splits)
qed (use assms in \<open>auto simp: admit_next_def\<close>)

lemma service_turn_watched:
  assumes "watched s clock" and "service_turn (recording P) d l o' s = Inr s'"
  shows "\<exists>clock'. watched s' clock'"
proof -
  from assms(2) obtain s1 s2 s3 s4 s5 ready where turn: "check_session (recording P) o' s = Inr s1"
    "flush_active (recording P) d o' s1 = Inr s2" "receive_active (recording P) d l o' s2 = Inr s3"
    "admit_next (recording P) l s3 = Inr s4" "wait_for_service_events (recording P) s4 = Inr (ready, s5)"
    "process_input (recording P) d o' ready s5 = Inr s'"
    by (auto simp: service_turn_def)
  obtain c2 where c2: "watched s2 c2" "fresh s2 c2"
    using check_session_watched [OF assms(1) turn(1)] flush_active_watched [OF _ _ turn(2)] by blast
  obtain c4 where c4: "watched s4 c4"
    using receive_active_watched [OF c2 turn(3)] admit_next_watched [OF _ turn(4)] by blast
  have s5: "noted ticks (ss_world s4) (ss_world s5) \<and> ss_connection s5 = ss_connection s4
      \<and> ss_last_session_check s5 = ss_last_session_check s4"
    using turn(5) by (auto simp: wait_for_service_events_def Let_def split: prod.splits option.splits
        dest: recording_ticks)
  obtain s6 where s6: "(if ri_digitizer ready then drain_digitizer (recording P) d o' MAX_INPUT_DRAIN s5 else Inr s5) = Inr s6"
    and s': "(if ri_function ready then process_function (recording P) d o' s6 else Inr s6) = Inr s'"
    using turn(6) unfolding process_input_def rbind_Inr by blast
  have step6: "noted ticks (ss_world s5) (ss_world s6) \<and> (ss_connection s6 = None \<longleftrightarrow> ss_connection s5 = None)
      \<and> ss_last_session_check s6 = ss_last_session_check s5"
    using s6 by (auto split: if_splits simp del: MAX_INPUT_DRAIN_def dest: drain_digitizer_noted)
  have step7: "noted ticks (ss_world s6) (ss_world s') \<and> (ss_connection s' = None \<longleftrightarrow> ss_connection s6 = None)
      \<and> ss_last_session_check s' = ss_last_session_check s6"
    using s' by (auto split: if_splits dest: process_function_noted)
  have "noted ticks (ss_world s4) (ss_world s')" using s5 step6 step7 noted_trans by blast
  from watched_ticks [OF c4 this] s5 step6 step7 show ?thesis by simp
qed

subsection \<open>Property\<close>

text \<open>
  C25. Access to the Touch Bar follows the session, throughout every run of the service on any machine:
  the calls the service makes are accepted by the monitor. So a client is served only
  after it was accepted, named a user other than root, was found in the service's group and was
  admitted as that user; nothing is sent, presented, tapped, written or cancelled for it
  after a session check failed to report the session as retained; a request is read only when the session was
  confirmed less than fifty milliseconds before the turn's clock reading; and the service holds a
  connection exactly while the monitor grants access.
\<close>

theorem session_guards_connection:
  assumes "service_reaches (recording P) d l origin (service_start d snap fn controls origin (w, [])) s"
  shows "\<exists>clock. monitor_run (snd (ss_world s)) (Closed, 0) =
    Some (case ss_connection s of None \<Rightarrow> Closed | Some c \<Rightarrow> Live (ss_last_session_check s), clock)"
proof -
  have "watched (service_start d snap fn controls origin (w, [])) 0" by (simp add: watched_def service_start_def)
  with assms have "\<exists>clock. watched s clock"
    by (induction rule: service_reaches.induct) (auto intro: service_turn_watched)
  then show ?thesis by (auto simp: watched_def split: option.splits if_splits)
qed

text \<open>A machine whose clock moves on by a minute with every reading, and whose session then ends.\<close>

definition slow_machine :: "(nat, unit, unit) platform" where
  "slow_machine = \<lparr>p_now = \<lambda>w. (60000000000 * w, w + 1), p_receive = \<lambda>w. (ReceiveRetry, w),
     p_send = \<lambda>bs w. (Sent, w), p_accept_frame = \<lambda>fd n w. (Some (), w), p_copy_into = \<lambda>fr bs w. (Some bs, w),
     p_present = \<lambda>bs rs w. (True, w), p_tap = \<lambda>k w. (True, w), p_release_all = \<lambda>w. (True, w),
     p_cancel = \<lambda>w. (0, w), p_read_attribute = \<lambda>w n. Inl BIo,
     p_session_brightness = \<lambda>k n v w. (True, w), p_session_refresh = \<lambda>w. (Some SessionRevoked, w),
     p_session_admit = \<lambda>u w. (True, w), p_session_release = \<lambda>w. w,
     p_listener_ready = \<lambda>w. (Some True, w), p_listener_accept = \<lambda>w. (w = 0, w),
     p_peer_user_id = \<lambda>w. (Some 1000, w), p_peer_in_group = \<lambda>w. (True, w),
     p_wait_events = \<lambda>i w. (Some None, w), p_digitizer_read = \<lambda>w. (Some DigitizerIdle, w),
     p_fn_read = \<lambda>w. (Some FnIdle, w), p_fn_pressed = \<lambda>w. (Some False, w)\<rparr>"

theorem session_guards_connection_witness:
  "\<exists>s clock. service_reaches (recording slow_machine) small_display small_layout 0
       (service_start small_display [] False \<lparr>bc_display = None, bc_keyboard = None\<rparr> 0 (0, [])) s
     \<and> snd (ss_world s) = [ClientAccepted True, PeerUser (Some 1000), PeerGroup True, UserAdmitted 1000 True,
         ClockRead 0, ClockRead 60000000000, ClockRead 120000000000, SessionChecked (Some SessionRevoked),
         SessionEnded, ClockRead 180000000000, ClientAccepted False]
     \<and> monitor_run (snd (ss_world s)) (Closed, 0) = Some (Closed, clock)"
proof -
  let ?s0 = "service_start small_display [] False \<lparr>bc_display = None, bc_keyboard = None\<rparr> 0 (0, [])
    :: (nat \<times> session_event list, unit) service_state"
  let ?turn = "service_turn (recording slow_machine) small_display small_layout 0"
  let ?log1 = "[ClientAccepted True, PeerUser (Some 1000), PeerGroup True, UserAdmitted 1000 True, ClockRead 0]"
  let ?s1 = "?s0\<lparr>ss_connection := Some (connection_new small_layout), ss_world := (1, ?log1)\<rparr>"
  let ?s2 = "?s0\<lparr>ss_last_session_check := 120000000000,
    ss_world := (4, ?log1 @ [ClockRead 60000000000, ClockRead 120000000000, SessionChecked (Some SessionRevoked),
      SessionEnded, ClockRead 180000000000, ClientAccepted False])\<rparr>"
  note turn_defs = service_turn_def check_session_def flush_active_def receive_active_def admit_next_def
    wait_for_service_events_def process_input_def service_start_def admit_peer_def recording_def noting_def
    slow_machine_def revoke_def touch_idle_def input_state_new_def Let_def
  have "?turn ?s0 = Inr ?s1" by (simp add: turn_defs)
  moreover have "?turn ?s1 = Inr ?s2" by (simp add: turn_defs)
  ultimately have reach: "service_reaches (recording slow_machine) small_display small_layout 0 ?s0 ?s2"
    by (meson service_reaches.intros)
  from session_guards_connection [OF this] obtain clock where
    "monitor_run (snd (ss_world ?s2)) (Closed, 0) = Some (Closed, clock)" by (auto simp: service_start_def)
  with reach show ?thesis by (intro exI [of _ ?s2]) auto
qed

end
