(* ===== verification/Hw_Client_State.thy ===== *)
theory Hw_Client_State
  imports T1_Prelude
begin

section \<open>The rendering-client lease\<close>

text \<open>
  Models \<^verbatim>\<open>crates/t1-touchbar-hw/src/client_state.rs\<close>: the single lease on the Touch Bar with its
  two-phase revocation (the lease is taken away at once, a replacement waits until the old
  client's cleanup is confirmed and finished).
  An abstract lease with four phases states the contract; every operation of the source refines
  it, so the events of any run follow the cycle admitted, revoked, cleaned, finished.
\<close>

datatype 'reason client_admission_error =
    Unauthorized 'reason | ActiveClientExists | RevocationCleanupPending

record ('c, 'r) active_client =
  ac_connection_id :: 'c
  ac_resources :: 'r

record ('c, 'r) client_state =
  cs_active :: "('c, 'r) active_client option"
  cs_pending :: "('c, 'r) active_client option"
  cs_pending_cleanup_confirmed :: bool

definition client_state_new :: "('c, 'r) client_state" where
  "client_state_new = \<lparr>cs_active = None, cs_pending = None, cs_pending_cleanup_confirmed = False\<rparr>"

text \<open>
  The authorization closure is represented by its result; resources are made only on admission.
\<close>

definition admit_with_resources ::
  "'c \<Rightarrow> 'reason + unit \<Rightarrow> (unit \<Rightarrow> 'r) \<Rightarrow> ('c, 'r) client_state
    \<Rightarrow> 'reason client_admission_error + ('c, 'r) client_state" where
  "admit_with_resources connection_id authorize make_resources s =
     rbind (map_err Unauthorized authorize) (\<lambda>_.
       if cs_active s \<noteq> None then Inl ActiveClientExists
       else if cs_pending s \<noteq> None then Inl RevocationCleanupPending
       else Inr (s\<lparr>cs_active := Some \<lparr>ac_connection_id = connection_id,
                                     ac_resources = make_resources ()\<rparr>\<rparr>))"

definition client_resources :: "'c \<Rightarrow> ('c, 'r) client_state \<Rightarrow> 'r option" where
  "client_resources connection_id s =
     (case cs_active s of
        None \<Rightarrow> None
      | Some active \<Rightarrow>
          if ac_connection_id active = connection_id then Some (ac_resources active) else None)"

text \<open>A write through the borrow that \<^verbatim>\<open>resources_mut\<close> returns.\<close>

definition client_resources_mut :: "'c \<Rightarrow> ('r \<Rightarrow> 'r) \<Rightarrow> ('c, 'r) client_state \<Rightarrow> ('c, 'r) client_state" where
  "client_resources_mut connection_id f s =
     (case cs_active s of
        None \<Rightarrow> s
      | Some active \<Rightarrow>
          if ac_connection_id active = connection_id
          then s\<lparr>cs_active := Some (active\<lparr>ac_resources := f (ac_resources active)\<rparr>)\<rparr>
          else s)"

text \<open>What a cleanup guard borrows: the revoked connection and its resources.\<close>

definition pending_revocation :: "('c, 'r) client_state \<Rightarrow> ('c \<times> 'r) option" where
  "pending_revocation s =
     (if cs_pending_cleanup_confirmed s then None
      else map_option (\<lambda>p. (ac_connection_id p, ac_resources p)) (cs_pending s))"

definition session_transition :: "('c, 'r) client_state \<Rightarrow> ('c \<times> 'r) option \<times> ('c, 'r) client_state" where
  "session_transition s =
     (if cs_pending s \<noteq> None then (None, s)
      else let s' = s\<lparr>cs_pending := cs_active s, cs_active := None,
                      cs_pending_cleanup_confirmed := False\<rparr> in
        (pending_revocation s', s'))"

definition client_disconnect ::
  "'c \<Rightarrow> ('c, 'r) client_state \<Rightarrow> ('c \<times> 'r) option \<times> ('c, 'r) client_state" where
  "client_disconnect connection_id s =
     (if (case cs_active s of None \<Rightarrow> True | Some a \<Rightarrow> ac_connection_id a \<noteq> connection_id)
      then (None, s) else session_transition s)"

text \<open>\<^verbatim>\<open>RevokedClient::confirm_cleanup\<close> needs a guard, which exists only while cleanup is unconfirmed.\<close>

definition confirm_cleanup :: "('c, 'r) client_state \<Rightarrow> ('c, 'r) client_state" where
  "confirm_cleanup s =
     (if pending_revocation s = None then s else s\<lparr>cs_pending_cleanup_confirmed := True\<rparr>)"

definition finish_revocation :: "('c, 'r) client_state \<Rightarrow> 'c option \<times> ('c, 'r) client_state" where
  "finish_revocation s =
     (if \<not> cs_pending_cleanup_confirmed s then (None, s)
      else case cs_pending s of
        None \<Rightarrow> (None, s)
      | Some p \<Rightarrow> (Some (ac_connection_id p),
                   s\<lparr>cs_pending := None, cs_pending_cleanup_confirmed := False\<rparr>))"

subsection \<open>The abstract lease\<close>

datatype 'c lease = Free | Leased 'c | Revoking 'c | Cleaned 'c

datatype 'c lease_event = Admitted 'c | Revoked 'c | Confirmed 'c | Finished 'c

inductive lease_step :: "'c lease \<Rightarrow> 'c lease_event \<Rightarrow> 'c lease \<Rightarrow> bool" where
  admitted: "lease_step Free (Admitted c) (Leased c)"
| revoked: "lease_step (Leased c) (Revoked c) (Revoking c)"
| confirmed: "lease_step (Revoking c) (Confirmed c) (Cleaned c)"
| finished: "lease_step (Cleaned c) (Finished c) Free"

inductive_simps lease_step_simps [simp]:
  "lease_step l (Admitted c) l'"
  "lease_step l (Revoked c) l'"
  "lease_step l (Confirmed c) l'"
  "lease_step l (Finished c) l'"

abbreviation lease_run :: "'c lease \<Rightarrow> 'c lease_event list \<Rightarrow> 'c lease \<Rightarrow> bool" where
  "lease_run \<equiv> labelled_run lease_step"

text \<open>Between two admissions that follow each other the first client is revoked, cleaned and finished.\<close>

lemma lease_run_between:
  assumes "lease_run l (xs @ Admitted c # ys @ Admitted d # zs) l'" and "\<forall>e. Admitted e \<notin> set ys"
  shows "ys = [Revoked c, Confirmed c, Finished c]"
proof -
  from assms(1) have run: "\<exists>m. lease_run (Leased c) (ys @ Admitted d # zs) m" by (auto simp: labelled_run_append)
  show ?thesis
  proof (cases ys rule: remdups_adj.cases)
    case 1
    with run show ?thesis by auto
  next
    case (2 x)
    with run show ?thesis by (cases x) auto
  next
    case (3 x y rest)
    with run assms(2) show ?thesis
      by (cases x; cases y; cases rest; cases "hd rest"; cases "tl rest"; cases "hd (tl rest)") auto
  qed
qed

subsection \<open>The state implements the lease\<close>

datatype ('c, 'reason, 'r) client_op =
    OAdmit 'c "'reason + unit" 'r
  | OMutate 'c "'r \<Rightarrow> 'r"
  | OTransition
  | ODisconnect 'c
  | OConfirm
  | OFinish

fun client_exec ::
  "('c, 'reason, 'r) client_op \<Rightarrow> ('c, 'r) client_state \<Rightarrow> 'c lease_event list \<times> ('c, 'r) client_state" where
  "client_exec (OAdmit c auth r) s =
     (case admit_with_resources c auth (\<lambda>_. r) s of Inl e \<Rightarrow> ([], s) | Inr s' \<Rightarrow> ([Admitted c], s'))"
| "client_exec (OMutate c f) s = ([], client_resources_mut c f s)"
| "client_exec OTransition s =
     (case session_transition s of (None, s') \<Rightarrow> ([], s') | (Some (c, r), s') \<Rightarrow> ([Revoked c], s'))"
| "client_exec (ODisconnect c) s =
     (case client_disconnect c s of (None, s') \<Rightarrow> ([], s') | (Some (c', r), s') \<Rightarrow> ([Revoked c'], s'))"
| "client_exec OConfirm s =
     (case pending_revocation s of
        None \<Rightarrow> ([], s)
      | Some (c, r) \<Rightarrow> ([Confirmed c], confirm_cleanup s))"
| "client_exec OFinish s =
     (case finish_revocation s of (None, s') \<Rightarrow> ([], s') | (Some c, s') \<Rightarrow> ([Finished c], s'))"

definition client_inv :: "('c, 'r) client_state \<Rightarrow> bool" where
  "client_inv s \<longleftrightarrow> (cs_active s = None \<or> cs_pending s = None)
     \<and> (cs_pending_cleanup_confirmed s \<longrightarrow> cs_pending s \<noteq> None)"

fun lease_of :: "('c, 'r) client_state \<Rightarrow> 'c lease" where
  "lease_of s =
     (case cs_active s of
        Some a \<Rightarrow> Leased (ac_connection_id a)
      | None \<Rightarrow>
          (case cs_pending s of
             Some p \<Rightarrow> (if cs_pending_cleanup_confirmed s then Cleaned (ac_connection_id p)
                        else Revoking (ac_connection_id p))
           | None \<Rightarrow> Free))"

lemmas client_op_defs = admit_with_resources_def client_resources_mut_def session_transition_def
  client_disconnect_def pending_revocation_def confirm_cleanup_def finish_revocation_def client_inv_def

lemma client_exec_refines:
  assumes "client_inv s" and "client_exec p s = (es, s')"
  shows "client_inv s' \<and> lease_run (lease_of s) es (lease_of s')"
proof (cases p)
  case (OAdmit c auth r)
  with assms show ?thesis
    by (cases auth) (auto simp: client_op_defs Let_def split: option.splits if_splits)
qed (use assms in \<open>auto simp: client_op_defs Let_def split: option.splits if_splits prod.splits\<close>)

interpretation client_lease: trace_refinement client_inv lease_of lease_step client_exec
  by unfold_locales (rule client_exec_refines)

lemma client_state_new_inv [simp]: "client_inv client_state_new" "lease_of client_state_new = Free"
  by (simp_all add: client_inv_def client_state_new_def)

subsection \<open>Properties\<close>

text \<open>
  C26. Every sequence of admissions, writes to resources, session changes, disconnections and cleanup steps
  follows the cycle of the abstract lease: an admission only into a free lease, a revocation only of the
  client that holds it, a confirmation only of a revoked client's cleanup, and the end of a revocation only
  after its cleanup was confirmed. So between two successive admissions lie exactly the revocation, the
  confirmed cleanup and the end of the first client, and at no moment do an active and a
  revoked client coexist: there is one renderer at a time.
\<close>

theorem one_renderer_at_a_time:
  assumes "exec_all client_exec ops client_state_new = (events, s)"
  shows "lease_run Free events (lease_of s)
    \<and> (\<forall>xs c ys d zs. events = xs @ Admitted c # ys @ Admitted d # zs \<and> (\<forall>e. Admitted e \<notin> set ys) \<longrightarrow>
         ys = [Revoked c, Confirmed c, Finished c])
    \<and> (cs_active s = None \<or> cs_pending s = None)
    \<and> (cs_pending_cleanup_confirmed s \<longrightarrow> cs_pending s \<noteq> None)"
proof -
  have "client_inv s" and "lease_run Free events (lease_of s)"
    using client_lease.exec_all_refines [OF _ assms] by (simp_all del: lease_of.simps)
  then show ?thesis using lease_run_between by (fastforce simp: client_inv_def simp del: lease_of.simps)
qed

theorem one_renderer_at_a_time_witness:
  "\<exists>events s. exec_all client_exec
       ([OAdmit 1 (Inr ()) (), OAdmit 2 (Inr ()) (), OFinish, OTransition, OFinish, OAdmit 2 (Inr ()) (),
         ODisconnect 1, OConfirm, OFinish, OAdmit 2 (Inr ()) ()] :: (nat, unit, unit) client_op list)
       client_state_new = (events, s)
     \<and> events = [Admitted 1, Revoked 1, Confirmed 1, Finished 1, Admitted 2] \<and> lease_of s = Leased 2
     \<and> lease_run Free events (lease_of s)"
proof -
  let ?ops = "[OAdmit 1 (Inr ()) (), OAdmit 2 (Inr ()) (), OFinish, OTransition, OFinish, OAdmit 2 (Inr ()) (),
     ODisconnect 1, OConfirm, OFinish, OAdmit 2 (Inr ()) ()] :: (nat, unit, unit) client_op list"
  let ?s = "\<lparr>cs_active = Some \<lparr>ac_connection_id = 2, ac_resources = ()\<rparr>, cs_pending = None,
     cs_pending_cleanup_confirmed = False\<rparr>"
  have run: "exec_all client_exec ?ops client_state_new =
     ([Admitted 1, Revoked 1, Confirmed 1, Finished 1, Admitted 2], ?s)"
    by (simp add: client_op_defs client_state_new_def)
  from run one_renderer_at_a_time [OF run, THEN conjunct1] show ?thesis
    by (intro exI [of _ "[Admitted 1, Revoked 1, Confirmed 1, Finished 1, Admitted 2]"] exI [of _ ?s]) auto
qed

text \<open>
  A disconnect from a connection that does not hold the lease changes nothing and releases nothing, and
  resources are reachable only under the identifier of the connection that holds the lease.
\<close>

theorem stale_client_is_harmless:
  assumes "lease_of s \<noteq> Leased c"
  shows "client_disconnect c s = (None, s) \<and> client_resources c s = None
    \<and> client_resources_mut c f s = s"
  using assms by (auto simp: client_op_defs client_resources_def split: option.splits if_splits)

theorem stale_client_is_harmless_witness:
  "client_disconnect 7 (client_state_new :: (nat, unit) client_state) = (None, client_state_new)"
  using stale_client_is_harmless [of "client_state_new :: (nat, unit) client_state" 7]
  by (simp add: client_state_new_def)

end
