(* ===== verification/Auth_Protocol.thy ===== *)
theory Auth_Protocol
  imports T1_Prelude
begin

section \<open>The Touch ID authentication broker\<close>

text \<open>
  Models \<^verbatim>\<open>crates/t1-daemons/src/auth_protocol.rs\<close>: the fixed request and response packets, the access
  policy, the broker state with its single active operation and 64-bit operation tokens, and the
  client's evaluation of responses. Closures that deliver a cancellation are represented by
  their answer. An abstract single-operation slot specifies the broker; any run of it issues
  strictly increasing tokens and reports success only for an operation whose cancellation was never
  recorded.
\<close>

subsection \<open>Packets\<close>

definition PROTOCOL_VERSION :: u8 where [simp]: "PROTOCOL_VERSION = 1"
definition MAX_MATCH_TIMEOUT :: nat where [simp]: "MAX_MATCH_TIMEOUT = 30 * 10 ^ 9"
definition SETUP_ALLOWANCE :: nat where [simp]: "SETUP_ALLOWANCE = 35 * 10 ^ 9"
definition BIOMETRIC_USER_ID :: u32 where [simp]: "BIOMETRIC_USER_ID = 501"
definition ROOT_UID :: u32 where [simp]: "ROOT_UID = 0"
definition WORLD_WRITABLE :: u32 where [simp]: "WORLD_WRITABLE = 2"
definition REQUEST_SIZE :: nat where [simp]: "REQUEST_SIZE = 8"
definition RESPONSE_SIZE :: nat where [simp]: "RESPONSE_SIZE = 4"

text \<open>The ASCII texts T1AUTH, T1APRV, T1ENRL and T1CNCL, the version byte and a newline.\<close>

definition AUTHENTICATE_REQUEST :: bytes where
  [simp]: "AUTHENTICATE_REQUEST = [0x54, 0x31, 0x41, 0x55, 0x54, 0x48, 0x01, 0x0a]"

definition APPROVE_REQUEST :: bytes where
  [simp]: "APPROVE_REQUEST = [0x54, 0x31, 0x41, 0x50, 0x52, 0x56, 0x01, 0x0a]"

definition ENROLL_REQUEST :: bytes where
  [simp]: "ENROLL_REQUEST = [0x54, 0x31, 0x45, 0x4e, 0x52, 0x4c, 0x01, 0x0a]"

definition CANCEL_REQUEST :: bytes where
  [simp]: "CANCEL_REQUEST = [0x54, 0x31, 0x43, 0x4e, 0x43, 0x4c, 0x01, 0x0a]"

text \<open>OKAY, DENY, BUSY and FAIL.\<close>

definition RESPONSE_OK :: bytes where [simp]: "RESPONSE_OK = [0x4f, 0x4b, 0x41, 0x59]"
definition RESPONSE_DENIED :: bytes where [simp]: "RESPONSE_DENIED = [0x44, 0x45, 0x4e, 0x59]"
definition RESPONSE_BUSY :: bytes where [simp]: "RESPONSE_BUSY = [0x42, 0x55, 0x53, 0x59]"
definition RESPONSE_FAILURE :: bytes where [simp]: "RESPONSE_FAILURE = [0x46, 0x41, 0x49, 0x4c]"

datatype auth_request = RAuthenticate | RApprove | REnroll | RCancel

datatype auth_response = Okay | Denied | Busy | Failure

datatype request_error = RequestWrongLength | WrongTerminator | UnsupportedVersion | UnsupportedAction

datatype response_error = ResponseWrongLength | UnsupportedResponse

fun encode_request :: "auth_request \<Rightarrow> bytes" where
  "encode_request RAuthenticate = AUTHENTICATE_REQUEST"
| "encode_request RApprove = APPROVE_REQUEST"
| "encode_request REnroll = ENROLL_REQUEST"
| "encode_request RCancel = CANCEL_REQUEST"

fun encode_response :: "auth_response \<Rightarrow> bytes" where
  "encode_response Okay = RESPONSE_OK"
| "encode_response Denied = RESPONSE_DENIED"
| "encode_response Busy = RESPONSE_BUSY"
| "encode_response Failure = RESPONSE_FAILURE"

definition decode_request :: "bytes \<Rightarrow> request_error + auth_request" where
  "decode_request packet =
     (if length packet \<noteq> REQUEST_SIZE then Inl RequestWrongLength
      else if packet ! (REQUEST_SIZE - 1) \<noteq> 0x0a then Inl WrongTerminator
      else if packet ! (REQUEST_SIZE - 2) \<noteq> PROTOCOL_VERSION then Inl UnsupportedVersion
      else let action = take (REQUEST_SIZE - 2) packet in
        if action = [0x54, 0x31, 0x41, 0x55, 0x54, 0x48] then Inr RAuthenticate
        else if action = [0x54, 0x31, 0x41, 0x50, 0x52, 0x56] then Inr RApprove
        else if action = [0x54, 0x31, 0x45, 0x4e, 0x52, 0x4c] then Inr REnroll
        else if action = [0x54, 0x31, 0x43, 0x4e, 0x43, 0x4c] then Inr RCancel
        else Inl UnsupportedAction)"

definition decode_response :: "bytes \<Rightarrow> response_error + auth_response" where
  "decode_response packet =
     (if length packet \<noteq> RESPONSE_SIZE then Inl ResponseWrongLength
      else if packet = RESPONSE_OK then Inr Okay
      else if packet = RESPONSE_DENIED then Inr Denied
      else if packet = RESPONSE_BUSY then Inr Busy
      else if packet = RESPONSE_FAILURE then Inr Failure
      else Inl UnsupportedResponse)"

lemma decode_request_iff: "decode_request p = Inr r \<longleftrightarrow> p = encode_request r"
proof
  assume dec: "decode_request p = Inr r"
  then have len: "length p = 8" and last: "p ! 7 = 0x0a" "p ! 6 = 1"
    by (auto simp: decode_request_def split: if_splits)
  have "p = take 6 p @ drop 6 p" by simp
  also have "drop 6 p = [p ! 6, p ! 7]"
    using len by (simp add: Cons_nth_drop_Suc [symmetric] numeral_eq_Suc)
  finally have "p = take 6 p @ [1, 0x0a]" using last by simp
  moreover from dec have "take 6 p @ [1, 0x0a] = encode_request r"
    by (auto simp: decode_request_def Let_def split: if_splits)
  ultimately show "p = encode_request r" by simp
next
  assume "p = encode_request r"
  then show "decode_request p = Inr r" by (cases r) (simp_all add: decode_request_def)
qed

lemma encode_request_inject: "encode_request q = encode_request r \<longleftrightarrow> q = r"
  using decode_request_iff [of "encode_request q" q] decode_request_iff [of "encode_request q" r] by auto

lemma decode_encode_request: "decode_request (encode_request r) = Inr r"
  by (simp add: decode_request_iff)

lemma decode_response_iff: "decode_response p = Inr r \<longleftrightarrow> p = encode_response r"
  by (cases r) (auto simp: decode_response_def)

interpretation auth_requests: canonical_codec "\<lambda>_. True" "\<lambda>r. Inr (encode_request r) :: unit + bytes" decode_request
  by unfold_locales (auto simp: decode_request_iff)

interpretation auth_responses: canonical_codec "\<lambda>_. True" "\<lambda>r. Inr (encode_response r) :: unit + bytes" decode_response
  by unfold_locales (auto simp: decode_response_iff)

subsection \<open>Policy\<close>

datatype peer_address_family = FamilyLocal | InternetV6 | Netlink | OtherFamily

record peer_metadata =
  peer_family :: peer_address_family
  peer_user_id :: u32
  peer_group_id :: u32

datatype endpoint_kind = LocalSocket | OtherKind

record endpoint_metadata =
  ep_kind :: endpoint_kind
  ep_owner_user_id :: u32
  ep_mode :: u32

definition endpoint_is_trusted :: "endpoint_metadata \<Rightarrow> bool" where
  "endpoint_is_trusted m \<longleftrightarrow> ep_kind m = LocalSocket \<and> ep_owner_user_id m = ROOT_UID
     \<and> ep_mode m AND WORLD_WRITABLE = 0"

record access_policy =
  ap_enrollment_owner_user_id :: u32

datatype policy_error = InvalidEnrollmentOwner

definition access_policy_new :: "u32 \<Rightarrow> policy_error + access_policy" where
  "access_policy_new owner =
     (if owner = ROOT_UID then Inl InvalidEnrollmentOwner
      else Inr \<lparr>ap_enrollment_owner_user_id = owner\<rparr>)"

definition biometric_user_for :: "access_policy \<Rightarrow> peer_metadata \<Rightarrow> u32 option" where
  "biometric_user_for policy peer =
     (if peer_family peer \<noteq> FamilyLocal then None
      else if peer_user_id peer = ROOT_UID \<or> peer_user_id peer = ap_enrollment_owner_user_id policy
      then Some BIOMETRIC_USER_ID else None)"

definition peer_is_authorized :: "access_policy \<Rightarrow> peer_metadata \<Rightarrow> bool" where
  "peer_is_authorized policy peer \<longleftrightarrow> biometric_user_for policy peer \<noteq> None"

datatype purpose = PAuthenticate | PApprove | PEnrollment

definition enrollment_owner_candidate_new :: "u32 \<Rightarrow> u32 option" where
  "enrollment_owner_candidate_new user_id = (if user_id = ROOT_UID then None else Some user_id)"

record operation =
  op_token :: u64
  op_biometric_user_id :: u32
  op_purpose :: purpose
  op_enrollment_owner_candidate :: "u32 option"

datatype broker_decision = Start operation | Reply auth_response

datatype operation_result = Matched | NoMatch | ResultCancelled | ResultUnavailable | ResultFailed

subsection \<open>Broker state\<close>

record active_operation =
  ao_token :: u64
  ao_cancelled :: bool

record broker_state =
  bs_active :: "active_operation option"
  bs_next_token :: u64

datatype token_admission = AdmitStart u64 | AdmitBusy | AdmitFailed

definition broker_state_default :: broker_state where
  "broker_state_default = \<lparr>bs_active = None, bs_next_token = 1\<rparr>"

text \<open>Tokens count up to the last 64-bit value; zero then marks an exhausted counter.\<close>

definition checked_next_token :: "u64 \<Rightarrow> u64" where
  "checked_next_token t = (if unat t + 1 < 2 ^ 64 then t + 1 else 0)"

definition start_token :: "broker_state \<Rightarrow> token_admission \<times> broker_state" where
  "start_token s =
     (if bs_active s \<noteq> None then (AdmitBusy, s)
      else if bs_next_token s = 0 then (AdmitFailed, s)
      else (AdmitStart (bs_next_token s),
            s\<lparr>bs_active := Some \<lparr>ao_token = bs_next_token s, ao_cancelled = False\<rparr>,
              bs_next_token := checked_next_token (bs_next_token s)\<rparr>))"

definition cancel_token :: "u64 \<Rightarrow> (u64 \<Rightarrow> bool) \<Rightarrow> broker_state \<Rightarrow> bool \<times> broker_state" where
  "cancel_token token deliver s =
     (case bs_active s of
        None \<Rightarrow> (False, s)
      | Some active \<Rightarrow>
          if ao_token active \<noteq> token \<or> \<not> deliver token then (False, s)
          else (True, s\<lparr>bs_active := Some (active\<lparr>ao_cancelled := True\<rparr>)\<rparr>))"

definition finish_token :: "u64 \<Rightarrow> broker_state \<Rightarrow> bool option \<times> broker_state" where
  "finish_token token s =
     (case bs_active s of
        None \<Rightarrow> (None, s)
      | Some active \<Rightarrow>
          if ao_token active \<noteq> token then (None, s)
          else (Some (ao_cancelled active), s\<lparr>bs_active := None\<rparr>))"

definition finish_operation ::
  "u64 \<Rightarrow> operation_result \<Rightarrow> broker_state \<Rightarrow> auth_response option \<times> broker_state" where
  "finish_operation token result s =
     (case finish_token token s of
        (None, s') \<Rightarrow> (None, s')
      | (Some cancelled, s') \<Rightarrow>
          (Some (if \<not> cancelled \<and> result = Matched then Okay else Failure), s'))"

definition is_cancelled :: "u64 \<Rightarrow> broker_state \<Rightarrow> bool" where
  "is_cancelled token s =
     (case bs_active s of None \<Rightarrow> True | Some a \<Rightarrow> ao_token a \<noteq> token \<or> ao_cancelled a)"

definition client_disconnected :: "u64 \<Rightarrow> (u64 \<Rightarrow> bool) \<Rightarrow> broker_state \<Rightarrow> bool \<times> broker_state" where
  "client_disconnected = cancel_token"

definition start_operation ::
  "u32 \<Rightarrow> purpose \<Rightarrow> u32 option \<Rightarrow> broker_state \<Rightarrow> broker_decision \<times> broker_state" where
  "start_operation user p candidate s =
     (case start_token s of
        (AdmitStart token, s') \<Rightarrow>
          (Start \<lparr>op_token = token, op_biometric_user_id = user, op_purpose = p,
                  op_enrollment_owner_candidate = candidate\<rparr>, s')
      | (AdmitBusy, s') \<Rightarrow> (Reply Busy, s')
      | (AdmitFailed, s') \<Rightarrow> (Reply Failure, s'))"

definition cancel_for_root ::
  "peer_metadata \<Rightarrow> (u64 \<Rightarrow> bool) \<Rightarrow> broker_state \<Rightarrow> broker_decision \<times> broker_state" where
  "cancel_for_root peer deliver s =
     (if peer_family peer \<noteq> FamilyLocal \<or> peer_user_id peer \<noteq> ROOT_UID then (Reply Denied, s)
      else case bs_active s of
        None \<Rightarrow> (Reply Denied, s)
      | Some active \<Rightarrow>
          (case cancel_token (ao_token active) deliver s of
             (True, s') \<Rightarrow> (Reply Okay, s')
           | (False, s') \<Rightarrow> (Reply Denied, s')))"

definition cancel_without_owner ::
  "peer_metadata \<Rightarrow> (u64 \<Rightarrow> bool) \<Rightarrow> broker_state \<Rightarrow> broker_decision \<times> broker_state" where
  "cancel_without_owner = cancel_for_root"

definition enroll_without_owner :: "peer_metadata \<Rightarrow> broker_state \<Rightarrow> broker_decision \<times> broker_state" where
  "enroll_without_owner peer s =
     (if peer_family peer \<noteq> FamilyLocal then (Reply Denied, s)
      else case enrollment_owner_candidate_new (peer_user_id peer) of
        None \<Rightarrow> (Reply Denied, s)
      | Some candidate \<Rightarrow> start_operation BIOMETRIC_USER_ID PEnrollment (Some candidate) s)"

definition handle_packet_with_cancellation ::
  "peer_metadata \<Rightarrow> access_policy \<Rightarrow> bytes \<Rightarrow> (u64 \<Rightarrow> bool) \<Rightarrow> broker_state \<Rightarrow> broker_decision \<times> broker_state" where
  "handle_packet_with_cancellation peer policy packet deliver s =
     (case biometric_user_for policy peer of
        None \<Rightarrow> (Reply Denied, s)
      | Some user \<Rightarrow>
          (case decode_request packet of
             Inl e \<Rightarrow> (Reply Denied, s)
           | Inr RCancel \<Rightarrow> cancel_for_root peer deliver s
           | Inr RAuthenticate \<Rightarrow> start_operation user PAuthenticate None s
           | Inr RApprove \<Rightarrow> start_operation user PApprove None s
           | Inr REnroll \<Rightarrow>
               if peer_user_id peer = ROOT_UID then (Reply Denied, s)
               else start_operation user PEnrollment
                      (enrollment_owner_candidate_new (peer_user_id peer)) s))"

definition handle_packet ::
  "peer_metadata \<Rightarrow> access_policy \<Rightarrow> bytes \<Rightarrow> broker_state \<Rightarrow> broker_decision \<times> broker_state" where
  "handle_packet peer policy packet s =
     handle_packet_with_cancellation peer policy packet (\<lambda>_. False) s"

subsection \<open>The client\<close>

datatype client_purpose = CAuthenticate | CApprove

fun client_purpose_request :: "client_purpose \<Rightarrow> bytes" where
  "client_purpose_request CAuthenticate = AUTHENTICATE_REQUEST"
| "client_purpose_request CApprove = APPROVE_REQUEST"

datatype client_transport_failure =
    TBrokerUnavailable | TDeadlineExceeded | TUntrustedEndpoint | TUntrustedPeer | TSendFailed | TReceiveFailed

datatype client_failure =
    FBrokerUnavailable | FDeadlineExceeded | FUntrustedEndpoint | FUntrustedPeer | FSendFailed
  | FReceiveFailed | FDenied | FBusy | FBrokerFailure | FInvalidResponse

datatype client_outcome = Authenticated | OutcomeFailed client_failure

text \<open>Durations are in nanoseconds; a \<^verbatim>\<open>Duration\<close> holds fewer than \<open>2 ^ 64\<close> seconds.\<close>

definition validate_match_timeout :: "nat \<Rightarrow> client_failure + unit" where
  "validate_match_timeout timeout =
     (if timeout = 0 \<or> timeout > MAX_MATCH_TIMEOUT then Inl FDeadlineExceeded else Inr ())"

definition client_watchdog :: "nat \<Rightarrow> client_failure + nat" where
  "client_watchdog timeout =
     rbind (validate_match_timeout timeout) (\<lambda>_.
       if timeout + SETUP_ALLOWANCE < 2 ^ 64 * 10 ^ 9 then Inr (timeout + SETUP_ALLOWANCE)
       else Inl FDeadlineExceeded)"

fun transport_failure :: "client_transport_failure \<Rightarrow> client_failure" where
  "transport_failure TBrokerUnavailable = FBrokerUnavailable"
| "transport_failure TDeadlineExceeded = FDeadlineExceeded"
| "transport_failure TUntrustedEndpoint = FUntrustedEndpoint"
| "transport_failure TUntrustedPeer = FUntrustedPeer"
| "transport_failure TSendFailed = FSendFailed"
| "transport_failure TReceiveFailed = FReceiveFailed"

definition evaluate_client_response :: "client_transport_failure + bytes \<Rightarrow> client_outcome" where
  "evaluate_client_response result =
     (case result of
        Inl failure \<Rightarrow> OutcomeFailed (transport_failure failure)
      | Inr packet \<Rightarrow>
          (case decode_response packet of
             Inl e \<Rightarrow> OutcomeFailed FInvalidResponse
           | Inr Okay \<Rightarrow> Authenticated
           | Inr Denied \<Rightarrow> OutcomeFailed FDenied
           | Inr Busy \<Rightarrow> OutcomeFailed FBusy
           | Inr Failure \<Rightarrow> OutcomeFailed FBrokerFailure))"

datatype cancellation_outcome = CancelAccepted | CancelDenied

definition evaluate_cancellation_response :: "client_transport_failure + bytes \<Rightarrow> cancellation_outcome" where
  "evaluate_cancellation_response result =
     (case rbind result (\<lambda>packet. map_err (\<lambda>_. TReceiveFailed) (decode_response packet)) of
        Inr Okay \<Rightarrow> CancelAccepted
      | _ \<Rightarrow> CancelDenied)"

subsection \<open>The abstract operation slot\<close>

text \<open>
  The specification of the broker: a counter of the tokens issued so far and at most one running
  operation, with a mark that its cancellation has been delivered. An operation may be completed
  with success only without that mark.
\<close>

datatype broker_event =
    Started nat | CancelRecorded nat | Completed nat auth_response | Released nat bool

type_synonym slot = "nat \<times> (nat \<times> bool) option"

inductive slot_step :: "slot \<Rightarrow> broker_event \<Rightarrow> slot \<Rightarrow> bool" where
  started: "n < 2 ^ 64 \<Longrightarrow> slot_step (n, None) (Started n) (n + 1, Some (n, False))"
| cancel_recorded: "slot_step (n, Some (t, c)) (CancelRecorded t) (n, Some (t, True))"
| completed: "(r = Okay \<longrightarrow> \<not> c) \<Longrightarrow> slot_step (n, Some (t, c)) (Completed t r) (n, None)"
| released: "slot_step (n, Some (t, c)) (Released t c) (n, None)"

inductive_cases slot_step_cases:
  "slot_step l (Started t) l'"
  "slot_step l (CancelRecorded t) l'"
  "slot_step l (Completed t r) l'"
  "slot_step l (Released t c) l'"

fun started_tokens :: "broker_event list \<Rightarrow> nat list" where
  "started_tokens [] = []"
| "started_tokens (e # es) = (case e of Started t \<Rightarrow> [t] | _ \<Rightarrow> []) @ started_tokens es"

fun ended_tokens :: "broker_event list \<Rightarrow> nat list" where
  "ended_tokens [] = []"
| "ended_tokens (e # es) =
     (case e of Completed t r \<Rightarrow> [t] | Released t c \<Rightarrow> [t] | _ \<Rightarrow> []) @ ended_tokens es"

lemma started_tokens_append [simp]: "started_tokens (es @ fs) = started_tokens es @ started_tokens fs"
  by (induction es) auto

lemma ended_tokens_append [simp]: "ended_tokens (es @ fs) = ended_tokens es @ ended_tokens fs"
  by (induction es) auto

text \<open>What a history says of the slot it led to.\<close>

definition history_ok :: "broker_event list \<Rightarrow> slot \<Rightarrow> bool" where
  "history_ok es l \<longleftrightarrow>
     sorted_wrt (<) (started_tokens es) \<and> sorted_wrt (<) (ended_tokens es)
     \<and> (\<forall>t. Started t \<in> set es \<or> CancelRecorded t \<in> set es \<longrightarrow> t < fst l)
     \<and> (\<forall>t\<in>set (started_tokens es). t < fst l)
     \<and> (\<forall>t\<in>set (ended_tokens es). t < (case snd l of None \<Rightarrow> fst l | Some (u, c) \<Rightarrow> u))
     \<and> (\<forall>t c. snd l = Some (t, c) \<longrightarrow>
          t < fst l \<and> Started t \<in> set es \<and> (CancelRecorded t \<in> set es \<longrightarrow> c))"

lemma history_ok_step:
  assumes "history_ok es l" and "slot_step l e l'"
  shows "history_ok (es @ [e]) l'"
  using assms(2,1)
proof cases
  case (started n)
  with assms(1) show ?thesis by (fastforce simp: history_ok_def sorted_wrt_append)
next
  case (cancel_recorded n t c)
  with assms(1) show ?thesis by (auto simp: history_ok_def)
next
  case (completed r c n t)
  with assms(1) show ?thesis by (fastforce simp: history_ok_def sorted_wrt_append)
next
  case (released n t c)
  with assms(1) show ?thesis by (fastforce simp: history_ok_def sorted_wrt_append)
qed

lemma history_ok_run:
  "labelled_run slot_step l fs l' \<Longrightarrow> history_ok es l \<Longrightarrow> history_ok (es @ fs) l'"
proof (induction fs arbitrary: es l)
  case (Cons f fs)
  then obtain m where m: "slot_step l f m" "labelled_run slot_step m fs l'" by auto
  with Cons show ?case using history_ok_step [OF Cons.prems(2) m(1)] by fastforce
qed simp

lemma history_ok_initial: "history_ok [] (1, None)"
  by (simp add: history_ok_def)

lemma okay_not_cancelled:
  assumes "labelled_run slot_step (1, None) (xs @ Completed t Okay # ys) l"
  shows "Started t \<in> set xs \<and> CancelRecorded t \<notin> set xs"
proof -
  from assms obtain m m' where m: "labelled_run slot_step (1, None) xs m" "slot_step m (Completed t Okay) m'"
    by (auto simp: labelled_run_append)
  from history_ok_run [OF m(1) history_ok_initial] have "history_ok xs m" by simp
  with m(2) show ?thesis by (auto simp: history_ok_def elim!: slot_step_cases)
qed

subsection \<open>The broker implements the slot\<close>

datatype broker_op =
    OpPacket peer_metadata access_policy bytes "u64 \<Rightarrow> bool"
  | OpEnrollWithoutOwner peer_metadata
  | OpCancelWithoutOwner peer_metadata "u64 \<Rightarrow> bool"
  | OpDisconnected u64 "u64 \<Rightarrow> bool"
  | OpFinish u64 operation_result
  | OpStartToken
  | OpFinishToken u64

text \<open>The token of the operation whose cancellation an operation on the broker recorded.\<close>

definition recorded :: "broker_state \<Rightarrow> broker_event list" where
  "recorded s = (case bs_active s of None \<Rightarrow> [] | Some a \<Rightarrow> [CancelRecorded (unat (ao_token a))])"

fun decision_events :: "broker_decision \<times> broker_state \<Rightarrow> broker_event list \<times> broker_state" where
  "decision_events (Start op, s) = ([Started (unat (op_token op))], s)"
| "decision_events (Reply Okay, s) = (recorded s, s)"
| "decision_events (Reply r, s) = ([], s)"

fun broker_exec :: "broker_op \<Rightarrow> broker_state \<Rightarrow> broker_event list \<times> broker_state" where
  "broker_exec (OpPacket peer policy packet deliver) s =
     decision_events (handle_packet_with_cancellation peer policy packet deliver s)"
| "broker_exec (OpEnrollWithoutOwner peer) s = decision_events (enroll_without_owner peer s)"
| "broker_exec (OpCancelWithoutOwner peer deliver) s = decision_events (cancel_without_owner peer deliver s)"
| "broker_exec (OpDisconnected token deliver) s =
     (case client_disconnected token deliver s of (b, s') \<Rightarrow> (if b then recorded s' else [], s'))"
| "broker_exec (OpFinish token result) s =
     (case finish_operation token result s of
        (None, s') \<Rightarrow> ([], s') | (Some r, s') \<Rightarrow> ([Completed (unat token) r], s'))"
| "broker_exec OpStartToken s =
     (case start_token s of (AdmitStart t, s') \<Rightarrow> ([Started (unat t)], s') | (_, s') \<Rightarrow> ([], s'))"
| "broker_exec (OpFinishToken token) s =
     (case finish_token token s of
        (None, s') \<Rightarrow> ([], s') | (Some c, s') \<Rightarrow> ([Released (unat token) c], s'))"

text \<open>How many tokens a counter has issued, with zero for an exhausted one.\<close>

definition next_count :: "u64 \<Rightarrow> nat" where
  "next_count t = (if t = 0 then 2 ^ 64 else unat t)"

lemma next_count_bound: "t \<noteq> 0 \<Longrightarrow> next_count t < 2 ^ 64"
  using unsigned_less [of t] by (simp add: next_count_def)

lemma next_count_step:
  assumes "t \<noteq> 0"
  shows "next_count (checked_next_token t) = next_count t + 1"
proof (cases "unat t + 1 < 2 ^ 64")
  case True
  then have "unat (t + 1) = unat t + 1" by (simp add: unat_word_ariths)
  moreover from this have "t + 1 \<noteq> 0" by (metis add_is_0 one_neq_zero unat_0)
  ultimately show ?thesis using True assms by (simp add: checked_next_token_def next_count_def)
next
  case False
  with assms show ?thesis
    using next_count_bound [OF assms] by (simp add: checked_next_token_def next_count_def)
qed

definition slot_of :: "broker_state \<Rightarrow> slot" where
  "slot_of s = (next_count (bs_next_token s),
     map_option (\<lambda>a. (unat (ao_token a), ao_cancelled a)) (bs_active s))"

lemma slot_of_start:
  assumes "bs_active s = None" and "bs_next_token s \<noteq> 0"
  shows "slot_step (slot_of s) (Started (unat (bs_next_token s)))
    (slot_of (s\<lparr>bs_active := Some \<lparr>ao_token = bs_next_token s, ao_cancelled = False\<rparr>,
                bs_next_token := checked_next_token (bs_next_token s)\<rparr>))"
proof -
  have "next_count (bs_next_token s) = unat (bs_next_token s)"
    using assms(2) by (simp add: next_count_def)
  then show ?thesis
    using slot_step.started [OF next_count_bound [OF assms(2)]] assms
    by (simp add: slot_of_def next_count_step)
qed

lemmas broker_op_defs = handle_packet_with_cancellation_def enroll_without_owner_def
  cancel_without_owner_def cancel_for_root_def start_operation_def client_disconnected_def
  finish_operation_def start_token_def cancel_token_def finish_token_def recorded_def

lemma start_operation_refines:
  "decision_events (start_operation user p candidate s) = (es, s') \<Longrightarrow>
     labelled_run slot_step (slot_of s) es (slot_of s')"
  using slot_of_start [of s]
  by (cases "bs_active s = None"; cases "bs_next_token s = 0")
     (auto simp: start_operation_def start_token_def simp del: split_paired_Ex)

lemma cancel_token_refines:
  "cancel_token token deliver s = (b, s') \<Longrightarrow>
     labelled_run slot_step (slot_of s) (if b then recorded s' else []) (slot_of s')"
  by (auto simp: cancel_token_def recorded_def slot_of_def slot_step.intros split: option.splits if_splits)

lemma cancel_for_root_refines:
  "decision_events (cancel_for_root peer deliver s) = (es, s') \<Longrightarrow>
     labelled_run slot_step (slot_of s) es (slot_of s')"
  by (cases "bs_active s")
     (auto simp: cancel_for_root_def dest: cancel_token_refines split: if_splits prod.splits bool.splits)

lemma broker_exec_refines:
  assumes "broker_exec p s = (es, s')"
  shows "labelled_run slot_step (slot_of s) es (slot_of s')"
proof (cases p)
  case (OpPacket peer policy packet deliver)
  with assms show ?thesis
    by (auto simp: handle_packet_with_cancellation_def intro: start_operation_refines cancel_for_root_refines
        split: option.splits sum.splits auth_request.splits if_splits)
next
  case (OpEnrollWithoutOwner peer)
  with assms show ?thesis
    by (auto simp: enroll_without_owner_def intro: start_operation_refines split: option.splits if_splits)
next
  case (OpCancelWithoutOwner peer deliver)
  with assms show ?thesis by (auto simp: cancel_without_owner_def intro: cancel_for_root_refines)
next
  case (OpDisconnected token deliver)
  with assms show ?thesis
    by (auto simp: client_disconnected_def dest: cancel_token_refines split: prod.splits if_splits)
next
  case (OpFinish token result)
  with assms show ?thesis
    by (auto simp: finish_operation_def finish_token_def slot_of_def slot_step.intros
        split: option.splits if_splits)
next
  case OpStartToken
  with assms show ?thesis
    by (auto simp: start_token_def slot_of_start simp del: split_paired_Ex split: if_splits)
next
  case (OpFinishToken token)
  with assms show ?thesis
    by (auto simp: finish_token_def slot_of_def slot_step.intros split: option.splits if_splits)
qed

interpretation broker_slot: trace_refinement "\<lambda>_. True" slot_of slot_step broker_exec
  by unfold_locales (simp add: broker_exec_refines)

lemma slot_of_default [simp]: "slot_of broker_state_default = (1, None)"
  by (simp add: slot_of_def broker_state_default_def next_count_def)

subsection \<open>Admission\<close>

lemma start_operation_outcome:
  "start_operation user p candidate s = (d, s') \<Longrightarrow>
     (if bs_active s = None \<and> bs_next_token s \<noteq> 0
      then d = Start \<lparr>op_token = bs_next_token s, op_biometric_user_id = user, op_purpose = p,
                      op_enrollment_owner_candidate = candidate\<rparr>
      else (d = Reply Busy \<or> d = Reply Failure) \<and> s' = s)"
  by (auto simp: start_operation_def start_token_def split: if_splits)

lemma cancel_for_root_outcome:
  "cancel_for_root peer deliver s = (d, s') \<Longrightarrow>
     d = Reply Okay \<and> peer_family peer = FamilyLocal \<and> peer_user_id peer = ROOT_UID
     \<or> d = Reply Denied \<and> s' = s"
  by (auto simp: cancel_for_root_def cancel_token_def split: if_splits option.splits)

lemma biometric_user_for_some:
  "biometric_user_for policy peer = Some u \<longleftrightarrow>
     u = BIOMETRIC_USER_ID \<and> peer_family peer = FamilyLocal
     \<and> (peer_user_id peer = ROOT_UID \<or> peer_user_id peer = ap_enrollment_owner_user_id policy)"
  by (auto simp: biometric_user_for_def)

definition work_request :: "peer_metadata \<Rightarrow> auth_request \<Rightarrow> bool" where
  "work_request peer r \<longleftrightarrow> r \<noteq> RCancel \<and> (r = REnroll \<longrightarrow> peer_user_id peer \<noteq> ROOT_UID)"

lemma handle_packet_work:
  assumes "biometric_user_for policy peer = Some user" and "work_request peer r"
  shows "handle_packet_with_cancellation peer policy (encode_request r) deliver s =
    start_operation user
      (case r of RAuthenticate \<Rightarrow> PAuthenticate | RApprove \<Rightarrow> PApprove | _ \<Rightarrow> PEnrollment)
      (if r = REnroll then Some (peer_user_id peer) else None) s"
  unfolding handle_packet_with_cancellation_def decode_encode_request
  using assms by (cases r) (simp_all add: work_request_def enrollment_owner_candidate_new_def)

lemma handle_packet_no_work:
  assumes "biometric_user_for policy peer = Some user" and "\<not> work_request peer r"
  shows "handle_packet_with_cancellation peer policy (encode_request r) deliver s =
    (if r = RCancel then cancel_for_root peer deliver s else (Reply Denied, s))"
  unfolding handle_packet_with_cancellation_def decode_encode_request
  using assms by (cases r) (simp_all add: work_request_def)

lemma handle_packet_outcome:
  assumes "handle_packet_with_cancellation peer policy packet deliver s = (d, s')"
  shows "((\<exists>op. d = Start op) \<longleftrightarrow>
      peer_is_authorized policy peer \<and> bs_active s = None \<and> bs_next_token s \<noteq> 0
      \<and> (\<exists>r. packet = encode_request r \<and> work_request peer r))
    \<and> (s' \<noteq> s \<longrightarrow> (\<exists>op. d = Start op) \<or> d = Reply Okay \<and> peer_user_id peer = ROOT_UID
         \<and> peer_family peer = FamilyLocal \<and> packet = CANCEL_REQUEST)
    \<and> (\<forall>op u. d = Start op \<and> op_enrollment_owner_candidate op = Some u \<longrightarrow>
         op_purpose op = PEnrollment \<and> u = peer_user_id peer \<and> u \<noteq> ROOT_UID
         \<and> u = ap_enrollment_owner_user_id policy)"
proof (cases "biometric_user_for policy peer")
  case None
  with assms show ?thesis by (auto simp: handle_packet_with_cancellation_def peer_is_authorized_def)
next
  case user: (Some user)
  show ?thesis
  proof (cases "decode_request packet")
    case (Inl e)
    then have "packet \<noteq> encode_request r" for r using decode_encode_request [of r] by auto
    with assms [unfolded handle_packet_with_cancellation_def] Inl user show ?thesis by auto
  next
    case (Inr r)
    then have packet: "packet = encode_request r" by (simp add: decode_request_iff)
    have reqs: "(\<exists>q. packet = encode_request q \<and> work_request peer q) \<longleftrightarrow> work_request peer r"
      by (simp add: packet encode_request_inject del: encode_request.simps)
    show ?thesis
    proof (cases "work_request peer r")
      case True
      note start_operation_outcome [OF assms [unfolded packet handle_packet_work [OF user True]]]
      with True user show ?thesis unfolding reqs
        by (cases r) (auto simp: peer_is_authorized_def work_request_def biometric_user_for_some
            simp del: encode_request.simps split: if_splits)
    next
      case False
      with assms user packet have
        "cancel_for_root peer deliver s = (d, s') \<and> r = RCancel \<or> d = Reply Denied \<and> s' = s"
        by (auto simp: handle_packet_no_work simp del: encode_request.simps split: if_splits)
      with cancel_for_root_outcome [of peer deliver s d s'] False packet show ?thesis
        unfolding reqs by auto
    qed
  qed
qed

subsection \<open>Properties\<close>

text \<open>
  C2. In every sequence of packets, disconnections and completions the broker starts operations under
  strictly increasing tokens, ends each at most once, and answers OKAY only for an operation it started
  and whose cancellation it has not recorded: a cancellation wins over a later match and no token is
  reused.
\<close>

theorem cancellation_wins:
  assumes "exec_all broker_exec ops broker_state_default = (events, s)"
  shows "sorted_wrt (<) (started_tokens events) \<and> sorted_wrt (<) (ended_tokens events)
    \<and> (\<forall>xs t ys. events = xs @ Completed t Okay # ys \<longrightarrow>
         Started t \<in> set xs \<and> CancelRecorded t \<notin> set xs)"
proof -
  have run: "labelled_run slot_step (1, None) events (slot_of s)"
    using broker_slot.exec_all_refines [OF _ assms] by (simp del: One_nat_def)
  then have "history_ok events (slot_of s)" using history_ok_run [OF _ history_ok_initial] by fastforce
  then have "sorted_wrt (<) (started_tokens events) \<and> sorted_wrt (<) (ended_tokens events)"
    by (simp add: history_ok_def)
  moreover have "Started t \<in> set xs \<and> CancelRecorded t \<notin> set xs"
    if "events = xs @ Completed t Okay # ys" for xs t ys
    using okay_not_cancelled run that by blast
  ultimately show ?thesis by blast
qed

theorem cancellation_wins_witness:
  "\<exists>events s. exec_all broker_exec
       [OpPacket \<lparr>peer_family = FamilyLocal, peer_user_id = 1000, peer_group_id = 1000\<rparr>
          \<lparr>ap_enrollment_owner_user_id = 1000\<rparr> AUTHENTICATE_REQUEST (\<lambda>_. True),
        OpPacket \<lparr>peer_family = FamilyLocal, peer_user_id = 0, peer_group_id = 0\<rparr>
          \<lparr>ap_enrollment_owner_user_id = 1000\<rparr> CANCEL_REQUEST (\<lambda>_. True),
        OpFinish 1 Matched,
        OpPacket \<lparr>peer_family = FamilyLocal, peer_user_id = 1000, peer_group_id = 1000\<rparr>
          \<lparr>ap_enrollment_owner_user_id = 1000\<rparr> APPROVE_REQUEST (\<lambda>_. True),
        OpFinish 1 Matched, OpFinish 2 Matched] broker_state_default = (events, s)
     \<and> events = [Started 1, CancelRecorded 1, Completed 1 Failure, Started 2] @ [Completed 2 Okay]
     \<and> sorted_wrt (<) (started_tokens events) \<and> sorted_wrt (<) (ended_tokens events)
     \<and> Started 2 \<in> set [Started 1, CancelRecorded 1, Completed 1 Failure, Started 2]
     \<and> CancelRecorded 2 \<notin> set [Started 1, CancelRecorded 1, Completed 1 Failure, Started 2]"
proof -
  let ?owner = "\<lparr>peer_family = FamilyLocal, peer_user_id = 1000, peer_group_id = 1000\<rparr>"
  let ?root = "\<lparr>peer_family = FamilyLocal, peer_user_id = 0, peer_group_id = 0\<rparr>"
  let ?policy = "\<lparr>ap_enrollment_owner_user_id = 1000\<rparr>"
  let ?ops = "[OpPacket ?owner ?policy AUTHENTICATE_REQUEST (\<lambda>_. True),
     OpPacket ?root ?policy CANCEL_REQUEST (\<lambda>_. True), OpFinish 1 Matched,
     OpPacket ?owner ?policy APPROVE_REQUEST (\<lambda>_. True), OpFinish 1 Matched, OpFinish 2 Matched]"
  have run: "exec_all broker_exec ?ops broker_state_default =
    ([Started 1, CancelRecorded 1, Completed 1 Failure, Started 2] @ [Completed 2 Okay],
     \<lparr>bs_active = None, bs_next_token = 3\<rparr>)"
    by (simp add: broker_op_defs broker_state_default_def biometric_user_for_def decode_request_def
        checked_next_token_def)
  from run cancellation_wins [OF run] show ?thesis by blast
qed

text \<open>
  C19. A packet starts biometric work exactly when its sender is root or the enrollment owner over a local
  socket, no operation is active, tokens are left and the packet is one of the work requests, with
  enrollment refused to root. Otherwise the broker's state changes only by a cancellation
  that root asked for, and an enrollment candidate is always the non-root owner itself.
\<close>

theorem work_starts_only_authorized:
  assumes "handle_packet_with_cancellation peer policy packet deliver s = (d, s')"
  shows "((\<exists>op. d = Start op) \<longleftrightarrow>
      peer_is_authorized policy peer \<and> bs_active s = None \<and> bs_next_token s \<noteq> 0
      \<and> (\<exists>r. packet = encode_request r \<and> work_request peer r))
    \<and> (s' \<noteq> s \<longrightarrow> (\<exists>op. d = Start op) \<or> d = Reply Okay \<and> peer_user_id peer = ROOT_UID
         \<and> peer_family peer = FamilyLocal \<and> packet = CANCEL_REQUEST)
    \<and> (\<forall>op u. d = Start op \<and> op_enrollment_owner_candidate op = Some u \<longrightarrow>
         op_purpose op = PEnrollment \<and> u = peer_user_id peer \<and> u \<noteq> ROOT_UID
         \<and> u = ap_enrollment_owner_user_id policy)"
  by (rule handle_packet_outcome [OF assms])

theorem work_starts_only_authorized_witness:
  "peer_is_authorized \<lparr>ap_enrollment_owner_user_id = 1000\<rparr>
     \<lparr>peer_family = FamilyLocal, peer_user_id = 1000, peer_group_id = 1000\<rparr>"
proof -
  have "handle_packet_with_cancellation
      \<lparr>peer_family = FamilyLocal, peer_user_id = 1000, peer_group_id = 1000\<rparr>
      \<lparr>ap_enrollment_owner_user_id = 1000\<rparr> ENROLL_REQUEST (\<lambda>_. True) broker_state_default =
    (Start \<lparr>op_token = 1, op_biometric_user_id = 501, op_purpose = PEnrollment,
            op_enrollment_owner_candidate = Some 1000\<rparr>,
     \<lparr>bs_active = Some \<lparr>ao_token = 1, ao_cancelled = False\<rparr>, bs_next_token = 2\<rparr>)"
    by (simp add: broker_op_defs broker_state_default_def biometric_user_for_def decode_request_def
        checked_next_token_def enrollment_owner_candidate_new_def)
  from work_starts_only_authorized [OF this] show ?thesis by simp
qed

text \<open>
  An operation that has ended never becomes the running one again, and one that still runs is marked exactly
  when its cancellation was recorded on the way.
\<close>

lemma slot_run_past:
  assumes "labelled_run slot_step l es l'" and "t < fst l" and "\<forall>u c. snd l = Some (u, c) \<longrightarrow> t < u"
  shows "snd l' \<noteq> Some (t, c')"
  using assms
proof (induction es arbitrary: l)
  case (Cons e es)
  then obtain m where m: "slot_step l e m" "labelled_run slot_step m es l'" by auto
  from m(1) Cons.prems(2,3) have "t < fst m \<and> (\<forall>u c. snd m = Some (u, c) \<longrightarrow> t < u)" by cases auto
  then show ?case using Cons.IH [OF m(2)] by blast
qed auto

lemma slot_run_marked:
  assumes "labelled_run slot_step (n, Some (t, c)) es l'" and "t < n" and "snd l' = Some (t, c')"
  shows "c' \<longleftrightarrow> c \<or> CancelRecorded t \<in> set es"
  using assms
proof (induction es arbitrary: n c)
  case (Cons e es)
  then obtain m where m: "slot_step (n, Some (t, c)) e m" "labelled_run slot_step m es l'" by auto
  from m(1) show ?case
  proof cases
    case (cancel_recorded)
    with Cons.IH [of n True] m(2) Cons.prems show ?thesis by auto
  next
    case (completed r)
    with slot_run_past [OF m(2), of t c'] Cons.prems show ?thesis by auto
  next
    case (released)
    with slot_run_past [OF m(2), of t c'] Cons.prems show ?thesis by auto
  qed
qed auto

lemma started_operation:
  assumes "handle_packet_with_cancellation peer policy packet deliver s = (Start op, s')"
  shows "\<exists>n. slot_of s' = (n, Some (unat (op_token op), False)) \<and> unat (op_token op) < n"
proof -
  have start: "bs_active s' = Some \<lparr>ao_token = bs_next_token s, ao_cancelled = False\<rparr>"
    "bs_next_token s' = checked_next_token (bs_next_token s)" "bs_next_token s \<noteq> 0" "op_token op = bs_next_token s"
    using assms by (auto simp: handle_packet_with_cancellation_def start_operation_def start_token_def
        cancel_for_root_def split: option.splits sum.splits auth_request.splits if_splits prod.splits bool.splits)
  then show ?thesis
    using next_count_step [OF start(3)] by (simp add: slot_of_def next_count_def)
qed

lemma finish_marked:
  assumes "finish_operation token result s = (Some reply, s')"
  shows "\<exists>n c. slot_of s = (n, Some (unat token, c)) \<and> (reply = Okay \<longleftrightarrow> result = Matched \<and> \<not> c)"
  using assms by (auto simp: finish_operation_def finish_token_def slot_of_def split: option.splits if_splits)

lemma purpose_never_okay:
  "handle_packet_with_cancellation peer policy (client_purpose_request purpose) deliver s = (Reply r, s') \<Longrightarrow> r \<noteq> Okay"
  by (cases purpose) (auto simp: handle_packet_with_cancellation_def decode_request_def start_operation_def
      start_token_def split: option.splits if_splits)

text \<open>
  C20. The client counts as authenticated exactly on the four bytes OKAY received without a transport
  failure. OKAY also answers an accepted cancellation, but a client that asked for authentication or
  approval is never answered OKAY at once; and when its operation was started, whatever the broker
  does until the operation ends, the reply then authenticates the client exactly when the
  sensor matched and no cancellation of the operation was recorded since its start.
\<close>

theorem authenticated_exactly_on_match:
  assumes "handle_packet_with_cancellation peer policy (client_purpose_request purpose) deliver s = (decision, s1)"
  shows "(evaluate_client_response received = Authenticated \<longleftrightarrow> received = Inr RESPONSE_OK)
    \<and> (case decision of
         Reply r \<Rightarrow> evaluate_client_response (Inr (encode_response r)) \<noteq> Authenticated
       | Start op \<Rightarrow>
           \<forall>ops events s2 result reply s3. exec_all broker_exec ops s1 = (events, s2)
             \<and> finish_operation (op_token op) result s2 = (Some reply, s3) \<longrightarrow>
             (evaluate_client_response (Inr (encode_response reply)) = Authenticated \<longleftrightarrow>
                result = Matched \<and> CancelRecorded (unat (op_token op)) \<notin> set events))"
proof -
  have auth: "evaluate_client_response r = Authenticated \<longleftrightarrow> (\<exists>p. r = Inr p \<and> decode_response p = Inr Okay)" for r
    by (auto simp: evaluate_client_response_def split: sum.splits auth_response.splits)
  have okay: "evaluate_client_response (Inr (encode_response r)) = Authenticated \<longleftrightarrow> r = Okay" for r
    unfolding auth decode_response_iff by (cases r) simp_all
  have fin: "reply = Okay \<longleftrightarrow> result = Matched \<and> CancelRecorded (unat (op_token op)) \<notin> set events"
    if dec: "decision = Start op" and run: "exec_all broker_exec ops s1 = (events, s2)"
      and ends: "finish_operation (op_token op) result s2 = (Some reply, s3)" for op ops events s2 result reply s3
  proof -
    obtain n where n: "slot_of s1 = (n, Some (unat (op_token op), False))" "unat (op_token op) < n"
      using started_operation [OF assms [unfolded dec]] by blast
    obtain m c where m: "slot_of s2 = (m, Some (unat (op_token op), c))" "reply = Okay \<longleftrightarrow> result = Matched \<and> \<not> c"
      using finish_marked [OF ends] by blast
    have "labelled_run slot_step (slot_of s1) events (slot_of s2)"
      using broker_slot.exec_all_refines [OF _ run] by blast
    with slot_run_marked [of n "unat (op_token op)" False events "slot_of s2" c] n m show ?thesis by auto
  qed
  have bytes: "evaluate_client_response received = Authenticated \<longleftrightarrow> received = Inr RESPONSE_OK"
    unfolding auth decode_response_iff by simp
  show ?thesis
  proof (cases decision)
    case (Reply r)
    with purpose_never_okay [OF assms [unfolded Reply]] bytes show ?thesis by (simp add: okay)
  next
    case (Start op)
    with fin [OF Start] bytes show ?thesis
      unfolding okay Start broker_decision.case by blast
  qed
qed

theorem authenticated_exactly_on_match_witness:
  "\<exists>s1 s2 events reply s3.
     handle_packet_with_cancellation \<lparr>peer_family = FamilyLocal, peer_user_id = 1000, peer_group_id = 1000\<rparr>
       \<lparr>ap_enrollment_owner_user_id = 1000\<rparr> (client_purpose_request CApprove) (\<lambda>_. True) broker_state_default =
     (Start \<lparr>op_token = 1, op_biometric_user_id = 501, op_purpose = PApprove,
        op_enrollment_owner_candidate = None\<rparr>, s1)
     \<and> exec_all broker_exec
         [OpPacket \<lparr>peer_family = FamilyLocal, peer_user_id = 0, peer_group_id = 0\<rparr>
            \<lparr>ap_enrollment_owner_user_id = 1000\<rparr> CANCEL_REQUEST (\<lambda>_. True)] s1 = (events, s2)
     \<and> events = [CancelRecorded 1]
     \<and> finish_operation 1 Matched s2 = (Some reply, s3)
     \<and> evaluate_client_response (Inr (encode_response reply)) \<noteq> Authenticated"
proof -
  let ?op = "\<lparr>op_token = 1, op_biometric_user_id = 501, op_purpose = PApprove,
    op_enrollment_owner_candidate = None\<rparr>"
  let ?s1 = "\<lparr>bs_active = Some \<lparr>ao_token = 1, ao_cancelled = False\<rparr>, bs_next_token = 2\<rparr>"
  let ?s2 = "\<lparr>bs_active = Some \<lparr>ao_token = 1, ao_cancelled = True\<rparr>, bs_next_token = 2\<rparr>"
  let ?cancel = "[OpPacket \<lparr>peer_family = FamilyLocal, peer_user_id = 0, peer_group_id = 0\<rparr>
            \<lparr>ap_enrollment_owner_user_id = 1000\<rparr> CANCEL_REQUEST (\<lambda>_. True)]"
  have start: "handle_packet_with_cancellation \<lparr>peer_family = FamilyLocal, peer_user_id = 1000, peer_group_id = 1000\<rparr>
       \<lparr>ap_enrollment_owner_user_id = 1000\<rparr> (client_purpose_request CApprove) (\<lambda>_. True) broker_state_default
     = (Start ?op, ?s1)"
    by (simp add: broker_op_defs broker_state_default_def biometric_user_for_def decode_request_def
        checked_next_token_def)
  have cancel: "exec_all broker_exec ?cancel ?s1 = ([CancelRecorded 1], ?s2)"
    by (simp add: broker_op_defs biometric_user_for_def decode_request_def)
  have fin: "finish_operation 1 Matched ?s2 = (Some Failure, \<lparr>bs_active = None, bs_next_token = 2\<rparr>)"
    by (simp add: broker_op_defs)
  from fin have "finish_operation (op_token ?op) Matched ?s2 = (Some Failure, \<lparr>bs_active = None, bs_next_token = 2\<rparr>)"
    by simp
  with authenticated_exactly_on_match [OF start, THEN conjunct2] cancel
  have "evaluate_client_response (Inr (encode_response Failure)) \<noteq> Authenticated"
    by (simp only: broker_decision.case operation.select_convs) fastforce
  with start cancel fin show ?thesis by blast
qed

end
