(* ===== verification/T1_Cursor.thy ===== *)
theory T1_Cursor
  imports T1_Prelude
begin

section \<open>Reading a byte string through a cursor\<close>

text \<open>
  Several parsers of the source read a payload by advancing a cursor. This theory says where a byte
  string occurs in another, and gives the interface of a field: an encoding of the values
  of a type and a reader that accepts at a position exactly those encodings. It also holds the
  well-formedness of UTF-8 that Rust's \<^verbatim>\<open>str::from_utf8\<close> checks.
\<close>

definition occurs_at :: "'a list \<Rightarrow> nat \<Rightarrow> 'a list \<Rightarrow> bool" where
  "occurs_at p c s \<longleftrightarrow> c + length s \<le> length p \<and> slice c (c + length s) p = s"

lemma occurs_at_Nil [simp]: "occurs_at p c [] \<longleftrightarrow> c \<le> length p"
  by (auto simp: occurs_at_def)

lemma occurs_at_append:
  "occurs_at p c (s @ t) \<longleftrightarrow> occurs_at p c s \<and> occurs_at p (c + length s) t"
proof
  assume st: "occurs_at p c (s @ t)"
  then have len: "c + length s + length t \<le> length p"
    and "slice c (c + length s) p @ slice (c + length s) (c + length s + length t) p = s @ t"
    by (auto simp: occurs_at_def slice_join add.assoc)
  with len show "occurs_at p c s \<and> occurs_at p (c + length s) t" by (simp add: occurs_at_def)
next
  assume "occurs_at p c s \<and> occurs_at p (c + length s) t"
  then have len: "c + length s + length t \<le> length p"
    and s: "slice c (c + length s) p = s" and t: "slice (c + length s) (c + length s + length t) p = t"
    by (auto simp: occurs_at_def)
  have "slice c (c + length s) p @ slice (c + length s) (c + length s + length t) p =
      slice c (c + length s + length t) p"
    by (rule slice_join) simp_all
  with s t len show "occurs_at p c (s @ t)" by (simp add: occurs_at_def add.assoc)
qed

lemma occurs_at_whole: "occurs_at p 0 s \<and> length s = length p \<longleftrightarrow> p = s"
  by (auto simp: occurs_at_def slice_full slice_def)

lemma occurs_at_single: "occurs_at p c [b] \<longleftrightarrow> c < length p \<and> p ! c = b"
  by (cases "c < length p") (auto simp: occurs_at_def slice_def take_Suc hd_drop_conv_nth)

text \<open>
  A field: the reader succeeds at a position exactly where the encoding of a well-formed value
  stands, and moves the cursor past it.
\<close>

locale field =
  fixes wf :: "'a \<Rightarrow> bool"
    and enc :: "'a \<Rightarrow> bytes"
    and read :: "bytes \<Rightarrow> nat \<Rightarrow> 'e + 'a \<times> nat"
  assumes read_iff: "read p c = Inr (x, c') \<longleftrightarrow> wf x \<and> occurs_at p c (enc x) \<and> c' = c + length (enc x)"
begin

lemma read_enc: "wf x \<Longrightarrow> read (s @ enc x @ t) (length s) = Inr (x, length s + length (enc x))"
  by (simp add: read_iff occurs_at_def)

lemma enc_inject: "wf x \<Longrightarrow> wf y \<Longrightarrow> enc x = enc y \<Longrightarrow> x = y"
  using read_enc [of x "[]" "[]"] read_enc [of y "[]" "[]"] by auto

end

text \<open>A payload that holds one field, or two fields in a row, and nothing else.\<close>

lemma one_field: "occurs_at p 0 s \<and> length p = length s \<longleftrightarrow> p = s"
  using occurs_at_whole [of p s] by auto

lemma two_fields:
  "occurs_at p 0 s \<and> occurs_at p (length s) t \<and> length p = length s + length t \<longleftrightarrow> p = s @ t"
  using occurs_at_append [of p 0 s t] one_field [of p "s @ t"] by auto

locale field_pair = first: field wfa enca reada + second: field wfb encb readb
  for wfa :: "'a \<Rightarrow> bool" and enca and reada :: "bytes \<Rightarrow> nat \<Rightarrow> 'e + 'a \<times> nat"
    and wfb :: "'b \<Rightarrow> bool" and encb and readb :: "bytes \<Rightarrow> nat \<Rightarrow> 'e + 'b \<times> nat"
begin

lemma read_both:
  "(\<exists>c. reada p 0 = Inr (x, c) \<and> readb p c = Inr (y, length p)) \<longleftrightarrow>
     wfa x \<and> wfb y \<and> p = enca x @ encb y"
  unfolding first.read_iff second.read_iff two_fields [symmetric] by auto

end

subsection \<open>UTF-8\<close>

text \<open>
  The well-formed sequences of the Unicode standard: no overlong forms, no surrogates, nothing
  above U+10FFFF.
\<close>

definition cont :: "u8 \<Rightarrow> bool" where
  "cont b \<longleftrightarrow> 0x80 \<le> b \<and> b \<le> 0xBF"

fun utf8_valid :: "bytes \<Rightarrow> bool" where
  "utf8_valid [] = True"
| "utf8_valid (a # bs) =
     (if a \<le> 0x7F then utf8_valid bs
      else if 0xC2 \<le> a \<and> a \<le> 0xDF then
        (case bs of b # cs \<Rightarrow> cont b \<and> utf8_valid cs | _ \<Rightarrow> False)
      else if 0xE0 \<le> a \<and> a \<le> 0xEF then
        (case bs of b # c # ds \<Rightarrow>
            cont b \<and> (a = 0xE0 \<longrightarrow> 0xA0 \<le> b) \<and> (a = 0xED \<longrightarrow> b \<le> 0x9F) \<and> cont c \<and> utf8_valid ds
         | _ \<Rightarrow> False)
      else if 0xF0 \<le> a \<and> a \<le> 0xF4 then
        (case bs of b # c # d # es \<Rightarrow>
            cont b \<and> (a = 0xF0 \<longrightarrow> 0x90 \<le> b) \<and> (a = 0xF4 \<longrightarrow> b \<le> 0x8F) \<and> cont c \<and> cont d
            \<and> utf8_valid es
         | _ \<Rightarrow> False)
      else False)"

lemma utf8_valid_ascii: "\<forall>b \<in> set bs. b \<le> 0x7F \<Longrightarrow> utf8_valid bs"
  by (induction bs) auto

subsection \<open>Big-endian fields\<close>

lemma from_be_iff:
  "length bs = 2 \<Longrightarrow> (from_be bs :: u16) = w \<longleftrightarrow> bs = to_be 2 w"
  "length bs = 4 \<Longrightarrow> (from_be bs :: u32) = v \<longleftrightarrow> bs = to_be 4 v"
  using to_from_be [of bs, where 'a = 16] from_to_be [of 2 w]
    to_from_be [of bs, where 'a = 32] from_to_be [of 4 v]
  by (auto simp: take_bit_word_eq_self)

end
