(* ===== verification/Standard_Protocol.thy ===== *)
theory Standard_Protocol
  imports T1_Cursor
begin

section \<open>The standard fingerprint protocol\<close>

text \<open>
  Models \<^verbatim>\<open>crates/t1-daemons/src/standard_fingerprint_protocol.rs\<close>: the packets between a standard
  fingerprint client and the broker, their 12-byte header, the validated values they carry and both
  codecs. Reading goes through a cursor as in the source. A user name and an identity are byte
  strings that only their constructors produce; the well-formedness predicates below say what a
  constructed value satisfies. The lemmas show that each decoder accepts exactly the encodings
  of well-formed messages.
\<close>

subsection \<open>Values\<close>

definition HEADER_SIZE :: nat where [simp]: "HEADER_SIZE = 12"
definition MAX_PACKET_SIZE :: nat where [simp]: "MAX_PACKET_SIZE = 1024"
definition MAX_USERNAME_SIZE :: nat where [simp]: "MAX_USERNAME_SIZE = 255"
definition MAX_IDENTITIES :: u8 where [simp]: "MAX_IDENTITIES = 5"
definition MAX_ENROLL_STAGES :: u8 where [simp]: "MAX_ENROLL_STAGES = 100"
definition FP_MAGIC :: bytes where [simp]: "FP_MAGIC = [0x54, 0x31, 0x46, 0x50]"
definition FP_VERSION :: u8 where [simp]: "FP_VERSION = 1"
definition FP_RESERVED :: u16 where [simp]: "FP_RESERVED = 0"

type_synonym username = bytes
type_synonym identity_id = bytes

datatype fp_error =
    FpWrongLength | FpPacketTooLarge | FpBadMagic | FpUnsupportedVersion | FpUnsupportedType
  | FpNonzeroReserved | FpPayloadLengthMismatch | FpInvalidUsername | FpInvalidFingerLabel
  | FpInvalidIdentity | FpInvalidCapabilities | FpInvalidRange | FpInvalidPayload

definition username_new :: "bytes \<Rightarrow> fp_error + username" where
  "username_new value =
     (if value = [] \<or> length value > MAX_USERNAME_SIZE \<or> 0 \<in> set value then Inl FpInvalidUsername
      else Inr value)"

definition identity_id_new :: "bytes \<Rightarrow> fp_error + identity_id" where
  "identity_id_new b = (if b = replicate 16 0 then Inl FpInvalidIdentity else Inr b)"

datatype finger_label =
    LeftThumb | LeftIndex | LeftMiddle | LeftRing | LeftLittle
  | RightThumb | RightIndex | RightMiddle | RightRing | RightLittle

fun finger_code :: "finger_label \<Rightarrow> u8" where
  "finger_code LeftThumb = 1" | "finger_code LeftIndex = 2" | "finger_code LeftMiddle = 3"
| "finger_code LeftRing = 4" | "finger_code LeftLittle = 5" | "finger_code RightThumb = 6"
| "finger_code RightIndex = 7" | "finger_code RightMiddle = 8" | "finger_code RightRing = 9"
| "finger_code RightLittle = 10"

definition finger_decode :: "u8 \<Rightarrow> fp_error + finger_label" where
  "finger_decode v =
     (if v = 1 then Inr LeftThumb else if v = 2 then Inr LeftIndex
      else if v = 3 then Inr LeftMiddle else if v = 4 then Inr LeftRing
      else if v = 5 then Inr LeftLittle else if v = 6 then Inr RightThumb
      else if v = 7 then Inr RightIndex else if v = 8 then Inr RightMiddle
      else if v = 9 then Inr RightRing else if v = 10 then Inr RightLittle
      else Inl FpInvalidFingerLabel)"

record fp_identity =
  fi_id :: identity_id
  fi_finger :: finger_label

text \<open>The capability bits: list, enroll, verify, identify, delete and cancel, from the lowest.\<close>

definition CAP_ENROLL :: u16 where [simp]: "CAP_ENROLL = 2"
definition CAP_KNOWN_BITS :: u16 where [simp]: "CAP_KNOWN_BITS = 0x3f"
definition CAP_IDENTITY_OPERATION_BITS :: u16 where [simp]: "CAP_IDENTITY_OPERATION_BITS = 0x1f"

definition capability_set_from_bits :: "u16 \<Rightarrow> fp_error + u16" where
  "capability_set_from_bits bits =
     (if bits AND NOT CAP_KNOWN_BITS = 0 then Inr bits else Inl FpInvalidCapabilities)"

definition capability_contains :: "u16 \<Rightarrow> u16 \<Rightarrow> bool" where
  "capability_contains self capability \<longleftrightarrow> self AND capability = capability"

record capabilities =
  cap_operations :: u16
  cap_max_enroll_stages :: u8
  cap_max_identities :: u8

definition capabilities_new :: "u16 \<Rightarrow> u8 \<Rightarrow> u8 \<Rightarrow> fp_error + capabilities" where
  "capabilities_new operations stages identities =
     (let enrollment = capability_contains operations CAP_ENROLL;
          identity_operations = (operations AND CAP_IDENTITY_OPERATION_BITS \<noteq> 0) in
      if stages > MAX_ENROLL_STAGES \<or> enrollment \<noteq> (stages \<noteq> 0) \<or> identities > MAX_IDENTITIES
         \<or> identity_operations \<noteq> (identities \<noteq> 0)
      then Inl FpInvalidCapabilities
      else Inr \<lparr>cap_operations = operations, cap_max_enroll_stages = stages,
                cap_max_identities = identities\<rparr>)"

record enroll_progress =
  ep_completed_stage :: u8
  ep_total_stages :: u8

definition enroll_progress_new :: "u8 \<Rightarrow> u8 \<Rightarrow> fp_error + enroll_progress" where
  "enroll_progress_new completed stages =
     (if completed = 0 \<or> stages = 0 \<or> completed > stages \<or> stages > MAX_ENROLL_STAGES
      then Inl FpInvalidRange
      else Inr \<lparr>ep_completed_stage = completed, ep_total_stages = stages\<rparr>)"

subsection \<open>Messages\<close>

datatype fp_client_message =
    GetCapabilities | Open | ListIdentities | Enroll username finger_label
  | Verify username identity_id | Identify username | DeleteIdentity username identity_id | Cancel

datatype operation_kind = KListIdentities | KEnroll | KVerify | KIdentify | KDeleteIdentity

datatype connection_action = QueryCapabilities | OpenConnection | StartKind operation_kind | CancelActive

fun classify_message :: "fp_client_message \<Rightarrow> connection_action" where
  "classify_message GetCapabilities = QueryCapabilities"
| "classify_message Open = OpenConnection"
| "classify_message ListIdentities = StartKind KListIdentities"
| "classify_message (Enroll u f) = StartKind KEnroll"
| "classify_message (Verify u i) = StartKind KVerify"
| "classify_message (Identify u) = StartKind KIdentify"
| "classify_message (DeleteIdentity u i) = StartKind KDeleteIdentity"
| "classify_message Cancel = CancelActive"

datatype terminal_outcome =
    TCompleted | TEnrolled identity_id | TMatched identity_id | TNoMatch | TCancelled | TDeviceLost
  | TBusy | TSecondOwner | TUnsupported | TDuplicate | TCapacityFull | TError

datatype fp_server_message =
    Capabilities capabilities | Opened | IdentityList "username option" "fp_identity list"
  | EnrollProgress enroll_progress | Terminal terminal_outcome

fun is_terminal :: "fp_server_message \<Rightarrow> bool" where
  "is_terminal (EnrollProgress p) = False"
| "is_terminal _ = True"

subsection \<open>Header\<close>

definition encode_packet :: "u8 \<Rightarrow> bytes \<Rightarrow> fp_error + bytes" where
  "encode_packet message_type payload =
     (if HEADER_SIZE + length payload > MAX_PACKET_SIZE then Inl FpPacketTooLarge
      else if length payload \<ge> 2 ^ 16 then Inl FpPacketTooLarge
      else Inr (FP_MAGIC @ [FP_VERSION, message_type] @ to_be 2 FP_RESERVED
             @ to_be 2 (word_of_nat (length payload) :: u16) @ to_be 2 FP_RESERVED @ payload))"

definition decode_packet :: "bytes \<Rightarrow> fp_error + u8 \<times> bytes" where
  "decode_packet packet =
     (if length packet < HEADER_SIZE then Inl FpWrongLength
      else if length packet > MAX_PACKET_SIZE then Inl FpPacketTooLarge
      else if take 4 packet \<noteq> FP_MAGIC then Inl FpBadMagic
      else if packet ! 4 \<noteq> FP_VERSION then Inl FpUnsupportedVersion
      else if from_be [packet ! 6, packet ! 7] \<noteq> FP_RESERVED
              \<or> from_be [packet ! 10, packet ! 11] \<noteq> FP_RESERVED then Inl FpNonzeroReserved
      else let payload_length = unat (from_be [packet ! 8, packet ! 9] :: u16) in
        if payload_length \<noteq> length packet - HEADER_SIZE then Inl FpPayloadLengthMismatch
        else Inr (packet ! 5, drop HEADER_SIZE packet))"

subsection \<open>Fields\<close>

definition take_byte :: "bytes \<Rightarrow> nat \<Rightarrow> fp_error + u8 \<times> nat" where
  "take_byte payload cursor =
     (if cursor < length payload then Inr (payload ! cursor, cursor + 1) else Inl FpInvalidPayload)"

definition take_slice :: "nat \<Rightarrow> bytes \<Rightarrow> nat \<Rightarrow> fp_error + bytes \<times> nat" where
  "take_slice n payload cursor =
     (if cursor + n \<le> length payload then Inr (slice cursor (cursor + n) payload, cursor + n)
      else Inl FpInvalidPayload)"

text \<open>
  The length of a validated name fits a byte, so the conversion the source expects to succeed does.
\<close>

definition encode_username :: "username \<Rightarrow> bytes" where
  "encode_username u = word_of_nat (length u) # u"

definition decode_username :: "bytes \<Rightarrow> nat \<Rightarrow> fp_error + username \<times> nat" where
  "decode_username payload cursor =
     rbind (take_byte payload cursor) (\<lambda>(n, cursor).
     rbind (take_slice (unat n) payload cursor) (\<lambda>(b, cursor).
       if \<not> utf8_valid b then Inl FpInvalidUsername
       else rbind (username_new b) (\<lambda>u. Inr (u, cursor))))"

definition decode_identity :: "bytes \<Rightarrow> nat \<Rightarrow> fp_error + identity_id \<times> nat" where
  "decode_identity payload cursor =
     rbind (take_slice 16 payload cursor) (\<lambda>(b, cursor).
     rbind (identity_id_new b) (\<lambda>i. Inr (i, cursor)))"

definition take_finger :: "bytes \<Rightarrow> nat \<Rightarrow> fp_error + finger_label \<times> nat" where
  "take_finger payload cursor =
     rbind (take_byte payload cursor) (\<lambda>(b, cursor).
     rbind (finger_decode b) (\<lambda>f. Inr (f, cursor)))"

definition require_empty :: "bytes \<Rightarrow> fp_error + unit" where
  "require_empty payload = (if payload = [] then Inr () else Inl FpInvalidPayload)"

subsection \<open>Client packets\<close>

fun client_type :: "fp_client_message \<Rightarrow> u8" where
  "client_type GetCapabilities = 0x01"
| "client_type Open = 0x02"
| "client_type ListIdentities = 0x03"
| "client_type (Enroll u f) = 0x04"
| "client_type (Verify u i) = 0x05"
| "client_type (Identify u) = 0x06"
| "client_type (DeleteIdentity u i) = 0x07"
| "client_type Cancel = 0x08"

fun client_payload :: "fp_client_message \<Rightarrow> bytes" where
  "client_payload (Enroll u f) = encode_username u @ [finger_code f]"
| "client_payload (Verify u i) = encode_username u @ i"
| "client_payload (Identify u) = encode_username u"
| "client_payload (DeleteIdentity u i) = encode_username u @ i"
| "client_payload _ = []"

definition encode_client_message :: "fp_client_message \<Rightarrow> fp_error + bytes" where
  "encode_client_message m = encode_packet (client_type m) (client_payload m)"

text \<open>The message of a type with the cursor behind it.\<close>

definition read_client :: "u8 \<Rightarrow> bytes \<Rightarrow> fp_error + fp_client_message \<times> nat" where
  "read_client message_type payload =
     (if message_type = 0x01 then rbind (require_empty payload) (\<lambda>_. Inr (GetCapabilities, 0))
      else if message_type = 0x02 then rbind (require_empty payload) (\<lambda>_. Inr (Open, 0))
      else if message_type = 0x03 then rbind (require_empty payload) (\<lambda>_. Inr (ListIdentities, 0))
      else if message_type = 0x04 then
        rbind (decode_username payload 0) (\<lambda>(u, cursor).
        rbind (take_finger payload cursor) (\<lambda>(f, cursor). Inr (Enroll u f, cursor)))
      else if message_type = 0x05 then
        rbind (decode_username payload 0) (\<lambda>(u, cursor).
        rbind (decode_identity payload cursor) (\<lambda>(i, cursor). Inr (Verify u i, cursor)))
      else if message_type = 0x06 then
        rbind (decode_username payload 0) (\<lambda>(u, cursor). Inr (Identify u, cursor))
      else if message_type = 0x07 then
        rbind (decode_username payload 0) (\<lambda>(u, cursor).
        rbind (decode_identity payload cursor) (\<lambda>(i, cursor). Inr (DeleteIdentity u i, cursor)))
      else if message_type = 0x08 then rbind (require_empty payload) (\<lambda>_. Inr (Cancel, 0))
      else Inl FpUnsupportedType)"

definition decode_client_message :: "bytes \<Rightarrow> fp_error + fp_client_message" where
  "decode_client_message packet =
     rbind (decode_packet packet) (\<lambda>(message_type, payload).
     rbind (read_client message_type payload) (\<lambda>(m, cursor).
       if cursor \<noteq> length payload then Inl FpInvalidPayload else Inr m))"

subsection \<open>Server packets\<close>

text \<open>No identity twice: each is compared with the earlier ones.\<close>

fun identities_distinct :: "identity_id list \<Rightarrow> fp_identity list \<Rightarrow> bool" where
  "identities_distinct earlier [] = True"
| "identities_distinct earlier (i # rest) =
     (fi_id i \<notin> set earlier \<and> identities_distinct (earlier @ [fi_id i]) rest)"

definition validate_identity_list :: "username option \<Rightarrow> fp_identity list \<Rightarrow> fp_error + unit" where
  "validate_identity_list listed identities =
     (if length identities > unat MAX_IDENTITIES then Inl FpInvalidRange
      else if (listed \<noteq> None) = (identities = []) then Inl FpInvalidPayload
      else if \<not> identities_distinct [] identities then Inl FpInvalidIdentity
      else Inr ())"

definition encode_identities :: "fp_identity list \<Rightarrow> bytes" where
  "encode_identities is = concat (map (\<lambda>i. fi_id i @ [finger_code (fi_finger i)]) is)"

fun encode_outcome :: "terminal_outcome \<Rightarrow> bytes" where
  "encode_outcome TCompleted = [1]"
| "encode_outcome (TEnrolled i) = 2 # i"
| "encode_outcome (TMatched i) = 3 # i"
| "encode_outcome TNoMatch = [4]"
| "encode_outcome TCancelled = [5]"
| "encode_outcome TDeviceLost = [6]"
| "encode_outcome TBusy = [7]"
| "encode_outcome TSecondOwner = [8]"
| "encode_outcome TUnsupported = [9]"
| "encode_outcome TError = [10]"
| "encode_outcome TDuplicate = [11]"
| "encode_outcome TCapacityFull = [12]"

fun encode_server_message :: "fp_server_message \<Rightarrow> fp_error + bytes" where
  "encode_server_message (Capabilities c) =
     encode_packet 0x81 (to_be 2 (cap_operations c) @ [cap_max_enroll_stages c, cap_max_identities c])"
| "encode_server_message Opened = encode_packet 0x82 []"
| "encode_server_message (IdentityList listed identities) =
     rbind (validate_identity_list listed identities) (\<lambda>_.
     if length identities \<ge> 2 ^ 8 then Inl FpInvalidRange
     else encode_packet 0x83 (word_of_nat (length identities)
            # (case listed of None \<Rightarrow> [] | Some u \<Rightarrow> encode_username u) @ encode_identities identities))"
| "encode_server_message (EnrollProgress p) = encode_packet 0x84 [ep_completed_stage p, ep_total_stages p]"
| "encode_server_message (Terminal t) = encode_packet 0x85 (encode_outcome t)"

fun read_identities :: "nat \<Rightarrow> bytes \<Rightarrow> nat \<Rightarrow> fp_error + fp_identity list \<times> nat" where
  "read_identities 0 payload cursor = Inr ([], cursor)"
| "read_identities (Suc n) payload cursor =
     rbind (decode_identity payload cursor) (\<lambda>(i, cursor).
     rbind (take_finger payload cursor) (\<lambda>(f, cursor).
     rbind (read_identities n payload cursor) (\<lambda>(is, cursor).
       Inr (\<lparr>fi_id = i, fi_finger = f\<rparr> # is, cursor))))"

definition read_identity_list :: "bytes \<Rightarrow> fp_error + fp_server_message \<times> nat" where
  "read_identity_list payload =
     rbind (take_byte payload 0) (\<lambda>(count, cursor).
     if count > MAX_IDENTITIES then Inl FpInvalidPayload
     else rbind (if count = 0 then Inr (None, cursor)
                 else rbind (decode_username payload cursor) (\<lambda>(u, cursor). Inr (Some u, cursor)))
       (\<lambda>(listed, cursor).
       rbind (read_identities (unat count) payload cursor) (\<lambda>(identities, cursor).
       rbind (validate_identity_list listed identities) (\<lambda>_.
         Inr (IdentityList listed identities, cursor)))))"

definition read_outcome :: "bytes \<Rightarrow> fp_error + fp_server_message \<times> nat" where
  "read_outcome payload =
     rbind (take_byte payload 0) (\<lambda>(code, cursor).
     let plain = (\<lambda>t. Inr (Terminal t, cursor)) in
     if code = 1 then plain TCompleted
     else if code = 2 then rbind (decode_identity payload cursor) (\<lambda>(i, c). Inr (Terminal (TEnrolled i), c))
     else if code = 3 then rbind (decode_identity payload cursor) (\<lambda>(i, c). Inr (Terminal (TMatched i), c))
     else if code = 4 then plain TNoMatch
     else if code = 5 then plain TCancelled
     else if code = 6 then plain TDeviceLost
     else if code = 7 then plain TBusy
     else if code = 8 then plain TSecondOwner
     else if code = 9 then plain TUnsupported
     else if code = 10 then plain TError
     else if code = 11 then plain TDuplicate
     else if code = 12 then plain TCapacityFull
     else Inl FpInvalidPayload)"

definition read_server :: "u8 \<Rightarrow> bytes \<Rightarrow> fp_error + fp_server_message \<times> nat" where
  "read_server message_type payload =
     (if message_type = 0x81 then
        if length payload \<noteq> 4 then Inl FpInvalidPayload
        else rbind (capability_set_from_bits (from_be [payload ! 0, payload ! 1])) (\<lambda>operations.
          rbind (capabilities_new operations (payload ! 2) (payload ! 3)) (\<lambda>c.
            Inr (Capabilities c, length payload)))
      else if message_type = 0x82 then rbind (require_empty payload) (\<lambda>_. Inr (Opened, 0))
      else if message_type = 0x83 then read_identity_list payload
      else if message_type = 0x84 then
        if length payload \<noteq> 2 then Inl FpInvalidPayload
        else rbind (enroll_progress_new (payload ! 0) (payload ! 1)) (\<lambda>p.
          Inr (EnrollProgress p, length payload))
      else if message_type = 0x85 then read_outcome payload
      else Inl FpUnsupportedType)"

definition decode_server_message :: "bytes \<Rightarrow> fp_error + fp_server_message" where
  "decode_server_message packet =
     rbind (decode_packet packet) (\<lambda>(message_type, payload).
     rbind (read_server message_type payload) (\<lambda>(m, cursor).
       if cursor \<noteq> length payload then Inl FpInvalidPayload else Inr m))"

subsection \<open>Well-formed values\<close>

definition username_ok :: "username \<Rightarrow> bool" where
  "username_ok u \<longleftrightarrow> utf8_valid u \<and> u \<noteq> [] \<and> length u \<le> 255 \<and> 0 \<notin> set u"

definition identity_ok :: "identity_id \<Rightarrow> bool" where
  "identity_ok i \<longleftrightarrow> length i = 16 \<and> i \<noteq> replicate 16 0"

definition fp_identity_ok :: "fp_identity \<Rightarrow> bool" where
  "fp_identity_ok i \<longleftrightarrow> identity_ok (fi_id i)"

fun client_message_ok :: "fp_client_message \<Rightarrow> bool" where
  "client_message_ok (Enroll u f) = username_ok u"
| "client_message_ok (Verify u i) = (username_ok u \<and> identity_ok i)"
| "client_message_ok (Identify u) = username_ok u"
| "client_message_ok (DeleteIdentity u i) = (username_ok u \<and> identity_ok i)"
| "client_message_ok _ = True"

fun outcome_ok :: "terminal_outcome \<Rightarrow> bool" where
  "outcome_ok (TEnrolled i) = identity_ok i"
| "outcome_ok (TMatched i) = identity_ok i"
| "outcome_ok _ = True"

definition capabilities_ok :: "capabilities \<Rightarrow> bool" where
  "capabilities_ok c \<longleftrightarrow> capability_set_from_bits (cap_operations c) = Inr (cap_operations c)
     \<and> capabilities_new (cap_operations c) (cap_max_enroll_stages c) (cap_max_identities c) = Inr c"

fun server_message_ok :: "fp_server_message \<Rightarrow> bool" where
  "server_message_ok (Capabilities c) = capabilities_ok c"
| "server_message_ok Opened = True"
| "server_message_ok (IdentityList listed identities) =
     ((\<forall>u. listed = Some u \<longrightarrow> username_ok u) \<and> list_all fp_identity_ok identities
      \<and> length identities \<le> 5 \<and> (listed = None \<longleftrightarrow> identities = []) \<and> distinct (map fi_id identities))"
| "server_message_ok (EnrollProgress p) =
     (enroll_progress_new (ep_completed_stage p) (ep_total_stages p) = Inr p)"
| "server_message_ok (Terminal t) = outcome_ok t"

subsection \<open>Fields read what is encoded\<close>

lemma finger_decode_iff: "finger_decode v = Inr f \<longleftrightarrow> v = finger_code f"
  by (cases f) (auto simp: finger_decode_def)

lemma take_slice_iff:
  "take_slice n p c = Inr (s, c') \<longleftrightarrow> length s = n \<and> occurs_at p c s \<and> c' = c + n"
  by (auto simp: take_slice_def occurs_at_def)

interpretation byte_field: field "\<lambda>_. True" "\<lambda>b. [b]" take_byte
  by unfold_locales (auto simp: take_byte_def occurs_at_single)

interpretation finger_field: field "\<lambda>_. True" "\<lambda>f. [finger_code f]" take_finger
  by unfold_locales (auto simp: take_finger_def byte_field.read_iff finger_decode_iff)

lemma identity_check_iff:
  "rbind (identity_id_new b) (\<lambda>i. Inr (i, c)) = Inr (i, c') \<longleftrightarrow> b = i \<and> i \<noteq> replicate 16 0 \<and> c' = c"
  unfolding identity_id_new_def by (cases "b = replicate 16 0") auto

interpretation identity_field: field identity_ok "\<lambda>i. i" decode_identity
proof unfold_locales
  fix p c i c'
  have "decode_identity p c = Inr (i, c') \<longleftrightarrow>
      (\<exists>b d. take_slice 16 p c = Inr (b, d) \<and> rbind (identity_id_new b) (\<lambda>i. Inr (i, d)) = Inr (i, c'))"
    by (auto simp: decode_identity_def)
  then show "decode_identity p c = Inr (i, c') \<longleftrightarrow> identity_ok i \<and> occurs_at p c i \<and> c' = c + length i"
    unfolding identity_check_iff take_slice_iff identity_ok_def by auto
qed

lemma username_length: "length u \<le> 255 \<Longrightarrow> unat (word_of_nat (length u) :: u8) = length u"
  by (simp add: unat_of_nat take_bit_nat_eq_self)

lemma username_check_iff:
  "(if \<not> utf8_valid b then Inl FpInvalidUsername else rbind (username_new b) (\<lambda>u. Inr (u, c))) = Inr (u, c')
     \<longleftrightarrow> username_ok u \<and> b = u \<and> c' = c"
  by (auto simp: username_new_def username_ok_def)

interpretation username_field: field username_ok encode_username decode_username
proof unfold_locales
  fix p c u c'
  have "decode_username p c = Inr (u, c') \<longleftrightarrow>
      (\<exists>n. occurs_at p c [n] \<and> unat n = length u \<and> occurs_at p (c + 1) u \<and> username_ok u
         \<and> c' = c + 1 + length u)"
    unfolding decode_username_def rbind_Inr split_paired_Ex prod.case username_check_iff
    by (auto simp: byte_field.read_iff take_slice_iff)
  also have "\<dots> \<longleftrightarrow> (\<exists>n. unat n = length u \<and> occurs_at p c (n # u) \<and> username_ok u \<and> c' = c + 1 + length u)"
    using occurs_at_append [of p c "[n]" u for n] by auto
  also have "\<dots> \<longleftrightarrow> username_ok u \<and> occurs_at p c (encode_username u) \<and> c' = c + length (encode_username u)"
  proof -
    have "n = word_of_nat (length u)" if "unat n = length u" for n :: u8
      using that by (metis of_nat_unat ucast_id)
    moreover have "unat (word_of_nat (length u) :: u8) = length u" if "username_ok u"
      using that by (simp add: username_length username_ok_def)
    ultimately have "unat n = length u \<longleftrightarrow> n = word_of_nat (length u)" if "username_ok u" for n :: u8
      using that by blast
    then show ?thesis by (auto simp: encode_username_def)
  qed
  finally show "decode_username p c = Inr (u, c') \<longleftrightarrow>
      username_ok u \<and> occurs_at p c (encode_username u) \<and> c' = c + length (encode_username u)" .
qed

lemmas field_reads = byte_field.read_iff finger_field.read_iff identity_field.read_iff username_field.read_iff

subsection \<open>Packets\<close>

lemma to_be_2: "to_be 2 (w :: u16) = [ucast (drop_bit 8 w), ucast w]"
  by (simp add: to_be_def numeral_2_eq_2)

lemma be16_length:
  assumes "n < 2 ^ 16"
  shows "unat (from_be [a, b] :: u16) = n \<longleftrightarrow> [a, b] = to_be 2 (word_of_nat n :: u16)"
proof -
  have "w = word_of_nat n" if "unat w = n" for w :: u16
    using that by (metis of_nat_unat ucast_id)
  moreover have "unat (word_of_nat n :: u16) = n"
    using assms by (simp add: unat_of_nat take_bit_nat_eq_self)
  ultimately have "unat (from_be [a, b] :: u16) = n \<longleftrightarrow> from_be [a, b] = (word_of_nat n :: u16)"
    by metis
  then show ?thesis by (simp add: from_be_iff(1))
qed

lemma twelve: "12 \<le> length p \<Longrightarrow> \<exists>a b c d v t r r' l l' s s' rest. p = a # b # c # d # v # t # r # r' # l # l' # s # s' # rest"
  by (auto simp: numeral_eq_Suc Suc_le_length_iff)

lemma decode_packet_iff: "decode_packet p = Inr (t, payload) \<longleftrightarrow> encode_packet t payload = Inr p"
proof (cases "12 \<le> length p")
  case False
  then show ?thesis by (auto simp: decode_packet_def encode_packet_def)
next
  case True
  then obtain a b c d v t' r r' l l' s s' rest
    where p: "p = a # b # c # d # v # t' # r # r' # l # l' # s # s' # rest"
    using twelve [OF True] by (elim exE) (rule that)
  show ?thesis
  proof (cases "length rest \<le> 1012")
    case False
    then show ?thesis by (auto simp: p decode_packet_def encode_packet_def to_be_2)
  next
    case len: True
    then have "unat (from_be [l, l'] :: u16) = length rest \<longleftrightarrow> [l, l'] = to_be 2 (word_of_nat (length rest) :: u16)"
      by (intro be16_length) simp
    moreover have "(from_be [x, y] :: u16) = 0 \<longleftrightarrow> [x, y] = to_be 2 (0 :: u16)" for x y
      by (simp add: from_be_iff(1))
    ultimately show ?thesis using len
      by (cases "payload = rest"; cases "t = t'") (auto simp add: p decode_packet_def encode_packet_def to_be_2)
  qed
qed

subsection \<open>Client packets are exactly the encodings\<close>

lemma require_empty_iff: "require_empty p = Inr x \<longleftrightarrow> p = []"
  by (simp add: require_empty_def)

interpretation named_finger: field_pair username_ok encode_username decode_username
  "\<lambda>_. True" "\<lambda>f. [finger_code f]" take_finger ..

interpretation named_identity: field_pair username_ok encode_username decode_username
  identity_ok "\<lambda>i. i" decode_identity ..

lemma read_client_iff:
  "read_client t p = Inr (m, length p) \<longleftrightarrow> client_message_ok m \<and> t = client_type m \<and> p = client_payload m"
proof (cases m)
  case (Enroll u f)
  have "read_client t p = Inr (m, length p) \<longleftrightarrow>
      t = 4 \<and> (\<exists>c. decode_username p 0 = Inr (u, c) \<and> take_finger p c = Inr (f, length p))"
    by (auto simp: read_client_def Enroll split: if_splits)
  then show ?thesis unfolding named_finger.read_both by (auto simp: Enroll)
next
  case (Verify u i)
  have "read_client t p = Inr (m, length p) \<longleftrightarrow>
      t = 5 \<and> (\<exists>c. decode_username p 0 = Inr (u, c) \<and> decode_identity p c = Inr (i, length p))"
    by (auto simp: read_client_def Verify split: if_splits)
  then show ?thesis unfolding named_identity.read_both by (auto simp: Verify)
next
  case (DeleteIdentity u i)
  have "read_client t p = Inr (m, length p) \<longleftrightarrow>
      t = 7 \<and> (\<exists>c. decode_username p 0 = Inr (u, c) \<and> decode_identity p c = Inr (i, length p))"
    by (auto simp: read_client_def DeleteIdentity split: if_splits)
  then show ?thesis unfolding named_identity.read_both by (auto simp: DeleteIdentity)
next
  case (Identify u)
  have "read_client t p = Inr (m, length p) \<longleftrightarrow> t = 6 \<and> decode_username p 0 = Inr (u, length p)"
    by (auto simp: read_client_def Identify split: if_splits)
  then show ?thesis unfolding username_field.read_iff
    using one_field [of p "encode_username u"] by (auto simp: Identify)
qed (auto simp: read_client_def require_empty_iff split: if_splits)

lemma decode_client_message_iff:
  "decode_client_message packet = Inr m \<longleftrightarrow> client_message_ok m \<and> encode_client_message m = Inr packet"
proof -
  have "decode_client_message packet = Inr m \<longleftrightarrow>
      (\<exists>t p. decode_packet packet = Inr (t, p) \<and> read_client t p = Inr (m, length p))"
    by (auto simp: decode_client_message_def split: if_splits)
  then show ?thesis
    unfolding decode_packet_iff read_client_iff by (auto simp: encode_client_message_def)
qed

lemma encode_client_message_ok: "client_message_ok m \<Longrightarrow> \<exists>packet. encode_client_message m = Inr packet"
  by (cases m) (auto simp: encode_client_message_def encode_packet_def encode_username_def
      username_ok_def identity_ok_def)

interpretation fp_client: canonical_codec client_message_ok encode_client_message decode_client_message
  by unfold_locales (auto simp: decode_client_message_iff)

subsection \<open>Server packets are exactly the encodings\<close>

lemma encode_identities_simps [simp]:
  "encode_identities [] = []"
  "encode_identities (i # is) = (fi_id i @ [finger_code (fi_finger i)]) @ encode_identities is"
  by (simp_all add: encode_identities_def)

lemma read_identities_iff:
  "c \<le> length p \<Longrightarrow> read_identities n p c = Inr (is, c') \<longleftrightarrow>
     length is = n \<and> list_all fp_identity_ok is \<and> occurs_at p c (encode_identities is)
     \<and> c' = c + length (encode_identities is)"
proof (induction n arbitrary: c "is")
  case 0
  then show ?case by auto
next
  case (Suc n)
  show ?case
  proof (cases "is")
    case Nil
    then show ?thesis by auto
  next
    case (Cons i rest)
    let ?here = "fi_id i @ [finger_code (fi_finger i)]"
    have end_le: "c + length ?here \<le> length p" if "occurs_at p c ?here"
      using that by (simp add: occurs_at_def)
    have "read_identities (Suc n) p c = Inr (is, c') \<longleftrightarrow>
        fp_identity_ok i \<and> occurs_at p c ?here \<and> read_identities n p (c + length ?here) = Inr (rest, c')"
      unfolding occurs_at_append [of p c "fi_id i"]
      by (cases i) (auto simp: Cons field_reads fp_identity_ok_def)
    also have "\<dots> \<longleftrightarrow> length is = Suc n \<and> list_all fp_identity_ok is
        \<and> occurs_at p c (encode_identities is) \<and> c' = c + length (encode_identities is)"
      using Suc.IH [OF end_le, of rest] occurs_at_append [of p c ?here "encode_identities rest"]
      by (auto simp: Cons simp del: append_assoc)
    finally show ?thesis .
  qed
qed

lemma identities_distinct_iff:
  "identities_distinct earlier is \<longleftrightarrow> distinct (map fi_id is) \<and> set earlier \<inter> fi_id ` set is = {}"
  by (induction "is" arbitrary: earlier) auto

lemma validate_identity_list_iff:
  "validate_identity_list listed is = Inr x \<longleftrightarrow>
     length is \<le> 5 \<and> (listed = None \<longleftrightarrow> is = []) \<and> distinct (map fi_id is)"
  by (auto simp: validate_identity_list_def identities_distinct_iff)

lemma count_byte: "n \<le> 5 \<Longrightarrow> unat (b :: u8) = n \<longleftrightarrow> b = word_of_nat n"
  by (auto simp: unat_of_nat take_bit_nat_eq_self)

definition listed_owner :: "username option \<Rightarrow> bytes" where
  "listed_owner listed = (case listed of None \<Rightarrow> [] | Some u \<Rightarrow> encode_username u)"

lemma take_first: "take_byte (b # q) 0 = Inr (b, 1)"
  by (simp add: take_byte_def)

lemma occurs_at_tail: "occurs_at (b # q) (Suc c) s \<longleftrightarrow> occurs_at q c s"
  by (simp add: occurs_at_def slice_def)

lemma read_outcome_iff:
  "read_outcome p = Inr (Terminal t, length p) \<longleftrightarrow> outcome_ok t \<and> p = encode_outcome t"
proof (cases p)
  case Nil
  then show ?thesis by (cases t) (auto simp: read_outcome_def take_byte_def)
next
  case (Cons b q)
  have id: "decode_identity p 1 = Inr (i, length p) \<longleftrightarrow> identity_ok i \<and> q = i" for i
    using one_field [of q i] by (auto simp: Cons identity_field.read_iff occurs_at_tail)
  have nonid: "Inr (Terminal u, 1) = (Inr (Terminal t, length p) :: fp_error + _) \<longleftrightarrow> t = u \<and> q = []" for u
    by (auto simp: Cons)
  show ?thesis using id nonid
    by (cases t) (auto simp: read_outcome_def take_first Let_def Cons split: if_splits)
qed

lemma read_identity_list_parts:
  "read_identity_list (n # q) = Inr (IdentityList listed is, Suc (length q)) \<longleftrightarrow>
     n \<le> 5 \<and> (n = 0 \<longleftrightarrow> listed = None) \<and> (\<forall>u. listed = Some u \<longrightarrow> username_ok u)
     \<and> occurs_at q 0 (listed_owner listed)
     \<and> read_identities (unat n) (n # q) (1 + length (listed_owner listed)) = Inr (is, Suc (length q))
     \<and> length is \<le> 5 \<and> (listed = None \<longleftrightarrow> is = []) \<and> distinct (map fi_id is)"
  by (cases listed; cases "n = 0")
     (auto simp: read_identity_list_def take_first validate_identity_list_iff not_less listed_owner_def
        username_field.read_iff occurs_at_tail split: if_splits)

lemma read_identity_list_iff:
  "read_identity_list p = Inr (IdentityList listed is, length p) \<longleftrightarrow>
     server_message_ok (IdentityList listed is)
     \<and> p = word_of_nat (length is) # listed_owner listed @ encode_identities is"
proof (cases p)
  case Nil
  then show ?thesis by (simp add: read_identity_list_def take_byte_def)
next
  case (Cons n q)
  let ?c = "1 + length (listed_owner listed)"
  have count: "n = word_of_nat (length is) \<longleftrightarrow> unat n = length is" if "length is \<le> 5"
    using count_byte [OF that] by auto
  have tail: "occurs_at q 0 (listed_owner listed) \<and> read_identities (unat n) p ?c = Inr (is, length p) \<longleftrightarrow>
     unat n = length is \<and> list_all fp_identity_ok is \<and> q = listed_owner listed @ encode_identities is"
    (is "?l \<longleftrightarrow> ?r")
  proof (cases "occurs_at q 0 (listed_owner listed)")
    case True
    then have "?c \<le> length p" by (simp add: Cons occurs_at_def)
    from read_identities_iff [OF this] show ?thesis
      using two_fields [of q "listed_owner listed" "encode_identities is"] True
      by (auto simp: Cons occurs_at_tail)
  next
    case False
    then show ?thesis using two_fields [of q "listed_owner listed" "encode_identities is"] by auto
  qed
  have small: "n \<le> 5 \<and> (n = 0 \<longleftrightarrow> is = [])" if "unat n = length is" "length is \<le> 5"
    using that by (auto simp: word_le_nat_alt unat_eq_zero)
  show ?thesis
    using read_identity_list_parts [of n q listed "is"] tail count small by (auto simp: Cons)
qed

fun server_type :: "fp_server_message \<Rightarrow> u8" where
  "server_type (Capabilities c) = 0x81"
| "server_type Opened = 0x82"
| "server_type (IdentityList listed is) = 0x83"
| "server_type (EnrollProgress p) = 0x84"
| "server_type (Terminal t) = 0x85"

fun server_payload :: "fp_server_message \<Rightarrow> bytes" where
  "server_payload (Capabilities c) =
     to_be 2 (cap_operations c) @ [cap_max_enroll_stages c, cap_max_identities c]"
| "server_payload Opened = []"
| "server_payload (IdentityList listed is) =
     word_of_nat (length is) # listed_owner listed @ encode_identities is"
| "server_payload (EnrollProgress p) = [ep_completed_stage p, ep_total_stages p]"
| "server_payload (Terminal t) = encode_outcome t"

lemma encode_server_message_packet:
  "server_message_ok m \<Longrightarrow> encode_server_message m = encode_packet (server_type m) (server_payload m)"
  by (cases m) (auto simp: rbind_Inr validate_identity_list_def identities_distinct_iff listed_owner_def)

lemma capability_payload_iff:
  "length p = 4 \<Longrightarrow>
     rbind (capability_set_from_bits (from_be [p ! 0, p ! 1])) (\<lambda>operations.
       rbind (capabilities_new operations (p ! 2) (p ! 3)) (\<lambda>c. Inr (Capabilities c, length p))) = Inr (Capabilities c, 4)
     \<longleftrightarrow> capabilities_ok c \<and> p = to_be 2 (cap_operations c) @ [cap_max_enroll_stages c, cap_max_identities c]"
proof -
  assume len: "length p = 4"
  then obtain a b s i where p: "p = [a, b, s, i]" by (auto simp: numeral_eq_Suc length_Suc_conv)
  let ?w = "from_be [a, b] :: u16"
  have bits: "[a, b] = to_be 2 (cap_operations c) \<longleftrightarrow> ?w = cap_operations c"
    using from_be_iff(1) [of "[a, b]" "cap_operations c"] by simp
  have set: "capability_set_from_bits ?w = Inr v \<Longrightarrow> v = ?w" for v
    by (simp add: capability_set_from_bits_def split: if_splits)
  have new: "capabilities_new ?w s i = Inr c \<Longrightarrow>
      ?w = cap_operations c \<and> s = cap_max_enroll_stages c \<and> i = cap_max_identities c"
    by (auto simp: capabilities_new_def Let_def split: if_splits)
  have "rbind (capability_set_from_bits ?w) (\<lambda>operations.
       rbind (capabilities_new operations s i) (\<lambda>c. Inr (Capabilities c, length p))) = Inr (Capabilities c, 4)
     \<longleftrightarrow> capability_set_from_bits ?w = Inr ?w \<and> capabilities_new ?w s i = Inr c"
    using set by (auto simp: p)
  also have "\<dots> \<longleftrightarrow> capabilities_ok c \<and> [a, b] = to_be 2 (cap_operations c)
      \<and> s = cap_max_enroll_stages c \<and> i = cap_max_identities c"
    unfolding bits capabilities_ok_def using new by metis
  also have "\<dots> \<longleftrightarrow> capabilities_ok c \<and> p = to_be 2 (cap_operations c) @ [cap_max_enroll_stages c, cap_max_identities c]"
    by (auto simp: p to_be_2)
  finally show ?thesis by (simp add: p)
qed

lemma read_server_iff:
  "read_server t p = Inr (m, length p) \<longleftrightarrow> server_message_ok m \<and> t = server_type m \<and> p = server_payload m"
proof (cases m)
  case (Capabilities c)
  have "read_server t p = Inr (m, length p) \<longleftrightarrow> t = 0x81 \<and> length p = 4 \<and>
     rbind (capability_set_from_bits (from_be [p ! 0, p ! 1])) (\<lambda>operations.
       rbind (capabilities_new operations (p ! 2) (p ! 3)) (\<lambda>c. Inr (Capabilities c, length p))) = Inr (Capabilities c, 4)"
    by (auto simp: read_server_def Capabilities read_identity_list_def read_outcome_def Let_def split: if_splits)
  also have "\<dots> \<longleftrightarrow> t = 0x81 \<and> length p = 4 \<and> capabilities_ok c
      \<and> p = to_be 2 (cap_operations c) @ [cap_max_enroll_stages c, cap_max_identities c]"
    using capability_payload_iff by blast
  finally show ?thesis by (auto simp: Capabilities)
next
  case Opened
  then show ?thesis
    by (auto simp: read_server_def require_empty_iff read_identity_list_def read_outcome_def Let_def split: if_splits)
next
  case (IdentityList listed "is")
  have "read_server t p = Inr (m, length p) \<longleftrightarrow>
     t = 0x83 \<and> read_identity_list p = Inr (IdentityList listed is, length p)"
    by (auto simp: read_server_def IdentityList read_outcome_def Let_def split: if_splits)
  then show ?thesis unfolding read_identity_list_iff by (auto simp: IdentityList)
next
  case (EnrollProgress e)
  have "read_server t p = Inr (m, length p) \<longleftrightarrow>
      t = 0x84 \<and> length p = 2 \<and> enroll_progress_new (p ! 0) (p ! 1) = Inr e"
    by (auto simp: read_server_def EnrollProgress read_identity_list_def read_outcome_def Let_def split: if_splits)
  also have "\<dots> \<longleftrightarrow> t = 0x84 \<and> p = [ep_completed_stage e, ep_total_stages e]
      \<and> enroll_progress_new (ep_completed_stage e) (ep_total_stages e) = Inr e"
  proof (cases "length p = 2")
    case True
    then obtain x y where "p = [x, y]" by (auto simp: numeral_2_eq_2 length_Suc_conv)
    moreover have "x = ep_completed_stage e \<and> y = ep_total_stages e" if "enroll_progress_new x y = Inr e"
      using that by (auto simp: enroll_progress_new_def split: if_splits)
    ultimately show ?thesis by auto
  qed auto
  finally show ?thesis by (auto simp: EnrollProgress)
next
  case (Terminal o')
  have "read_server t p = Inr (m, length p) \<longleftrightarrow> t = 0x85 \<and> read_outcome p = Inr (Terminal o', length p)"
    by (auto simp: read_server_def Terminal read_identity_list_def split: if_splits)
  then show ?thesis unfolding read_outcome_iff by (auto simp: Terminal)
qed

lemma decode_server_message_iff:
  "decode_server_message packet = Inr m \<longleftrightarrow> server_message_ok m \<and> encode_server_message m = Inr packet"
proof -
  have "decode_server_message packet = Inr m \<longleftrightarrow>
      (\<exists>t p. decode_packet packet = Inr (t, p) \<and> read_server t p = Inr (m, length p))"
    by (auto simp: decode_server_message_def split: if_splits)
  then show ?thesis
    unfolding decode_packet_iff read_server_iff by (auto simp: encode_server_message_packet)
qed

lemma length_encode_identities:
  "list_all fp_identity_ok is \<Longrightarrow> length (encode_identities is) = 17 * length is"
  by (induction "is") (auto simp: fp_identity_ok_def identity_ok_def)

lemma encode_server_message_ok:
  assumes "server_message_ok m"
  shows "\<exists>packet. encode_server_message m = Inr packet"
proof -
  have "length (server_payload m) \<le> 1012"
  proof (cases m)
    case (IdentityList listed "is")
    with assms have "length (listed_owner listed) \<le> 256"
      by (auto simp: listed_owner_def encode_username_def username_ok_def split: option.splits)
    with assms IdentityList show ?thesis by (simp add: length_encode_identities)
  next
    case (Terminal t)
    with assms show ?thesis by (cases t) (auto simp: identity_ok_def)
  qed auto
  then show ?thesis using assms by (simp add: encode_server_message_packet encode_packet_def)
qed

interpretation fp_server: canonical_codec server_message_ok encode_server_message decode_server_message
  by unfold_locales (auto simp: decode_server_message_iff)

subsection \<open>Properties\<close>

text \<open>
  C32. A client packet of the standard fingerprint protocol decodes to a message exactly when the message
  carries valid names and identities and the packet is its encoding, and every such message can be
  sent.
\<close>

theorem fp_client_exact:
  "(decode_client_message packet = Inr m \<longleftrightarrow> client_message_ok m \<and> encode_client_message m = Inr packet)
   \<and> (client_message_ok m \<longrightarrow> (\<exists>p. encode_client_message m = Inr p \<and> decode_client_message p = Inr m))"
  using decode_client_message_iff encode_client_message_ok by blast

theorem fp_client_exact_witness:
  "\<exists>p. encode_client_message (Enroll [0x6a, 0x6f] RightIndex) = Inr p
     \<and> decode_client_message p = Inr (Enroll [0x6a, 0x6f] RightIndex)"
  using fp_client_exact [of "[]" "Enroll [0x6a, 0x6f] RightIndex"] by (simp add: username_ok_def)

text \<open>
  C33. A server packet of the standard fingerprint protocol decodes to a message exactly when the message
  is valid (capability bounds consistent, at most five distinct identities listed with a name
  exactly when the list is not empty, progress within its stages) and the packet is its encoding;
  every valid message can be sent.
\<close>

theorem fp_server_exact:
  "(decode_server_message packet = Inr m \<longleftrightarrow> server_message_ok m \<and> encode_server_message m = Inr packet)
   \<and> (server_message_ok m \<longrightarrow> (\<exists>p. encode_server_message m = Inr p \<and> decode_server_message p = Inr m))"
  using decode_server_message_iff encode_server_message_ok by blast

theorem fp_server_exact_witness:
  "\<exists>p. encode_server_message (IdentityList (Some [0x6a]) [\<lparr>fi_id = replicate 16 7, fi_finger = LeftRing\<rparr>]) = Inr p
     \<and> decode_server_message p = Inr (IdentityList (Some [0x6a]) [\<lparr>fi_id = replicate 16 7, fi_finger = LeftRing\<rparr>])"
proof -
  have "replicate 16 (7 :: u8) \<noteq> replicate 16 0" unfolding replicate_eq_replicate by simp
  then have ok: "identity_ok (replicate 16 7)" unfolding identity_ok_def length_replicate by (rule conjI [OF refl])
  have "server_message_ok (IdentityList (Some [0x6a]) [\<lparr>fi_id = replicate 16 7, fi_finger = LeftRing\<rparr>])"
    using ok by (simp add: username_ok_def fp_identity_ok_def del: replicate_Suc)
  then show ?thesis by (rule fp_server_exact [THEN conjunct2, rule_format])
qed

end
