(* ===== verification/Standard_Authority.thy ===== *)
theory Standard_Authority
  imports Auth_Protocol Standard_Protocol
begin

section \<open>Authority over standard fingerprint operations\<close>

text \<open>
  Models \<^verbatim>\<open>crates/t1-daemons/src/standard_operation_authority.rs\<close>: accounts resolved by the
  name service, the owner-bound operations of the standard protocol, their authorization against the
  kernel's peer credentials and the recorded owner, and their start, cancellation and completion on the
  token of the authentication broker. The lemmas say exactly when an operation starts, what
  authority it carries, and which results it may report.
\<close>

record resolved_account =
  ra_canonical_username :: username
  ra_user_id :: u32

datatype standard_authority_error = NonCanonicalAccount | RootTarget

definition resolved_account_new ::
  "username \<Rightarrow> username \<Rightarrow> u32 \<Rightarrow> standard_authority_error + resolved_account" where
  "resolved_account_new asserted canonical user_id =
     (if asserted \<noteq> canonical then Inl NonCanonicalAccount
      else if user_id = ROOT_UID then Inl RootTarget
      else Inr \<lparr>ra_canonical_username = canonical, ra_user_id = user_id\<rparr>)"

datatype resolved_operation =
    OList | OEnroll resolved_account finger_label | OVerify resolved_account identity_id
  | OIdentify resolved_account | ODelete resolved_account identity_id

fun target_user_id :: "resolved_operation \<Rightarrow> u32 option" where
  "target_user_id OList = None"
| "target_user_id (OEnroll a f) = Some (ra_user_id a)"
| "target_user_id (OVerify a i) = Some (ra_user_id a)"
| "target_user_id (OIdentify a) = Some (ra_user_id a)"
| "target_user_id (ODelete a i) = Some (ra_user_id a)"

fun resolved_kind :: "resolved_operation \<Rightarrow> operation_kind" where
  "resolved_kind OList = KListIdentities"
| "resolved_kind (OEnroll a f) = KEnroll"
| "resolved_kind (OVerify a i) = KVerify"
| "resolved_kind (OIdentify a) = KIdentify"
| "resolved_kind (ODelete a i) = KDeleteIdentity"

datatype peer_authority = RootAuthority | RecordedOwner | FirstOwnerNominee

record authorized_operation =
  so_token :: u64
  so_biometric_user_id :: u32
  so_target_user_id :: "u32 option"
  so_authority :: peer_authority
  so_nominated_first_owner :: bool
  so_operation :: resolved_operation

datatype standard_decision = StandardStart authorized_operation | StandardReply fp_server_message

definition authorize_standard ::
  "peer_metadata \<Rightarrow> access_policy option \<Rightarrow> resolved_operation \<Rightarrow> (u32 option \<times> peer_authority \<times> bool) option" where
  "authorize_standard peer recorded_owner operation =
     (if peer_family peer \<noteq> FamilyLocal then None
      else if operation = OList then
        (if peer_user_id peer = ROOT_UID
         then Some (map_option ap_enrollment_owner_user_id recorded_owner, RootAuthority, False)
         else case recorded_owner of
           Some w \<Rightarrow> if peer_user_id peer = ap_enrollment_owner_user_id w
                     then Some (Some (peer_user_id peer), RecordedOwner, False) else None
         | None \<Rightarrow> None)
      else case target_user_id operation of
        None \<Rightarrow> None
      | Some target \<Rightarrow>
          if peer_user_id peer \<noteq> ROOT_UID \<and> peer_user_id peer \<noteq> target then None
          else (case recorded_owner of
            Some w \<Rightarrow>
              Some (Some target, if peer_user_id peer = ROOT_UID then RootAuthority else RecordedOwner, False)
          | None \<Rightarrow>
              if resolved_kind operation = KEnroll
              then Some (Some target,
                     if peer_user_id peer = ROOT_UID then RootAuthority else FirstOwnerNominee, True)
              else None))"

definition standard_reply :: "terminal_outcome \<Rightarrow> standard_decision" where
  "standard_reply outcome = StandardReply (Terminal outcome)"

definition dispatch_standard ::
  "peer_metadata \<Rightarrow> access_policy option \<Rightarrow> resolved_operation \<Rightarrow> broker_state \<Rightarrow> standard_decision \<times> broker_state" where
  "dispatch_standard peer recorded_owner operation s =
     (case authorize_standard peer recorded_owner operation of
        None \<Rightarrow> (standard_reply TError, s)
      | Some (target, authority, nominated) \<Rightarrow>
          if (\<exists>w t. recorded_owner = Some w \<and> target_user_id operation = Some t
                \<and> t \<noteq> ap_enrollment_owner_user_id w)
          then (standard_reply (if resolved_kind operation = KEnroll then TSecondOwner else TError), s)
          else (case start_token s of
            (AdmitStart token, s') \<Rightarrow>
              (StandardStart \<lparr>so_token = token, so_biometric_user_id = BIOMETRIC_USER_ID,
                 so_target_user_id = target, so_authority = authority,
                 so_nominated_first_owner = nominated, so_operation = operation\<rparr>, s')
          | (AdmitBusy, s') \<Rightarrow> (standard_reply TBusy, s')
          | (AdmitFailed, s') \<Rightarrow> (standard_reply TError, s')))"

definition cancel_standard ::
  "authorized_operation \<Rightarrow> (u64 \<Rightarrow> bool) \<Rightarrow> broker_state \<Rightarrow> bool \<times> broker_state" where
  "cancel_standard operation deliver s = cancel_token (so_token operation) deliver s"

definition standard_client_disconnected ::
  "authorized_operation \<Rightarrow> (u64 \<Rightarrow> bool) \<Rightarrow> broker_state \<Rightarrow> bool \<times> broker_state" where
  "standard_client_disconnected operation deliver s = cancel_token (so_token operation) deliver s"

fun terminal_compatible :: "resolved_operation \<Rightarrow> terminal_outcome \<Rightarrow> bool" where
  "terminal_compatible operation (TEnrolled i) = (resolved_kind operation = KEnroll)"
| "terminal_compatible operation TDuplicate = (resolved_kind operation = KEnroll)"
| "terminal_compatible operation TCapacityFull = (resolved_kind operation = KEnroll)"
| "terminal_compatible operation (TMatched actual) =
     (case operation of OVerify a identity \<Rightarrow> identity = actual | OIdentify a \<Rightarrow> True | _ \<Rightarrow> False)"
| "terminal_compatible operation TNoMatch = (resolved_kind operation \<in> {KVerify, KIdentify})"
| "terminal_compatible operation TCompleted = (resolved_kind operation = KDeleteIdentity)"
| "terminal_compatible operation TBusy = False"
| "terminal_compatible operation TSecondOwner = False"
| "terminal_compatible operation _ = True"

fun result_is_compatible :: "authorized_operation \<Rightarrow> fp_server_message \<Rightarrow> bool" where
  "result_is_compatible operation (IdentityList listed identities) =
     (resolved_kind (so_operation operation) = KListIdentities
      \<and> (if identities = [] then listed = None else listed \<noteq> None \<and> so_target_user_id operation \<noteq> None))"
| "result_is_compatible operation (Terminal outcome) = terminal_compatible (so_operation operation) outcome"
| "result_is_compatible operation _ = False"

definition finish_standard ::
  "authorized_operation \<Rightarrow> fp_server_message \<Rightarrow> broker_state \<Rightarrow> fp_server_message option \<times> broker_state" where
  "finish_standard operation result s =
     (case finish_token (so_token operation) s of
        (None, s') \<Rightarrow> (None, s')
      | (Some cancelled, s') \<Rightarrow>
          (Some (if cancelled then Terminal TCancelled
                 else if result_is_compatible operation result then result
                 else Terminal TError), s'))"

subsection \<open>Who may start what\<close>

text \<open>The rule of the owner policy, stated without the order of the checks.\<close>

definition may_run :: "peer_metadata \<Rightarrow> access_policy option \<Rightarrow> resolved_operation \<Rightarrow> bool" where
  "may_run peer recorded_owner operation \<longleftrightarrow>
     peer_family peer = FamilyLocal
     \<and> (case target_user_id operation of
          None \<Rightarrow> peer_user_id peer = ROOT_UID
            \<or> map_option ap_enrollment_owner_user_id recorded_owner = Some (peer_user_id peer)
        | Some target \<Rightarrow> peer_user_id peer \<in> {ROOT_UID, target}
            \<and> (case recorded_owner of
                 None \<Rightarrow> resolved_kind operation = KEnroll
               | Some w \<Rightarrow> ap_enrollment_owner_user_id w = target))"

lemma target_user_id_None [simp]: "target_user_id operation = None \<longleftrightarrow> operation = OList"
  by (cases operation) auto

lemma resolved_kind_list [simp]: "resolved_kind operation = KListIdentities \<longleftrightarrow> operation = OList"
  by (cases operation) auto

lemma authorized_iff_may_run:
  "may_run peer recorded_owner operation \<longleftrightarrow>
     authorize_standard peer recorded_owner operation \<noteq> None
     \<and> \<not> (\<exists>w t. recorded_owner = Some w \<and> target_user_id operation = Some t
           \<and> t \<noteq> ap_enrollment_owner_user_id w)"
proof (cases "operation = OList")
  case True
  then show ?thesis
    by (cases recorded_owner) (auto simp: may_run_def authorize_standard_def)
next
  case False
  then obtain t where "target_user_id operation = Some t" by (cases operation) auto
  with False show ?thesis
    by (cases recorded_owner) (auto simp: may_run_def authorize_standard_def)
qed

lemma dispatch_standard_outcome:
  assumes "dispatch_standard peer recorded_owner operation s = (d, s')"
  shows "((\<exists>op. d = StandardStart op) \<longleftrightarrow>
      may_run peer recorded_owner operation \<and> bs_active s = None \<and> bs_next_token s \<noteq> 0)
    \<and> ((\<exists>m. d = StandardReply m) \<longrightarrow> s' = s)"
proof (cases "may_run peer recorded_owner operation")
  case True
  then obtain target authority nominated where
    auth: "authorize_standard peer recorded_owner operation = Some (target, authority, nominated)"
    and owner: "\<not> (\<exists>w t. recorded_owner = Some w \<and> target_user_id operation = Some t
           \<and> t \<noteq> ap_enrollment_owner_user_id w)"
    unfolding authorized_iff_may_run by auto
  from assms True show ?thesis unfolding dispatch_standard_def auth if_not_P [OF owner] option.case prod.case
    by (auto simp: start_token_def standard_reply_def split: if_splits)
next
  case False
  with assms show ?thesis unfolding authorized_iff_may_run
    by (auto simp: dispatch_standard_def standard_reply_def split: option.splits if_splits)
qed

lemma started_standard_fields:
  assumes "dispatch_standard peer recorded_owner operation s = (StandardStart op, s')"
  shows "so_operation op = operation \<and> so_token op = bs_next_token s
    \<and> (so_nominated_first_owner op \<longleftrightarrow> recorded_owner = None \<and> resolved_kind operation = KEnroll)
    \<and> (so_authority op = RootAuthority \<longleftrightarrow> peer_user_id peer = ROOT_UID)
    \<and> (\<forall>t. target_user_id operation = Some t \<longrightarrow> so_target_user_id op = Some t)"
proof -
  from assms obtain target authority nominated where
    auth: "authorize_standard peer recorded_owner operation = Some (target, authority, nominated)"
    and op: "so_operation op = operation" "so_token op = bs_next_token s" "so_target_user_id op = target"
      "so_authority op = authority" "so_nominated_first_owner op = nominated"
    by (auto simp: dispatch_standard_def start_token_def standard_reply_def
        split: option.splits if_splits)
  from auth show ?thesis unfolding op
    by (auto simp: authorize_standard_def split: if_splits option.splits)
qed

text \<open>A standard operation on the broker is a step of its abstract operation slot as well.\<close>

lemma dispatch_standard_refines:
  assumes "dispatch_standard peer recorded_owner operation s = (d, s')"
  shows "labelled_run slot_step (slot_of s)
    (case d of StandardStart op \<Rightarrow> [Started (unat (so_token op))] | StandardReply m \<Rightarrow> []) (slot_of s')"
proof (cases d)
  case (StandardStart op)
  with assms have "start_token s = (AdmitStart (so_token op), s')"
    by (auto simp: dispatch_standard_def standard_reply_def split: option.splits if_splits
        token_admission.splits prod.splits)
  then show ?thesis using broker_exec_refines [of OpStartToken s] by (simp add: StandardStart)
next
  case (StandardReply m)
  with assms show ?thesis using dispatch_standard_outcome by fastforce
qed

lemma finish_standard_outcome:
  assumes "finish_standard op result s = (Some reply, s')"
  shows "reply = (if is_cancelled (so_token op) s then Terminal TCancelled
    else if result_is_compatible op result then result else Terminal TError)"
  using assms
  by (auto simp: finish_standard_def finish_token_def is_cancelled_def split: option.splits if_splits)

subsection \<open>Properties\<close>

text \<open>
  C21. A standard operation starts exactly when its peer is local and either root or the account it names
  (for a listing, root or the recorded owner), the account named is the recorded owner or,
  with none recorded, is being enrolled, and the broker is free; a refusal changes nothing. A started
  operation is bound to the account it named, and it nominates a first owner exactly when it
  enrolls with none recorded.
\<close>

theorem standard_work_is_owner_bound:
  assumes "dispatch_standard peer recorded_owner operation s = (d, s')"
  shows "((\<exists>op. d = StandardStart op) \<longleftrightarrow>
      may_run peer recorded_owner operation \<and> bs_active s = None \<and> bs_next_token s \<noteq> 0)
    \<and> ((\<exists>m. d = StandardReply m) \<longrightarrow> s' = s)
    \<and> (\<forall>op. d = StandardStart op \<longrightarrow> so_operation op = operation
         \<and> (so_nominated_first_owner op \<longleftrightarrow> recorded_owner = None \<and> resolved_kind operation = KEnroll)
         \<and> (so_authority op = RootAuthority \<longleftrightarrow> peer_user_id peer = ROOT_UID)
         \<and> (\<forall>t. target_user_id operation = Some t \<longrightarrow> so_target_user_id op = Some t))"
  using dispatch_standard_outcome [OF assms] started_standard_fields [of peer recorded_owner operation s _ s'] assms
  by blast

theorem standard_work_is_owner_bound_witness:
  "may_run \<lparr>peer_family = FamilyLocal, peer_user_id = 1000, peer_group_id = 1000\<rparr> None
     (OEnroll \<lparr>ra_canonical_username = [0x6a], ra_user_id = 1000\<rparr> LeftThumb)"
proof -
  have "dispatch_standard \<lparr>peer_family = FamilyLocal, peer_user_id = 1000, peer_group_id = 1000\<rparr> None
      (OEnroll \<lparr>ra_canonical_username = [0x6a], ra_user_id = 1000\<rparr> LeftThumb) broker_state_default =
    (StandardStart \<lparr>so_token = 1, so_biometric_user_id = 501, so_target_user_id = Some 1000,
       so_authority = FirstOwnerNominee, so_nominated_first_owner = True,
       so_operation = OEnroll \<lparr>ra_canonical_username = [0x6a], ra_user_id = 1000\<rparr> LeftThumb\<rparr>,
     \<lparr>bs_active = Some \<lparr>ao_token = 1, ao_cancelled = False\<rparr>, bs_next_token = 2\<rparr>)"
    by (simp add: dispatch_standard_def authorize_standard_def start_token_def checked_next_token_def
        broker_state_default_def)
  from standard_work_is_owner_bound [OF this] show ?thesis by simp
qed

text \<open>
  C35. The reply of a finished standard operation is Cancelled whenever its cancellation was recorded,
  otherwise the worker's result if the operation may report it and Error if not. So a match is reported
  only by an operation that was not cancelled, and by a verification only for the identity it was
  asked about.
\<close>

theorem standard_results_compatible:
  assumes "finish_standard op result s = (Some reply, s')"
  shows "reply = (if is_cancelled (so_token op) s then Terminal TCancelled
      else if result_is_compatible op result then result else Terminal TError)
    \<and> (\<forall>i. reply = Terminal (TMatched i) \<longrightarrow> \<not> is_cancelled (so_token op) s
         \<and> (so_operation op = OVerify a j \<longrightarrow> i = j) \<and> resolved_kind (so_operation op) \<in> {KVerify, KIdentify})
    \<and> (\<forall>i. reply = Terminal (TEnrolled i) \<longrightarrow> resolved_kind (so_operation op) = KEnroll)"
  using finish_standard_outcome [OF assms]
  by (auto split: if_splits resolved_operation.splits)

theorem standard_results_compatible_witness:
  "\<not> is_cancelled 1 \<lparr>bs_active = Some \<lparr>ao_token = 1, ao_cancelled = False\<rparr>, bs_next_token = 2\<rparr>"
proof -
  let ?op = "\<lparr>so_token = 1, so_biometric_user_id = 501, so_target_user_id = Some 1000,
    so_authority = RootAuthority, so_nominated_first_owner = False,
    so_operation = OVerify \<lparr>ra_canonical_username = [0x6a], ra_user_id = 1000\<rparr> [1]\<rparr>"
  have "finish_standard ?op (Terminal (TMatched [1]))
      \<lparr>bs_active = Some \<lparr>ao_token = 1, ao_cancelled = False\<rparr>, bs_next_token = 2\<rparr> =
    (Some (Terminal (TMatched [1])), \<lparr>bs_active = None, bs_next_token = 2\<rparr>)"
    by (simp add: finish_standard_def finish_token_def)
  from standard_results_compatible [OF this] show ?thesis by simp
qed

end
