(* ===== verification/Auth_Session.thy ===== *)
theory Auth_Session
  imports Standard_Authority
begin

section \<open>Broker sessions and the delivery of cancellations\<close>

text \<open>
  Models \<^verbatim>\<open>crates/t1-daemons/src/auth_session.rs\<close> with the cancellation slot of
  \<^verbatim>\<open>crates/t1-daemons/src/overlay.rs\<close> and the feedback of \<^verbatim>\<open>auth_feedback.rs\<close>: the coordinator that
  joins the broker's token to a shared flag the worker polls.
  A shared flag (an \<^verbatim>\<open>Arc<AtomicBool>\<close>) is an address: the coordinator's record holds the flags'
  values and the next free address, so two flags are the same object exactly when their addresses are
  equal. The slot is likewise identified by an address. Every operation on the slot holds its mutex
  for its whole length, so it is one step; a mutex that another thread left unusable is the field
  \<open>co_slot_poisoned\<close>.
\<close>

subsection \<open>Outcomes and feedback\<close>

datatype match_outcome = MatchMatched | MatchNoMatch | MatchCancelled | MatchTimedOut

datatype session_failure =
    InvalidOperationUser | RelayInactive | RelayHealth | RelayStop | ExclusiveSepAndAcm
  | RelayRecovery | InvalidCredential | OperationFailed

datatype feedback_action = ShowRetry | PauseAfterRetry | ShowSuccess | PauseAfterSuccess

text \<open>
  The feedback object is represented by whether each action succeeds on it; the result lists the actions
  that were tried.
\<close>

fun apply_two :: "(feedback_action \<Rightarrow> bool) \<Rightarrow> feedback_action \<Rightarrow> feedback_action \<Rightarrow> feedback_action list" where
  "apply_two f a b = (if f a then [a, b] else [a])"

definition apply_authentication_feedback ::
  "session_failure + match_outcome \<Rightarrow> (feedback_action \<Rightarrow> bool) option \<Rightarrow> feedback_action list" where
  "apply_authentication_feedback result feedback =
     (case (result, feedback) of
        (Inr MatchMatched, Some f) \<Rightarrow> apply_two f ShowSuccess PauseAfterSuccess
      | (Inr MatchNoMatch, Some f) \<Rightarrow> apply_two f ShowRetry PauseAfterRetry
      | _ \<Rightarrow> [])"

subsection \<open>The coordinator's state\<close>

record cancellation_registration =
  reg_token :: u64
  reg_event :: nat

record coordinator =
  co_state :: broker_state
  co_slot :: nat
  co_slot_poisoned :: bool
  co_registration :: "cancellation_registration option"
  co_events :: "nat \<Rightarrow> bool"
  co_next_event :: nat

record active_authentication =
  aa_operation :: operation
  aa_event :: nat
  aa_slot :: nat

record active_standard =
  as_operation :: authorized_operation
  as_event :: nat
  as_slot :: nat

record authentication_completion =
  ac_token :: u64
  ac_event :: nat
  ac_slot :: nat
  ac_result :: "session_failure + match_outcome"

record standard_completion =
  sc_token :: u64
  sc_event :: nat
  sc_slot :: nat
  sc_result :: fp_server_message

datatype session_decision = SessionReply auth_response | SessionStart active_authentication

datatype standard_session_decision =
    StandardSessionReply fp_server_message | StandardSessionStart active_standard

subsection \<open>The cancellation slot\<close>

definition slot_install :: "u64 \<Rightarrow> nat \<Rightarrow> coordinator \<Rightarrow> bool \<times> coordinator" where
  "slot_install token event c =
     (if co_slot_poisoned c \<or> co_registration c \<noteq> None then (False, c)
      else (True, c\<lparr>co_registration := Some \<lparr>reg_token = token, reg_event = event\<rparr>\<rparr>))"

definition registered :: "u64 \<Rightarrow> nat \<Rightarrow> coordinator \<Rightarrow> bool" where
  "registered token event c \<longleftrightarrow> co_registration c = Some \<lparr>reg_token = token, reg_event = event\<rparr>"

definition slot_clear :: "u64 \<Rightarrow> nat \<Rightarrow> coordinator \<Rightarrow> coordinator" where
  "slot_clear token event c =
     (if \<not> co_slot_poisoned c \<and> registered token event c then c\<lparr>co_registration := None\<rparr> else c)"

definition slot_close :: "u64 \<Rightarrow> nat \<Rightarrow> coordinator \<Rightarrow> bool \<times> coordinator" where
  "slot_close token event c =
     (if co_slot_poisoned c \<or> \<not> registered token event c then (False, c)
      else (\<not> co_events c event, c\<lparr>co_registration := None\<rparr>))"

text \<open>Whether a delivery for a token succeeds, and what a successful delivery does.\<close>

definition slot_delivers :: "coordinator \<Rightarrow> u64 \<Rightarrow> bool" where
  "slot_delivers c token \<longleftrightarrow> \<not> co_slot_poisoned c
     \<and> (case co_registration c of None \<Rightarrow> False | Some r \<Rightarrow> reg_token r = token)"

definition deliver_event :: "coordinator \<Rightarrow> coordinator" where
  "deliver_event c =
     (case co_registration c of None \<Rightarrow> c | Some r \<Rightarrow> c\<lparr>co_events := (co_events c)(reg_event r := True)\<rparr>)"

subsection \<open>Dispatch\<close>

definition coordinator_default :: "nat \<Rightarrow> coordinator" where
  "coordinator_default slot =
     \<lparr>co_state = broker_state_default, co_slot = slot, co_slot_poisoned = False, co_registration = None,
      co_events = (\<lambda>_. False), co_next_event = 0\<rparr>"

text \<open>A fresh flag, unset.\<close>

definition new_event :: "coordinator \<Rightarrow> nat \<times> coordinator" where
  "new_event c = (co_next_event c,
     c\<lparr>co_events := (co_events c)(co_next_event c := False), co_next_event := co_next_event c + 1\<rparr>)"

definition install_decision :: "broker_decision \<Rightarrow> coordinator \<Rightarrow> session_decision \<times> coordinator" where
  "install_decision decision c =
     (case decision of
        Reply response \<Rightarrow> (SessionReply response, c)
      | Start op \<Rightarrow>
          (case new_event c of (event, c1) \<Rightarrow>
           (case slot_install (op_token op) event c1 of
              (False, c2) \<Rightarrow>
                (SessionReply Failure,
                 c2\<lparr>co_state := snd (finish_operation (op_token op) ResultFailed (co_state c2))\<rparr>)
            | (True, c2) \<Rightarrow>
                (SessionStart \<lparr>aa_operation = op, aa_event = event, aa_slot = co_slot c2\<rparr>, c2))))"

definition or_error :: "fp_server_message option \<Rightarrow> fp_server_message" where
  "or_error m = (case m of None \<Rightarrow> Terminal TError | Some r \<Rightarrow> r)"

definition install_standard_decision ::
  "standard_decision \<Rightarrow> coordinator \<Rightarrow> standard_session_decision \<times> coordinator" where
  "install_standard_decision decision c =
     (case decision of
        StandardReply response \<Rightarrow> (StandardSessionReply response, c)
      | StandardStart op \<Rightarrow>
          (case new_event c of (event, c1) \<Rightarrow>
           (case slot_install (so_token op) event c1 of
              (False, c2) \<Rightarrow>
                (case finish_standard op (Terminal TError) (co_state c2) of (r, st) \<Rightarrow>
                   (StandardSessionReply (or_error r), c2\<lparr>co_state := st\<rparr>))
            | (True, c2) \<Rightarrow>
                (StandardSessionStart \<lparr>as_operation = op, as_event = event, as_slot = co_slot c2\<rparr>, c2))))"

text \<open>
  The broker calls the delivery at most once, for its active token, and records a cancellation (an OKAY
  reply, or a true answer) exactly when the delivery succeeds: then the registered flag is set.
\<close>

definition co_dispatch ::
  "peer_metadata \<Rightarrow> access_policy \<Rightarrow> bytes \<Rightarrow> coordinator \<Rightarrow> session_decision \<times> coordinator" where
  "co_dispatch peer policy packet c =
     (case handle_packet_with_cancellation peer policy packet (slot_delivers c) (co_state c) of (d, st) \<Rightarrow>
        let c' = (if d = Reply Okay then deliver_event c else c) in
        install_decision d (c'\<lparr>co_state := st\<rparr>))"

definition co_enroll_without_owner :: "peer_metadata \<Rightarrow> coordinator \<Rightarrow> session_decision \<times> coordinator" where
  "co_enroll_without_owner peer c =
     (case enroll_without_owner peer (co_state c) of (d, st) \<Rightarrow> install_decision d (c\<lparr>co_state := st\<rparr>))"

definition co_dispatch_standard ::
  "peer_metadata \<Rightarrow> access_policy option \<Rightarrow> resolved_operation \<Rightarrow> coordinator \<Rightarrow> standard_session_decision \<times> coordinator" where
  "co_dispatch_standard peer recorded_owner operation c =
     (case dispatch_standard peer recorded_owner operation (co_state c) of (d, st) \<Rightarrow>
        install_standard_decision d (c\<lparr>co_state := st\<rparr>))"

definition co_cancel_without_owner :: "peer_metadata \<Rightarrow> coordinator \<Rightarrow> auth_response \<times> coordinator" where
  "co_cancel_without_owner peer c =
     (case cancel_without_owner peer (slot_delivers c) (co_state c) of
        (Reply r, st) \<Rightarrow> (r, (if r = Okay then deliver_event c else c)\<lparr>co_state := st\<rparr>)
      | (Start op, st) \<Rightarrow> (Failure, c\<lparr>co_state := st\<rparr>))"

text \<open>Cancellation of one token by its own client, through its handle.\<close>

definition co_cancel_token :: "nat \<Rightarrow> u64 \<Rightarrow> coordinator \<Rightarrow> bool \<times> coordinator" where
  "co_cancel_token slot token c =
     (if slot \<noteq> co_slot c then (False, c)
      else case cancel_token token (slot_delivers c) (co_state c) of (b, st) \<Rightarrow>
        (b, (if b then deliver_event c else c)\<lparr>co_state := st\<rparr>))"

definition co_client_disconnected :: "active_authentication \<Rightarrow> coordinator \<Rightarrow> bool \<times> coordinator" where
  "co_client_disconnected active c = co_cancel_token (aa_slot active) (op_token (aa_operation active)) c"

definition co_cancel_standard :: "active_standard \<Rightarrow> coordinator \<Rightarrow> bool \<times> coordinator" where
  "co_cancel_standard active c = co_cancel_token (as_slot active) (so_token (as_operation active)) c"

definition co_standard_client_disconnected :: "active_standard \<Rightarrow> coordinator \<Rightarrow> bool \<times> coordinator" where
  "co_standard_client_disconnected active c =
     co_cancel_token (as_slot active) (so_token (as_operation active)) c"

subsection \<open>Completion\<close>

definition completion_new ::
  "active_authentication \<Rightarrow> session_failure + match_outcome \<Rightarrow> authentication_completion" where
  "completion_new active result =
     \<lparr>ac_token = op_token (aa_operation active), ac_event = aa_event active, ac_slot = aa_slot active,
      ac_result = result\<rparr>"

definition completion_belongs_to :: "authentication_completion \<Rightarrow> active_authentication \<Rightarrow> bool" where
  "completion_belongs_to completion active \<longleftrightarrow> ac_token completion = op_token (aa_operation active)
     \<and> ac_event completion = aa_event active \<and> ac_slot completion = aa_slot active"

definition standard_completion_new :: "active_standard \<Rightarrow> fp_server_message \<Rightarrow> standard_completion" where
  "standard_completion_new active result =
     \<lparr>sc_token = so_token (as_operation active), sc_event = as_event active, sc_slot = as_slot active,
      sc_result = (case result of IdentityList listed is \<Rightarrow> result | Terminal t \<Rightarrow> result
                   | _ \<Rightarrow> Terminal TError)\<rparr>"

definition standard_completion_belongs_to :: "standard_completion \<Rightarrow> active_standard \<Rightarrow> bool" where
  "standard_completion_belongs_to completion active \<longleftrightarrow> sc_token completion = so_token (as_operation active)
     \<and> sc_event completion = as_event active \<and> sc_slot completion = as_slot active"

fun operation_result_of :: "session_failure + match_outcome \<Rightarrow> operation_result" where
  "operation_result_of (Inr MatchMatched) = Matched"
| "operation_result_of (Inr MatchNoMatch) = NoMatch"
| "operation_result_of (Inr MatchCancelled) = ResultCancelled"
| "operation_result_of (Inr MatchTimedOut) = ResultUnavailable"
| "operation_result_of (Inl e) = ResultFailed"

definition co_finalize :: "authentication_completion \<Rightarrow> coordinator \<Rightarrow> (auth_response \<times> bool) \<times> coordinator" where
  "co_finalize completion c =
     (if ac_slot completion \<noteq> co_slot c then ((Failure, False), c)
      else let c' = slot_clear (ac_token completion) (ac_event completion) c;
               cancelled = is_cancelled (ac_token completion) (co_state c') in
        (case finish_operation (ac_token completion) (operation_result_of (ac_result completion)) (co_state c') of
           (None, st) \<Rightarrow> ((Failure, False), c'\<lparr>co_state := st\<rparr>)
         | (Some response, st) \<Rightarrow> ((response, \<not> cancelled), c'\<lparr>co_state := st\<rparr>)))"

definition co_finish :: "authentication_completion \<Rightarrow> coordinator \<Rightarrow> auth_response \<times> coordinator" where
  "co_finish completion c = (case co_finalize completion c of ((response, _), c') \<Rightarrow> (response, c'))"

definition co_finish_for ::
  "active_authentication \<Rightarrow> authentication_completion \<Rightarrow> coordinator \<Rightarrow> auth_response \<times> coordinator" where
  "co_finish_for active completion c =
     (if aa_slot active \<noteq> co_slot c \<or> \<not> completion_belongs_to completion active then (Failure, c)
      else co_finish completion c)"

definition co_finish_with_feedback ::
  "authentication_completion \<Rightarrow> (feedback_action \<Rightarrow> bool) option \<Rightarrow> coordinator
     \<Rightarrow> (auth_response \<times> feedback_action list) \<times> coordinator" where
  "co_finish_with_feedback completion feedback c =
     (case co_finalize completion c of ((response, authoritative), c') \<Rightarrow>
        ((response, if authoritative then apply_authentication_feedback (ac_result completion) feedback else []),
         c'))"

definition co_finish_standard ::
  "active_standard \<Rightarrow> standard_completion \<Rightarrow> coordinator \<Rightarrow> fp_server_message \<times> coordinator" where
  "co_finish_standard active completion c =
     (if as_slot active \<noteq> co_slot c \<or> \<not> standard_completion_belongs_to completion active
      then (Terminal TError, c)
      else let c' = slot_clear (so_token (as_operation active)) (as_event active) c in
        (case finish_standard (as_operation active) (sc_result completion) (co_state c') of
           (r, st) \<Rightarrow> (or_error r, c'\<lparr>co_state := st\<rparr>)))"

definition co_abandon :: "active_authentication \<Rightarrow> coordinator \<Rightarrow> auth_response \<times> coordinator" where
  "co_abandon active c =
     (if aa_slot active \<noteq> co_slot c then (Failure, c)
      else let c' = slot_clear (op_token (aa_operation active)) (aa_event active) c in
        (case finish_operation (op_token (aa_operation active)) ResultFailed (co_state c') of
           (r, st) \<Rightarrow> (case r of None \<Rightarrow> Failure | Some response \<Rightarrow> response, c'\<lparr>co_state := st\<rparr>)))"

definition co_abandon_standard :: "active_standard \<Rightarrow> coordinator \<Rightarrow> fp_server_message \<times> coordinator" where
  "co_abandon_standard active c =
     (if as_slot active \<noteq> co_slot c then (Terminal TError, c)
      else let c' = slot_clear (so_token (as_operation active)) (as_event active) c in
        (case finish_standard (as_operation active) (Terminal TError) (co_state c') of
           (r, st) \<Rightarrow> (or_error r, c'\<lparr>co_state := st\<rparr>)))"

text \<open>
  A worker closes the delivery for its own operation before it makes a result durable. The argument is
  the coordinator whose slot the worker's handle holds.
\<close>

definition close_cancellation :: "active_authentication \<Rightarrow> coordinator \<Rightarrow> bool \<times> coordinator" where
  "close_cancellation active c = slot_close (op_token (aa_operation active)) (aa_event active) c"

definition close_standard_cancellation :: "active_standard \<Rightarrow> coordinator \<Rightarrow> bool \<times> coordinator" where
  "close_standard_cancellation active c = slot_close (so_token (as_operation active)) (as_event active) c"

end
