(* ===== verification/Auth_Scheduler.thy ===== *)
theory Auth_Scheduler
  imports Auth_Session
begin

section \<open>One worker at a time\<close>

text \<open>
  Models \<^verbatim>\<open>crates/t1-daemons/src/auth_scheduler.rs\<close>: the lifecycle of the single hardware worker (its
  lease, deadline, cancellation and loss, the idle exit) and the service that joins it to the broker's
  sessions. Readings of the monotonic clock and durations are numbers of nanoseconds; a
  \<^verbatim>\<open>Duration\<close> holds less than \<open>2 ^ 64\<close> seconds. The identity of a service object is an address.
\<close>

definition OPERATION_TIMEOUT :: nat where
  [simp]: "OPERATION_TIMEOUT = SETUP_ALLOWANCE + MAX_MATCH_TIMEOUT"

definition ENROLLMENT_OPERATION_TIMEOUT :: nat where
  [simp]: "ENROLLMENT_OPERATION_TIMEOUT = 15 * 60 * 10 ^ 9"

definition duration_add :: "nat \<Rightarrow> nat \<Rightarrow> nat option" where
  "duration_add a b = (if a + b < 2 ^ 64 * 10 ^ 9 then Some (a + b) else None)"

datatype worker_admission = WorkerStart u64 nat | WorkerBusy | WorkerTerminate

datatype lifecycle_decision = Continue | CancelWorker u64 | ExitIdle | TerminateBroker

datatype scheduler_error = ZeroIdleTimeout

record active_worker =
  aw_lease :: u64
  aw_deadline :: nat
  aw_cancellation_sent :: bool

record broker_scheduler =
  sc_idle_timeout :: nat
  sc_idle_since :: nat
  sc_active :: "active_worker option"
  sc_next_lease :: u64
  sc_poisoned :: bool

definition broker_scheduler_new :: "nat \<Rightarrow> nat \<Rightarrow> scheduler_error + broker_scheduler" where
  "broker_scheduler_new now idle_timeout =
     (if idle_timeout = 0 then Inl ZeroIdleTimeout
      else Inr \<lparr>sc_idle_timeout = idle_timeout, sc_idle_since = now, sc_active = None, sc_next_lease = 1,
                sc_poisoned = False\<rparr>)"

definition admit_with_timeout :: "nat \<Rightarrow> nat \<Rightarrow> broker_scheduler \<Rightarrow> worker_admission \<times> broker_scheduler" where
  "admit_with_timeout now operation_timeout w =
     (if sc_poisoned w then (WorkerTerminate, w)
      else if sc_active w \<noteq> None then (WorkerBusy, w)
      else case duration_add now operation_timeout of
        None \<Rightarrow> (WorkerTerminate, w\<lparr>sc_poisoned := True\<rparr>)
      | Some deadline \<Rightarrow>
          if sc_next_lease w = 0 then (WorkerTerminate, w\<lparr>sc_poisoned := True\<rparr>)
          else (WorkerStart (sc_next_lease w) deadline,
                w\<lparr>sc_active := Some \<lparr>aw_lease = sc_next_lease w, aw_deadline = deadline,
                                      aw_cancellation_sent = False\<rparr>,
                  sc_next_lease := checked_next_token (sc_next_lease w)\<rparr>))"

definition admit_worker :: "nat \<Rightarrow> broker_scheduler \<Rightarrow> worker_admission \<times> broker_scheduler" where
  "admit_worker now w = admit_with_timeout now OPERATION_TIMEOUT w"

definition owns_lease :: "u64 \<Rightarrow> broker_scheduler \<Rightarrow> bool" where
  "owns_lease lease w \<longleftrightarrow> (case sc_active w of None \<Rightarrow> False | Some a \<Rightarrow> aw_lease a = lease)"

definition complete_worker :: "u64 \<Rightarrow> nat \<Rightarrow> broker_scheduler \<Rightarrow> bool \<times> broker_scheduler" where
  "complete_worker lease now w =
     (if \<not> owns_lease lease w then (False, w) else (True, w\<lparr>sc_active := None, sc_idle_since := now\<rparr>))"

definition scheduler_worker_lost :: "u64 \<Rightarrow> broker_scheduler \<Rightarrow> bool \<times> broker_scheduler" where
  "scheduler_worker_lost lease w =
     (if \<not> owns_lease lease w then (False, w) else (True, w\<lparr>sc_poisoned := True\<rparr>))"

definition poison_scheduler :: "broker_scheduler \<Rightarrow> broker_scheduler" where
  "poison_scheduler w = w\<lparr>sc_poisoned := True\<rparr>"

definition scheduler_decide :: "nat \<Rightarrow> bool \<Rightarrow> broker_scheduler \<Rightarrow> lifecycle_decision \<times> broker_scheduler" where
  "scheduler_decide now listener_ready w =
     (if sc_poisoned w then (TerminateBroker, w)
      else case sc_active w of
        Some a \<Rightarrow>
          if now \<ge> aw_deadline a \<and> \<not> aw_cancellation_sent a
          then (CancelWorker (aw_lease a), w\<lparr>sc_active := Some (a\<lparr>aw_cancellation_sent := True\<rparr>)\<rparr>)
          else (Continue, w)
      | None \<Rightarrow>
          if \<not> listener_ready \<and> now - sc_idle_since w \<ge> sc_idle_timeout w then (ExitIdle, w)
          else (Continue, w))"

subsection \<open>The service\<close>

record scheduled_authentication =
  sa_authentication :: active_authentication
  sa_lease :: u64
  sa_deadline :: nat
  sa_service :: nat

record scheduled_standard =
  ss_operation :: active_standard
  ss_lease :: u64
  ss_deadline :: nat
  ss_service :: nat

datatype scheduled_dispatch =
    DispatchReply auth_response | DispatchStart scheduled_authentication | DispatchTerminate

datatype scheduled_standard_dispatch =
    StandardDispatchReply fp_server_message | StandardDispatchStart scheduled_standard
  | StandardDispatchTerminate

record broker_service =
  bsv_coordinator :: coordinator
  bsv_workers :: broker_scheduler
  bsv_identity :: nat

definition broker_service_new :: "nat \<Rightarrow> nat \<Rightarrow> nat \<Rightarrow> nat \<Rightarrow> scheduler_error + broker_service" where
  "broker_service_new slot identity now idle_timeout =
     rbind (broker_scheduler_new now idle_timeout) (\<lambda>w.
       Inr \<lparr>bsv_coordinator = coordinator_default slot, bsv_workers = w, bsv_identity = identity\<rparr>)"

definition service_owns :: "nat \<Rightarrow> u64 \<Rightarrow> broker_service \<Rightarrow> bool" where
  "service_owns identity lease v \<longleftrightarrow> bsv_identity v = identity \<and> owns_lease lease (bsv_workers v)"

definition schedule :: "session_decision \<Rightarrow> nat \<Rightarrow> broker_service \<Rightarrow> scheduled_dispatch \<times> broker_service" where
  "schedule decision now v =
     (case decision of
        SessionReply response \<Rightarrow> (DispatchReply response, v)
      | SessionStart authentication \<Rightarrow>
          (case admit_with_timeout now
                  (case op_purpose (aa_operation authentication) of
                     PEnrollment \<Rightarrow> ENROLLMENT_OPERATION_TIMEOUT | _ \<Rightarrow> OPERATION_TIMEOUT)
                  (bsv_workers v) of
             (WorkerStart lease deadline, w) \<Rightarrow>
               (DispatchStart \<lparr>sa_authentication = authentication, sa_lease = lease, sa_deadline = deadline,
                               sa_service = bsv_identity v\<rparr>,
                v\<lparr>bsv_workers := w\<rparr>)
           | (_, w) \<Rightarrow>
               (DispatchTerminate,
                v\<lparr>bsv_coordinator := snd (co_abandon authentication (bsv_coordinator v)),
                  bsv_workers := poison_scheduler w\<rparr>)))"

definition schedule_standard ::
  "standard_session_decision \<Rightarrow> nat \<Rightarrow> broker_service \<Rightarrow> scheduled_standard_dispatch \<times> broker_service" where
  "schedule_standard decision now v =
     (case decision of
        StandardSessionReply response \<Rightarrow> (StandardDispatchReply response, v)
      | StandardSessionStart operation \<Rightarrow>
          (case admit_with_timeout now
                  (if resolved_kind (so_operation (as_operation operation)) \<in> {KEnroll, KDeleteIdentity}
                   then ENROLLMENT_OPERATION_TIMEOUT else OPERATION_TIMEOUT)
                  (bsv_workers v) of
             (WorkerStart lease deadline, w) \<Rightarrow>
               (StandardDispatchStart \<lparr>ss_operation = operation, ss_lease = lease, ss_deadline = deadline,
                                       ss_service = bsv_identity v\<rparr>,
                v\<lparr>bsv_workers := w\<rparr>)
           | (_, w) \<Rightarrow>
               (StandardDispatchTerminate,
                v\<lparr>bsv_coordinator := snd (co_abandon_standard operation (bsv_coordinator v)),
                  bsv_workers := poison_scheduler w\<rparr>)))"

definition service_dispatch ::
  "peer_metadata \<Rightarrow> access_policy \<Rightarrow> bytes \<Rightarrow> nat \<Rightarrow> broker_service \<Rightarrow> scheduled_dispatch \<times> broker_service" where
  "service_dispatch peer policy packet now v =
     (if sc_poisoned (bsv_workers v) then (DispatchTerminate, v)
      else case co_dispatch peer policy packet (bsv_coordinator v) of (d, c) \<Rightarrow>
        schedule d now (v\<lparr>bsv_coordinator := c\<rparr>))"

definition service_dispatch_standard ::
  "peer_metadata \<Rightarrow> access_policy option \<Rightarrow> resolved_operation \<Rightarrow> nat \<Rightarrow> broker_service
     \<Rightarrow> scheduled_standard_dispatch \<times> broker_service" where
  "service_dispatch_standard peer recorded_owner operation now v =
     (if sc_poisoned (bsv_workers v) then (StandardDispatchTerminate, v)
      else case co_dispatch_standard peer recorded_owner operation (bsv_coordinator v) of (d, c) \<Rightarrow>
        schedule_standard d now (v\<lparr>bsv_coordinator := c\<rparr>))"

definition service_enroll_without_owner ::
  "peer_metadata \<Rightarrow> nat \<Rightarrow> broker_service \<Rightarrow> scheduled_dispatch \<times> broker_service" where
  "service_enroll_without_owner peer now v =
     (if sc_poisoned (bsv_workers v) then (DispatchTerminate, v)
      else case co_enroll_without_owner peer (bsv_coordinator v) of (d, c) \<Rightarrow>
        schedule d now (v\<lparr>bsv_coordinator := c\<rparr>))"

definition service_cancel_without_owner ::
  "peer_metadata \<Rightarrow> broker_service \<Rightarrow> scheduled_dispatch \<times> broker_service" where
  "service_cancel_without_owner peer v =
     (if sc_poisoned (bsv_workers v) then (DispatchTerminate, v)
      else case co_cancel_without_owner peer (bsv_coordinator v) of (r, c) \<Rightarrow>
        (DispatchReply r, v\<lparr>bsv_coordinator := c\<rparr>))"

text \<open>Releasing the worker after the coordinator has chosen the reply.\<close>

definition release_worker :: "u64 \<Rightarrow> nat \<Rightarrow> 'r \<Rightarrow> 'r \<Rightarrow> broker_service \<Rightarrow> 'r \<times> broker_service" where
  "release_worker lease now response failure v =
     (case complete_worker lease now (bsv_workers v) of
        (True, w) \<Rightarrow> (response, v\<lparr>bsv_workers := w\<rparr>)
      | (False, w) \<Rightarrow> (failure, v\<lparr>bsv_workers := poison_scheduler w\<rparr>))"

definition service_finish ::
  "scheduled_authentication \<Rightarrow> authentication_completion \<Rightarrow> nat \<Rightarrow> broker_service \<Rightarrow> auth_response \<times> broker_service" where
  "service_finish scheduled completion now v =
     (if sc_poisoned (bsv_workers v) \<or> \<not> service_owns (sa_service scheduled) (sa_lease scheduled) v
         \<or> \<not> completion_belongs_to completion (sa_authentication scheduled)
      then (Failure, v)
      else case co_finish_for (sa_authentication scheduled) completion (bsv_coordinator v) of (response, c) \<Rightarrow>
        release_worker (sa_lease scheduled) now response Failure (v\<lparr>bsv_coordinator := c\<rparr>))"

definition service_finish_with_feedback ::
  "scheduled_authentication \<Rightarrow> authentication_completion \<Rightarrow> (feedback_action \<Rightarrow> bool) option \<Rightarrow> nat
     \<Rightarrow> broker_service \<Rightarrow> (auth_response \<times> feedback_action list) \<times> broker_service" where
  "service_finish_with_feedback scheduled completion feedback now v =
     (if sc_poisoned (bsv_workers v) \<or> \<not> service_owns (sa_service scheduled) (sa_lease scheduled) v
         \<or> \<not> completion_belongs_to completion (sa_authentication scheduled)
      then ((Failure, []), v)
      else case co_finish_with_feedback completion feedback (bsv_coordinator v) of ((response, actions), c) \<Rightarrow>
        release_worker (sa_lease scheduled) now (response, actions) (Failure, actions)
          (v\<lparr>bsv_coordinator := c\<rparr>))"

definition service_finish_standard ::
  "scheduled_standard \<Rightarrow> standard_completion \<Rightarrow> nat \<Rightarrow> broker_service \<Rightarrow> fp_server_message \<times> broker_service" where
  "service_finish_standard scheduled completion now v =
     (if sc_poisoned (bsv_workers v) \<or> \<not> service_owns (ss_service scheduled) (ss_lease scheduled) v
         \<or> \<not> standard_completion_belongs_to completion (ss_operation scheduled)
      then (Terminal TError, v)
      else case co_finish_standard (ss_operation scheduled) completion (bsv_coordinator v) of (response, c) \<Rightarrow>
        release_worker (ss_lease scheduled) now response (Terminal TError) (v\<lparr>bsv_coordinator := c\<rparr>))"

definition service_abandon ::
  "scheduled_authentication \<Rightarrow> nat \<Rightarrow> broker_service \<Rightarrow> auth_response \<times> broker_service" where
  "service_abandon scheduled now v =
     (if \<not> service_owns (sa_service scheduled) (sa_lease scheduled) v then (Failure, v)
      else case co_abandon (sa_authentication scheduled) (bsv_coordinator v) of (response, c) \<Rightarrow>
        release_worker (sa_lease scheduled) now response Failure (v\<lparr>bsv_coordinator := c\<rparr>))"

definition service_abandon_standard ::
  "scheduled_standard \<Rightarrow> nat \<Rightarrow> broker_service \<Rightarrow> fp_server_message \<times> broker_service" where
  "service_abandon_standard scheduled now v =
     (if \<not> service_owns (ss_service scheduled) (ss_lease scheduled) v then (Terminal TError, v)
      else case co_abandon_standard (ss_operation scheduled) (bsv_coordinator v) of (response, c) \<Rightarrow>
        release_worker (ss_lease scheduled) now response (Terminal TError) (v\<lparr>bsv_coordinator := c\<rparr>))"

text \<open>
  Disconnection and an elapsed deadline of either kind of work, and the cancellation a client asks for on
  its own connection.
\<close>

definition service_client_disconnected ::
  "scheduled_authentication \<Rightarrow> broker_service \<Rightarrow> bool \<times> broker_service" where
  "service_client_disconnected scheduled v =
     (if \<not> service_owns (sa_service scheduled) (sa_lease scheduled) v then (False, v)
      else case co_client_disconnected (sa_authentication scheduled) (bsv_coordinator v) of (b, c) \<Rightarrow>
        (b, v\<lparr>bsv_coordinator := c\<rparr>))"

definition service_deadline_expired ::
  "scheduled_authentication \<Rightarrow> broker_service \<Rightarrow> bool \<times> broker_service" where
  "service_deadline_expired = service_client_disconnected"

definition service_cancel_standard :: "scheduled_standard \<Rightarrow> broker_service \<Rightarrow> bool \<times> broker_service" where
  "service_cancel_standard scheduled v =
     (if \<not> service_owns (ss_service scheduled) (ss_lease scheduled) v then (False, v)
      else case co_cancel_standard (ss_operation scheduled) (bsv_coordinator v) of (b, c) \<Rightarrow>
        (b, v\<lparr>bsv_coordinator := c\<rparr>))"

definition service_standard_disconnected :: "scheduled_standard \<Rightarrow> broker_service \<Rightarrow> bool \<times> broker_service" where
  "service_standard_disconnected scheduled v =
     (if \<not> service_owns (ss_service scheduled) (ss_lease scheduled) v then (False, v)
      else case co_standard_client_disconnected (ss_operation scheduled) (bsv_coordinator v) of (b, c) \<Rightarrow>
        (b, v\<lparr>bsv_coordinator := c\<rparr>))"

definition service_standard_deadline_expired :: "scheduled_standard \<Rightarrow> broker_service \<Rightarrow> bool \<times> broker_service" where
  "service_standard_deadline_expired = service_standard_disconnected"

definition service_decide :: "nat \<Rightarrow> bool \<Rightarrow> broker_service \<Rightarrow> lifecycle_decision \<times> broker_service" where
  "service_decide now listener_ready v =
     (case scheduler_decide now listener_ready (bsv_workers v) of (d, w) \<Rightarrow> (d, v\<lparr>bsv_workers := w\<rparr>))"

definition service_worker_lost :: "nat \<Rightarrow> u64 \<Rightarrow> broker_service \<Rightarrow> bool \<times> broker_service" where
  "service_worker_lost identity lease v =
     (if \<not> service_owns identity lease v then (False, v)
      else case scheduler_worker_lost lease (bsv_workers v) of (b, w) \<Rightarrow> (b, v\<lparr>bsv_workers := w\<rparr>))"

end
