(* ===== verification/Auth_Service_Correct.thy ===== *)
theory Auth_Service_Correct
  imports Auth_Scheduler
begin

section \<open>Correctness of the authentication service\<close>

text \<open>
  The service runs one operation at a time: its abstract machine has the broker's operation slot, a
  mark that the running operation's delivery of cancellations is closed, and a mark that the service
  is dying. Every operation of the service, called with any handle it has issued, is a run
  of that machine. The invariant behind it says that the broker's token, the cancellation
  slot and the worker's lease always belong to the same issued operation, and that the flag the worker
  polls is set exactly when the broker has recorded the cancellation.
\<close>

subsection \<open>Handles\<close>

datatype handle = HAuth scheduled_authentication | HStandard scheduled_standard

fun h_token :: "handle \<Rightarrow> u64" where
  "h_token (HAuth s) = op_token (aa_operation (sa_authentication s))"
| "h_token (HStandard s) = so_token (as_operation (ss_operation s))"

fun h_event :: "handle \<Rightarrow> nat" where
  "h_event (HAuth s) = aa_event (sa_authentication s)"
| "h_event (HStandard s) = as_event (ss_operation s)"

fun h_slot :: "handle \<Rightarrow> nat" where
  "h_slot (HAuth s) = aa_slot (sa_authentication s)"
| "h_slot (HStandard s) = as_slot (ss_operation s)"

fun h_lease :: "handle \<Rightarrow> u64" where
  "h_lease (HAuth s) = sa_lease s"
| "h_lease (HStandard s) = ss_lease s"

fun h_service :: "handle \<Rightarrow> nat" where
  "h_service (HAuth s) = sa_service s"
| "h_service (HStandard s) = ss_service s"

subsection \<open>What the operations do to the coordinator\<close>

definition co_started :: "u64 \<Rightarrow> coordinator \<Rightarrow> coordinator" where
  "co_started token c = c\<lparr>co_events := (co_events c)(co_next_event c := False),
     co_next_event := co_next_event c + 1,
     co_registration := Some \<lparr>reg_token = token, reg_event = co_next_event c\<rparr>\<rparr>"

definition co_release :: "u64 \<Rightarrow> nat \<Rightarrow> coordinator \<Rightarrow> coordinator" where
  "co_release token event c =
     (slot_clear token event c)\<lparr>co_state := snd (finish_token token (co_state c))\<rparr>"

lemma install_decision_start:
  "\<not> co_slot_poisoned c \<Longrightarrow> co_registration c = None \<Longrightarrow>
     install_decision (Start op) c =
       (SessionStart \<lparr>aa_operation = op, aa_event = co_next_event c, aa_slot = co_slot c\<rparr>,
        co_started (op_token op) c)"
  by (simp add: install_decision_def new_event_def slot_install_def co_started_def)

lemma install_standard_decision_start:
  "\<not> co_slot_poisoned c \<Longrightarrow> co_registration c = None \<Longrightarrow>
     install_standard_decision (StandardStart op) c =
       (StandardSessionStart \<lparr>as_operation = op, as_event = co_next_event c, as_slot = co_slot c\<rparr>,
        co_started (so_token op) c)"
  by (simp add: install_standard_decision_def new_event_def slot_install_def co_started_def)

lemma slot_clear_state [simp]: "co_state (slot_clear token event c) = co_state c"
  by (simp add: slot_clear_def)

lemma finish_operation_state [simp]: "snd (finish_operation token r s) = snd (finish_token token s)"
  by (auto simp: finish_operation_def split: prod.splits option.splits)

lemma finish_standard_state [simp]: "snd (finish_standard op r s) = snd (finish_token (so_token op) s)"
  by (auto simp: finish_standard_def split: prod.splits option.splits)

lemma co_finalize_release:
  "ac_slot completion = co_slot c \<Longrightarrow>
     snd (co_finalize completion c) = co_release (ac_token completion) (ac_event completion) c"
  using finish_operation_state [of "ac_token completion" "operation_result_of (ac_result completion)" "co_state c"]
  by (auto simp: co_finalize_def co_release_def Let_def split: prod.splits option.splits
      simp del: finish_operation_state)

lemma co_abandon_release:
  "aa_slot active = co_slot c \<Longrightarrow>
     snd (co_abandon active c) = co_release (op_token (aa_operation active)) (aa_event active) c"
  using finish_operation_state [of "op_token (aa_operation active)" ResultFailed "co_state c"]
  by (auto simp: co_abandon_def co_release_def Let_def split: prod.splits
      simp del: finish_operation_state)

lemma co_abandon_standard_release:
  "as_slot active = co_slot c \<Longrightarrow>
     snd (co_abandon_standard active c) = co_release (so_token (as_operation active)) (as_event active) c"
  using finish_standard_state [of "as_operation active" "Terminal TError" "co_state c"]
  by (auto simp: co_abandon_standard_def co_release_def Let_def split: prod.splits
      simp del: finish_standard_state)

lemma co_finish_standard_release:
  "as_slot active = co_slot c \<Longrightarrow> standard_completion_belongs_to completion active \<Longrightarrow>
     snd (co_finish_standard active completion c) = co_release (so_token (as_operation active)) (as_event active) c"
  using finish_standard_state [of "as_operation active" "sc_result completion" "co_state c"]
  by (auto simp: co_finish_standard_def co_release_def Let_def split: prod.splits
      simp del: finish_standard_state)

subsection \<open>The invariant\<close>

definition handle_issued :: "broker_service \<Rightarrow> handle \<Rightarrow> bool" where
  "handle_issued v h \<longleftrightarrow> h_slot h = co_slot (bsv_coordinator v) \<and> h_service h = bsv_identity v
     \<and> h_event h < co_next_event (bsv_coordinator v)
     \<and> unat (h_token h) < next_count (bs_next_token (co_state (bsv_coordinator v)))
     \<and> unat (h_lease h) < next_count (sc_next_lease (bsv_workers v))"

text \<open>The running operation is the one of a handle: token, flag, delivery slot and lease agree.\<close>

definition running :: "broker_service \<Rightarrow> active_operation \<Rightarrow> handle \<Rightarrow> bool" where
  "running v a h \<longleftrightarrow> h_token h = ao_token a
     \<and> (\<exists>b. sc_active (bsv_workers v) = Some b \<and> aw_lease b = h_lease h)
     \<and> co_events (bsv_coordinator v) (h_event h) = ao_cancelled a
     \<and> co_registration (bsv_coordinator v) \<in> {None, Some \<lparr>reg_token = h_token h, reg_event = h_event h\<rparr>}"

definition session_inv :: "broker_service \<Rightarrow> handle list \<Rightarrow> bool" where
  "session_inv v hs \<longleftrightarrow>
     \<not> co_slot_poisoned (bsv_coordinator v) \<and> list_all (handle_issued v) hs
     \<and> distinct (map h_token hs) \<and> distinct (map h_event hs) \<and> distinct (map h_lease hs)
     \<and> (case bs_active (co_state (bsv_coordinator v)) of
          None \<Rightarrow> sc_active (bsv_workers v) = None \<and> co_registration (bsv_coordinator v) = None
        | Some a \<Rightarrow> \<exists>h \<in> set hs. running v a h)"

lemma session_inv_idle:
  "session_inv v hs \<Longrightarrow> bs_active (co_state (bsv_coordinator v)) = None \<Longrightarrow>
     sc_active (bsv_workers v) = None \<and> co_registration (bsv_coordinator v) = None
     \<and> \<not> co_slot_poisoned (bsv_coordinator v)"
  by (simp add: session_inv_def)

lemma session_inv_worker:
  "session_inv v hs \<Longrightarrow> sc_active (bsv_workers v) = None \<longleftrightarrow> bs_active (co_state (bsv_coordinator v)) = None"
  by (auto simp: session_inv_def running_def split: option.splits)

lemma session_inv_issued: "session_inv v hs \<Longrightarrow> h \<in> set hs \<Longrightarrow> handle_issued v h"
  by (simp add: session_inv_def list_all_iff)

text \<open>A handle that owns the lease is the one of the running operation.\<close>

lemma session_inv_owner:
  assumes "session_inv v hs" and "h \<in> set hs" and "service_owns (h_service h) (h_lease h) v"
  obtains a where "bs_active (co_state (bsv_coordinator v)) = Some a" and "running v a h"
proof -
  from assms(3) obtain b where b: "sc_active (bsv_workers v) = Some b" "aw_lease b = h_lease h"
    by (auto simp: service_owns_def owns_lease_def split: option.splits)
  with assms(1) obtain a where a: "bs_active (co_state (bsv_coordinator v)) = Some a"
    using session_inv_worker [OF assms(1)] by auto
  with assms(1) obtain g where g: "g \<in> set hs" "running v a g" by (auto simp: session_inv_def)
  with b have "h_lease g = h_lease h" by (simp add: running_def)
  with assms g have "g = h"
    by (auto simp: session_inv_def distinct_map dest: inj_onD)
  with a g show ?thesis using that by simp
qed

subsection \<open>The invariant is kept\<close>

text \<open>The coordinator of a started token, with the broker's state after \<open>start_token\<close>.\<close>

definition begin_token :: "coordinator \<Rightarrow> coordinator" where
  "begin_token c = co_started (bs_next_token (co_state c)) (c\<lparr>co_state := snd (start_token (co_state c))\<rparr>)"

lemma session_inv_start:
  assumes "session_inv v hs" and idle: "bs_active (co_state (bsv_coordinator v)) = None"
    and "bs_next_token (co_state (bsv_coordinator v)) \<noteq> 0"
    and admit: "admit_with_timeout now timeout (bsv_workers v) = (WorkerStart (h_lease h) deadline, w)"
    and h: "h_token h = bs_next_token (co_state (bsv_coordinator v))"
      "h_event h = co_next_event (bsv_coordinator v)" "h_slot h = co_slot (bsv_coordinator v)"
      "h_service h = bsv_identity v"
  shows "session_inv (v\<lparr>bsv_coordinator := begin_token (bsv_coordinator v), bsv_workers := w\<rparr>) (hs @ [h])"
proof -
  let ?c = "bsv_coordinator v" and ?v = "v\<lparr>bsv_coordinator := begin_token (bsv_coordinator v), bsv_workers := w\<rparr>"
  let ?t = "bs_next_token (co_state ?c)"
  from admit have lease: "h_lease h = sc_next_lease (bsv_workers v)" "sc_next_lease (bsv_workers v) \<noteq> 0"
    and w: "sc_next_lease w = checked_next_token (h_lease h)"
      "sc_active w = Some \<lparr>aw_lease = h_lease h, aw_deadline = deadline, aw_cancellation_sent = False\<rparr>"
    by (auto simp: admit_with_timeout_def split: if_splits option.splits)
  have state: "bs_active (co_state (begin_token ?c)) = Some \<lparr>ao_token = ?t, ao_cancelled = False\<rparr>"
    "bs_next_token (co_state (begin_token ?c)) = checked_next_token ?t"
    "co_next_event (begin_token ?c) = co_next_event ?c + 1" "co_slot (begin_token ?c) = co_slot ?c"
    "co_slot_poisoned (begin_token ?c) = co_slot_poisoned ?c"
    "co_registration (begin_token ?c) = Some \<lparr>reg_token = ?t, reg_event = co_next_event ?c\<rparr>"
    "\<not> co_events (begin_token ?c) (co_next_event ?c)"
    using assms(2,3) by (auto simp: begin_token_def co_started_def start_token_def)
  have counts: "next_count ?t = unat ?t" "next_count (checked_next_token ?t) = unat ?t + 1"
    "next_count (h_lease h) = unat (h_lease h)" "next_count (sc_next_lease w) = unat (h_lease h) + 1"
    using assms(3) lease by (simp_all add: next_count_step w(1)) (simp_all add: next_count_def)
  have old: "handle_issued ?v g \<and> h_token g \<noteq> h_token h \<and> h_event g \<noteq> h_event h \<and> h_lease g \<noteq> h_lease h"
    if "g \<in> set hs" for g
  proof -
    from session_inv_issued [OF assms(1) that] have "unat (h_token g) < unat ?t" "unat (h_lease g) < unat (h_lease h)"
      "h_event g < co_next_event ?c" "h_slot g = co_slot ?c" "h_service g = bsv_identity v"
      by (simp_all add: handle_issued_def counts(1,3) lease(1) [symmetric])
    then show ?thesis using h(1,2) by (auto simp: handle_issued_def state counts)
  qed
  moreover have "handle_issued ?v h" using h by (simp add: handle_issued_def state counts)
  moreover have "running ?v \<lparr>ao_token = ?t, ao_cancelled = False\<rparr> h" using h by (simp add: running_def state w)
  ultimately have "list_all (handle_issued ?v) (hs @ [h])" "h_token h \<notin> h_token ` set hs"
    "h_event h \<notin> h_event ` set hs" "h_lease h \<notin> h_lease ` set hs"
    "\<exists>g \<in> set (hs @ [h]). running ?v \<lparr>ao_token = ?t, ao_cancelled = False\<rparr> g"
    by (auto simp: list_all_iff) blast+
  then show ?thesis using assms(1) by (simp add: session_inv_def state)
qed

lemma session_inv_coordinator:
  assumes "session_inv v hs"
    and "co_slot c = co_slot (bsv_coordinator v)" "co_next_event c = co_next_event (bsv_coordinator v)"
    and "co_slot_poisoned c = co_slot_poisoned (bsv_coordinator v)"
    and "bs_next_token (co_state c) = bs_next_token (co_state (bsv_coordinator v))"
    and "sc_next_lease w = sc_next_lease (bsv_workers v)"
    and "case bs_active (co_state c) of
        None \<Rightarrow> sc_active w = None \<and> co_registration c = None
      | Some a \<Rightarrow> \<exists>h \<in> set hs. running (v\<lparr>bsv_coordinator := c, bsv_workers := w\<rparr>) a h"
  shows "session_inv (v\<lparr>bsv_coordinator := c, bsv_workers := w\<rparr>) hs"
  using assms by (auto simp: session_inv_def handle_issued_def list_all_iff split: option.splits)

lemma service_update_same [simp]:
  "v\<lparr>bsv_coordinator := c, bsv_workers := bsv_workers v\<rparr> = v\<lparr>bsv_coordinator := c\<rparr>"
  "v\<lparr>bsv_coordinator := bsv_coordinator v, bsv_workers := w\<rparr> = v\<lparr>bsv_workers := w\<rparr>"
  by simp_all

lemma session_inv_cancel:
  assumes "session_inv v hs" and a: "bs_active (co_state (bsv_coordinator v)) = Some a"
    and "co_registration (bsv_coordinator v) \<noteq> None"
  shows "session_inv (v\<lparr>bsv_coordinator := (deliver_event (bsv_coordinator v))
      \<lparr>co_state := (co_state (bsv_coordinator v))\<lparr>bs_active := Some (a\<lparr>ao_cancelled := True\<rparr>)\<rparr>\<rparr>\<rparr>) hs"
proof -
  from assms obtain h where h: "h \<in> set hs" "running v a h"
    "co_registration (bsv_coordinator v) = Some \<lparr>reg_token = h_token h, reg_event = h_event h\<rparr>"
    by (auto simp: session_inv_def running_def)
  let ?c = "(deliver_event (bsv_coordinator v))
      \<lparr>co_state := (co_state (bsv_coordinator v))\<lparr>bs_active := Some (a\<lparr>ao_cancelled := True\<rparr>)\<rparr>\<rparr>"
  from h have "running (v\<lparr>bsv_coordinator := ?c\<rparr>) (a\<lparr>ao_cancelled := True\<rparr>) h"
    by (auto simp: running_def deliver_event_def)
  with h(1) show ?thesis
    using session_inv_coordinator [OF assms(1), of ?c "bsv_workers v"] by (auto simp: deliver_event_def h(3))
qed

lemma session_inv_release:
  assumes "session_inv v hs" and "bs_active (co_state (bsv_coordinator v)) = Some a" and "running v a h"
  shows "session_inv (v\<lparr>bsv_coordinator := co_release (h_token h) (h_event h) (bsv_coordinator v),
      bsv_workers := (bsv_workers v)\<lparr>sc_active := None, sc_idle_since := now\<rparr>\<rparr>) hs"
  using assms
  by (intro session_inv_coordinator) (auto simp: co_release_def slot_clear_def finish_token_def running_def
      registered_def session_inv_def)

lemma session_inv_close:
  assumes "session_inv v hs" and "slot_close token event (bsv_coordinator v) = (b, c)"
  shows "session_inv (v\<lparr>bsv_coordinator := c\<rparr>) hs"
proof (cases "co_slot_poisoned (bsv_coordinator v) \<or> \<not> registered token event (bsv_coordinator v)")
  case True
  with assms show ?thesis by (auto simp: slot_close_def)
next
  case False
  with assms(2) have c: "c = (bsv_coordinator v)\<lparr>co_registration := None\<rparr>" by (simp add: slot_close_def)
  show ?thesis
    using session_inv_coordinator [OF assms(1), of c "bsv_workers v"] assms(1)
    by (auto simp: c session_inv_def running_def split: option.splits)
qed

lemma session_inv_workers:
  assumes "session_inv v hs" and "sc_next_lease w = sc_next_lease (bsv_workers v)"
    and "map_option aw_lease (sc_active w) = map_option aw_lease (sc_active (bsv_workers v))"
  shows "session_inv (v\<lparr>bsv_workers := w\<rparr>) hs"
  using session_inv_coordinator [OF assms(1), of "bsv_coordinator v" w] assms
  by (fastforce simp: session_inv_def running_def split: option.splits)

subsection \<open>Outcomes of a broker call\<close>

definition broker_outcome :: "(u64 \<Rightarrow> bool) \<Rightarrow> broker_state \<Rightarrow> broker_decision \<times> broker_state \<Rightarrow> bool" where
  "broker_outcome deliver s r \<longleftrightarrow>
     (case r of
        (Start op, s') \<Rightarrow> bs_active s = None \<and> bs_next_token s \<noteq> 0 \<and> op_token op = bs_next_token s
          \<and> s' = snd (start_token s)
      | (Reply response, s') \<Rightarrow>
          if response = Okay
          then \<exists>a. bs_active s = Some a \<and> deliver (ao_token a)
                 \<and> s' = s\<lparr>bs_active := Some (a\<lparr>ao_cancelled := True\<rparr>)\<rparr>
          else s' = s)"

lemma start_operation_broker_outcome: "broker_outcome deliver s (start_operation user p candidate s)"
  by (auto simp: broker_outcome_def start_operation_def start_token_def)

lemma cancel_for_root_broker_outcome: "broker_outcome deliver s (cancel_for_root peer deliver s)"
  by (auto simp: broker_outcome_def cancel_for_root_def cancel_token_def split: option.splits)

lemma handle_packet_broker_outcome:
  "broker_outcome deliver s (handle_packet_with_cancellation peer policy packet deliver s)"
  using start_operation_broker_outcome cancel_for_root_broker_outcome
  by (auto simp: handle_packet_with_cancellation_def broker_outcome_def [of deliver s "(Reply Denied, s)"]
      split: option.splits sum.splits auth_request.splits)

lemma enroll_broker_outcome: "broker_outcome deliver s (enroll_without_owner peer s)"
  using start_operation_broker_outcome
  by (auto simp: enroll_without_owner_def broker_outcome_def [of deliver s "(Reply Denied, s)"]
      split: option.splits)

text \<open>The session of a broker call, on a coordinator that satisfies the service's invariant.\<close>

definition session_outcome :: "coordinator \<Rightarrow> session_decision \<times> coordinator \<Rightarrow> bool" where
  "session_outcome c r \<longleftrightarrow>
     (case r of
        (SessionStart active, c') \<Rightarrow> bs_active (co_state c) = None \<and> bs_next_token (co_state c) \<noteq> 0
          \<and> op_token (aa_operation active) = bs_next_token (co_state c) \<and> aa_event active = co_next_event c
          \<and> aa_slot active = co_slot c \<and> c' = begin_token c
      | (SessionReply response, c') \<Rightarrow>
          if response = Okay
          then co_registration c \<noteq> None \<and> (\<exists>a. bs_active (co_state c) = Some a
                 \<and> c' = (deliver_event c)\<lparr>co_state := (co_state c)\<lparr>bs_active := Some (a\<lparr>ao_cancelled := True\<rparr>)\<rparr>\<rparr>)
          else c' = c)"

lemma coordinator_state_same [simp]: "c\<lparr>co_state := co_state c\<rparr> = c"
  by simp

lemma install_outcome:
  assumes "broker_outcome (slot_delivers c) (co_state c) (d, st)"
    and "bs_active (co_state c) = None \<longrightarrow> co_registration c = None \<and> \<not> co_slot_poisoned c"
  shows "session_outcome c (install_decision d ((if d = Reply Okay then deliver_event c else c)\<lparr>co_state := st\<rparr>))"
proof (cases d)
  case (Start op)
  then show ?thesis using assms
    by (simp add: broker_outcome_def install_decision_start session_outcome_def begin_token_def)
next
  case (Reply response)
  then show ?thesis using assms
    by (auto simp: broker_outcome_def install_decision_def session_outcome_def slot_delivers_def split: option.splits)
qed

lemma co_dispatch_outcome:
  assumes "bs_active (co_state c) = None \<longrightarrow> co_registration c = None \<and> \<not> co_slot_poisoned c"
  shows "session_outcome c (co_dispatch peer policy packet c)"
proof -
  obtain d st where call: "handle_packet_with_cancellation peer policy packet (slot_delivers c) (co_state c) = (d, st)"
    by (cases "handle_packet_with_cancellation peer policy packet (slot_delivers c) (co_state c)")
  have "broker_outcome (slot_delivers c) (co_state c) (d, st)"
    using handle_packet_broker_outcome [of "slot_delivers c" "co_state c" peer policy packet] call by simp
  from install_outcome [OF this assms] call show ?thesis by (simp add: co_dispatch_def Let_def)
qed

lemma co_enroll_outcome:
  assumes "bs_active (co_state c) = None \<longrightarrow> co_registration c = None \<and> \<not> co_slot_poisoned c"
  shows "session_outcome c (co_enroll_without_owner peer c)"
proof -
  obtain d st where call: "enroll_without_owner peer (co_state c) = (d, st)"
    by (cases "enroll_without_owner peer (co_state c)")
  moreover from call have "d \<noteq> Reply Okay"
    by (auto simp: enroll_without_owner_def start_operation_def start_token_def split: if_splits option.splits)
  moreover have "broker_outcome (slot_delivers c) (co_state c) (d, st)"
    using enroll_broker_outcome [of "slot_delivers c" "co_state c" peer] call by simp
  ultimately show ?thesis using install_outcome [OF _ assms, of d st] by (simp add: co_enroll_without_owner_def)
qed

lemma co_cancel_without_owner_outcome:
  assumes "co_cancel_without_owner peer c = (r, c')"
  shows "session_outcome c (SessionReply r, c')"
proof -
  obtain d st where call: "cancel_for_root peer (slot_delivers c) (co_state c) = (d, st)"
    by (cases "cancel_for_root peer (slot_delivers c) (co_state c)")
  from cancel_for_root_outcome [OF call] obtain response where d: "d = Reply response" by auto
  with assms call have r: "r = response" "c' = (if r = Okay then deliver_event c else c)\<lparr>co_state := st\<rparr>"
    by (auto simp: co_cancel_without_owner_def cancel_without_owner_def)
  have "broker_outcome (slot_delivers c) (co_state c) (Reply r, st)"
    using cancel_for_root_broker_outcome [of "slot_delivers c" "co_state c" peer] call d r by simp
  then show ?thesis unfolding r(2)
    by (auto simp: broker_outcome_def session_outcome_def slot_delivers_def split: option.splits)
qed

lemma co_cancel_token_outcome:
  "co_cancel_token slot token c = (b, c') \<Longrightarrow> session_outcome c (SessionReply (if b then Okay else Denied), c')"
  by (auto simp: co_cancel_token_def cancel_token_def session_outcome_def slot_delivers_def
      split: if_splits option.splits)

definition standard_outcome :: "coordinator \<Rightarrow> standard_session_decision \<times> coordinator \<Rightarrow> bool" where
  "standard_outcome c r \<longleftrightarrow>
     (case r of
        (StandardSessionStart active, c') \<Rightarrow> bs_active (co_state c) = None \<and> bs_next_token (co_state c) \<noteq> 0
          \<and> so_token (as_operation active) = bs_next_token (co_state c) \<and> as_event active = co_next_event c
          \<and> as_slot active = co_slot c \<and> c' = begin_token c
      | (StandardSessionReply m, c') \<Rightarrow> c' = c)"

lemma started_standard_state:
  "dispatch_standard peer recorded_owner operation s = (StandardStart op, s') \<Longrightarrow> s' = snd (start_token s)"
  by (auto simp: dispatch_standard_def standard_reply_def split: option.splits if_splits
      token_admission.splits prod.splits)

lemma co_dispatch_standard_outcome:
  assumes "bs_active (co_state c) = None \<longrightarrow> co_registration c = None \<and> \<not> co_slot_poisoned c"
  shows "standard_outcome c (co_dispatch_standard peer recorded_owner operation c)"
proof -
  obtain d st where call: "dispatch_standard peer recorded_owner operation (co_state c) = (d, st)"
    by (cases "dispatch_standard peer recorded_owner operation (co_state c)")
  show ?thesis
  proof (cases d)
    case (StandardStart op)
    note outcome = dispatch_standard_outcome [OF call] started_standard_fields [OF call [unfolded StandardStart]]
      started_standard_state [OF call [unfolded StandardStart]]
    with assms call StandardStart show ?thesis
      by (simp add: co_dispatch_standard_def install_standard_decision_start standard_outcome_def begin_token_def)
  next
    case (StandardReply m)
    with dispatch_standard_outcome [OF call] call show ?thesis
      by (simp add: co_dispatch_standard_def install_standard_decision_def standard_outcome_def)
  qed
qed

subsection \<open>The abstract service\<close>

datatype service_event = SlotEvent broker_event | Cutoff nat | Died

type_synonym service_spec = "slot \<times> bool \<times> bool"

inductive service_step :: "service_spec \<Rightarrow> service_event \<Rightarrow> service_spec \<Rightarrow> bool" where
  sv_start: "slot_step l (Started t) l' \<Longrightarrow>
    service_step (l, closed, False) (SlotEvent (Started t)) (l', False, False)"
| sv_cancel: "slot_step l (CancelRecorded t) l' \<Longrightarrow>
    service_step (l, False, dead) (SlotEvent (CancelRecorded t)) (l', False, dead)"
| sv_complete: "slot_step l (Completed t r) l' \<Longrightarrow>
    service_step (l, closed, dead) (SlotEvent (Completed t r)) (l', False, dead)"
| sv_release: "slot_step l (Released t c) l' \<Longrightarrow>
    service_step (l, closed, dead) (SlotEvent (Released t c)) (l', False, dead)"
| sv_cutoff: "service_step ((n, Some (t, False)), False, dead) (Cutoff t) ((n, Some (t, False)), True, dead)"
| sv_died: "service_step (l, closed, dead) Died (l, closed, True)"

definition service_spec_of :: "broker_service \<times> handle list \<Rightarrow> service_spec" where
  "service_spec_of s = (case s of (v, hs) \<Rightarrow>
     (slot_of (co_state (bsv_coordinator v)),
      (\<exists>a. bs_active (co_state (bsv_coordinator v)) = Some a \<and> \<not> ao_cancelled a
         \<and> co_registration (bsv_coordinator v) = None),
      sc_poisoned (bsv_workers v)))"

lemma spec_start:
  assumes "bs_active (co_state (bsv_coordinator v)) = None"
    and "bs_next_token (co_state (bsv_coordinator v)) \<noteq> 0"
    and "\<not> sc_poisoned (bsv_workers v)" and "\<not> sc_poisoned w"
  shows "service_step (service_spec_of (v, hs)) (SlotEvent (Started (unat (bs_next_token (co_state (bsv_coordinator v))))))
    (service_spec_of (v\<lparr>bsv_coordinator := begin_token (bsv_coordinator v), bsv_workers := w\<rparr>, hs'))"
proof -
  have "co_state (begin_token (bsv_coordinator v)) = snd (start_token (co_state (bsv_coordinator v)))"
    "co_registration (begin_token (bsv_coordinator v)) \<noteq> None"
    by (simp_all add: begin_token_def co_started_def)
  then show ?thesis using slot_of_start [OF assms(1,2)] assms
    by (auto simp: service_spec_of_def start_token_def intro: service_step.intros)
qed

lemma spec_cancel:
  assumes "session_inv v hs" and "bs_active (co_state (bsv_coordinator v)) = Some a"
    and "co_registration (bsv_coordinator v) \<noteq> None"
  shows "service_step (service_spec_of (v, hs)) (SlotEvent (CancelRecorded (unat (ao_token a))))
    (service_spec_of (v\<lparr>bsv_coordinator := (deliver_event (bsv_coordinator v))
      \<lparr>co_state := (co_state (bsv_coordinator v))\<lparr>bs_active := Some (a\<lparr>ao_cancelled := True\<rparr>)\<rparr>\<rparr>\<rparr>, hs))"
  using assms slot_step.cancel_recorded
  by (auto simp: service_spec_of_def slot_of_def deliver_event_def intro!: sv_cancel)

definition ends_with :: "broker_event \<Rightarrow> active_operation \<Rightarrow> bool" where
  "ends_with e a \<longleftrightarrow> (\<exists>r. e = Completed (unat (ao_token a)) r \<and> (r = Okay \<longrightarrow> \<not> ao_cancelled a))
     \<or> e = Released (unat (ao_token a)) (ao_cancelled a)"

lemma spec_release:
  assumes "bs_active (co_state (bsv_coordinator v)) = Some a" and "ao_token a = token"
    and "ends_with e a" and "sc_poisoned w = sc_poisoned (bsv_workers v)"
  shows "service_step (service_spec_of (v, hs)) (SlotEvent e)
    (service_spec_of (v\<lparr>bsv_coordinator := co_release token event (bsv_coordinator v), bsv_workers := w\<rparr>, hs))"
proof -
  have state: "co_state (co_release token event (bsv_coordinator v)) =
      (co_state (bsv_coordinator v))\<lparr>bs_active := None\<rparr>"
    using assms(1,2) by (simp add: co_release_def finish_token_def)
  have "slot_step (slot_of (co_state (bsv_coordinator v))) e
      (slot_of ((co_state (bsv_coordinator v))\<lparr>bs_active := None\<rparr>))"
    using assms(1,3) by (auto simp: slot_of_def ends_with_def intro: slot_step.intros)
  with assms state show ?thesis
    by (auto simp: service_spec_of_def ends_with_def intro: service_step.intros)
qed

lemma spec_close:
  assumes "session_inv v hs" and "h \<in> set hs"
    and close: "slot_close (h_token h) (h_event h) (bsv_coordinator v) = (b, c)"
  shows "labelled_run service_step (service_spec_of (v, hs)) (if b then [Cutoff (unat (h_token h))] else [])
    (service_spec_of (v\<lparr>bsv_coordinator := c\<rparr>, hs))"
proof (cases "registered (h_token h) (h_event h) (bsv_coordinator v)")
  case False
  with close show ?thesis by (auto simp: slot_close_def)
next
  case True
  with assms(1) obtain a g where a: "bs_active (co_state (bsv_coordinator v)) = Some a"
    and g: "g \<in> set hs" "running v a g"
    by (auto simp: session_inv_def registered_def split: option.splits)
  with True have same: "h_token g = h_token h" "h_event g = h_event h" "ao_token a = h_token h"
    by (auto simp: running_def registered_def)
  from assms(1) True close have b: "b \<longleftrightarrow> \<not> co_events (bsv_coordinator v) (h_event h)"
    and c: "c = (bsv_coordinator v)\<lparr>co_registration := None\<rparr>"
    by (auto simp: slot_close_def session_inv_def)
  have "b \<longleftrightarrow> \<not> ao_cancelled a" using g(2) same b by (simp add: running_def)
  then show ?thesis using a same True sv_cutoff
    by (auto simp: service_spec_of_def slot_of_def c registered_def)
qed

subsection \<open>Sequences of service operations\<close>

text \<open>
  The operations of the service and of its workers, in any order. A handle is named by its position in
  the list of the handles issued so far, and a completion is one that a worker made
  from such a handle.
\<close>

datatype service_op =
    SvDispatch peer_metadata access_policy bytes nat
  | SvEnrollWithoutOwner peer_metadata nat
  | SvDispatchStandard peer_metadata "access_policy option" resolved_operation nat
  | SvCancelWithoutOwner peer_metadata
  | SvFinish nat nat "session_failure + match_outcome" nat
  | SvFinishWithFeedback nat nat "session_failure + match_outcome" "(feedback_action \<Rightarrow> bool) option" nat
  | SvFinishStandard nat nat fp_server_message nat
  | SvAbandon nat nat
  | SvDisconnected nat
  | SvCancelStandard nat
  | SvClose nat
  | SvDecide nat bool
  | SvWorkerLost nat

fun dispatch_events ::
  "broker_service \<times> handle list \<Rightarrow> scheduled_dispatch \<times> broker_service \<Rightarrow> service_event list \<times> broker_service \<times> handle list" where
  "dispatch_events (v, hs) (DispatchStart s, v') =
     ([SlotEvent (Started (unat (h_token (HAuth s))))], v', hs @ [HAuth s])"
| "dispatch_events (v, hs) (DispatchReply r, v') =
     (if r = Okay then map SlotEvent (recorded (co_state (bsv_coordinator v'))) else [], v', hs)"
| "dispatch_events (v, hs) (DispatchTerminate, v') =
     (if sc_poisoned (bsv_workers v) then []
      else let t = unat (bs_next_token (co_state (bsv_coordinator v))) in
        [SlotEvent (Started t), SlotEvent (Completed t Failure), Died], v', hs)"

fun standard_dispatch_events ::
  "broker_service \<times> handle list \<Rightarrow> scheduled_standard_dispatch \<times> broker_service \<Rightarrow> service_event list \<times> broker_service \<times> handle list" where
  "standard_dispatch_events (v, hs) (StandardDispatchStart s, v') =
     ([SlotEvent (Started (unat (h_token (HStandard s))))], v', hs @ [HStandard s])"
| "standard_dispatch_events (v, hs) (StandardDispatchReply r, v') = ([], v', hs)"
| "standard_dispatch_events (v, hs) (StandardDispatchTerminate, v') =
     (if sc_poisoned (bsv_workers v) then []
      else let t = unat (bs_next_token (co_state (bsv_coordinator v))) in
        [SlotEvent (Started t), SlotEvent (Released t False), Died], v', hs)"

text \<open>The event of an operation that ended, read off the broker's state before and after.\<close>

definition ended ::
  "(active_operation \<Rightarrow> broker_event) \<Rightarrow> broker_service \<times> handle list \<Rightarrow> broker_service \<Rightarrow> service_event list \<times> broker_service \<times> handle list" where
  "ended e s v' = (case s of (v, hs) \<Rightarrow>
     (case (bs_active (co_state (bsv_coordinator v)), bs_active (co_state (bsv_coordinator v'))) of
        (Some a, None) \<Rightarrow> [SlotEvent (e a)] | _ \<Rightarrow> [], v', hs))"

definition cancelled_events ::
  "broker_service \<times> handle list \<Rightarrow> bool \<times> broker_service \<Rightarrow> service_event list \<times> broker_service \<times> handle list" where
  "cancelled_events s r = (case r of (b, v') \<Rightarrow>
     (if b then map SlotEvent (recorded (co_state (bsv_coordinator v'))) else [], v', snd s))"

definition lookup :: "handle list \<Rightarrow> nat \<Rightarrow> handle option" where
  "lookup hs i = (if i < length hs then Some (hs ! i) else None)"

definition released :: "active_operation \<Rightarrow> broker_event" where
  "released a = Released (unat (ao_token a)) (ao_cancelled a)"

fun service_exec ::
  "service_op \<Rightarrow> broker_service \<times> handle list \<Rightarrow> service_event list \<times> broker_service \<times> handle list" where
  "service_exec (SvDispatch peer policy packet now) (v, hs) =
     dispatch_events (v, hs) (service_dispatch peer policy packet now v)"
| "service_exec (SvEnrollWithoutOwner peer now) (v, hs) =
     dispatch_events (v, hs) (service_enroll_without_owner peer now v)"
| "service_exec (SvDispatchStandard peer recorded_owner operation now) (v, hs) =
     standard_dispatch_events (v, hs) (service_dispatch_standard peer recorded_owner operation now v)"
| "service_exec (SvCancelWithoutOwner peer) (v, hs) =
     dispatch_events (v, hs) (service_cancel_without_owner peer v)"
| "service_exec (SvFinish i j result now) (v, hs) =
     (case (lookup hs i, lookup hs j) of
        (Some (HAuth s), Some (HAuth t)) \<Rightarrow>
          (case service_finish s (completion_new (sa_authentication t) result) now v of (r, v') \<Rightarrow>
             ended (\<lambda>a. Completed (unat (ao_token a)) r) (v, hs) v')
      | _ \<Rightarrow> ([], v, hs))"
| "service_exec (SvFinishWithFeedback i j result feedback now) (v, hs) =
     (case (lookup hs i, lookup hs j) of
        (Some (HAuth s), Some (HAuth t)) \<Rightarrow>
          (case service_finish_with_feedback s (completion_new (sa_authentication t) result) feedback now v of
             ((r, actions), v') \<Rightarrow> ended (\<lambda>a. Completed (unat (ao_token a)) r) (v, hs) v')
      | _ \<Rightarrow> ([], v, hs))"
| "service_exec (SvFinishStandard i j result now) (v, hs) =
     (case (lookup hs i, lookup hs j) of
        (Some (HStandard s), Some (HStandard t)) \<Rightarrow>
          (case service_finish_standard s (standard_completion_new (ss_operation t) result) now v of (r, v') \<Rightarrow>
             ended released (v, hs) v')
      | _ \<Rightarrow> ([], v, hs))"
| "service_exec (SvAbandon i now) (v, hs) =
     (case lookup hs i of
        Some (HAuth s) \<Rightarrow>
          (case service_abandon s now v of (r, v') \<Rightarrow> ended (\<lambda>a. Completed (unat (ao_token a)) r) (v, hs) v')
      | Some (HStandard s) \<Rightarrow>
          (case service_abandon_standard s now v of (r, v') \<Rightarrow> ended released (v, hs) v')
      | None \<Rightarrow> ([], v, hs))"
| "service_exec (SvDisconnected i) (v, hs) =
     (case lookup hs i of
        Some (HAuth s) \<Rightarrow> cancelled_events (v, hs) (service_client_disconnected s v)
      | Some (HStandard s) \<Rightarrow> cancelled_events (v, hs) (service_standard_disconnected s v)
      | None \<Rightarrow> ([], v, hs))"
| "service_exec (SvCancelStandard i) (v, hs) =
     (case lookup hs i of
        Some (HStandard s) \<Rightarrow> cancelled_events (v, hs) (service_cancel_standard s v)
      | _ \<Rightarrow> ([], v, hs))"
| "service_exec (SvClose i) (v, hs) =
     (case lookup hs i of
        Some (HAuth s) \<Rightarrow>
          (case close_cancellation (sa_authentication s) (bsv_coordinator v) of (b, c) \<Rightarrow>
             (if b then [Cutoff (unat (h_token (HAuth s)))] else [], v\<lparr>bsv_coordinator := c\<rparr>, hs))
      | Some (HStandard s) \<Rightarrow>
          (case close_standard_cancellation (ss_operation s) (bsv_coordinator v) of (b, c) \<Rightarrow>
             (if b then [Cutoff (unat (h_token (HStandard s)))] else [], v\<lparr>bsv_coordinator := c\<rparr>, hs))
      | None \<Rightarrow> ([], v, hs))"
| "service_exec (SvDecide now ready) (v, hs) = ([], snd (service_decide now ready v), hs)"
| "service_exec (SvWorkerLost i) (v, hs) =
     (case lookup hs i of
        Some h \<Rightarrow>
          (case service_worker_lost (h_service h) (h_lease h) v of (b, v') \<Rightarrow> (if b then [Died] else [], v', hs))
      | None \<Rightarrow> ([], v, hs))"

definition run_ok :: "broker_service \<times> handle list \<Rightarrow> service_event list \<times> broker_service \<times> handle list \<Rightarrow> bool" where
  "run_ok s r \<longleftrightarrow> (case r of (es, s') \<Rightarrow>
     (case s' of (v', hs') \<Rightarrow> session_inv v' hs')
     \<and> labelled_run service_step (service_spec_of s) es (service_spec_of s'))"

lemma lookup_set: "lookup hs i = Some h \<Longrightarrow> h \<in> set hs"
  by (auto simp: lookup_def split: if_splits)

lemma run_ok_same: "session_inv v hs \<Longrightarrow> run_ok (v, hs) ([], v, hs)"
  by (simp add: run_ok_def)

text \<open>A cancellation that the coordinator recorded.\<close>

lemma run_ok_cancel:
  assumes inv: "session_inv v hs" and out: "session_outcome (bsv_coordinator v) (SessionReply r, c)"
  shows "run_ok (v, hs) (if r = Okay then map SlotEvent (recorded (co_state c)) else [],
    v\<lparr>bsv_coordinator := c\<rparr>, hs)"
proof (cases "r = Okay")
  case True
  with out obtain a where a: "bs_active (co_state (bsv_coordinator v)) = Some a"
    "co_registration (bsv_coordinator v) \<noteq> None"
    and c: "c = (deliver_event (bsv_coordinator v))\<lparr>co_state := (co_state (bsv_coordinator v))\<lparr>bs_active := Some (a\<lparr>ao_cancelled := True\<rparr>)\<rparr>\<rparr>"
    by (auto simp: session_outcome_def)
  show ?thesis
    using True session_inv_cancel [OF inv a(1) a(2)] spec_cancel [OF inv a(1) a(2)]
    by (auto simp: run_ok_def c recorded_def simp del: split_paired_Ex)
next
  case False
  with out have "v\<lparr>bsv_coordinator := c\<rparr> = v" by (simp add: session_outcome_def)
  with False inv show ?thesis by (simp add: run_ok_same)
qed

text \<open>A started token whose worker could not be admitted is given back at once.\<close>

lemma session_inv_failed_start:
  assumes "session_inv v hs" and idle: "bs_active (co_state (bsv_coordinator v)) = None"
    and left: "bs_next_token (co_state (bsv_coordinator v)) \<noteq> 0"
    and w: "sc_active w = None" "sc_next_lease w = sc_next_lease (bsv_workers v)"
  shows "session_inv (v\<lparr>bsv_coordinator := co_release (bs_next_token (co_state (bsv_coordinator v)))
      (co_next_event (bsv_coordinator v)) (begin_token (bsv_coordinator v)), bsv_workers := w\<rparr>) hs"
proof -
  let ?c = "bsv_coordinator v"
  let ?c' = "co_release (bs_next_token (co_state ?c)) (co_next_event ?c) (begin_token ?c)"
  have "co_state ?c' = (co_state ?c)\<lparr>bs_next_token := checked_next_token (bs_next_token (co_state ?c))\<rparr>"
    "co_registration ?c' = None" "co_next_event ?c' = co_next_event ?c + 1" "co_slot ?c' = co_slot ?c"
    "co_slot_poisoned ?c' = co_slot_poisoned ?c"
    using assms by (auto simp: co_release_def begin_token_def co_started_def start_token_def finish_token_def
        slot_clear_def registered_def session_inv_def)
  then show ?thesis using assms
    by (auto simp: session_inv_def handle_issued_def list_all_iff next_count_step less_Suc_eq)
qed

lemma spec_failed_start:
  assumes idle: "bs_active (co_state (bsv_coordinator v)) = None"
    and left: "bs_next_token (co_state (bsv_coordinator v)) \<noteq> 0"
    and "\<not> sc_poisoned (bsv_workers v)" and "sc_poisoned w"
    and t: "t = bs_next_token (co_state (bsv_coordinator v))"
    and e: "e = Completed (unat t) Failure \<or> e = Released (unat t) False"
  shows "labelled_run service_step (service_spec_of (v, hs)) [SlotEvent (Started (unat t)), SlotEvent e, Died]
    (service_spec_of (v\<lparr>bsv_coordinator := co_release t event (begin_token (bsv_coordinator v)), bsv_workers := w\<rparr>, hs))"
proof -
  let ?v = "v\<lparr>bsv_coordinator := begin_token (bsv_coordinator v)\<rparr>"
  let ?v' = "?v\<lparr>bsv_coordinator := co_release t event (bsv_coordinator ?v)\<rparr>"
  have active: "bs_active (co_state (bsv_coordinator ?v)) = Some \<lparr>ao_token = t, ao_cancelled = False\<rparr>"
    using idle left t by (simp add: begin_token_def co_started_def start_token_def)
  have "service_step (service_spec_of (v, hs)) (SlotEvent (Started (unat t))) (service_spec_of (?v, hs))"
    using spec_start [OF idle left assms(3) assms(3)] t by simp
  moreover have "service_step (service_spec_of (?v, hs)) (SlotEvent e) (service_spec_of (?v', hs))"
    using spec_release [OF active, of t e "bsv_workers ?v"] e by (auto simp: ends_with_def)
  moreover have "service_step (service_spec_of (?v', hs)) Died
      (service_spec_of (v\<lparr>bsv_coordinator := co_release t event (begin_token (bsv_coordinator v)), bsv_workers := w\<rparr>, hs))"
    using assms(4) by (auto simp: service_spec_of_def intro: sv_died)
  ultimately show ?thesis by (auto simp del: split_paired_Ex)
qed

lemma admit_idle:
  assumes "\<not> sc_poisoned w" and "sc_active w = None"
  obtains (started) deadline w' where
      "admit_with_timeout now timeout w = (WorkerStart (sc_next_lease w) deadline, w')" "\<not> sc_poisoned w'"
    | (failed) w' where "admit_with_timeout now timeout w = (WorkerTerminate, w')"
      "sc_active w' = None" "sc_next_lease w' = sc_next_lease w" "sc_poisoned w'"
      "duration_add now timeout = None \<or> sc_next_lease w = 0"
proof (cases "duration_add now timeout")
  case None
  with assms failed show thesis by (auto simp: admit_with_timeout_def)
next
  case (Some d)
  with assms started failed show thesis by (cases "sc_next_lease w = 0") (auto simp: admit_with_timeout_def)
qed

lemma run_ok_schedule:
  assumes inv: "session_inv v hs" and alive: "\<not> sc_poisoned (bsv_workers v)"
    and out: "session_outcome (bsv_coordinator v) (d, c)"
  shows "run_ok (v, hs) (dispatch_events (v, hs) (schedule d now (v\<lparr>bsv_coordinator := c\<rparr>)))"
proof (cases d)
  case (SessionReply r)
  then show ?thesis using run_ok_cancel [OF inv, of r c] out by (auto simp: schedule_def)
next
  case (SessionStart active)
  let ?c = "bsv_coordinator v" and ?t = "bs_next_token (co_state (bsv_coordinator v))"
  from out SessionStart have idle: "bs_active (co_state ?c) = None" "?t \<noteq> 0"
    and active: "op_token (aa_operation active) = ?t" "aa_event active = co_next_event ?c" "aa_slot active = co_slot ?c"
    and c: "c = begin_token ?c"
    by (auto simp: session_outcome_def)
  have free: "sc_active (bsv_workers v) = None" using session_inv_worker [OF inv] idle by simp
  let ?timeout = "case op_purpose (aa_operation active) of PEnrollment \<Rightarrow> ENROLLMENT_OPERATION_TIMEOUT | _ \<Rightarrow> OPERATION_TIMEOUT"
  from alive free show ?thesis
  proof (cases rule: admit_idle [where now = now and timeout = ?timeout])
    case (started deadline w)
    let ?h = "HAuth \<lparr>sa_authentication = active, sa_lease = sc_next_lease (bsv_workers v), sa_deadline = deadline,
        sa_service = bsv_identity v\<rparr>"
    from session_inv_start [OF inv idle, of now ?timeout ?h] spec_start [OF idle alive started(2)] started active
    show ?thesis by (simp add: run_ok_def schedule_def SessionStart c del: split_paired_Ex)
  next
    case (failed w)
    have "co_slot (begin_token ?c) = co_slot ?c" by (simp add: begin_token_def co_started_def)
    with active have release: "snd (co_abandon active (begin_token ?c)) = co_release ?t (co_next_event ?c) (begin_token ?c)"
      using co_abandon_release [of active "begin_token ?c"] by simp
    from failed have "schedule d now (v\<lparr>bsv_coordinator := c\<rparr>) =
        (DispatchTerminate, v\<lparr>bsv_coordinator := co_release ?t (co_next_event ?c) (begin_token ?c),
           bsv_workers := poison_scheduler w\<rparr>)"
      by (simp add: schedule_def SessionStart c release)
    then show ?thesis
      using session_inv_failed_start [OF inv idle, of "poison_scheduler w"] failed
        spec_failed_start [OF idle alive _ refl, of "poison_scheduler w"] alive
      by (simp add: run_ok_def poison_scheduler_def Let_def del: labelled_run.simps)
  qed
qed

lemma run_ok_schedule_standard:
  assumes inv: "session_inv v hs" and alive: "\<not> sc_poisoned (bsv_workers v)"
    and out: "standard_outcome (bsv_coordinator v) (d, c)"
  shows "run_ok (v, hs) (standard_dispatch_events (v, hs) (schedule_standard d now (v\<lparr>bsv_coordinator := c\<rparr>)))"
proof (cases d)
  case (StandardSessionReply r)
  with out have "v\<lparr>bsv_coordinator := c\<rparr> = v" by (simp add: standard_outcome_def)
  with StandardSessionReply inv show ?thesis by (simp add: schedule_standard_def run_ok_same)
next
  case (StandardSessionStart active)
  let ?c = "bsv_coordinator v" and ?t = "bs_next_token (co_state (bsv_coordinator v))"
  from out StandardSessionStart have idle: "bs_active (co_state ?c) = None" "?t \<noteq> 0"
    and active: "so_token (as_operation active) = ?t" "as_event active = co_next_event ?c" "as_slot active = co_slot ?c"
    and c: "c = begin_token ?c"
    by (auto simp: standard_outcome_def)
  have free: "sc_active (bsv_workers v) = None" using session_inv_worker [OF inv] idle by simp
  let ?timeout = "if resolved_kind (so_operation (as_operation active)) \<in> {KEnroll, KDeleteIdentity}
      then ENROLLMENT_OPERATION_TIMEOUT else OPERATION_TIMEOUT"
  from alive free show ?thesis
  proof (cases rule: admit_idle [where now = now and timeout = ?timeout])
    case (started deadline w)
    let ?h = "HStandard \<lparr>ss_operation = active, ss_lease = sc_next_lease (bsv_workers v), ss_deadline = deadline,
        ss_service = bsv_identity v\<rparr>"
    have "schedule_standard d now (v\<lparr>bsv_coordinator := c\<rparr>) =
        (StandardDispatchStart \<lparr>ss_operation = active, ss_lease = sc_next_lease (bsv_workers v),
           ss_deadline = deadline, ss_service = bsv_identity v\<rparr>,
         v\<lparr>bsv_coordinator := begin_token ?c, bsv_workers := w\<rparr>)"
      unfolding schedule_standard_def StandardSessionStart using started by (simp add: c)
    then show ?thesis
      using session_inv_start [OF inv idle, of now ?timeout ?h deadline w] spec_start [OF idle alive started(2)]
        started active
      by (simp add: run_ok_def del: split_paired_Ex)
  next
    case (failed w)
    have "co_slot (begin_token ?c) = co_slot ?c" by (simp add: begin_token_def co_started_def)
    with active have release: "snd (co_abandon_standard active (begin_token ?c)) = co_release ?t (co_next_event ?c) (begin_token ?c)"
      using co_abandon_standard_release [of active "begin_token ?c"] by simp
    have "schedule_standard d now (v\<lparr>bsv_coordinator := c\<rparr>) =
        (StandardDispatchTerminate, v\<lparr>bsv_coordinator := co_release ?t (co_next_event ?c) (begin_token ?c),
           bsv_workers := poison_scheduler w\<rparr>)"
      unfolding schedule_standard_def StandardSessionStart using failed(1) by (simp add: c release)
    then show ?thesis
      using session_inv_failed_start [OF inv idle, of "poison_scheduler w"] failed
        spec_failed_start [OF idle alive _ refl, of "poison_scheduler w"] alive
      by (simp add: run_ok_def poison_scheduler_def Let_def del: labelled_run.simps)
  qed
qed

subsection \<open>Endings\<close>

lemma run_ok_end:
  assumes inv: "session_inv v hs" and "h \<in> set hs" and "service_owns (h_service h) (h_lease h) v"
    and c: "c = co_release (h_token h) (h_event h) (bsv_coordinator v)"
    and e: "\<And>a. bs_active (co_state (bsv_coordinator v)) = Some a \<Longrightarrow> ends_with (e a) a"
  shows "run_ok (v, hs) (ended e (v, hs) (snd (release_worker (h_lease h) now x y (v\<lparr>bsv_coordinator := c\<rparr>))))
    \<and> fst (release_worker (h_lease h) now x y (v\<lparr>bsv_coordinator := c\<rparr>)) = x"
proof -
  from session_inv_owner [OF assms(1-3)] obtain a
    where a: "bs_active (co_state (bsv_coordinator v)) = Some a" "running v a h" by blast
  let ?w = "(bsv_workers v)\<lparr>sc_active := None, sc_idle_since := now\<rparr>"
  have release: "release_worker (h_lease h) now x y (v\<lparr>bsv_coordinator := c\<rparr>) =
      (x, v\<lparr>bsv_coordinator := c, bsv_workers := ?w\<rparr>)"
    using assms(3) by (simp add: release_worker_def complete_worker_def service_owns_def)
  have "bs_active (co_state c) = None"
    using a by (simp add: c co_release_def finish_token_def running_def)
  then have events: "ended e (v, hs) (v\<lparr>bsv_coordinator := c, bsv_workers := ?w\<rparr>) =
      ([SlotEvent (e a)], v\<lparr>bsv_coordinator := c, bsv_workers := ?w\<rparr>, hs)"
    using a by (simp add: ended_def)
  have "ao_token a = h_token h" using a by (simp add: running_def)
  then show ?thesis
    unfolding release fst_conv snd_conv events
    using session_inv_release [OF inv a, of now] spec_release [OF a(1) _ e [OF a(1)], of "h_token h" ?w hs "h_event h"]
    by (simp add: run_ok_def c del: split_paired_Ex)
qed

lemma co_finish_okay:
  "bs_active (co_state c) = Some a \<Longrightarrow> fst (co_finish_for active completion c) = Okay \<Longrightarrow> \<not> ao_cancelled a"
  by (auto simp: co_finish_for_def co_finish_def co_finalize_def finish_operation_def finish_token_def Let_def
      split: if_splits prod.splits)

lemma co_abandon_fails: "fst (co_abandon active c) = Failure"
  by (auto simp: co_abandon_def finish_operation_def finish_token_def Let_def
      split: if_splits prod.splits option.splits)

lemma co_finish_for_release:
  "aa_slot active = co_slot c \<Longrightarrow> completion_belongs_to completion active \<Longrightarrow>
     snd (co_finish_for active completion c) = co_release (op_token (aa_operation active)) (aa_event active) c"
  using co_finalize_release [of completion c]
  by (auto simp: co_finish_for_def co_finish_def completion_belongs_to_def split: prod.splits)

lemma ended_same: "session_inv v hs \<Longrightarrow> run_ok (v, hs) (ended e (v, hs) v)"
  by (auto simp: ended_def run_ok_same split: option.splits)

lemma released_ends: "ends_with (released a) a"
  by (simp add: ends_with_def released_def)

lemma run_ok_finish:
  assumes inv: "session_inv v hs" and s: "HAuth s \<in> set hs"
    and finish: "service_finish s completion now v = (r, v')"
  shows "run_ok (v, hs) (ended (\<lambda>a. Completed (unat (ao_token a)) r) (v, hs) v')"
proof (cases "sc_poisoned (bsv_workers v) \<or> \<not> service_owns (sa_service s) (sa_lease s) v
         \<or> \<not> completion_belongs_to completion (sa_authentication s)")
  case True
  with finish have "v' = v" by (auto simp: service_finish_def)
  then show ?thesis using inv by (simp add: ended_same)
next
  case False
  obtain x c where co: "co_finish_for (sa_authentication s) completion (bsv_coordinator v) = (x, c)"
    by (cases "co_finish_for (sa_authentication s) completion (bsv_coordinator v)")
  have "aa_slot (sa_authentication s) = co_slot (bsv_coordinator v)"
    using session_inv_issued [OF inv s] by (simp add: handle_issued_def)
  with False co have c: "c = co_release (h_token (HAuth s)) (h_event (HAuth s)) (bsv_coordinator v)"
    using co_finish_for_release [of "sa_authentication s" "bsv_coordinator v" completion] by simp
  have ends: "ends_with (Completed (unat (ao_token a)) x) a" if "bs_active (co_state (bsv_coordinator v)) = Some a" for a
    using co_finish_okay [OF that, of "sa_authentication s" completion] co by (auto simp: ends_with_def)
  from False finish co have "release_worker (sa_lease s) now x Failure (v\<lparr>bsv_coordinator := c\<rparr>) = (r, v')"
    by (simp add: service_finish_def)
  then show ?thesis
    using run_ok_end [OF inv s _ c, of "\<lambda>a. Completed (unat (ao_token a)) x" now x Failure] ends False by simp
qed

text \<open>With feedback the service ends an operation with the same reply and in the same state.\<close>

lemma service_finish_feedback_same:
  assumes "session_inv v hs" and "HAuth s \<in> set hs"
    and "service_finish_with_feedback s completion feedback now v = ((r, actions), v')"
  shows "service_finish s completion now v = (r, v')"
proof -
  have "aa_slot (sa_authentication s) = co_slot (bsv_coordinator v)"
    using session_inv_issued [OF assms(1,2)] by (simp add: handle_issued_def)
  with assms(3) show ?thesis
    by (auto simp: service_finish_with_feedback_def service_finish_def co_finish_with_feedback_def
        co_finish_for_def co_finish_def release_worker_def split: if_splits prod.splits bool.splits)
qed

lemma run_ok_finish_standard:
  assumes inv: "session_inv v hs" and s: "HStandard s \<in> set hs"
    and finish: "service_finish_standard s completion now v = (r, v')"
  shows "run_ok (v, hs) (ended released (v, hs) v')"
proof (cases "sc_poisoned (bsv_workers v) \<or> \<not> service_owns (ss_service s) (ss_lease s) v
         \<or> \<not> standard_completion_belongs_to completion (ss_operation s)")
  case True
  with finish have "v' = v" by (auto simp: service_finish_standard_def)
  then show ?thesis using inv by (simp add: ended_same)
next
  case False
  obtain x c where co: "co_finish_standard (ss_operation s) completion (bsv_coordinator v) = (x, c)"
    by (cases "co_finish_standard (ss_operation s) completion (bsv_coordinator v)")
  have "as_slot (ss_operation s) = co_slot (bsv_coordinator v)"
    using session_inv_issued [OF inv s] by (simp add: handle_issued_def)
  with False co have c: "c = co_release (h_token (HStandard s)) (h_event (HStandard s)) (bsv_coordinator v)"
    using co_finish_standard_release [of "ss_operation s" "bsv_coordinator v" completion] by simp
  from False finish co have "release_worker (ss_lease s) now x (Terminal TError) (v\<lparr>bsv_coordinator := c\<rparr>) = (r, v')"
    by (simp add: service_finish_standard_def)
  then show ?thesis
    using run_ok_end [OF inv s _ c released_ends, of now x "Terminal TError"] False by simp
qed

lemma run_ok_abandon:
  assumes inv: "session_inv v hs" and s: "HAuth s \<in> set hs"
    and abandon: "service_abandon s now v = (r, v')"
  shows "run_ok (v, hs) (ended (\<lambda>a. Completed (unat (ao_token a)) r) (v, hs) v')"
proof (cases "service_owns (sa_service s) (sa_lease s) v")
  case False
  with abandon have "v' = v" by (auto simp: service_abandon_def)
  then show ?thesis using inv by (simp add: ended_same)
next
  case True
  obtain c where co: "co_abandon (sa_authentication s) (bsv_coordinator v) = (Failure, c)"
    using co_abandon_fails [of "sa_authentication s" "bsv_coordinator v"] by (metis prod.collapse)
  have "aa_slot (sa_authentication s) = co_slot (bsv_coordinator v)"
    using session_inv_issued [OF inv s] by (simp add: handle_issued_def)
  with co have c: "c = co_release (h_token (HAuth s)) (h_event (HAuth s)) (bsv_coordinator v)"
    using co_abandon_release [of "sa_authentication s" "bsv_coordinator v"] by simp
  have ends: "ends_with (Completed (unat (ao_token a)) Failure) a" for a by (simp add: ends_with_def)
  from True abandon co have "release_worker (sa_lease s) now Failure Failure (v\<lparr>bsv_coordinator := c\<rparr>) = (r, v')"
    by (simp add: service_abandon_def)
  then show ?thesis
    using run_ok_end [OF inv s _ c ends, of now Failure Failure] True by simp
qed

lemma run_ok_abandon_standard:
  assumes inv: "session_inv v hs" and s: "HStandard s \<in> set hs"
    and abandon: "service_abandon_standard s now v = (r, v')"
  shows "run_ok (v, hs) (ended released (v, hs) v')"
proof (cases "service_owns (ss_service s) (ss_lease s) v")
  case False
  with abandon have "v' = v" by (auto simp: service_abandon_standard_def)
  then show ?thesis using inv by (simp add: ended_same)
next
  case True
  obtain x c where co: "co_abandon_standard (ss_operation s) (bsv_coordinator v) = (x, c)"
    by (cases "co_abandon_standard (ss_operation s) (bsv_coordinator v)")
  have "as_slot (ss_operation s) = co_slot (bsv_coordinator v)"
    using session_inv_issued [OF inv s] by (simp add: handle_issued_def)
  with co have c: "c = co_release (h_token (HStandard s)) (h_event (HStandard s)) (bsv_coordinator v)"
    using co_abandon_standard_release [of "ss_operation s" "bsv_coordinator v"] by simp
  from True abandon co have "release_worker (ss_lease s) now x (Terminal TError) (v\<lparr>bsv_coordinator := c\<rparr>) = (r, v')"
    by (simp add: service_abandon_standard_def)
  then show ?thesis
    using run_ok_end [OF inv s _ c released_ends, of now x "Terminal TError"] True by simp
qed

subsection \<open>Cancellation, cutoff and the loss of a worker\<close>

lemma run_ok_cancel_token:
  assumes inv: "session_inv v hs" and "co_cancel_token slot token (bsv_coordinator v) = (b, c)"
  shows "run_ok (v, hs) (cancelled_events (v, hs) (b, v\<lparr>bsv_coordinator := c\<rparr>))"
  using run_ok_cancel [OF inv co_cancel_token_outcome [OF assms(2)]]
  by (cases b) (simp_all add: cancelled_events_def)

lemma run_ok_disconnected:
  assumes inv: "session_inv v hs"
  shows "run_ok (v, hs) (cancelled_events (v, hs) (service_client_disconnected s v))"
    and "run_ok (v, hs) (cancelled_events (v, hs) (service_standard_disconnected t v))"
    and "run_ok (v, hs) (cancelled_events (v, hs) (service_cancel_standard t v))"
  using run_ok_cancel_token [OF inv] run_ok_same [OF inv]
  by (auto simp: service_client_disconnected_def service_standard_disconnected_def service_cancel_standard_def
      co_client_disconnected_def co_standard_client_disconnected_def co_cancel_standard_def
      split: prod.splits) (simp_all add: cancelled_events_def)

lemma run_ok_close:
  assumes inv: "session_inv v hs" and "h \<in> set hs"
    and "slot_close (h_token h) (h_event h) (bsv_coordinator v) = (b, c)"
  shows "run_ok (v, hs) (if b then [Cutoff (unat (h_token h))] else [], v\<lparr>bsv_coordinator := c\<rparr>, hs)"
  using session_inv_close [OF inv assms(3)] spec_close [OF assms] by (simp add: run_ok_def)

lemma run_ok_decide:
  assumes inv: "session_inv v hs"
  shows "run_ok (v, hs) ([], snd (service_decide now ready v), hs)"
proof -
  obtain d w where w: "scheduler_decide now ready (bsv_workers v) = (d, w)"
    by (cases "scheduler_decide now ready (bsv_workers v)")
  then have same: "sc_next_lease w = sc_next_lease (bsv_workers v)" "sc_poisoned w = sc_poisoned (bsv_workers v)"
    "map_option aw_lease (sc_active w) = map_option aw_lease (sc_active (bsv_workers v))"
    by (auto simp: scheduler_decide_def split: if_splits option.splits)
  then show ?thesis using w session_inv_workers [OF inv same(1,3)]
    by (simp add: run_ok_def service_decide_def service_spec_of_def)
qed

lemma run_ok_worker_lost:
  assumes inv: "session_inv v hs" and lost: "service_worker_lost identity lease v = (b, v')"
  shows "run_ok (v, hs) (if b then [Died] else [], v', hs)"
proof (cases b)
  case True
  with lost have v': "v' = v\<lparr>bsv_workers := (bsv_workers v)\<lparr>sc_poisoned := True\<rparr>\<rparr>"
    by (auto simp: service_worker_lost_def scheduler_worker_lost_def split: if_splits)
  then show ?thesis using True session_inv_workers [OF inv, of "(bsv_workers v)\<lparr>sc_poisoned := True\<rparr>"]
    by (auto simp: run_ok_def service_spec_of_def intro: sv_died simp del: split_paired_Ex)
next
  case False
  with lost have "v' = v" by (auto simp: service_worker_lost_def scheduler_worker_lost_def split: if_splits)
  with False inv show ?thesis by (simp add: run_ok_same)
qed

subsection \<open>Every call is a run of the abstract service\<close>

lemma run_ok_terminated:
  "session_inv v hs \<Longrightarrow> sc_poisoned (bsv_workers v) \<Longrightarrow>
     run_ok (v, hs) (dispatch_events (v, hs) (DispatchTerminate, v))
     \<and> run_ok (v, hs) (standard_dispatch_events (v, hs) (StandardDispatchTerminate, v))"
  by (simp add: run_ok_same)

lemma run_ok_dispatch:
  assumes inv: "session_inv v hs"
  shows "run_ok (v, hs) (dispatch_events (v, hs) (service_dispatch peer policy packet now v))"
    and "run_ok (v, hs) (dispatch_events (v, hs) (service_enroll_without_owner peer now v))"
    and "run_ok (v, hs) (standard_dispatch_events (v, hs) (service_dispatch_standard peer recorded_owner operation now v))"
    and "run_ok (v, hs) (dispatch_events (v, hs) (service_cancel_without_owner peer v))"
proof -
  note idle = session_inv_idle [OF inv]
  have ok: "bs_active (co_state (bsv_coordinator v)) = None \<longrightarrow>
      co_registration (bsv_coordinator v) = None \<and> \<not> co_slot_poisoned (bsv_coordinator v)"
    using idle by blast
  note stop = run_ok_terminated [OF inv]
  show "run_ok (v, hs) (dispatch_events (v, hs) (service_dispatch peer policy packet now v))"
    using run_ok_schedule [OF inv] co_dispatch_outcome [OF ok, of peer policy packet] stop
    unfolding service_dispatch_def by (cases "sc_poisoned (bsv_workers v)") (auto split: prod.splits)
  show "run_ok (v, hs) (dispatch_events (v, hs) (service_enroll_without_owner peer now v))"
    using run_ok_schedule [OF inv] co_enroll_outcome [OF ok, of peer] stop
    unfolding service_enroll_without_owner_def by (cases "sc_poisoned (bsv_workers v)") (auto split: prod.splits)
  show "run_ok (v, hs) (standard_dispatch_events (v, hs) (service_dispatch_standard peer recorded_owner operation now v))"
    using run_ok_schedule_standard [OF inv] co_dispatch_standard_outcome [OF ok, of peer recorded_owner operation] stop
    unfolding service_dispatch_standard_def by (cases "sc_poisoned (bsv_workers v)") (auto split: prod.splits)
  show "run_ok (v, hs) (dispatch_events (v, hs) (service_cancel_without_owner peer v))"
  proof (cases "sc_poisoned (bsv_workers v)")
    case True
    then show ?thesis using stop by (simp add: service_cancel_without_owner_def)
  next
    case False
    obtain r c where call: "co_cancel_without_owner peer (bsv_coordinator v) = (r, c)"
      by (cases "co_cancel_without_owner peer (bsv_coordinator v)")
    show ?thesis
      using False call run_ok_cancel [OF inv co_cancel_without_owner_outcome [OF call]]
      by (auto simp: service_cancel_without_owner_def)
  qed
qed

lemma service_exec_ok:
  assumes inv: "session_inv v hs"
  shows "run_ok (v, hs) (service_exec p (v, hs))"
proof (cases p)
  case (SvClose i)
  show ?thesis
  proof (cases "lookup hs i")
    case (Some h)
    with SvClose run_ok_close [OF inv lookup_set [OF Some]] show ?thesis
      by (cases h) (auto simp: close_cancellation_def close_standard_cancellation_def split: prod.splits)
  qed (use SvClose inv in \<open>simp add: run_ok_same\<close>)
qed (auto simp: run_ok_dispatch [OF inv] run_ok_same [OF inv] run_ok_disconnected [OF inv] run_ok_decide [OF inv]
    split: option.splits handle.splits prod.splits
    dest!: lookup_set dest: run_ok_worker_lost [OF inv]
    intro: run_ok_finish [OF inv] run_ok_finish [OF inv _ service_finish_feedback_same [OF inv]]
      run_ok_finish_standard [OF inv] run_ok_abandon [OF inv] run_ok_abandon_standard [OF inv])

lemma service_exec_refines:
  "(case s of (v, hs) \<Rightarrow> session_inv v hs) \<Longrightarrow> service_exec p s = (es, s') \<Longrightarrow>
     (case s' of (v, hs) \<Rightarrow> session_inv v hs) \<and> labelled_run service_step (service_spec_of s) es (service_spec_of s')"
  using service_exec_ok [of "fst s" "snd s" p] by (cases s) (simp add: run_ok_def)

interpretation service_trace: trace_refinement "\<lambda>(v, hs). session_inv v hs" service_spec_of service_step service_exec
  by unfold_locales (rule service_exec_refines)

lemma service_new:
  assumes "broker_service_new slot identity now idle_timeout = Inr v"
  shows "session_inv v []" and "service_spec_of (v, []) = ((1, None), False, False)"
  using assms
  by (auto simp: broker_service_new_def broker_scheduler_new_def coordinator_default_def
      broker_state_default_def session_inv_def service_spec_of_def slot_of_def next_count_def split: if_splits)

text \<open>What holds of a service after any operations, and of the events they gave.\<close>

lemma service_reachable:
  assumes "broker_service_new slot identity now idle_timeout = Inr v"
    and "exec_all service_exec ops (v, []) = (events, v', hs)"
  shows "session_inv v' hs"
    and "labelled_run service_step ((1, None), False, False) events (service_spec_of (v', hs))"
  using service_trace.exec_all_refines [OF _ assms(2)] service_new [OF assms(1)] by simp_all

subsection \<open>Runs of the abstract service\<close>

inductive_cases service_step_cases:
  "service_step a (SlotEvent (Started t)) b"
  "service_step a (SlotEvent (CancelRecorded t)) b"
  "service_step a (SlotEvent e) b"
  "service_step a (Cutoff t) b"
  "service_step a Died b"

fun slot_events :: "service_event list \<Rightarrow> broker_event list" where
  "slot_events [] = []"
| "slot_events (SlotEvent e # es) = e # slot_events es"
| "slot_events (_ # es) = slot_events es"

lemma slot_events_append [simp]: "slot_events (es @ fs) = slot_events es @ slot_events fs"
  by (induction es rule: slot_events.induct) auto

lemma in_slot_events: "e \<in> set (slot_events es) \<longleftrightarrow> SlotEvent e \<in> set es"
  by (induction es rule: slot_events.induct) auto

lemma service_step_slot:
  "service_step (l, closed, dead) f (l', closed', dead') \<Longrightarrow> labelled_run slot_step l (slot_events [f]) l'"
  by (erule service_step.cases) (auto simp del: split_paired_Ex)

lemma service_run_slot:
  "labelled_run service_step a es b \<Longrightarrow> labelled_run slot_step (fst a) (slot_events es) (fst b)"
proof (induction es arbitrary: a)
  case (Cons f es)
  then obtain m where m: "service_step a f m" "labelled_run service_step m es b" by auto
  have "labelled_run slot_step (fst a) (slot_events [f]) (fst m)"
    using service_step_slot m(1) by (metis prod.collapse)
  with Cons.IH [OF m(2)] have "labelled_run slot_step (fst a) (slot_events [f] @ slot_events es) (fst b)"
    unfolding labelled_run_append by blast
  moreover have "slot_events (f # es) = slot_events [f] @ slot_events es"
    using slot_events_append [of "[f]" es] by simp
  ultimately show ?case by simp
qed simp

text \<open>A token stays the running one until an end of it.\<close>

definition ends_token :: "nat \<Rightarrow> broker_event \<Rightarrow> bool" where
  "ends_token t e \<longleftrightarrow> (\<exists>r. e = Completed t r) \<or> (\<exists>c. e = Released t c)"

lemma slot_run_occupied:
  "labelled_run slot_step (n, Some (t, c)) es l \<Longrightarrow> list_all (\<lambda>e. \<not> ends_token t e) es \<Longrightarrow> \<exists>d. l = (n, Some (t, d))"
proof (induction es arbitrary: c)
  case (Cons e es)
  then obtain m where m: "slot_step (n, Some (t, c)) e m" "labelled_run slot_step m es l" by auto
  from m(1) Cons.prems(2) have "\<exists>d. m = (n, Some (t, d))" by cases (auto simp: ends_token_def)
  with m(2) Cons show ?case by auto
qed auto

lemma slot_run_exclusive:
  assumes "labelled_run slot_step l (xs @ Started t # ys @ Started u # zs) l'"
  shows "\<exists>e \<in> set ys. ends_token t e"
proof (rule ccontr)
  assume "\<not> ?thesis"
  then have no: "list_all (\<lambda>e. \<not> ends_token t e) ys" by (simp add: list_all_iff)
  from assms obtain n where "labelled_run slot_step (Suc t, Some (t, False)) ys (n, None)"
    by (auto simp: labelled_run_append simp del: split_paired_Ex elim!: slot_step_cases)
  from slot_run_occupied [OF this no] show False by simp
qed

text \<open>After a cutoff the token is either still running, closed, or no longer running.\<close>

definition past_cutoff :: "nat \<Rightarrow> service_spec \<Rightarrow> bool" where
  "past_cutoff t s \<longleftrightarrow> (case s of ((n, a), closed, dead) \<Rightarrow>
     t < n \<and> (case a of None \<Rightarrow> True | Some (u, c) \<Rightarrow> u = t \<longrightarrow> closed))"

lemma past_cutoff_step:
  "service_step a e b \<Longrightarrow> past_cutoff t a \<Longrightarrow> past_cutoff t b \<and> e \<noteq> SlotEvent (CancelRecorded t)"
  by (erule service_step.cases)
    (auto simp: past_cutoff_def elim!: slot_step_cases)

lemma past_cutoff_run:
  "labelled_run service_step a es b \<Longrightarrow> past_cutoff t a \<Longrightarrow> SlotEvent (CancelRecorded t) \<notin> set es"
proof (induction es arbitrary: a)
  case (Cons e es)
  then obtain m where "service_step a e m" "labelled_run service_step m es b" by auto
  with past_cutoff_step [of a e m t] Cons show ?case by auto
qed simp

lemma dead_run:
  "labelled_run service_step (l, closed, True) es b \<Longrightarrow> SlotEvent (Started t) \<notin> set es"
proof (induction es arbitrary: l closed)
  case (Cons e es)
  then obtain m where m: "service_step (l, closed, True) e m" "labelled_run service_step m es b" by auto
  from m(1) have "e \<noteq> SlotEvent (Started t) \<and> (\<exists>l' closed'. m = (l', closed', True))" by cases auto
  with m(2) Cons.IH show ?case by auto
qed simp

lemma cutoff_excludes_cancel:
  assumes "labelled_run service_step ((1, None), False, False) (xs @ Cutoff t # ys) s"
  shows "SlotEvent (CancelRecorded t) \<notin> set (xs @ ys)"
proof -
  from assms obtain m m' where m: "labelled_run service_step ((1, None), False, False) xs m"
    "service_step m (Cutoff t) m'" "labelled_run service_step m' ys s"
    by (auto simp: labelled_run_append simp del: split_paired_Ex)
  from service_run_slot [OF m(1)] history_ok_run [OF _ history_ok_initial]
  have h: "history_ok (slot_events xs) (fst m)" by fastforce
  with m(2) have "CancelRecorded t \<notin> set (slot_events xs)" "past_cutoff t m'"
    by (auto simp: history_ok_def past_cutoff_def elim!: service_step_cases)
  with past_cutoff_run [OF m(3)] show ?thesis by (simp add: in_slot_events)
qed

lemmas service_eval = broker_op_defs broker_state_default_def biometric_user_for_def decode_request_def
  checked_next_token_def service_dispatch_def schedule_def co_dispatch_def install_decision_def
  coordinator_default_def new_event_def slot_install_def admit_with_timeout_def duration_add_def
  service_cancel_without_owner_def co_cancel_without_owner_def slot_delivers_def deliver_event_def
  service_finish_def service_owns_def owns_lease_def completion_belongs_to_def completion_new_def
  co_finish_for_def co_finish_def co_finalize_def slot_clear_def registered_def is_cancelled_def
  release_worker_def complete_worker_def ended_def lookup_def close_cancellation_def slot_close_def
  service_worker_lost_def scheduler_worker_lost_def OPERATION_TIMEOUT_def ENROLLMENT_OPERATION_TIMEOUT_def

text \<open>
  A concrete sequence: the first operation wins its cutoff against root's cancellation and matches, the
  second is cancelled and fails although it matched, the third loses its worker.
\<close>

definition demo_service :: broker_service where
  "demo_service = \<lparr>bsv_coordinator = coordinator_default 7, bsv_workers = \<lparr>sc_idle_timeout = 1, sc_idle_since = 0,
     sc_active = None, sc_next_lease = 1, sc_poisoned = False\<rparr>, bsv_identity = 5\<rparr>"

definition demo_ops :: "service_op list" where
  "demo_ops = (let owner = \<lparr>peer_family = FamilyLocal, peer_user_id = 1000, peer_group_id = 1000\<rparr>;
       root = \<lparr>peer_family = FamilyLocal, peer_user_id = 0, peer_group_id = 0\<rparr>;
       ask = (\<lambda>n. SvDispatch owner \<lparr>ap_enrollment_owner_user_id = 1000\<rparr> AUTHENTICATE_REQUEST n) in
     [ask 0, SvClose 0, SvCancelWithoutOwner root, SvFinish 0 0 (Inr MatchMatched) 3,
      ask 4, SvCancelWithoutOwner root, SvClose 1, SvFinish 1 1 (Inr MatchMatched) 5,
      ask 6, ask 7, SvWorkerLost 2, ask 8])"

definition demo_events :: "service_event list" where
  "demo_events = [SlotEvent (Started 1), Cutoff 1, SlotEvent (Completed 1 Okay), SlotEvent (Started 2),
     SlotEvent (CancelRecorded 2), SlotEvent (Completed 2 Failure), SlotEvent (Started 3), Died]"

lemma demo_new: "broker_service_new 7 5 0 1 = Inr demo_service"
  by (simp add: broker_service_new_def broker_scheduler_new_def demo_service_def)

lemma demo_run: "fst (exec_all service_exec demo_ops (demo_service, [])) = demo_events"
  by (simp add: demo_ops_def demo_service_def demo_events_def service_eval Let_def)

subsection \<open>Properties\<close>

text \<open>
  C1. In every sequence of dispatches, cancellations, disconnections, completions, worker cutoffs, deadline
  decisions and worker losses that the broker service goes through from its creation, it starts operations
  under strictly increasing tokens and starts none before the former one ended; it answers OKAY only for an
  operation whose cancellation it has not recorded; a worker that won its cutoff is never cancelled, neither
  before nor after; and after a lost worker nothing is started any more.
\<close>

theorem service_runs_one_worker:
  assumes "broker_service_new slot identity now idle_timeout = Inr v"
    and "exec_all service_exec ops (v, []) = (events, v', hs)"
  shows "sorted_wrt (<) (started_tokens (slot_events events))
    \<and> (\<forall>xs t ys u zs. slot_events events = xs @ Started t # ys @ Started u # zs \<longrightarrow> (\<exists>e \<in> set ys. ends_token t e))
    \<and> (\<forall>xs t ys. slot_events events = xs @ Completed t Okay # ys \<longrightarrow> CancelRecorded t \<notin> set xs)
    \<and> (\<forall>xs t ys. events = xs @ Cutoff t # ys \<longrightarrow> SlotEvent (CancelRecorded t) \<notin> set (xs @ ys))
    \<and> (\<forall>xs t ys. events = xs @ Died # ys \<longrightarrow> SlotEvent (Started t) \<notin> set ys)"
proof -
  note run = service_reachable(2) [OF assms]
  have slot: "labelled_run slot_step (1, None) (slot_events events) (fst (service_spec_of (v', hs)))"
    using service_run_slot [OF run] by simp
  have "history_ok (slot_events events) (fst (service_spec_of (v', hs)))"
    using history_ok_run [OF slot history_ok_initial] by simp
  moreover have "\<exists>e \<in> set ys. ends_token t e" if "slot_events events = xs @ Started t # ys @ Started u # zs" for xs t ys u zs
    using slot_run_exclusive slot that by simp
  moreover have "CancelRecorded t \<notin> set xs" if "slot_events events = xs @ Completed t Okay # ys" for xs t ys
    using okay_not_cancelled slot that by simp
  moreover have "SlotEvent (CancelRecorded t) \<notin> set (xs @ ys)" if "events = xs @ Cutoff t # ys" for xs t ys
    using cutoff_excludes_cancel run that by blast
  moreover have "SlotEvent (Started t) \<notin> set ys" if "events = xs @ Died # ys" for xs t ys
    using run unfolding that labelled_run_append by (auto elim!: service_step_cases dest: dead_run)
  ultimately show ?thesis by (simp add: history_ok_def)
qed

theorem service_runs_one_worker_witness:
  "SlotEvent (CancelRecorded 1) \<notin> set ([SlotEvent (Started 1)] @ drop 2 demo_events)
     \<and> sorted_wrt (<) (started_tokens (slot_events demo_events))"
proof -
  obtain v hs where run: "exec_all service_exec demo_ops (demo_service, []) = (demo_events, v, hs)"
    using demo_run by (metis prod.collapse)
  have "demo_events = [SlotEvent (Started 1)] @ Cutoff 1 # drop 2 demo_events" by (simp add: demo_events_def)
  with service_runs_one_worker [OF demo_new run] show ?thesis by blast
qed

text \<open>
  C7. After any such sequence the four parts of the service agree: the broker has an operation exactly when
  the scheduler has a worker; and the handle that holds the worker's lease carries the running token, its
  cancellation flag is set exactly when the broker recorded the cancellation, and the delivery slot, while
  it is registered, points to that flag.
\<close>

theorem service_parts_agree:
  assumes "broker_service_new slot identity now idle_timeout = Inr v"
    and "exec_all service_exec ops (v, []) = (events, v', hs)"
  shows "(sc_active (bsv_workers v') = None \<longleftrightarrow> bs_active (co_state (bsv_coordinator v')) = None)
    \<and> (\<forall>h \<in> set hs. service_owns (h_service h) (h_lease h) v' \<longrightarrow>
         (\<exists>a. bs_active (co_state (bsv_coordinator v')) = Some a \<and> ao_token a = h_token h
            \<and> co_events (bsv_coordinator v') (h_event h) = ao_cancelled a
            \<and> co_registration (bsv_coordinator v') \<in> {None, Some \<lparr>reg_token = h_token h, reg_event = h_event h\<rparr>}))"
proof -
  note inv = service_reachable(1) [OF assms]
  have "\<exists>a. bs_active (co_state (bsv_coordinator v')) = Some a \<and> ao_token a = h_token h
            \<and> co_events (bsv_coordinator v') (h_event h) = ao_cancelled a
            \<and> co_registration (bsv_coordinator v') \<in> {None, Some \<lparr>reg_token = h_token h, reg_event = h_event h\<rparr>}"
    if "h \<in> set hs" "service_owns (h_service h) (h_lease h) v'" for h
    using session_inv_owner [OF inv that] by (metis running_def)
  with session_inv_worker [OF inv] show ?thesis by blast
qed

theorem service_parts_agree_witness:
  "\<exists>v hs. exec_all service_exec demo_ops (demo_service, []) = (demo_events, v, hs)
     \<and> (sc_active (bsv_workers v) = None \<longleftrightarrow> bs_active (co_state (bsv_coordinator v)) = None)"
proof -
  obtain v hs where run: "exec_all service_exec demo_ops (demo_service, []) = (demo_events, v, hs)"
    using demo_run by (metis prod.collapse)
  then show ?thesis using service_parts_agree [OF demo_new run, THEN conjunct1] by auto
qed

lemma schedule_admission:
  assumes inv: "session_inv v hs" and alive: "\<not> sc_poisoned (bsv_workers v)"
    and out: "session_outcome (bsv_coordinator v) (d, c)"
    and sched: "schedule d now (v\<lparr>bsv_coordinator := c\<rparr>) = (r, v')"
  shows "(sc_active (bsv_workers v) \<noteq> None \<longrightarrow> (\<exists>response. r = DispatchReply response))
    \<and> (r = DispatchTerminate \<longrightarrow> sc_poisoned (bsv_workers v')
         \<and> (duration_add now ENROLLMENT_OPERATION_TIMEOUT = None \<or> sc_next_lease (bsv_workers v) = 0))
    \<and> (\<forall>s. r = DispatchStart s \<longrightarrow> sa_deadline s = now + (if op_purpose (aa_operation (sa_authentication s)) = PEnrollment
            then ENROLLMENT_OPERATION_TIMEOUT else OPERATION_TIMEOUT)
         \<and> service_owns (sa_service s) (sa_lease s) v')"
proof (cases d)
  case (SessionReply x)
  with sched show ?thesis by (auto simp: schedule_def)
next
  case (SessionStart active)
  with out have "bs_active (co_state (bsv_coordinator v)) = None" by (simp add: session_outcome_def)
  then have "sc_active (bsv_workers v) = None" using session_inv_worker [OF inv] by simp
  with sched alive SessionStart show ?thesis
    by (auto simp: schedule_def admit_with_timeout_def duration_add_def poison_scheduler_def service_owns_def
        owns_lease_def OPERATION_TIMEOUT_def ENROLLMENT_OPERATION_TIMEOUT_def
        split: if_splits purpose.splits prod.splits worker_admission.splits)
qed

text \<open>
  C34. A packet given to a live service never starts a second worker: while one runs it gets a reply. A
  started worker owns its lease and has the deadline of its kind. The service gives up, and refuses all
  later work, only when the deadline is not representable or no lease identifier is left.
\<close>

theorem dispatch_admits_or_fails_closed:
  assumes "broker_service_new slot identity start idle_timeout = Inr v0"
    and "exec_all service_exec ops (v0, []) = (events, v, hs)" and "\<not> sc_poisoned (bsv_workers v)"
    and "service_dispatch peer policy packet now v = (r, v')"
  shows "(sc_active (bsv_workers v) \<noteq> None \<longrightarrow> (\<exists>response. r = DispatchReply response))
    \<and> (r = DispatchTerminate \<longrightarrow> sc_poisoned (bsv_workers v')
         \<and> (duration_add now ENROLLMENT_OPERATION_TIMEOUT = None \<or> sc_next_lease (bsv_workers v) = 0))
    \<and> (\<forall>s. r = DispatchStart s \<longrightarrow> sa_deadline s = now + (if op_purpose (aa_operation (sa_authentication s)) = PEnrollment
            then ENROLLMENT_OPERATION_TIMEOUT else OPERATION_TIMEOUT)
         \<and> service_owns (sa_service s) (sa_lease s) v')"
proof -
  note inv = service_reachable(1) [OF assms(1,2)]
  obtain d c where call: "co_dispatch peer policy packet (bsv_coordinator v) = (d, c)"
    by (cases "co_dispatch peer policy packet (bsv_coordinator v)")
  have "session_outcome (bsv_coordinator v) (d, c)"
    using co_dispatch_outcome [of "bsv_coordinator v" peer policy packet] session_inv_idle [OF inv] call by simp
  moreover from assms(3,4) call have "schedule d now (v\<lparr>bsv_coordinator := c\<rparr>) = (r, v')"
    by (simp add: service_dispatch_def)
  ultimately show ?thesis using schedule_admission [OF inv assms(3)] by blast
qed

theorem dispatch_admits_or_fails_closed_witness:
  "\<exists>s v. service_dispatch \<lparr>peer_family = FamilyLocal, peer_user_id = 1000, peer_group_id = 1000\<rparr>
       \<lparr>ap_enrollment_owner_user_id = 1000\<rparr> AUTHENTICATE_REQUEST 9 demo_service = (DispatchStart s, v)
     \<and> sa_deadline s = 9 + OPERATION_TIMEOUT \<and> service_owns (sa_service s) (sa_lease s) v"
proof -
  let ?call = "service_dispatch \<lparr>peer_family = FamilyLocal, peer_user_id = 1000, peer_group_id = 1000\<rparr>
       \<lparr>ap_enrollment_owner_user_id = 1000\<rparr> AUTHENTICATE_REQUEST 9 demo_service"
  have empty: "exec_all service_exec [] (demo_service, []) = ([], demo_service, [])" by simp
  have alive: "\<not> sc_poisoned (bsv_workers demo_service)" by (simp add: demo_service_def)
  have "\<exists>s. fst ?call = DispatchStart s \<and> op_purpose (aa_operation (sa_authentication s)) = PAuthenticate"
    by (simp add: demo_service_def service_eval)
  then obtain s v where call: "?call = (DispatchStart s, v)"
    and p: "op_purpose (aa_operation (sa_authentication s)) = PAuthenticate" by (metis prod.collapse)
  note admitted = dispatch_admits_or_fails_closed [OF demo_new empty alive call, THEN conjunct2, THEN conjunct2,
      rule_format, OF refl]
  have "sa_deadline s = 9 + OPERATION_TIMEOUT \<and> service_owns (sa_service s) (sa_lease s) v"
    using admitted by (simp only: p purpose.distinct if_False simp_thms)
  with call show ?thesis by blast
qed

end
