(* ===== verification/Standard_Connection.thy ===== *)
theory Standard_Connection
  imports Auth_Service_Correct
begin

section \<open>Connections of the standard fingerprint protocol\<close>

text \<open>
  Models \<^verbatim>\<open>crates/t1-daemons/src/standard_connection.rs\<close>: the capabilities a daemon
  advertises, one authenticated local connection, the dispatch of a packet on it, worker progress,
  completion, disconnection, deadline and loss. Each operation gets the broker service that all
  connections and the direct authentication share. The account lookup, which asks the name service, is
  the argument \<open>resolve\<close>, as it is in the code. The lemmas show that every operation of a
  connection is a sequence of service operations, that replies are packets of the protocol, and that a
  connection cannot disturb another one's work.
\<close>

datatype standard_connection_error =
    NonLocalPeer | InvalidCapabilities | NoActiveOperation | ForeignWorker | InvalidProgress

definition standard_config_new :: "u8 \<Rightarrow> standard_connection_error + capabilities" where
  "standard_config_new enroll_stages =
     map_err (\<lambda>_. InvalidCapabilities) (capabilities_new CAP_KNOWN_BITS enroll_stages MAX_IDENTITIES)"

record standard_connection =
  sn_peer :: peer_metadata
  sn_config :: capabilities
  sn_opened :: bool
  sn_active :: "scheduled_standard option"

definition standard_connection_new ::
  "peer_metadata \<Rightarrow> capabilities \<Rightarrow> standard_connection_error + standard_connection" where
  "standard_connection_new peer config =
     (if peer_family peer \<noteq> FamilyLocal then Inl NonLocalPeer
      else Inr \<lparr>sn_peer = peer, sn_config = config, sn_opened = False, sn_active = None\<rparr>)"

record encoded_reply =
  er_message :: fp_server_message
  er_packet :: bytes

text \<open>A message that does not encode is replaced by the fixed error, whose encoding is spelled out.\<close>

definition encoded_reply_new :: "fp_server_message \<Rightarrow> encoded_reply" where
  "encoded_reply_new message =
     (case encode_server_message message of
        Inr packet \<Rightarrow> \<lparr>er_message = message, er_packet = packet\<rparr>
      | Inl _ \<Rightarrow>
          (case encode_server_message (Terminal TError) of
             Inr packet \<Rightarrow> \<lparr>er_message = Terminal TError, er_packet = packet\<rparr>
           | Inl _ \<Rightarrow> \<lparr>er_message = Terminal TError, er_packet = []\<rparr>))"

record standard_worker_job =
  wj_operation :: active_standard
  wj_deadline :: nat

datatype connection_dispatch =
    CdReply encoded_reply | CdStart standard_worker_job | CdCancellationPending | CdTerminate

definition connection_reply :: "fp_server_message \<Rightarrow> connection_dispatch" where
  "connection_reply message = CdReply (encoded_reply_new message)"

definition job_completion :: "standard_worker_job \<Rightarrow> fp_server_message \<Rightarrow> standard_completion" where
  "job_completion job result = standard_completion_new (wj_operation job) result"

definition job_belongs_to :: "standard_worker_job \<Rightarrow> scheduled_standard \<Rightarrow> bool" where
  "job_belongs_to job scheduled \<longleftrightarrow>
     standard_completion_belongs_to (job_completion job (Terminal TError)) (ss_operation scheduled)"

text \<open>The controls never reach this function; there the code panics, which is None.\<close>

fun resolve_operation ::
  "(username \<Rightarrow> 'e + resolved_account) \<Rightarrow> fp_client_message \<Rightarrow> ('e + resolved_operation) option" where
  "resolve_operation resolve ListIdentities = Some (Inr OList)"
| "resolve_operation resolve (Enroll u f) = Some (rbind (resolve u) (\<lambda>a. Inr (OEnroll a f)))"
| "resolve_operation resolve (Verify u i) = Some (rbind (resolve u) (\<lambda>a. Inr (OVerify a i)))"
| "resolve_operation resolve (Identify u) = Some (rbind (resolve u) (\<lambda>a. Inr (OIdentify a)))"
| "resolve_operation resolve (DeleteIdentity u i) = Some (rbind (resolve u) (\<lambda>a. Inr (ODelete a i)))"
| "resolve_operation resolve _ = None"

definition start_on_connection ::
  "access_policy option \<Rightarrow> resolved_operation \<Rightarrow> nat \<Rightarrow> standard_connection \<times> broker_service
     \<Rightarrow> connection_dispatch \<times> standard_connection \<times> broker_service" where
  "start_on_connection recorded_owner operation now s =
     (case s of (c, v) \<Rightarrow>
        (case service_dispatch_standard (sn_peer c) recorded_owner operation now v of
           (StandardDispatchReply message, v') \<Rightarrow> (connection_reply message, c, v')
         | (StandardDispatchStart scheduled, v') \<Rightarrow>
             (CdStart \<lparr>wj_operation = ss_operation scheduled, wj_deadline = ss_deadline scheduled\<rparr>,
              c\<lparr>sn_active := Some scheduled\<rparr>, v')
         | (StandardDispatchTerminate, v') \<Rightarrow> (CdTerminate, c, v')))"

definition dispatch_packet_with ::
  "(username \<Rightarrow> 'e + resolved_account) \<Rightarrow> access_policy option \<Rightarrow> bytes \<Rightarrow> nat
     \<Rightarrow> standard_connection \<times> broker_service \<Rightarrow> connection_dispatch \<times> standard_connection \<times> broker_service" where
  "dispatch_packet_with resolve recorded_owner packet now s =
     (case s of (c, v) \<Rightarrow>
        (case decode_client_message packet of
           Inl _ \<Rightarrow> (connection_reply (Terminal TError), c, v)
         | Inr message \<Rightarrow>
             (case sn_active c of
                Some active \<Rightarrow>
                  if message = Cancel
                  then (CdCancellationPending, c, snd (service_cancel_standard active v))
                  else (connection_reply (Terminal TBusy), c, v)
              | None \<Rightarrow>
                  if message = GetCapabilities then (connection_reply (Capabilities (sn_config c)), c, v)
                  else if message = Open then (connection_reply Opened, c\<lparr>sn_opened := True\<rparr>, v)
                  else if message = Cancel then (connection_reply (Terminal TError), c, v)
                  else if \<not> sn_opened c then (connection_reply (Terminal TError), c, v)
                  else (case resolve_operation resolve message of
                    Some (Inr operation) \<Rightarrow> start_on_connection recorded_owner operation now (c, v)
                  | _ \<Rightarrow> (connection_reply (Terminal TError), c, v)))))"

definition worker_progress ::
  "standard_worker_job \<Rightarrow> enroll_progress \<Rightarrow> standard_connection \<Rightarrow> standard_connection_error + encoded_reply" where
  "worker_progress worker progress c =
     rbind (ok_or (sn_active c) NoActiveOperation) (\<lambda>scheduled.
       if \<not> job_belongs_to worker scheduled then Inl ForeignWorker
       else if resolved_kind (so_operation (as_operation (wj_operation worker))) \<noteq> KEnroll
       then Inl InvalidProgress
       else Inr (encoded_reply_new (EnrollProgress progress)))"

definition standard_worker_lost :: "scheduled_standard \<Rightarrow> broker_service \<Rightarrow> bool \<times> broker_service" where
  "standard_worker_lost scheduled v = service_worker_lost (ss_service scheduled) (ss_lease scheduled) v"

definition finish_worker ::
  "standard_completion \<Rightarrow> nat \<Rightarrow> standard_connection \<times> broker_service
     \<Rightarrow> connection_dispatch \<times> standard_connection \<times> broker_service" where
  "finish_worker completion now s =
     (case s of (c, v) \<Rightarrow>
        (case sn_active c of
           None \<Rightarrow> (CdTerminate, c, v)
         | Some scheduled \<Rightarrow>
             if \<not> standard_completion_belongs_to completion (ss_operation scheduled)
             then (CdTerminate, c\<lparr>sn_active := None\<rparr>, snd (standard_worker_lost scheduled v))
             else (case service_finish_standard scheduled completion now v of (message, v') \<Rightarrow>
               (connection_reply message, c\<lparr>sn_active := None\<rparr>, v'))))"

definition connection_disconnected :: "standard_connection \<Rightarrow> broker_service \<Rightarrow> bool \<times> broker_service" where
  "connection_disconnected c v =
     (case sn_active c of None \<Rightarrow> (False, v) | Some active \<Rightarrow> service_standard_disconnected active v)"

definition connection_deadline_expired :: "standard_connection \<Rightarrow> broker_service \<Rightarrow> bool \<times> broker_service" where
  "connection_deadline_expired c v =
     (case sn_active c of None \<Rightarrow> (False, v) | Some active \<Rightarrow> service_standard_deadline_expired active v)"

definition is_active_in :: "standard_connection \<Rightarrow> broker_service \<Rightarrow> bool" where
  "is_active_in c v \<longleftrightarrow>
     (case sn_active c of None \<Rightarrow> False | Some active \<Rightarrow> service_owns (ss_service active) (ss_lease active) v)"

definition connection_worker_lost ::
  "standard_connection \<times> broker_service \<Rightarrow> connection_dispatch \<times> standard_connection \<times> broker_service" where
  "connection_worker_lost s =
     (case s of (c, v) \<Rightarrow>
        (case sn_active c of
           None \<Rightarrow> (CdTerminate, c, v)
         | Some scheduled \<Rightarrow> (CdTerminate, c\<lparr>sn_active := None\<rparr>, snd (standard_worker_lost scheduled v))))"

subsection \<open>Replies are packets of the protocol\<close>

text \<open>Messages whose values came from their validating constructors.\<close>

fun server_message_typed :: "fp_server_message \<Rightarrow> bool" where
  "server_message_typed (IdentityList listed identities) =
     ((\<forall>u. listed = Some u \<longrightarrow> username_ok u) \<and> list_all fp_identity_ok identities)"
| "server_message_typed m = server_message_ok m"

lemma encode_typed:
  assumes "server_message_typed m" and "encode_server_message m = Inr packet"
  shows "server_message_ok m"
proof (cases m)
  case (IdentityList listed identities)
  with assms show ?thesis
    by (auto simp: validate_identity_list_def identities_distinct_iff split: if_splits)
qed (use assms in auto)

lemma terminal_error_ok [simp]: "server_message_ok (Terminal TError)"
  by simp

lemma encoded_reply_decodes:
  assumes "server_message_typed m"
  shows "decode_server_message (er_packet (encoded_reply_new m)) = Inr (er_message (encoded_reply_new m))
    \<and> er_message (encoded_reply_new m) \<in> {m, Terminal TError}"
proof (cases "encode_server_message m")
  case (Inr packet)
  with encode_typed [OF assms] show ?thesis by (simp add: encoded_reply_new_def decode_server_message_iff)
next
  case (Inl e)
  obtain p where "encode_server_message (Terminal TError) = Inr p"
    using encode_server_message_ok [OF terminal_error_ok] by blast
  with Inl show ?thesis by (simp add: encoded_reply_new_def decode_server_message_iff del: encode_server_message.simps)
qed

lemma config_ok: "standard_config_new stages = Inr config \<Longrightarrow> capabilities_ok config"
  by (auto simp: standard_config_new_def capabilities_ok_def capabilities_new_def capability_set_from_bits_def
      capability_contains_def Let_def split: if_splits)

lemma dispatch_reply_terminal:
  "dispatch_standard peer recorded_owner operation s = (StandardReply m, s') \<Longrightarrow>
     m \<in> {Terminal TError, Terminal TSecondOwner, Terminal TBusy}"
  by (auto simp: dispatch_standard_def standard_reply_def split: option.splits if_splits token_admission.splits prod.splits)

lemma finish_standard_reply:
  "finish_standard op result s = (Some m, s') \<Longrightarrow> m \<in> {result, Terminal TError, Terminal TCancelled}"
  by (auto simp: finish_standard_def split: option.splits if_splits prod.splits)

lemma co_dispatch_reply_typed:
  "co_dispatch_standard peer recorded_owner operation c = (StandardSessionReply m, c') \<Longrightarrow> server_message_typed m"
  by (auto simp: co_dispatch_standard_def install_standard_decision_def or_error_def Let_def
      split: prod.splits standard_decision.splits option.splits bool.splits
      dest!: dispatch_reply_terminal finish_standard_reply)

lemma service_dispatch_reply_typed:
  "service_dispatch_standard peer recorded_owner operation now v = (StandardDispatchReply m, v') \<Longrightarrow>
     server_message_typed m"
  by (auto simp: service_dispatch_standard_def schedule_standard_def
      split: if_splits prod.splits standard_session_decision.splits worker_admission.splits
      dest: co_dispatch_reply_typed)

lemma service_finish_reply:
  "service_finish_standard scheduled completion now v = (m, v') \<Longrightarrow>
     m \<in> {sc_result completion, Terminal TError, Terminal TCancelled}"
  by (auto simp: service_finish_standard_def co_finish_standard_def release_worker_def or_error_def Let_def
      split: if_splits prod.splits bool.splits option.splits dest!: finish_standard_reply)

lemma completion_typed: "server_message_typed result \<Longrightarrow> server_message_typed (sc_result (standard_completion_new active result))"
  by (cases result) (auto simp: standard_completion_new_def)

lemma dispatch_packet_reply:
  assumes "capabilities_ok (sn_config c)"
    and "dispatch_packet_with resolve recorded_owner packet now (c, v) = (CdReply r, s')"
  shows "\<exists>m. r = encoded_reply_new m \<and> server_message_typed m"
  using assms
  by (fastforce simp: dispatch_packet_with_def start_on_connection_def connection_reply_def
      split: sum.splits option.splits if_splits prod.splits scheduled_standard_dispatch.splits
      dest: service_dispatch_reply_typed)

lemma finish_worker_reply:
  assumes "server_message_typed result"
    and "finish_worker (standard_completion_new active result) now (c, v) = (CdReply r, s')"
  shows "\<exists>m. r = encoded_reply_new m \<and> server_message_typed m"
proof -
  from assms(2) obtain m where m: "r = encoded_reply_new m"
    "m \<in> {sc_result (standard_completion_new active result), Terminal TError, Terminal TCancelled}"
    by (auto simp: finish_worker_def connection_reply_def split: option.splits if_splits prod.splits
        dest!: service_finish_reply)
  with completion_typed [OF assms(1), of active] show ?thesis by fastforce
qed

subsection \<open>Connections on one service\<close>

text \<open>
  What happens on a connection, with the progress and the completion of a worker named by the position of
  the handle whose job it got, and sequences of such steps on several connections mixed with the operations of
  direct authentication.
\<close>

datatype connection_op =
    CnPacket "access_policy option" bytes nat
  | CnProgress nat enroll_progress
  | CnFinish nat fp_server_message nat
  | CnDisconnected | CnDeadline | CnLost

fun connection_step ::
  "(username \<Rightarrow> 'e + resolved_account) \<Rightarrow> connection_op \<Rightarrow> handle list \<Rightarrow> standard_connection \<times> broker_service
     \<Rightarrow> connection_dispatch option \<times> standard_connection \<times> broker_service" where
  "connection_step resolve (CnPacket recorded_owner packet now) hs s =
     (case dispatch_packet_with resolve recorded_owner packet now s of (d, s') \<Rightarrow> (Some d, s'))"
| "connection_step resolve (CnProgress j progress) hs (c, v) =
     (case lookup hs j of
        Some (HStandard t) \<Rightarrow>
          (case worker_progress \<lparr>wj_operation = ss_operation t, wj_deadline = ss_deadline t\<rparr> progress c of
             Inr r \<Rightarrow> (Some (CdReply r), c, v)
           | Inl e \<Rightarrow> (None, c, v))
      | _ \<Rightarrow> (None, c, v))"
| "connection_step resolve (CnFinish j result now) hs s =
     (case lookup hs j of
        Some (HStandard t) \<Rightarrow>
          (case finish_worker (job_completion \<lparr>wj_operation = ss_operation t, wj_deadline = ss_deadline t\<rparr> result) now s of
             (d, s') \<Rightarrow> (Some d, s'))
      | _ \<Rightarrow> (None, s))"
| "connection_step resolve CnDisconnected hs (c, v) = (None, c, snd (connection_disconnected c v))"
| "connection_step resolve CnDeadline hs (c, v) = (None, c, snd (connection_deadline_expired c v))"
| "connection_step resolve CnLost hs s = (case connection_worker_lost s of (d, s') \<Rightarrow> (Some d, s'))"

definition handles_after ::
  "connection_dispatch option \<Rightarrow> standard_connection \<Rightarrow> handle list \<Rightarrow> handle list" where
  "handles_after d c hs = (case (d, sn_active c) of
     (Some (CdStart job), Some s) \<Rightarrow> hs @ [HStandard s] | _ \<Rightarrow> hs)"

datatype daemon_op = OnConnection nat connection_op | OnService service_op

type_synonym daemon = "standard_connection list \<times> broker_service \<times> handle list"

fun daemon_step :: "(username \<Rightarrow> 'e + resolved_account) \<Rightarrow> daemon_op \<Rightarrow> daemon \<Rightarrow> daemon" where
  "daemon_step resolve (OnConnection i p) (cs, v, hs) =
     (if i < length cs
      then case connection_step resolve p hs (cs ! i, v) of (d, c, v') \<Rightarrow> (cs[i := c], v', handles_after d c hs)
      else (cs, v, hs))"
| "daemon_step resolve (OnService p) (cs, v, hs) = (cs, snd (service_exec p (v, hs)))"

lemma lookup_exists: "h \<in> set hs \<Longrightarrow> \<exists>i. lookup hs i = Some h"
  by (auto simp: lookup_def in_set_conv_nth)

text \<open>Every step on a connection is at most one operation of the service.\<close>

definition by_service :: "broker_service \<times> handle list \<Rightarrow> broker_service \<times> handle list \<Rightarrow> bool" where
  "by_service s s' \<longleftrightarrow> s' = s \<or> (\<exists>p. snd (service_exec p s) = s')"

lemma start_by_service:
  assumes "start_on_connection recorded_owner operation now (c, v) = (d, c', v')"
  shows "by_service (v, hs) (v', handles_after (Some d) c' hs)
    \<and> (c' = c \<and> (\<forall>job. d \<noteq> CdStart job) \<or> (\<exists>s job. c' = c\<lparr>sn_active := Some s\<rparr> \<and> d = CdStart job))"
proof -
  obtain e w where call: "service_dispatch_standard (sn_peer c) recorded_owner operation now v = (e, w)"
    by (cases "service_dispatch_standard (sn_peer c) recorded_owner operation now v")
  have "snd (service_exec (SvDispatchStandard (sn_peer c) recorded_owner operation now) (v, hs)) =
      (w, case e of StandardDispatchStart s \<Rightarrow> hs @ [HStandard s] | _ \<Rightarrow> hs)"
    using call by (cases e) simp_all
  then have "by_service (v, hs) (w, case e of StandardDispatchStart s \<Rightarrow> hs @ [HStandard s] | _ \<Rightarrow> hs)"
    unfolding by_service_def by blast
  with assms call show ?thesis
    by (cases e) (auto simp: start_on_connection_def handles_after_def connection_reply_def)
qed

lemma by_service_refl: "by_service s s"
  by (simp add: by_service_def)

lemma cancel_by_service:
  assumes "HStandard s \<in> set hs"
  shows "by_service (v, hs) (snd (service_cancel_standard s v), hs)"
    and "by_service (v, hs) (snd (service_standard_disconnected s v), hs)"
    and "by_service (v, hs) (snd (standard_worker_lost s v), hs)"
proof -
  obtain i where i: "lookup hs i = Some (HStandard s)" using lookup_exists [OF assms] by blast
  have "snd (service_exec (SvCancelStandard i) (v, hs)) = (snd (service_cancel_standard s v), hs)"
    "snd (service_exec (SvDisconnected i) (v, hs)) = (snd (service_standard_disconnected s v), hs)"
    "snd (service_exec (SvWorkerLost i) (v, hs)) = (snd (standard_worker_lost s v), hs)"
    using i by (auto simp: cancelled_events_def standard_worker_lost_def split: prod.splits)
  then show "by_service (v, hs) (snd (service_cancel_standard s v), hs)"
    "by_service (v, hs) (snd (service_standard_disconnected s v), hs)"
    "by_service (v, hs) (snd (standard_worker_lost s v), hs)"
    unfolding by_service_def by blast+
qed

lemma finish_by_service:
  assumes "HStandard s \<in> set hs" and "HStandard t \<in> set hs"
  shows "by_service (v, hs) (snd (service_finish_standard s (standard_completion_new (ss_operation t) result) now v), hs)"
proof -
  obtain i j where ij: "lookup hs i = Some (HStandard s)" "lookup hs j = Some (HStandard t)"
    using lookup_exists assms by metis
  have "snd (service_exec (SvFinishStandard i j result now) (v, hs)) =
      (snd (service_finish_standard s (standard_completion_new (ss_operation t) result) now v), hs)"
    using ij by (auto simp: ended_def split: prod.splits)
  then show ?thesis unfolding by_service_def by blast
qed

text \<open>A step leaves the connection's work as it is, drops it, or starts work of a fresh handle.\<close>

definition connection_moves :: "connection_dispatch option \<Rightarrow> standard_connection \<Rightarrow> standard_connection \<Rightarrow> bool" where
  "connection_moves d c c' \<longleftrightarrow> sn_peer c' = sn_peer c \<and> sn_config c' = sn_config c
     \<and> (if \<exists>job. d = Some (CdStart job) then sn_active c = None \<and> sn_active c' \<noteq> None
        else sn_active c' \<in> {None, sn_active c})"

lemma dispatch_packet_cases:
  assumes "dispatch_packet_with resolve recorded_owner packet now (c, v) = (d, c', v')"
  obtains (start) message operation where "sn_active c = None" "sn_opened c" "decode_client_message packet = Inr message"
      "resolve_operation resolve message = Some (Inr operation)"
      "start_on_connection recorded_owner operation now (c, v) = (d, c', v')"
    | (cancel) s where "sn_active c = Some s" "d = CdCancellationPending" "c' = c"
      "v' = snd (service_cancel_standard s v)"
    | (reply) m where "d = connection_reply m" "v' = v" "c' = c \<or> c' = c\<lparr>sn_opened := True\<rparr>"
proof (cases "decode_client_message packet")
  case (Inl e)
  with assms show thesis by (auto simp: dispatch_packet_with_def intro: reply)
next
  case (Inr message)
  show thesis
  proof (cases "sn_active c")
    case (Some s)
    with Inr assms show thesis
      by (cases "message = Cancel") (auto simp: dispatch_packet_with_def intro: reply cancel)
  next
    case None
    show thesis
    proof (cases "message \<in> {GetCapabilities, Open, Cancel} \<or> \<not> sn_opened c")
      case True
      with Inr None assms show thesis by (auto simp: dispatch_packet_with_def split: if_splits intro: reply)
    next
      case False
      with Inr None assms show thesis
        by (auto simp: dispatch_packet_with_def split: option.splits sum.splits intro: reply start)
    qed
  qed
qed

lemma packet_by_service:
  assumes active: "\<And>s. sn_active c = Some s \<Longrightarrow> HStandard s \<in> set hs"
    and call: "dispatch_packet_with resolve recorded_owner packet now (c, v) = (d, c', v')"
  shows "by_service (v, hs) (v', handles_after (Some d) c' hs) \<and> connection_moves (Some d) c c'"
proof -
  from call show ?thesis
  proof (cases rule: dispatch_packet_cases)
    case start
    from start_by_service [OF start(5), of hs] start(1) show ?thesis by (auto simp: connection_moves_def)
  next
    case cancel
    with cancel_by_service(1) [OF active] show ?thesis by (simp add: handles_after_def connection_moves_def)
  next
    case reply
    then show ?thesis by (auto simp: by_service_refl handles_after_def connection_reply_def connection_moves_def split: option.splits)
  qed
qed

lemma finish_worker_by_service:
  assumes active: "\<And>s. sn_active c = Some s \<Longrightarrow> HStandard s \<in> set hs" and t: "HStandard t \<in> set hs"
    and call: "finish_worker (standard_completion_new (ss_operation t) result) now (c, v) = (d, c', v')"
  shows "by_service (v, hs) (v', handles_after (Some d) c' hs) \<and> connection_moves (Some d) c c'"
proof (cases "sn_active c")
  case None
  with call show ?thesis by (auto simp: finish_worker_def by_service_def handles_after_def connection_moves_def)
next
  case (Some s)
  have "v' \<in> {snd (service_finish_standard s (standard_completion_new (ss_operation t) result) now v),
       snd (standard_worker_lost s v)} \<and> c' = c\<lparr>sn_active := None\<rparr> \<and> (\<forall>job. d \<noteq> CdStart job)"
    using Some call by (auto simp: finish_worker_def connection_reply_def split: if_splits prod.splits)
  with finish_by_service [OF active [OF Some] t] cancel_by_service(3) [OF active [OF Some]] show ?thesis
    by (auto simp: handles_after_def connection_moves_def split: connection_dispatch.splits)
qed

lemma progress_step:
  assumes "connection_step resolve (CnProgress j progress) hs (c, v) = (d, c', v')"
  shows "c' = c \<and> v' = v \<and> (d = None \<or> d = Some (CdReply (encoded_reply_new (EnrollProgress progress)))
    \<and> (\<exists>s t. sn_active c = Some s \<and> lookup hs j = Some (HStandard t)
         \<and> job_belongs_to \<lparr>wj_operation = ss_operation t, wj_deadline = ss_deadline t\<rparr> s
         \<and> resolved_kind (so_operation (as_operation (ss_operation t))) = KEnroll))"
  using assms by (auto simp: worker_progress_def split: option.splits handle.splits sum.splits if_splits)

lemma connection_step_by_service:
  assumes active: "\<And>s. sn_active c = Some s \<Longrightarrow> HStandard s \<in> set hs"
    and call: "connection_step resolve p hs (c, v) = (d, c', v')"
  shows "by_service (v, hs) (v', handles_after d c' hs) \<and> connection_moves d c c'"
proof (cases p)
  case (CnPacket recorded_owner packet now)
  with call obtain e where "d = Some e"
    "dispatch_packet_with resolve recorded_owner packet now (c, v) = (e, c', v')" by (auto split: prod.splits)
  with packet_by_service [where c = c, OF active] show ?thesis by blast
next
  case (CnProgress j progress)
  from progress_step [OF call [unfolded CnProgress]] show ?thesis
    by (auto simp: by_service_refl handles_after_def connection_moves_def)
next
  case (CnFinish j result now)
  show ?thesis
  proof (cases "\<exists>t. lookup hs j = Some (HStandard t)")
    case True
    then obtain t where t: "lookup hs j = Some (HStandard t)" by blast
    with CnFinish call obtain e where "d = Some e"
      "finish_worker (standard_completion_new (ss_operation t) result) now (c, v) = (e, c', v')"
      by (auto simp: job_completion_def split: prod.splits)
    with finish_worker_by_service [where c = c, OF active lookup_set [OF t]] show ?thesis by blast
  next
    case False
    with CnFinish call have "d = None \<and> c' = c \<and> v' = v" by (auto split: option.splits handle.splits)
    then show ?thesis by (simp add: by_service_def handles_after_def connection_moves_def)
  qed
qed (use call active in \<open>auto simp: connection_disconnected_def connection_deadline_expired_def
    service_standard_deadline_expired_def connection_worker_lost_def handles_after_def connection_moves_def
    split: option.splits intro: cancel_by_service by_service_refl\<close>)

subsection \<open>The invariant of all connections\<close>

definition daemon_inv :: "daemon \<Rightarrow> bool" where
  "daemon_inv D \<longleftrightarrow> (case D of (cs, v, hs) \<Rightarrow> session_inv v hs
     \<and> (\<forall>i s. i < length cs \<longrightarrow> sn_active (cs ! i) = Some s \<longrightarrow> HStandard s \<in> set hs)
     \<and> (\<forall>i j s. i < length cs \<longrightarrow> j < length cs \<longrightarrow> i \<noteq> j \<longrightarrow> sn_active (cs ! i) = Some s \<longrightarrow>
          sn_active (cs ! j) \<noteq> Some s))"

lemma dispatch_appends:
  "snd (snd (dispatch_events (v, hs) r)) = hs \<or> (\<exists>h. snd (snd (dispatch_events (v, hs) r)) = hs @ [h])"
  "snd (snd (standard_dispatch_events (v, hs) q)) = hs \<or> (\<exists>h. snd (snd (standard_dispatch_events (v, hs) q)) = hs @ [h])"
  by (cases "((v, hs), r)" rule: dispatch_events.cases; simp)
    (cases "((v, hs), q)" rule: standard_dispatch_events.cases; simp)

lemma service_exec_appends: "set hs \<subseteq> set (snd (snd (service_exec p (v, hs))))"
proof -
  have "set hs \<subseteq> set (snd (snd (dispatch_events (v, hs) r)))"
    "set hs \<subseteq> set (snd (snd (standard_dispatch_events (v, hs) q)))" for r q
    using dispatch_appends(1) [of v hs r] dispatch_appends(2) [of v hs q] by auto
  then show ?thesis
    by (cases p) (auto simp: ended_def cancelled_events_def split: option.splits handle.splits prod.splits)
qed

lemma by_service_inv:
  assumes "by_service (v, hs) (v', hs')" and "session_inv v hs"
  shows "session_inv v' hs' \<and> set hs \<subseteq> set hs'"
proof -
  have "session_inv v' hs' \<and> set hs \<subseteq> set hs'" if p: "snd (service_exec p (v, hs)) = (v', hs')" for p
  proof -
    obtain es where "service_exec p (v, hs) = (es, v', hs')" using p by (cases "service_exec p (v, hs)") simp
    then show ?thesis using service_exec_ok [OF assms(2), of p] service_exec_appends [of hs p v]
      by (simp add: run_ok_def)
  qed
  with assms show ?thesis by (auto simp: by_service_def)
qed

lemma handles_after_fresh:
  assumes "session_inv v (handles_after d c hs)" and "d = Some (CdStart job)" and "sn_active c = Some s"
  shows "HStandard s \<notin> set hs"
proof -
  from assms have "distinct (map h_token (hs @ [HStandard s]))" by (simp add: handles_after_def session_inv_def)
  then have "distinct (hs @ [HStandard s])" unfolding distinct_map by blast
  then show ?thesis by simp
qed

lemma daemon_step_inv:
  assumes "daemon_inv (cs, v, hs)"
  shows "daemon_inv (daemon_step resolve p (cs, v, hs))"
proof (cases p)
  case (OnService q)
  obtain v' hs' where q: "snd (service_exec q (v, hs)) = (v', hs')" by (cases "snd (service_exec q (v, hs))")
  then have "by_service (v, hs) (v', hs')" by (auto simp: by_service_def)
  from by_service_inv [OF this] assms show ?thesis unfolding OnService by (auto simp: daemon_inv_def q)
next
  case (OnConnection i q)
  show ?thesis
  proof (cases "i < length cs")
    case False
    with OnConnection assms show ?thesis by simp
  next
    case True
    obtain d c v' where q: "connection_step resolve q hs (cs ! i, v) = (d, c, v')"
      by (cases "connection_step resolve q hs (cs ! i, v)")
    let ?hs = "handles_after d c hs"
    have active: "HStandard s \<in> set hs" if "sn_active (cs ! i) = Some s" for s
      using assms True that by (auto simp: daemon_inv_def)
    have moves: "by_service (v, hs) (v', ?hs)" "connection_moves d (cs ! i) c"
      using connection_step_by_service [OF _ q] assms True by (auto simp: daemon_inv_def)
    have inv: "session_inv v hs" using assms by (simp add: daemon_inv_def)
    note kept = by_service_inv [OF moves(1) inv]
    have mine: "HStandard s \<in> set ?hs" if "sn_active c = Some s" for s
      using moves(2) that active kept by (auto simp: connection_moves_def handles_after_def split: if_splits)
    have other: "sn_active c \<noteq> Some s" if "j < length cs" "j \<noteq> i" "sn_active (cs ! j) = Some s" for j s
    proof (cases "\<exists>job. d = Some (CdStart job)")
      case True
      have "HStandard s \<in> set hs" using assms that by (simp add: daemon_inv_def)
      with True show ?thesis using handles_after_fresh [of v' d c hs _ s] kept by blast
    next
      case False
      have "sn_active (cs ! i) \<noteq> Some s" using assms that True unfolding daemon_inv_def by fast
      moreover from False moves(2) have "sn_active c \<in> {None, sn_active (cs ! i)}"
        by (simp add: connection_moves_def)
      ultimately show ?thesis by auto
    qed
    have old: "HStandard s \<in> set hs" if "j < length cs" "sn_active (cs ! j) = Some s" for j s
      using assms that unfolding daemon_inv_def by fast
    have apart: "sn_active (cs ! k) \<noteq> Some s"
      if "j < length cs" "k < length cs" "j \<noteq> k" "sn_active (cs ! j) = Some s" for j k s
      using assms that unfolding daemon_inv_def by fast
    have held: "HStandard s \<in> set ?hs" if "j < length cs" "sn_active (cs[i := c] ! j) = Some s" for j s
      using mine old kept that True by (cases "j = i") auto
    have "sn_active (cs[i := c] ! k) \<noteq> Some s"
      if "j < length cs" "k < length cs" "j \<noteq> k" "sn_active (cs[i := c] ! j) = Some s" for j k s
    proof (cases "j = i")
      case True
      with that have "sn_active c = Some s" "k \<noteq> i" by simp_all
      with other [of k s] that(2) show ?thesis by auto
    next
      case False
      with that have "sn_active (cs ! j) = Some s" by simp
      with other [of j s] apart [of j k s] that False True show ?thesis by (cases "k = i") simp_all
    qed
    then have "daemon_inv (cs[i := c], v', ?hs)"
      unfolding daemon_inv_def using kept held by simp
    then show ?thesis using True q by (simp add: OnConnection)
  qed
qed

text \<open>Only the connection whose work runs can change the service.\<close>

lemma active_is_unique:
  assumes "daemon_inv (cs, v, hs)" and "i < length cs" and "j < length cs" and "i \<noteq> j"
    and "is_active_in (cs ! j) v"
  shows "\<not> is_active_in (cs ! i) v"
proof
  assume "is_active_in (cs ! i) v"
  with assms(5) obtain s t where st: "sn_active (cs ! i) = Some s" "sn_active (cs ! j) = Some t"
    "service_owns (ss_service s) (ss_lease s) v" "service_owns (ss_service t) (ss_lease t) v"
    by (auto simp: is_active_in_def split: option.splits)
  from st(3,4) have "ss_lease s = ss_lease t" by (auto simp: service_owns_def owns_lease_def split: option.splits)
  moreover have "HStandard s \<in> set hs" "HStandard t \<in> set hs"
    using assms(1-3) st unfolding daemon_inv_def by fast+
  moreover have "distinct (map h_lease hs)" using assms(1) by (simp add: daemon_inv_def session_inv_def)
  ultimately have "s = t" by (metis distinct_map h_lease.simps(2) handle.inject(2) inj_onD)
  moreover have "sn_active (cs ! j) \<noteq> Some s" using assms(1-4) st(1) unfolding daemon_inv_def by fast
  ultimately show False using st(2) by simp
qed

lemma inactive_calls:
  assumes "\<not> service_owns (ss_service s) (ss_lease s) v"
  shows "service_cancel_standard s v = (False, v)" and "service_standard_disconnected s v = (False, v)"
    and "standard_worker_lost s v = (False, v)" and "service_finish_standard s completion now v = (Terminal TError, v)"
  using assms
  by (simp_all add: service_cancel_standard_def service_standard_disconnected_def standard_worker_lost_def
      service_worker_lost_def service_finish_standard_def)

lemma busy_dispatch:
  assumes inv: "session_inv v hs" and busy: "sc_active (bsv_workers v) \<noteq> None"
  shows "snd (service_dispatch_standard peer recorded_owner operation now v) = v
    \<and> (\<forall>s. fst (service_dispatch_standard peer recorded_owner operation now v) \<noteq> StandardDispatchStart s)"
proof -
  obtain d c where call: "co_dispatch_standard peer recorded_owner operation (bsv_coordinator v) = (d, c)"
    by (cases "co_dispatch_standard peer recorded_owner operation (bsv_coordinator v)")
  have "standard_outcome (bsv_coordinator v) (d, c)"
    using co_dispatch_standard_outcome [of "bsv_coordinator v" peer recorded_owner operation]
      session_inv_idle [OF inv] call by simp
  with busy session_inv_worker [OF inv] have "c = bsv_coordinator v \<and> (\<exists>m. d = StandardSessionReply m)"
    by (cases d) (auto simp: standard_outcome_def)
  with call show ?thesis by (auto simp: service_dispatch_standard_def schedule_standard_def)
qed

lemma inactive_connection_step:
  assumes inv: "session_inv v hs" and busy: "sc_active (bsv_workers v) \<noteq> None"
    and idle: "\<not> is_active_in c v" and call: "connection_step resolve p hs (c, v) = (d, c', v')"
  shows "v' = v \<and> handles_after d c' hs = hs"
proof -
  have calls: "service_cancel_standard s v = (False, v)" "service_standard_disconnected s v = (False, v)"
    "standard_worker_lost s v = (False, v)"
    "\<And>completion now. service_finish_standard s completion now v = (Terminal TError, v)"
    if "sn_active c = Some s" for s
    using inactive_calls that idle by (simp_all add: is_active_in_def)
  have start: "v' = v \<and> (\<forall>job. e \<noteq> CdStart job)"
    if "start_on_connection recorded_owner operation now (c, v) = (e, c', v')" for recorded_owner operation now e
    using busy_dispatch [OF inv busy, of "sn_peer c" recorded_owner operation now] that
    by (auto simp: start_on_connection_def connection_reply_def split: prod.splits scheduled_standard_dispatch.splits)
  have packet: "v' = v \<and> (\<forall>job. e \<noteq> CdStart job)"
    if "dispatch_packet_with resolve recorded_owner packet now (c, v) = (e, c', v')" for recorded_owner packet now e
    using that by (cases rule: dispatch_packet_cases) (auto simp: calls connection_reply_def dest: start)
  have finish: "v' = v \<and> (\<forall>job. e \<noteq> CdStart job)" if "finish_worker completion now (c, v) = (e, c', v')" for completion now e
    using that by (auto simp: finish_worker_def calls connection_reply_def split: option.splits if_splits)
  have progress: "v' = v \<and> (\<forall>job. d \<noteq> Some (CdStart job))" if "p = CnProgress j progress" for j progress
    using progress_step [OF call [unfolded that]] by auto
  have "v' = v \<and> (\<forall>job. d \<noteq> Some (CdStart job))"
    using call progress by (cases p) (auto simp: calls connection_disconnected_def connection_deadline_expired_def
        service_standard_deadline_expired_def connection_worker_lost_def
        split: option.splits handle.splits prod.splits dest: packet finish)
  then show ?thesis by (auto simp: handles_after_def split: option.splits connection_dispatch.splits)
qed

fun daemon_run :: "(username \<Rightarrow> 'e + resolved_account) \<Rightarrow> daemon_op list \<Rightarrow> daemon \<Rightarrow> daemon" where
  "daemon_run resolve [] D = D"
| "daemon_run resolve (p # ps) D = daemon_run resolve ps (daemon_step resolve p D)"

lemma daemon_run_inv: "daemon_inv D \<Longrightarrow> daemon_inv (daemon_run resolve ps D)"
proof (induction ps arbitrary: D)
  case (Cons p ps)
  then have "daemon_inv (daemon_step resolve p D)" using daemon_step_inv by (cases D) simp
  then show ?case using Cons.IH by simp
qed simp

lemma daemon_reachable:
  assumes "broker_service_new slot identity now idle_timeout = Inr v0" and "list_all (\<lambda>c. sn_active c = None) cs0"
    and "daemon_run resolve ops (cs0, v0, []) = (cs, v, hs)"
  shows "daemon_inv (cs, v, hs)"
proof -
  have "daemon_inv (cs0, v0, [])" using service_new(1) [OF assms(1)] assms(2) by (auto simp: daemon_inv_def list_all_length)
  from daemon_run_inv [OF this] assms(3) show ?thesis by metis
qed

lemma dispatched_operation:
  assumes "service_dispatch_standard peer recorded_owner operation now v = (StandardDispatchStart s, v')"
  shows "may_run peer recorded_owner operation \<and> so_operation (as_operation (ss_operation s)) = operation"
proof -
  from assms obtain active c where "co_dispatch_standard peer recorded_owner operation (bsv_coordinator v) = (StandardSessionStart active, c)"
    "ss_operation s = active"
    by (auto simp: service_dispatch_standard_def schedule_standard_def
        split: if_splits prod.splits standard_session_decision.splits worker_admission.splits)
  moreover from this(1) have
    "\<exists>st. dispatch_standard peer recorded_owner operation (co_state (bsv_coordinator v)) = (StandardStart (as_operation active), st)"
    by (auto simp: co_dispatch_standard_def install_standard_decision_def Let_def
        split: prod.splits standard_decision.splits bool.splits)
  ultimately show ?thesis using dispatch_standard_outcome started_standard_fields by metis
qed

text \<open>A concrete daemon with two connections of root: the first opens and lists identities.\<close>

definition demo_open :: bytes where
  "demo_open = FP_MAGIC @ [FP_VERSION, 2, 0, 0, 0, 0, 0, 0]"

definition demo_list :: bytes where
  "demo_list = FP_MAGIC @ [FP_VERSION, 3, 0, 0, 0, 0, 0, 0]"

definition demo_connection :: standard_connection where
  "demo_connection = \<lparr>sn_peer = \<lparr>peer_family = FamilyLocal, peer_user_id = 0, peer_group_id = 0\<rparr>,
     sn_config = \<lparr>cap_operations = 0x3f, cap_max_enroll_stages = 5, cap_max_identities = 5\<rparr>,
     sn_opened = False, sn_active = None\<rparr>"

definition demo_resolve :: "username \<Rightarrow> unit + resolved_account" where
  "demo_resolve u = Inl ()"

definition demo_daemon :: daemon where
  "demo_daemon = daemon_run demo_resolve
     [OnConnection 0 (CnPacket None demo_open 0), OnConnection 0 (CnPacket None demo_list 1)]
     ([demo_connection, demo_connection], demo_service, [])"

lemma demo_packets: "decode_client_message demo_open = Inr Open" "decode_client_message demo_list = Inr ListIdentities"
  by (simp_all add: demo_open_def demo_list_def decode_client_message_def decode_packet_def read_client_def
      require_empty_def FP_MAGIC_def from_be_def)

lemma demo_daemon_active:
  "length (fst demo_daemon) = 2 \<and> is_active_in (fst demo_daemon ! 0) (fst (snd demo_daemon))"
  by (simp add: demo_daemon_def demo_service_def demo_connection_def dispatch_packet_with_def demo_packets
      connection_reply_def start_on_connection_def service_dispatch_standard_def schedule_standard_def
      co_dispatch_standard_def install_standard_decision_def dispatch_standard_def authorize_standard_def
      is_active_in_def service_eval)

subsection \<open>Properties\<close>

text \<open>
  C22. On a daemon that serves any number of connections and direct authentication from one broker service,
  after any sequence of operations: while the work of one connection runs, nothing that happens on another
  connection (packets, progress, completions, disconnection, deadline, worker loss) changes the service, its handles
  or the first connection.
\<close>

theorem connections_are_isolated:
  assumes "broker_service_new slot identity now idle_timeout = Inr v0" and "list_all (\<lambda>c. sn_active c = None) cs0"
    and "daemon_run resolve ops (cs0, v0, []) = (cs, v, hs)"
    and "i < length cs" and "j < length cs" and "i \<noteq> j" and "is_active_in (cs ! j) v"
    and "daemon_step resolve (OnConnection i p) (cs, v, hs) = (cs', v', hs')"
  shows "v' = v \<and> hs' = hs \<and> cs' ! j = cs ! j \<and> is_active_in (cs' ! j) v'"
proof -
  note inv = daemon_reachable [OF assms(1-3)]
  then have service: "session_inv v hs" by (simp add: daemon_inv_def)
  have busy: "sc_active (bsv_workers v) \<noteq> None"
    using assms(7) by (auto simp: is_active_in_def service_owns_def owns_lease_def split: option.splits)
  obtain d c w where q: "connection_step resolve p hs (cs ! i, v) = (d, c, w)"
    by (cases "connection_step resolve p hs (cs ! i, v)")
  from inactive_connection_step [OF service busy active_is_unique [OF inv assms(4-7)] q] q assms(4-8)
  show ?thesis by auto
qed

theorem connections_are_isolated_witness:
  "\<exists>cs v hs cs'. demo_daemon = (cs, v, hs) \<and> cs' ! 0 = cs ! 0 \<and>
     daemon_step demo_resolve (OnConnection 1 (CnPacket None demo_list 2)) (cs, v, hs) = (cs', v, hs)"
proof -
  obtain cs v hs where D: "demo_daemon = (cs, v, hs)" by (cases demo_daemon)
  have active: "1 < length cs" "0 < length cs" "is_active_in (cs ! 0) v"
    using demo_daemon_active unfolding D by auto
  obtain cs' v' hs' where step: "daemon_step demo_resolve (OnConnection 1 (CnPacket None demo_list 2)) (cs, v, hs) = (cs', v', hs')"
    by (cases "daemon_step demo_resolve (OnConnection 1 (CnPacket None demo_list 2)) (cs, v, hs)")
  have "list_all (\<lambda>c. sn_active c = None) [demo_connection, demo_connection]" by (simp add: demo_connection_def)
  from connections_are_isolated [OF demo_new this D [unfolded demo_daemon_def] active(1,2) _ active(3) step]
  have "v' = v" "hs' = hs" "cs' ! 0 = cs ! 0" by simp_all
  then show ?thesis using D step by blast
qed

text \<open>
  C37. Every reply of a connection, to a packet, to the progress of an enrollment or at the end of its
  work, is a packet of the standard protocol that decodes to the very message the connection keeps with it,
  whatever the name service answers and whatever result of valid parts the worker reports. Progress is
  passed on exactly as reported, only for the worker of the connection's own active work and only for an
  enrollment, and changes neither the connection nor the service.
\<close>

theorem connection_replies_decode:
  assumes "standard_config_new stages = Inr (sn_config c)"
    and "\<And>j result now. p = CnFinish j result now \<Longrightarrow> server_message_typed result"
    and "\<And>j progress. p = CnProgress j progress \<Longrightarrow>
      enroll_progress_new (ep_completed_stage progress) (ep_total_stages progress) = Inr progress"
    and "connection_step resolve p hs (c, v) = (Some (CdReply r), c', v')"
  shows "decode_server_message (er_packet r) = Inr (er_message r)
    \<and> (\<forall>j progress. p = CnProgress j progress \<longrightarrow>
         er_message r = EnrollProgress progress \<and> c' = c \<and> v' = v
         \<and> (\<exists>s t. sn_active c = Some s \<and> lookup hs j = Some (HStandard t)
              \<and> job_belongs_to \<lparr>wj_operation = ss_operation t, wj_deadline = ss_deadline t\<rparr> s
              \<and> resolved_kind (so_operation (as_operation (ss_operation t))) = KEnroll))"
proof (cases "\<exists>j progress. p = CnProgress j progress")
  case True
  then obtain j progress where p: "p = CnProgress j progress" by blast
  note step = progress_step [OF assms(4) [unfolded p]]
  then have r: "r = encoded_reply_new (EnrollProgress progress)" by auto
  have ok: "server_message_ok (EnrollProgress progress)" using assms(3) [OF p] by simp
  then obtain packet where "encode_server_message (EnrollProgress progress) = Inr packet"
    using encode_server_message_ok by blast
  then have "er_message r = EnrollProgress progress" by (simp add: r encoded_reply_new_def)
  with encoded_reply_decodes [of "EnrollProgress progress"] ok step p r show ?thesis by auto
next
  case False
  note config = config_ok [OF assms(1)]
  have "\<exists>m. r = encoded_reply_new m \<and> server_message_typed m"
  proof (cases p)
    case (CnPacket recorded_owner packet now)
    with assms(4) have "dispatch_packet_with resolve recorded_owner packet now (c, v) = (CdReply r, c', v')"
      by (auto split: prod.splits)
    then show ?thesis by (rule dispatch_packet_reply [OF config])
  next
    case (CnFinish j result now)
    with assms(4) obtain t :: scheduled_standard where "finish_worker (standard_completion_new (ss_operation t) result) now (c, v) = (CdReply r, c', v')"
      by (auto simp: job_completion_def split: option.splits handle.splits prod.splits)
    then show ?thesis by (rule finish_worker_reply [OF assms(2) [OF CnFinish]])
  qed (use assms(4) False in \<open>auto simp: connection_worker_lost_def split: option.splits prod.splits\<close>)
  then show ?thesis using encoded_reply_decodes False by blast
qed

theorem connection_replies_decode_witness:
  "\<exists>r c. connection_step demo_resolve (CnPacket None demo_open 0) [] (demo_connection, demo_service) =
       (Some (CdReply r), c, demo_service)
     \<and> er_message r = Opened \<and> decode_server_message (er_packet r) = Inr Opened"
proof -
  have config: "standard_config_new 5 = Inr (sn_config demo_connection)"
    by (simp add: standard_config_new_def demo_connection_def capabilities_new_def capability_contains_def)
  have step: "connection_step demo_resolve (CnPacket None demo_open 0) [] (demo_connection, demo_service) =
      (Some (CdReply (encoded_reply_new Opened)), demo_connection\<lparr>sn_opened := True\<rparr>, demo_service)"
    by (simp add: dispatch_packet_with_def demo_packets connection_reply_def demo_connection_def)
  have "decode_server_message (er_packet (encoded_reply_new Opened)) = Inr (er_message (encoded_reply_new Opened))"
    using connection_replies_decode [OF config _ _ step] by simp
  moreover have "er_message (encoded_reply_new Opened) = Opened"
    using encode_server_message_ok [of Opened] by (auto simp: encoded_reply_new_def simp del: encode_server_message.simps)
  ultimately show ?thesis using step by auto
qed

text \<open>
  A packet starts work only on an opened connection without work, for the operation it decodes and
  resolves to, and only if that operation is allowed to the connection's peer; the job then belongs to the
  connection. While work is active a cancellation waits for the worker's completion and every other
  request is answered Busy, without any effect.
\<close>

theorem connection_work_is_authorized:
  assumes "dispatch_packet_with resolve recorded_owner packet now (c, v) = (d, c', v')"
  shows "(\<forall>job. d = CdStart job \<longrightarrow> sn_active c = None \<and> sn_opened c
      \<and> (\<exists>message operation. decode_client_message packet = Inr message
           \<and> resolve_operation resolve message = Some (Inr operation)
           \<and> may_run (sn_peer c) recorded_owner operation
           \<and> so_operation (as_operation (wj_operation job)) = operation)
      \<and> (\<exists>s. sn_active c' = Some s \<and> job_belongs_to job s))
    \<and> (\<forall>message. sn_active c \<noteq> None \<and> decode_client_message packet = Inr message \<longrightarrow> c' = c
      \<and> (if message = Cancel then d = CdCancellationPending else d = connection_reply (Terminal TBusy) \<and> v' = v))"
proof -
  have "sn_active c = None \<and> sn_opened c
      \<and> (\<exists>message operation. decode_client_message packet = Inr message
           \<and> resolve_operation resolve message = Some (Inr operation)
           \<and> may_run (sn_peer c) recorded_owner operation
           \<and> so_operation (as_operation (wj_operation job)) = operation)
      \<and> (\<exists>s. sn_active c' = Some s \<and> job_belongs_to job s)" if job: "d = CdStart job" for job
    using assms
  proof (cases rule: dispatch_packet_cases)
    case (start message operation)
    from start(5) job obtain s where s: "service_dispatch_standard (sn_peer c) recorded_owner operation now v = (StandardDispatchStart s, v')"
      "wj_operation job = ss_operation s" "sn_active c' = Some s"
      by (auto simp: start_on_connection_def connection_reply_def split: prod.splits scheduled_standard_dispatch.splits)
    from dispatched_operation [OF s(1)] start s show ?thesis
      by (auto simp: job_belongs_to_def job_completion_def standard_completion_new_def standard_completion_belongs_to_def)
  qed (use job in \<open>auto simp: connection_reply_def\<close>)
  moreover have "c' = c \<and> (if message = Cancel then d = CdCancellationPending
      else d = connection_reply (Terminal TBusy) \<and> v' = v)"
    if "sn_active c \<noteq> None" "decode_client_message packet = Inr message" for message
    using assms that by (auto simp: dispatch_packet_with_def split: if_splits)
  ultimately show ?thesis by blast
qed

theorem connection_work_is_authorized_witness:
  "\<exists>job c v. dispatch_packet_with demo_resolve None demo_list 1 (demo_connection\<lparr>sn_opened := True\<rparr>, demo_service) =
       (CdStart job, c, v) \<and> so_operation (as_operation (wj_operation job)) = OList"
proof -
  let ?call = "dispatch_packet_with demo_resolve None demo_list 1 (demo_connection\<lparr>sn_opened := True\<rparr>, demo_service)"
  have "\<exists>job. fst ?call = CdStart job"
    by (simp add: demo_service_def demo_connection_def dispatch_packet_with_def demo_packets
      connection_reply_def start_on_connection_def service_dispatch_standard_def schedule_standard_def
      co_dispatch_standard_def install_standard_decision_def dispatch_standard_def authorize_standard_def
      service_eval)
  then obtain job c v where call: "?call = (CdStart job, c, v)" by (metis prod.collapse)
  from connection_work_is_authorized [OF call] have "so_operation (as_operation (wj_operation job)) = OList"
    by (auto simp: demo_packets)
  with call show ?thesis by blast
qed

end
