(* ===== verification/Bplist.thy ===== *)
theory Bplist
  imports T1_Cursor
begin

section \<open>Binary property lists\<close>

text \<open>
  Models \<^verbatim>\<open>crates/t1-bridge/src/bplist.rs\<close>: the bounded codec of the binary property
  lists that BridgeXPC frames carry. Positions, lengths and reference numbers are machine words of 64
  bits in the code and natural numbers here, with the checked operations written out; a text is the list
  of its Unicode scalar values; a dictionary, an ordered map in the code, is the list of its entries in
  the order of their keys. The recursion of the decoder is bounded by the depth limit, which is its
  termination measure.
\<close>

subsection \<open>Text\<close>

text \<open>What the code uses of Rust's strings: lengths in UTF-8, ASCII test, UTF-8 and UTF-16 conversion.\<close>

type_synonym scalars = "nat list"

definition scalar_ok :: "nat \<Rightarrow> bool" where
  "scalar_ok c \<longleftrightarrow> c < 0x110000 \<and> \<not> (0xD800 \<le> c \<and> c < 0xE000)"

definition utf8_length :: "nat \<Rightarrow> nat" where
  "utf8_length c = (if c < 0x80 then 1 else if c < 0x800 then 2 else if c < 0x10000 then 3 else 4)"

definition string_len :: "scalars \<Rightarrow> nat" where
  "string_len t = sum_list (map utf8_length t)"

definition is_ascii :: "scalars \<Rightarrow> bool" where
  "is_ascii t \<longleftrightarrow> list_all (\<lambda>c. c < 0x80) t"

fun utf16_units :: "nat \<Rightarrow> nat list" where
  "utf16_units c = (if c < 0x10000 then [c]
     else [0xD800 + (c - 0x10000) div 0x400, 0xDC00 + (c - 0x10000) mod 0x400])"

definition encode_utf16 :: "scalars \<Rightarrow> nat list" where
  "encode_utf16 t = concat (map utf16_units t)"

fun decode_utf16 :: "nat list \<Rightarrow> scalars option" where
  "decode_utf16 [] = Some []"
| "decode_utf16 (u # us) =
     (if u < 0xD800 \<or> 0xE000 \<le> u then map_option (Cons u) (decode_utf16 us)
      else if 0xDC00 \<le> u then None
      else case us of
        [] \<Rightarrow> None
      | w # ws \<Rightarrow>
          if 0xDC00 \<le> w \<and> w < 0xE000
          then map_option (Cons (0x10000 + (u - 0xD800) * 0x400 + (w - 0xDC00))) (decode_utf16 ws)
          else None)"

text \<open>The scalar values of well-formed UTF-8.\<close>

fun utf8_scalars :: "bytes \<Rightarrow> scalars" where
  "utf8_scalars [] = []"
| "utf8_scalars (a # bs) =
     (if a \<le> 0x7F then unat a # utf8_scalars bs
      else if a \<le> 0xDF then
        (case bs of b # cs \<Rightarrow> ((unat a - 0xC0) * 0x40 + (unat b - 0x80)) # utf8_scalars cs | _ \<Rightarrow> [])
      else if a \<le> 0xEF then
        (case bs of b # c # ds \<Rightarrow>
            ((unat a - 0xE0) * 0x1000 + (unat b - 0x80) * 0x40 + (unat c - 0x80)) # utf8_scalars ds
         | _ \<Rightarrow> [])
      else
        (case bs of b # c # d # es \<Rightarrow>
            ((unat a - 0xF0) * 0x40000 + (unat b - 0x80) * 0x1000 + (unat c - 0x80) * 0x40 + (unat d - 0x80))
              # utf8_scalars es
         | _ \<Rightarrow> []))"

definition str_from_utf8 :: "bytes \<Rightarrow> scalars option" where
  "str_from_utf8 bs = (if utf8_valid bs then Some (utf8_scalars bs) else None)"

subsection \<open>Values and limits\<close>

definition BPLIST_HEADER :: bytes where
  "BPLIST_HEADER = [0x62, 0x70, 0x6c, 0x69, 0x73, 0x74, 0x30, 0x30]"

definition TRAILER_SIZE :: nat where [simp]: "TRAILER_SIZE = 32"
definition MAX_PLIST_SIZE :: nat where "MAX_PLIST_SIZE = 16 * 1024 * 1024"
definition MAX_OBJECTS :: nat where "MAX_OBJECTS = 262144"
definition MAX_REFERENCES :: nat where "MAX_REFERENCES = 1048576"
definition MAX_DEPTH :: nat where "MAX_DEPTH = 64"
definition MAX_DECODED_NODES :: nat where "MAX_DECODED_NODES = 1048576"
definition MAX_VALUE_BYTES :: nat where "MAX_VALUE_BYTES = MAX_PLIST_SIZE"

lemma bplist_header_length [simp]: "length BPLIST_HEADER = 8"
  by (simp add: BPLIST_HEADER_def)

datatype plist =
    PNull | PBoolean bool | PInteger int | PData bytes | PString scalars
  | PArray "plist list" | PDictionary "(scalars \<times> plist) list"

datatype plist_error =
    InputTooLarge | OutputTooLarge | InvalidHeader | InvalidTrailer | LimitExceeded | Malformed
  | Unsupported | IntegerOutOfRange

datatype object_kind = KNull | KBoolean | KInteger | KData | KString | KArray | KDictionary

record scanned_object =
  sob_kind :: object_kind
  sob_children :: "nat list"
  sob_key_count :: nat

subsection \<open>Reading\<close>

lemma rbind_cong [fundef_cong]:
  "m = n \<Longrightarrow> (\<And>x. n = Inr x \<Longrightarrow> f x = g x) \<Longrightarrow> rbind m f = rbind n g"
  by (cases n) auto

definition read_byte :: "bytes \<Rightarrow> nat \<Rightarrow> nat \<Rightarrow> plist_error + u8 \<times> nat" where
  "read_byte input cursor stop =
     (if cursor < length input \<and> cursor < stop then Inr (input ! cursor, cursor + 1) else Inl Malformed)"

definition take_bytes :: "bytes \<Rightarrow> nat \<Rightarrow> nat \<Rightarrow> nat \<Rightarrow> plist_error + bytes \<times> nat" where
  "take_bytes input cursor stop count =
     (if cursor + count \<ge> 2 ^ 64 then Inl LimitExceeded
      else if cursor + count > stop then Inl Malformed
      else if cursor + count > length input then Inl Malformed
      else Inr (slice cursor (cursor + count) input, cursor + count))"

text \<open>At most eight bytes, so the shifts of the code lose nothing.\<close>

definition be_nat :: "bytes \<Rightarrow> nat" where
  "be_nat bs = foldl (\<lambda>v b. v * 256 + unat b) 0 bs"

definition read_be_u64 :: "bytes \<Rightarrow> plist_error + nat" where
  "read_be_u64 bs = (if bs = [] \<or> length bs > 8 then Inl Malformed else Inr (be_nat bs))"

definition integer_width :: "u8 \<Rightarrow> plist_error + nat" where
  "integer_width low = (if low \<le> 4 then Inr (2 ^ unat low) else Inl Unsupported)"

definition signed_of :: "nat \<Rightarrow> nat \<Rightarrow> int" where
  "signed_of bits v = (if v < 2 ^ (bits - 1) then int v else int v - 2 ^ bits)"

definition decode_integer :: "bytes \<Rightarrow> plist_error + int" where
  "decode_integer bs =
     (if length bs \<in> {1, 2, 4} then Inr (int (be_nat bs))
      else if length bs = 8 then Inr (signed_of 64 (be_nat bs))
      else if length bs = 16 then
        let value = signed_of 128 (be_nat bs) in
        if value < - (2 ^ 63) \<or> value > 2 ^ 64 - 1 then Inl IntegerOutOfRange else Inr value
      else Inl Unsupported)"

definition read_length :: "bytes \<Rightarrow> nat \<Rightarrow> nat \<Rightarrow> u8 \<Rightarrow> plist_error + nat \<times> nat" where
  "read_length input cursor stop low =
     (if low < 0x0f then Inr (unat low, cursor)
      else rbind (read_byte input cursor stop) (\<lambda>(marker, cursor).
        if marker AND 0xf0 \<noteq> 0x10 then Inl Malformed
        else rbind (integer_width (marker AND 0x0f)) (\<lambda>width.
          if width > 8 then Inl LimitExceeded
          else rbind (take_bytes input cursor stop width) (\<lambda>(bs, cursor).
            rbind (read_be_u64 bs) (\<lambda>n.
              if n > max MAX_REFERENCES MAX_PLIST_SIZE then Inl LimitExceeded else Inr (n, cursor))))))"

definition utf16_pairs :: "bytes \<Rightarrow> nat list" where
  "utf16_pairs bs = map be_nat (chunks 2 bs)"

definition validate_utf16 :: "bytes \<Rightarrow> plist_error + unit" where
  "validate_utf16 bs = (if decode_utf16 (utf16_pairs bs) = None then Inl Malformed else Inr ())"

fun check_references :: "nat \<Rightarrow> bytes list \<Rightarrow> plist_error + nat list" where
  "check_references object_count [] = Inr []"
| "check_references object_count (raw # rest) =
     rbind (read_be_u64 raw) (\<lambda>reference.
       if reference \<ge> object_count then Inl Malformed
       else rbind (check_references object_count rest) (\<lambda>references. Inr (reference # references)))"

definition read_references ::
  "bytes \<Rightarrow> nat \<Rightarrow> nat \<Rightarrow> nat \<Rightarrow> nat \<Rightarrow> nat \<Rightarrow> plist_error + nat list \<times> nat" where
  "read_references input cursor stop count reference_size object_count =
     (if count > MAX_REFERENCES then Inl LimitExceeded
      else if count * reference_size \<ge> 2 ^ 64 then Inl LimitExceeded
      else rbind (take_bytes input cursor stop (count * reference_size)) (\<lambda>(bs, cursor).
        rbind (check_references object_count (chunks reference_size bs)) (\<lambda>references.
          Inr (references, cursor))))"

definition scan_object :: "bytes \<Rightarrow> nat \<Rightarrow> nat \<Rightarrow> nat \<Rightarrow> nat \<Rightarrow> plist_error + scanned_object" where
  "scan_object input start stop reference_size object_count =
     rbind (read_byte input start stop) (\<lambda>(marker, cursor).
       let high = marker AND 0xf0; low = marker AND 0x0f in
       rbind
         (if marker = 0x00 then Inr (KNull, [], 0, cursor)
          else if marker = 0x08 \<or> marker = 0x09 then Inr (KBoolean, [], 0, cursor)
          else if high = 0x10 then
            rbind (integer_width low) (\<lambda>width.
            rbind (take_bytes input cursor stop width) (\<lambda>(bs, cursor).
            rbind (decode_integer bs) (\<lambda>_. Inr (KInteger, [], 0, cursor))))
          else if high = 0x40 then
            rbind (read_length input cursor stop low) (\<lambda>(n, cursor).
            rbind (take_bytes input cursor stop n) (\<lambda>(bs, cursor). Inr (KData, [], 0, cursor)))
          else if high = 0x50 then
            rbind (read_length input cursor stop low) (\<lambda>(n, cursor).
            rbind (take_bytes input cursor stop n) (\<lambda>(bs, cursor).
              if list_all (\<lambda>b. b < 0x80) bs then Inr (KString, [], 0, cursor) else Inl Malformed))
          else if high = 0x60 then
            rbind (read_length input cursor stop low) (\<lambda>(units, cursor).
              if units * 2 \<ge> 2 ^ 64 then Inl LimitExceeded
              else rbind (take_bytes input cursor stop (units * 2)) (\<lambda>(bs, cursor).
                rbind (validate_utf16 bs) (\<lambda>_. Inr (KString, [], 0, cursor))))
          else if high = 0xa0 then
            rbind (read_length input cursor stop low) (\<lambda>(count, cursor).
            rbind (read_references input cursor stop count reference_size object_count) (\<lambda>(children, cursor).
              Inr (KArray, children, 0, cursor)))
          else if high = 0xd0 then
            rbind (read_length input cursor stop low) (\<lambda>(count, cursor).
              if count * 2 \<ge> 2 ^ 64 then Inl LimitExceeded
              else rbind (read_references input cursor stop (count * 2) reference_size object_count)
                (\<lambda>(children, cursor). Inr (KDictionary, children, count, cursor)))
          else Inl Unsupported)
         (\<lambda>(kind, children, key_count, cursor).
            if cursor \<noteq> stop then Inl Malformed
            else Inr \<lparr>sob_kind = kind, sob_children = children, sob_key_count = key_count\<rparr>))"

subsection \<open>Cycles\<close>

function validate_acyclic :: "nat \<Rightarrow> scanned_object list \<Rightarrow> nat list \<Rightarrow> nat \<Rightarrow> plist_error + nat list"
  and validate_children :: "nat list \<Rightarrow> scanned_object list \<Rightarrow> nat list \<Rightarrow> nat \<Rightarrow> plist_error + nat list" where
  "validate_acyclic index objects colors depth =
     (if depth > MAX_DEPTH then Inl LimitExceeded
      else if colors ! index = 1 then Inl Malformed
      else if colors ! index = 2 then Inr colors
      else rbind (validate_children (sob_children (objects ! index)) objects (colors[index := 1]) (depth + 1))
        (\<lambda>colors. Inr (colors[index := 2])))"
| "validate_children [] objects colors depth = Inr colors"
| "validate_children (child # children) objects colors depth =
     rbind (validate_acyclic child objects colors depth) (\<lambda>colors.
       validate_children children objects colors depth)"
  by pat_completeness auto
termination
  by (relation "measures [\<lambda>s. case s of Inl (i, os, cs, d) \<Rightarrow> Suc MAX_DEPTH - d | Inr (xs, os, cs, d) \<Rightarrow> Suc MAX_DEPTH - d,
      \<lambda>s. case s of Inl _ \<Rightarrow> 0 | Inr (xs, os, cs, d) \<Rightarrow> Suc (length xs)]") auto

declare validate_acyclic.simps [simp del]

fun validate_all :: "nat list \<Rightarrow> scanned_object list \<Rightarrow> nat list \<Rightarrow> plist_error + nat list" where
  "validate_all [] objects colors = Inr colors"
| "validate_all (index # rest) objects colors =
     rbind (validate_acyclic index objects colors 0) (\<lambda>colors. validate_all rest objects colors)"

subsection \<open>Decoding one object\<close>

record decode_budget =
  db_nodes :: nat
  db_value_bytes :: nat

definition charge_bytes :: "decode_budget \<Rightarrow> nat \<Rightarrow> plist_error + decode_budget" where
  "charge_bytes budget amount =
     (if db_value_bytes budget + amount \<ge> 2 ^ 64 then Inl LimitExceeded
      else if db_value_bytes budget + amount > MAX_VALUE_BYTES then Inl LimitExceeded
      else Inr (budget\<lparr>db_value_bytes := db_value_bytes budget + amount\<rparr>))"

definition charge_node :: "decode_budget \<Rightarrow> plist_error + decode_budget" where
  "charge_node budget =
     (if db_nodes budget + 1 \<ge> 2 ^ 64 then Inl LimitExceeded
      else if db_nodes budget + 1 > MAX_DECODED_NODES then Inl LimitExceeded
      else Inr (budget\<lparr>db_nodes := db_nodes budget + 1\<rparr>))"

text \<open>The order of strings is the order of their bytes in UTF-8, which is that of their scalar values.\<close>

fun scalars_less :: "scalars \<Rightarrow> scalars \<Rightarrow> bool" where
  "scalars_less xs [] = False"
| "scalars_less [] (y # ys) = True"
| "scalars_less (x # xs) (y # ys) = (x < y \<or> x = y \<and> scalars_less xs ys)"

text \<open>Insertion into an ordered map: the new map and whether the key was present.\<close>

fun dictionary_insert :: "scalars \<Rightarrow> plist \<Rightarrow> (scalars \<times> plist) list \<Rightarrow> (scalars \<times> plist) list \<times> bool" where
  "dictionary_insert k v [] = ([(k, v)], False)"
| "dictionary_insert k v ((l, w) # rest) =
     (if k = l then ((k, v) # rest, True)
      else if scalars_less k l then ((k, v) # (l, w) # rest, False)
      else case dictionary_insert k v rest of (rest', present) \<Rightarrow> ((l, w) # rest', present))"

text \<open>The table of a document: its bytes, the offsets of its objects, where they end, and the scan.\<close>

record object_table =
  ot_input :: bytes
  ot_offsets :: "nat list"
  ot_ends :: "nat \<rightharpoonup> nat"
  ot_scanned :: "scanned_object list"

text \<open>Objects without children.\<close>

definition decode_leaf :: "object_table \<Rightarrow> object_kind \<Rightarrow> u8 \<Rightarrow> nat \<Rightarrow> nat \<Rightarrow> decode_budget
    \<Rightarrow> plist_error + plist \<times> decode_budget" where
  "decode_leaf T kind marker cursor stop budget =
     (let high = marker AND 0xf0; low = marker AND 0x0f in
      case kind of
        KNull \<Rightarrow> Inr (PNull, budget)
      | KBoolean \<Rightarrow> Inr (PBoolean (marker = 0x09), budget)
      | KInteger \<Rightarrow>
          rbind (integer_width low) (\<lambda>width.
          rbind (take_bytes (ot_input T) cursor stop width) (\<lambda>(bs, cursor).
          rbind (decode_integer bs) (\<lambda>n. Inr (PInteger n, budget))))
      | KData \<Rightarrow>
          rbind (read_length (ot_input T) cursor stop low) (\<lambda>(n, cursor).
          rbind (charge_bytes budget n) (\<lambda>budget.
          rbind (take_bytes (ot_input T) cursor stop n) (\<lambda>(bs, cursor). Inr (PData bs, budget))))
      | KString \<Rightarrow>
          if high = 0x50 then
            rbind (read_length (ot_input T) cursor stop low) (\<lambda>(n, cursor).
            rbind (charge_bytes budget n) (\<lambda>budget.
            rbind (take_bytes (ot_input T) cursor stop n) (\<lambda>(bs, cursor).
            rbind (ok_or (str_from_utf8 bs) Malformed) (\<lambda>t. Inr (PString t, budget)))))
          else
            rbind (read_length (ot_input T) cursor stop low) (\<lambda>(units, cursor).
              if units * 2 \<ge> 2 ^ 64 then Inl LimitExceeded
              else rbind (charge_bytes budget (units * 2)) (\<lambda>budget.
                rbind (take_bytes (ot_input T) cursor stop (units * 2)) (\<lambda>(bs, cursor).
                rbind (ok_or (decode_utf16 (utf16_pairs bs)) Malformed) (\<lambda>t. Inr (PString t, budget)))))
      | _ \<Rightarrow> Inl Malformed)"

function decode_object :: "object_table \<Rightarrow> nat \<Rightarrow> nat \<Rightarrow> decode_budget \<Rightarrow> plist_error + plist \<times> decode_budget"
  and decode_elements :: "object_table \<Rightarrow> nat list \<Rightarrow> nat \<Rightarrow> decode_budget \<Rightarrow> plist_error + plist list \<times> decode_budget"
  and decode_entries :: "object_table \<Rightarrow> (nat \<times> nat) list \<Rightarrow> nat \<Rightarrow> (scalars \<times> plist) list \<Rightarrow> decode_budget
    \<Rightarrow> plist_error + (scalars \<times> plist) list \<times> decode_budget" where
  "decode_object T index depth budget =
     (if depth > MAX_DEPTH then Inl LimitExceeded
      else rbind (charge_node budget) (\<lambda>budget.
        let start = ot_offsets T ! index; object = ot_scanned T ! index in
        rbind (ok_or (ot_ends T start) Malformed) (\<lambda>stop.
        rbind (read_byte (ot_input T) start stop) (\<lambda>(marker, cursor).
          if sob_kind object = KArray then
            rbind (decode_elements T (sob_children object) (depth + 1) budget) (\<lambda>(values, budget).
              Inr (PArray values, budget))
          else if sob_kind object = KDictionary then
            rbind (decode_entries T (zip (take (sob_key_count object) (sob_children object))
                (drop (sob_key_count object) (sob_children object))) (depth + 1) [] budget) (\<lambda>(entries, budget).
              Inr (PDictionary entries, budget))
          else decode_leaf T (sob_kind object) marker cursor stop budget))))"
| "decode_elements T [] depth budget = Inr ([], budget)"
| "decode_elements T (child # children) depth budget =
     rbind (decode_object T child depth budget) (\<lambda>(value, budget).
     rbind (decode_elements T children depth budget) (\<lambda>(values, budget). Inr (value # values, budget)))"
| "decode_entries T [] depth dictionary budget = Inr (dictionary, budget)"
| "decode_entries T ((key, value) # rest) depth dictionary budget =
     rbind (decode_object T key depth budget) (\<lambda>(k, budget).
       case k of
         PString text \<Rightarrow>
           rbind (decode_object T value depth budget) (\<lambda>(v, budget).
             case dictionary_insert text v dictionary of (dictionary, present) \<Rightarrow>
               if present then Inl Malformed else decode_entries T rest depth dictionary budget)
       | _ \<Rightarrow> Inl Malformed)"
  by pat_completeness auto
termination
  by (relation "measures [\<lambda>s. case s of Inl (T, i, d, b) \<Rightarrow> Suc MAX_DEPTH - d
        | Inr (Inl (T, xs, d, b)) \<Rightarrow> Suc MAX_DEPTH - d | Inr (Inr (T, xs, d, e, b)) \<Rightarrow> Suc MAX_DEPTH - d,
      \<lambda>s. case s of Inl _ \<Rightarrow> 0 | Inr (Inl (T, xs, d, b)) \<Rightarrow> Suc (length xs)
        | Inr (Inr (T, xs, d, e, b)) \<Rightarrow> Suc (length xs)]") auto

declare decode_object.simps [simp del]

subsection \<open>Decoding a document\<close>

record plist_trailer =
  tr_offset_size :: nat
  tr_reference_size :: nat
  tr_object_count :: nat
  tr_top_object :: nat
  tr_offset_table_start :: nat

definition parse_trailer :: "bytes \<Rightarrow> plist_error + plist_trailer" where
  "parse_trailer input =
     (let trailer_start = length input - TRAILER_SIZE; trailer = drop trailer_start input in
      if take 6 trailer \<noteq> replicate 6 0 then Inl InvalidTrailer
      else let offset_size = unat (trailer ! 6); reference_size = unat (trailer ! 7) in
        if offset_size \<notin> {1..8} \<or> reference_size \<notin> {1..8} then Inl InvalidTrailer
        else rbind (read_be_u64 (slice 8 16 trailer)) (\<lambda>object_count.
          rbind (read_be_u64 (slice 16 24 trailer)) (\<lambda>top_object.
          rbind (read_be_u64 (slice 24 32 trailer)) (\<lambda>offset_table_start.
            if object_count = 0 \<or> object_count > MAX_OBJECTS \<or> top_object \<ge> object_count then Inl InvalidTrailer
            else if offset_table_start < length BPLIST_HEADER \<or> offset_table_start > trailer_start
            then Inl InvalidTrailer
            else if object_count * offset_size \<ge> 2 ^ 64 then Inl LimitExceeded
            else if offset_table_start + object_count * offset_size \<ge> 2 ^ 64 then Inl LimitExceeded
            else if offset_table_start + object_count * offset_size \<noteq> trailer_start then Inl InvalidTrailer
            else Inr \<lparr>tr_offset_size = offset_size, tr_reference_size = reference_size,
                      tr_object_count = object_count, tr_top_object = top_object,
                      tr_offset_table_start = offset_table_start\<rparr>))))"

fun read_offsets :: "bytes \<Rightarrow> plist_trailer \<Rightarrow> nat list \<Rightarrow> plist_error + nat list" where
  "read_offsets input tr [] = Inr []"
| "read_offsets input tr (index # rest) =
     (let start = tr_offset_table_start tr + index * tr_offset_size tr in
      rbind (read_be_u64 (slice start (start + tr_offset_size tr) input)) (\<lambda>offset.
        if \<not> (length BPLIST_HEADER \<le> offset \<and> offset < tr_offset_table_start tr) then Inl Malformed
        else rbind (read_offsets input tr rest) (\<lambda>offsets. Inr (offset # offsets))))"

text \<open>Each object ends where the next one in the order of offsets begins.\<close>

definition object_ends :: "nat list \<Rightarrow> nat \<Rightarrow> plist_error + (nat \<rightharpoonup> nat)" where
  "object_ends offsets offset_table_start =
     (let ordered = sort offsets in
      if ordered = [] \<or> hd ordered \<noteq> length BPLIST_HEADER \<or> \<not> distinct ordered then Inl Malformed
      else Inr (map_of (zip ordered (tl ordered @ [offset_table_start]))))"

fun scan_objects :: "bytes \<Rightarrow> plist_trailer \<Rightarrow> (nat \<rightharpoonup> nat) \<Rightarrow> nat list \<Rightarrow> nat \<Rightarrow> plist_error + scanned_object list" where
  "scan_objects input tr ends [] total_references = Inr []"
| "scan_objects input tr ends (offset # offsets) total_references =
     rbind (ok_or (ends offset) Malformed) (\<lambda>stop.
     rbind (scan_object input offset stop (tr_reference_size tr) (tr_object_count tr)) (\<lambda>object.
       let total_references = total_references + length (sob_children object) in
       if total_references \<ge> 2 ^ 64 \<or> total_references > MAX_REFERENCES then Inl LimitExceeded
       else rbind (scan_objects input tr ends offsets total_references) (\<lambda>objects. Inr (object # objects))))"

definition keys_are_strings :: "scanned_object list \<Rightarrow> bool" where
  "keys_are_strings scanned \<longleftrightarrow> list_all (\<lambda>object.
     list_all (\<lambda>key. sob_kind (scanned ! key) = KString) (take (sob_key_count object) (sob_children object))) scanned"

definition load_table :: "bytes \<Rightarrow> plist_trailer \<Rightarrow> plist_error + object_table" where
  "load_table input tr =
     rbind (read_offsets input tr [0..<tr_object_count tr]) (\<lambda>offsets.
     rbind (object_ends offsets (tr_offset_table_start tr)) (\<lambda>ends.
     rbind (scan_objects input tr ends offsets 0) (\<lambda>scanned.
       if \<not> keys_are_strings scanned then Inl Malformed
       else rbind (validate_all [0..<tr_object_count tr] scanned (replicate (tr_object_count tr) 0)) (\<lambda>_.
         Inr \<lparr>ot_input = input, ot_offsets = offsets, ot_ends = ends, ot_scanned = scanned\<rparr>))))"

definition plist_decode :: "bytes \<Rightarrow> plist_error + plist" where
  "plist_decode input =
     (if length input > MAX_PLIST_SIZE then Inl InputTooLarge
      else if length input < length BPLIST_HEADER + TRAILER_SIZE then Inl Malformed
      else if take (length BPLIST_HEADER) input \<noteq> BPLIST_HEADER then Inl InvalidHeader
      else rbind (parse_trailer input) (\<lambda>tr.
        rbind (load_table input tr) (\<lambda>T.
        rbind (decode_object T (tr_top_object tr) 0 \<lparr>db_nodes = 0, db_value_bytes = 0\<rparr>) (\<lambda>(value, budget).
          Inr value))))"

subsection \<open>Writing\<close>

definition push_byte :: "bytes \<Rightarrow> u8 \<Rightarrow> plist_error + bytes" where
  "push_byte output b = (if length output \<ge> MAX_PLIST_SIZE then Inl OutputTooLarge else Inr (output @ [b]))"

definition append_bytes :: "bytes \<Rightarrow> bytes \<Rightarrow> plist_error + bytes" where
  "append_bytes output bs =
     (if length output + length bs \<ge> 2 ^ 64 then Inl OutputTooLarge
      else if length output + length bs > MAX_PLIST_SIZE then Inl OutputTooLarge
      else Inr (output @ bs))"

fun nat_be :: "nat \<Rightarrow> nat \<Rightarrow> bytes" where
  "nat_be 0 v = []"
| "nat_be (Suc n) v = nat_be n (v div 256) @ [word_of_nat (v mod 256)]"

definition append_be :: "bytes \<Rightarrow> nat \<Rightarrow> nat \<Rightarrow> plist_error + bytes" where
  "append_be output value width =
     (if width \<notin> {1, 2, 4, 8} then Inl OutputTooLarge else append_bytes output (nat_be width value))"

definition integer_storage_width :: "nat \<Rightarrow> nat" where
  "integer_storage_width v = (if v < 2 ^ 8 then 1 else if v < 2 ^ 16 then 2 else if v < 2 ^ 32 then 4 else 8)"

text \<open>The number of trailing zeros of a width.\<close>

definition width_exponent :: "nat \<Rightarrow> u8" where
  "width_exponent width = (if width = 1 then 0 else if width = 2 then 1 else if width = 4 then 2 else 3)"

definition encode_length :: "u8 \<Rightarrow> nat \<Rightarrow> bytes \<Rightarrow> plist_error + bytes" where
  "encode_length marker n output =
     (if n < 15 then push_byte output (marker OR word_of_nat n)
      else rbind (push_byte output (marker OR 0x0f)) (\<lambda>output.
        let width = integer_storage_width n in
        rbind (push_byte output (0x10 OR width_exponent width)) (\<lambda>output. append_be output n width)))"

definition encode_integer :: "int \<Rightarrow> bytes \<Rightarrow> plist_error + bytes" where
  "encode_integer value output =
     (if value < 0 then
        rbind (push_byte output 0x13) (\<lambda>output.
          if value < - (2 ^ 63) then Inl IntegerOutOfRange
          else append_bytes output (nat_be 8 (nat (value + 2 ^ 64))))
      else if value \<ge> 2 ^ 64 then Inl IntegerOutOfRange
      else let v = nat value; width = integer_storage_width v in
        if width \<in> {1, 2, 4} then
          rbind (push_byte output (0x10 OR width_exponent width)) (\<lambda>output. append_be output v width)
        else if v < 2 ^ 63 then
          rbind (push_byte output 0x13) (\<lambda>output. append_be output v 8)
        else
          rbind (push_byte output 0x14) (\<lambda>output.
          rbind (append_bytes output (replicate 8 0)) (\<lambda>output. append_be output v 8)))"

datatype encoded_object =
    ENull | EBoolean bool | EInteger int | EData bytes | EString scalars
  | EArray "nat list" | EDictionary "nat list" "nat list"

fun append_references :: "nat list \<Rightarrow> nat \<Rightarrow> bytes \<Rightarrow> plist_error + bytes" where
  "append_references [] reference_size output = Inr output"
| "append_references (r # rs) reference_size output =
     rbind (append_be output r reference_size) (\<lambda>output. append_references rs reference_size output)"

fun append_units :: "nat list \<Rightarrow> bytes \<Rightarrow> plist_error + bytes" where
  "append_units [] output = Inr output"
| "append_units (u # us) output = rbind (append_bytes output (nat_be 2 u)) (\<lambda>output. append_units us output)"

fun encode_object :: "encoded_object \<Rightarrow> nat \<Rightarrow> bytes \<Rightarrow> plist_error + bytes" where
  "encode_object ENull reference_size output = push_byte output 0x00"
| "encode_object (EBoolean b) reference_size output = push_byte output (if b then 0x09 else 0x08)"
| "encode_object (EInteger n) reference_size output = encode_integer n output"
| "encode_object (EData bs) reference_size output =
     rbind (encode_length 0x40 (length bs) output) (\<lambda>output. append_bytes output bs)"
| "encode_object (EString t) reference_size output =
     (if is_ascii t
      then rbind (encode_length 0x50 (string_len t) output) (\<lambda>output. append_bytes output (map word_of_nat t))
      else rbind (encode_length 0x60 (length (encode_utf16 t)) output) (\<lambda>output.
        append_units (encode_utf16 t) output))"
| "encode_object (EArray references) reference_size output =
     rbind (encode_length 0xa0 (length references) output) (\<lambda>output.
       append_references references reference_size output)"
| "encode_object (EDictionary keys vals) reference_size output =
     rbind (encode_length 0xd0 (length keys) output) (\<lambda>output.
       append_references (keys @ vals) reference_size output)"

record plist_encoder =
  en_objects :: "encoded_object list"
  en_references :: nat
  en_value_bytes :: nat

definition charge_references :: "nat \<Rightarrow> plist_encoder \<Rightarrow> plist_error + plist_encoder" where
  "charge_references count e =
     (if en_references e + count \<ge> 2 ^ 64 then Inl LimitExceeded
      else if en_references e + count > MAX_REFERENCES then Inl LimitExceeded
      else Inr (e\<lparr>en_references := en_references e + count\<rparr>))"

definition charge_encoded_bytes :: "nat \<Rightarrow> plist_encoder \<Rightarrow> plist_error + plist_encoder" where
  "charge_encoded_bytes count e =
     (if en_value_bytes e + count \<ge> 2 ^ 64 then Inl LimitExceeded
      else if en_value_bytes e + count > MAX_VALUE_BYTES then Inl LimitExceeded
      else Inr (e\<lparr>en_value_bytes := en_value_bytes e + count\<rparr>))"

text \<open>The object of a value, after its place was reserved.\<close>

definition place_object :: "nat \<Rightarrow> encoded_object \<Rightarrow> plist_encoder \<Rightarrow> nat \<times> plist_encoder" where
  "place_object index object e = (index, e\<lparr>en_objects := (en_objects e)[index := object]\<rparr>)"

definition reserve_object :: "encoded_object \<Rightarrow> plist_encoder \<Rightarrow> plist_encoder" where
  "reserve_object object e = e\<lparr>en_objects := en_objects e @ [object]\<rparr>"

fun encoder_add :: "plist \<Rightarrow> nat \<Rightarrow> plist_encoder \<Rightarrow> plist_error + nat \<times> plist_encoder"
  and encoder_add_elements :: "plist list \<Rightarrow> nat \<Rightarrow> plist_encoder \<Rightarrow> plist_error + nat list \<times> plist_encoder"
  and encoder_add_entries :: "(scalars \<times> plist) list \<Rightarrow> nat \<Rightarrow> plist_encoder
    \<Rightarrow> plist_error + (nat list \<times> nat list) \<times> plist_encoder" where
  "encoder_add value depth e =
     (if depth > MAX_DEPTH \<or> length (en_objects e) \<ge> MAX_OBJECTS then Inl LimitExceeded
      else let index = length (en_objects e); e = reserve_object ENull e in
        (case value of
           PNull \<Rightarrow> Inr (place_object index ENull e)
         | PBoolean b \<Rightarrow> Inr (place_object index (EBoolean b) e)
         | PInteger n \<Rightarrow>
             if n < - (2 ^ 63) \<or> n > 2 ^ 64 - 1 then Inl IntegerOutOfRange
             else Inr (place_object index (EInteger n) e)
         | PData bs \<Rightarrow>
             rbind (charge_encoded_bytes (length bs) e) (\<lambda>e. Inr (place_object index (EData bs) e))
         | PString t \<Rightarrow>
             rbind (charge_encoded_bytes (string_len t) e) (\<lambda>e. Inr (place_object index (EString t) e))
         | PArray vs \<Rightarrow>
             rbind (charge_references (length vs) e) (\<lambda>e.
             rbind (encoder_add_elements vs (depth + 1) e) (\<lambda>(children, e).
               Inr (place_object index (EArray children) e)))
         | PDictionary kvs \<Rightarrow>
             if length kvs * 2 \<ge> 2 ^ 64 then Inl LimitExceeded
             else rbind (charge_references (length kvs * 2) e) (\<lambda>e.
               rbind (encoder_add_entries kvs (depth + 1) e) (\<lambda>((keys, children), e).
                 Inr (place_object index (EDictionary keys children) e)))))"
| "encoder_add_elements [] depth e = Inr ([], e)"
| "encoder_add_elements (v # vs) depth e =
     rbind (encoder_add v depth e) (\<lambda>(child, e).
     rbind (encoder_add_elements vs depth e) (\<lambda>(children, e). Inr (child # children, e)))"
| "encoder_add_entries [] depth e = Inr (([], []), e)"
| "encoder_add_entries ((k, v) # kvs) depth e =
     rbind (charge_encoded_bytes (string_len k) e) (\<lambda>e.
       let key = length (en_objects e) in
       if key \<ge> MAX_OBJECTS then Inl LimitExceeded
       else rbind (encoder_add v depth (reserve_object (EString k) e)) (\<lambda>(child, e).
         rbind (encoder_add_entries kvs depth e) (\<lambda>((keys, children), e).
           Inr ((key # keys, child # children), e))))"

declare encoder_add.simps [simp del]

fun write_objects :: "encoded_object list \<Rightarrow> nat \<Rightarrow> bytes \<Rightarrow> plist_error + nat list \<times> bytes" where
  "write_objects [] reference_size output = Inr ([], output)"
| "write_objects (object # objects) reference_size output =
     rbind (encode_object object reference_size output) (\<lambda>output'.
     rbind (write_objects objects reference_size output') (\<lambda>(offsets, output'').
       Inr (length output # offsets, output'')))"

definition plist_encode :: "plist \<Rightarrow> plist_error + bytes" where
  "plist_encode value =
     rbind (encoder_add value 0 \<lparr>en_objects = [], en_references = 0, en_value_bytes = 0\<rparr>) (\<lambda>(top_object, e).
       let reference_size = integer_storage_width (length (en_objects e) - 1) in
       rbind (append_bytes [] BPLIST_HEADER) (\<lambda>output.
       rbind (write_objects (en_objects e) reference_size output) (\<lambda>(offsets, output).
         let offset_table_start = length output; offset_size = integer_storage_width offset_table_start in
         rbind (append_references offsets offset_size output) (\<lambda>output.
         rbind (append_bytes output (replicate 6 0)) (\<lambda>output.
         rbind (push_byte output (word_of_nat offset_size)) (\<lambda>output.
         rbind (push_byte output (word_of_nat reference_size)) (\<lambda>output.
         rbind (append_be output (length (en_objects e)) 8) (\<lambda>output.
         rbind (append_be output top_object 8) (\<lambda>output.
           append_be output offset_table_start 8)))))))))"

end
