(* ===== verification/Bplist_Codec.thy ===== *)
theory Bplist_Codec
  imports Bplist
begin

section \<open>The property list codec\<close>

text \<open>
  Shows that decoding an encoded property list gives the list back. The bytes of an object and the flat layout of a value are given as closed forms, which the encoder is
  shown to write and the decoder to read; the encoder and the decoder are then a codec.
\<close>

subsection \<open>Big-endian numbers\<close>

lemma be_nat_Nil [simp]: "be_nat [] = 0"
  by (simp add: be_nat_def)

lemma be_nat_snoc [simp]: "be_nat (bs @ [b]) = be_nat bs * 256 + unat b"
  by (simp add: be_nat_def)

lemma be_nat_single [simp]: "be_nat [b] = unat b"
  using be_nat_snoc [of "[]" b] by simp

lemma length_nat_be [simp]: "length (nat_be n v) = n"
  by (induction n arbitrary: v) auto

lemma be_nat_bound: "be_nat bs < 256 ^ length bs"
proof (induction bs rule: rev_induct)
  case (snoc b bs)
  have "unat b < 256" using unsigned_less [of b] by simp
  with snoc show ?case by simp
qed simp

lemma be_nat_nat_be: "be_nat (nat_be n v) = v mod 256 ^ n"
proof (induction n arbitrary: v)
  case (Suc n)
  have "unat (word_of_nat (v mod 256) :: u8) = v mod 256" by (simp add: unat_of_nat take_bit_eq_mod)
  moreover have "v div 256 mod 256 ^ n * 256 + v mod 256 = v mod 256 ^ Suc n"
    by (simp add: mod_mult2_eq mult.commute)
  ultimately show ?case using Suc by simp
qed simp

declare nat_be.simps [simp del]

lemma be_nat_exact: "v < 256 ^ n \<Longrightarrow> be_nat (nat_be n v) = v"
  by (simp add: be_nat_nat_be)

lemma storage_width: "integer_storage_width v \<in> {1, 2, 4, 8}" "v < 2 ^ 64 \<Longrightarrow> v < 256 ^ integer_storage_width v"
  by (auto simp: integer_storage_width_def)

lemma storage_width_pos [simp]: "0 < integer_storage_width v"
  by (simp add: integer_storage_width_def)

lemma read_be_u64_exact:
  "n \<in> {1, 2, 4, 8} \<Longrightarrow> v < 256 ^ n \<Longrightarrow> read_be_u64 (nat_be n v) = Inr v"
proof -
  assume n: "n \<in> {1, 2, 4, 8}" and v: "v < 256 ^ n"
  have "nat_be n v \<noteq> []" using n by (metis length_nat_be list.size(3) insert_iff empty_iff zero_neq_numeral zero_neq_one)
  then show ?thesis using n v by (auto simp: read_be_u64_def be_nat_exact)
qed

subsection \<open>Texts\<close>

lemma decode_encode_utf16: "list_all scalar_ok t \<Longrightarrow> decode_utf16 (encode_utf16 t) = Some t"
proof (induction t)
  case (Cons c t)
  then have c: "c < 0x110000" "c < 0xD800 \<or> 0xE000 \<le> c" by (auto simp: scalar_ok_def)
  show ?case
  proof (cases "c < 0x10000")
    case True
    with c Cons show ?thesis by (simp add: encode_utf16_def)
  next
    case False
    let ?d = "c - 0x10000"
    have "?d div 0x400 < 0x400" "?d mod 0x400 < 0x400" "?d div 0x400 * 0x400 + ?d mod 0x400 = ?d"
      using c(1) False by (auto simp: div_mult_mod_eq)
    with False Cons show ?thesis by (simp add: encode_utf16_def)
  qed
qed (simp add: encode_utf16_def)

lemma utf16_units_bound: "scalar_ok c \<Longrightarrow> u \<in> set (utf16_units c) \<Longrightarrow> u < 2 ^ 16"
  by (auto simp: scalar_ok_def split: if_splits)

lemma utf16_pairs_units:
  "\<forall>u \<in> set us. u < 2 ^ 16 \<Longrightarrow> utf16_pairs (concat (map (nat_be 2) us)) = us"
  by (induction us) (auto simp: utf16_pairs_def be_nat_exact)

lemma string_len_ascii: "is_ascii t \<Longrightarrow> string_len t = length t"
  by (induction t) (auto simp: is_ascii_def string_len_def utf8_length_def)

lemma ascii_byte: "c < 0x80 \<Longrightarrow> unat (word_of_nat c :: u8) = c" "c < 0x80 \<Longrightarrow> (word_of_nat c :: u8) < 0x80"
  by (simp_all add: unat_of_nat take_bit_nat_eq_self word_less_nat_alt)

lemma ascii_text:
  "is_ascii t \<Longrightarrow> list_all (\<lambda>b. b < 0x80) (map word_of_nat t :: bytes) \<and> str_from_utf8 (map word_of_nat t) = Some t"
proof (induction t)
  case (Cons c t)
  then have c: "c < 0x80" and t: "is_ascii t" by (auto simp: is_ascii_def)
  have "(word_of_nat c :: u8) \<le> 0x7F" using ascii_byte [OF c] by (simp add: word_le_nat_alt word_less_nat_alt)
  with Cons.IH [OF t] ascii_byte [OF c] show ?case by (simp add: str_from_utf8_def split: if_splits)
qed (simp add: str_from_utf8_def)

subsection \<open>The bytes of an object\<close>

definition length_bytes :: "u8 \<Rightarrow> nat \<Rightarrow> bytes" where
  "length_bytes marker n =
     (if n < 15 then [marker OR word_of_nat n]
      else (marker OR 0x0f) # (0x10 OR width_exponent (integer_storage_width n)) # nat_be (integer_storage_width n) n)"

definition integer_bytes :: "int \<Rightarrow> bytes" where
  "integer_bytes n =
     (if n < 0 then 0x13 # nat_be 8 (nat (n + 2 ^ 64))
      else let v = nat n; w = integer_storage_width v in
        if w < 8 then (0x10 OR width_exponent w) # nat_be w v
        else if v < 2 ^ 63 then 0x13 # nat_be 8 v
        else 0x14 # replicate 8 0 @ nat_be 8 v)"

fun object_bytes :: "nat \<Rightarrow> encoded_object \<Rightarrow> bytes" where
  "object_bytes rs ENull = [0x00]"
| "object_bytes rs (EBoolean b) = [if b then 0x09 else 0x08]"
| "object_bytes rs (EInteger n) = integer_bytes n"
| "object_bytes rs (EData bs) = length_bytes 0x40 (length bs) @ bs"
| "object_bytes rs (EString t) =
     (if is_ascii t then length_bytes 0x50 (length t) @ map word_of_nat t
      else length_bytes 0x60 (length (encode_utf16 t)) @ concat (map (nat_be 2) (encode_utf16 t)))"
| "object_bytes rs (EArray cs) = length_bytes 0xa0 (length cs) @ concat (map (nat_be rs) cs)"
| "object_bytes rs (EDictionary ks cs) = length_bytes 0xd0 (length ks) @ concat (map (nat_be rs) (ks @ cs))"

text \<open>What a successful write leaves: the bytes written, within the limit.\<close>

definition wrote :: "bytes \<Rightarrow> bytes \<Rightarrow> plist_error + bytes \<Rightarrow> bool" where
  "wrote out bs r \<longleftrightarrow> (\<forall>res. r = Inr res \<longrightarrow>
     res = out @ bs \<and> (length out \<le> MAX_PLIST_SIZE \<longrightarrow> length res \<le> MAX_PLIST_SIZE))"

lemma wrote_rbind:
  assumes "wrote out as m" and "\<And>out'. wrote out' bs (f out')"
  shows "wrote out (as @ bs) (rbind m f)"
proof -
  have "res = out @ as @ bs \<and> (length out \<le> MAX_PLIST_SIZE \<longrightarrow> length res \<le> MAX_PLIST_SIZE)" if "rbind m f = Inr res" for res
  proof -
    from that obtain x where "m = Inr x" "f x = Inr res" by auto
    with assms(1) assms(2) [of x] show ?thesis by (auto simp: wrote_def)
  qed
  then show ?thesis by (simp add: wrote_def)
qed

lemma wrote_push: "wrote out [b] (push_byte out b)"
  by (simp add: wrote_def push_byte_def)

lemma wrote_push_then: "(\<And>out'. wrote out' bs (f out')) \<Longrightarrow> wrote out (b # bs) (rbind (push_byte out b) f)"
  using wrote_rbind [OF wrote_push, of bs f] by simp

lemma wrote_append: "wrote out bs (append_bytes out bs)"
  by (simp add: wrote_def append_bytes_def)

lemma wrote_nil: "wrote out [] (Inr out)"
  by (simp add: wrote_def)

lemma wrote_fail: "wrote out bs (Inl e)"
  by (simp add: wrote_def)

lemma wrote_be: "wrote out (nat_be w v) (append_be out v w)"
  by (simp add: append_be_def wrote_append wrote_fail)

lemma wrote_length: "wrote out (length_bytes marker n) (encode_length marker n out)"
  by (auto simp: encode_length_def length_bytes_def Let_def intro!: wrote_push_then wrote_be wrote_push)

lemma wrote_integer: "wrote out (integer_bytes n) (encode_integer n out)"
proof -
  have small: "integer_storage_width v < 8 \<longleftrightarrow> integer_storage_width v \<in> {1, 2, 4}" for v
    by (simp add: integer_storage_width_def)
  show ?thesis
    unfolding encode_integer_def integer_bytes_def Let_def small
    by (auto intro!: wrote_push_then wrote_rbind wrote_append wrote_be wrote_fail)
qed

lemma wrote_references: "wrote out (concat (map (nat_be rs) refs)) (append_references refs rs out)"
  by (induction refs arbitrary: out) (auto simp: wrote_nil intro!: wrote_rbind wrote_be)

lemma wrote_units: "wrote out (concat (map (nat_be 2) us)) (append_units us out)"
  by (induction us arbitrary: out) (auto simp: wrote_nil intro!: wrote_rbind wrote_append)

lemma wrote_object: "wrote out (object_bytes rs ob) (encode_object ob rs out)"
  by (cases ob) (auto simp: string_len_ascii simp flip: map_append concat_append simp del: map_append concat_append
      intro!: wrote_push wrote_integer wrote_rbind wrote_length wrote_append wrote_units wrote_references)

text \<open>Where the objects of a list begin when they are written one after the other.\<close>

fun object_offsets :: "nat \<Rightarrow> nat \<Rightarrow> encoded_object list \<Rightarrow> nat list" where
  "object_offsets rs start [] = []"
| "object_offsets rs start (ob # os) = start # object_offsets rs (start + length (object_bytes rs ob)) os"

definition table_bytes :: "nat \<Rightarrow> encoded_object list \<Rightarrow> bytes" where
  "table_bytes rs os = concat (map (object_bytes rs) os)"

lemma write_objects_wrote:
  "write_objects os rs out = Inr (offsets, out') \<Longrightarrow>
     out' = out @ table_bytes rs os \<and> offsets = object_offsets rs (length out) os
     \<and> (length out \<le> MAX_PLIST_SIZE \<longrightarrow> length out' \<le> MAX_PLIST_SIZE)"
proof (induction os arbitrary: out offsets)
  case (Cons ob os)
  then obtain out1 offsets1 where ob: "encode_object ob rs out = Inr out1"
    "write_objects os rs out1 = Inr (offsets1, out')" "offsets = length out # offsets1"
    by auto
  have "out1 = out @ object_bytes rs ob" "length out \<le> MAX_PLIST_SIZE \<longrightarrow> length out1 \<le> MAX_PLIST_SIZE"
    using wrote_object [of out rs ob] ob(1) by (auto simp: wrote_def)
  with Cons.IH [OF ob(2)] ob(3) show ?case by (auto simp: table_bytes_def)
qed (simp add: table_bytes_def)

subsection \<open>Reading the bytes of an object\<close>

lemma occurs_at_Cons: "occurs_at p c (b # s) \<longleftrightarrow> c < length p \<and> p ! c = b \<and> occurs_at p (c + 1) s"
  using occurs_at_append [of p c "[b]" s] by (simp add: occurs_at_single)

lemma read_byte_at: "occurs_at p c (b # s) \<Longrightarrow> c < stop \<Longrightarrow> read_byte p c stop = Inr (b, c + 1)"
  by (simp add: occurs_at_Cons read_byte_def)

lemma take_bytes_at:
  "occurs_at p c s \<Longrightarrow> c + length s \<le> stop \<Longrightarrow> stop < 2 ^ 64 \<Longrightarrow> length s = n \<Longrightarrow>
     take_bytes p c stop n = Inr (s, c + n)"
  by (auto simp: take_bytes_def occurs_at_def)

lemma marker_parts:
  assumes "n < 16" and "m \<in> {0x10, 0x40, 0x50, 0x60, 0xa0, 0xd0}"
  shows "(m OR word_of_nat n) AND 0xf0 = (m :: u8)" "(m OR word_of_nat n) AND 0x0f = (word_of_nat n :: u8)"
proof -
  have "n \<in> {0, 1, 2, 3, 4, 5, 6, 7, 8, 9, 10, 11, 12, 13, 14, 15}"
    using assms(1) by (simp only: insert_iff empty_iff) presburger
  with assms(2) show "(m OR word_of_nat n) AND 0xf0 = (m :: u8)" "(m OR word_of_nat n) AND 0x0f = (word_of_nat n :: u8)"
    by auto
qed

lemma width_exponent_width:
  "w \<in> {1, 2, 4, 8} \<Longrightarrow> integer_width (width_exponent w) = Inr w"
  "w \<in> {1, 2, 4, 8} \<Longrightarrow> (0x10 OR width_exponent w) AND 0xf0 = 0x10"
  "w \<in> {1, 2, 4, 8} \<Longrightarrow> (0x10 OR width_exponent w) AND 0x0f = width_exponent w"
  by (auto simp: width_exponent_def integer_width_def)

lemma small_low: "n < 15 \<Longrightarrow> unat (word_of_nat n :: u8) = n" "n < 15 \<Longrightarrow> (word_of_nat n :: u8) < 0x0f"
  by (simp_all add: unat_of_nat take_bit_nat_eq_self word_less_nat_alt)

lemma occurs_length_bytes:
  assumes at: "occurs_at p c (length_bytes m n @ s)" and m: "m \<in> {0x40, 0x50, 0x60, 0xa0, 0xd0}"
    and n: "n \<le> MAX_PLIST_SIZE" and stop: "c + length (length_bytes m n) \<le> stop" "stop < 2 ^ 64"
  obtains b where "read_byte p c stop = Inr (b, c + 1)" and "b AND 0xf0 = m"
    and "read_length p (c + 1) stop (b AND 0x0f) = Inr (n, c + length (length_bytes m n))"
    and "occurs_at p (c + length (length_bytes m n)) s"
proof (cases "n < 15")
  case True
  then have lb: "length_bytes m n = [m OR word_of_nat n]" by (simp add: length_bytes_def)
  have "read_byte p c stop = Inr (m OR word_of_nat n, c + 1)"
    using at stop unfolding lb by (intro read_byte_at [where s = s]) simp_all
  moreover have "(m OR word_of_nat n) AND 0xf0 = m" "(m OR word_of_nat n) AND 0x0f = (word_of_nat n :: u8)"
    using marker_parts [of n m] True m by auto
  moreover have "occurs_at p (c + length (length_bytes m n)) s" using at unfolding occurs_at_append by simp
  ultimately show ?thesis using that [of "m OR word_of_nat n"] small_low [OF True]
    by (simp add: read_length_def lb)
next
  case False
  let ?w = "integer_storage_width n"
  have w: "?w \<in> {1, 2, 4, 8}" by (rule storage_width)
  have lb: "length_bytes m n = (m OR 0x0f) # (0x10 OR width_exponent ?w) # nat_be ?w n"
    using False by (simp add: length_bytes_def)
  have parts: "occurs_at p c ((m OR 0x0f) # (0x10 OR width_exponent ?w) # nat_be ?w n @ s)"
    "occurs_at p (c + 1) ((0x10 OR width_exponent ?w) # nat_be ?w n @ s)"
    "occurs_at p (c + 2) (nat_be ?w n)" "occurs_at p (c + 2 + ?w) s"
    using at unfolding lb by (simp_all add: occurs_at_append occurs_at_Cons)
  have len: "c + 2 + ?w \<le> stop" using stop(1) by (simp add: lb)
  have n64: "n < 2 ^ 64" using n by (simp add: MAX_PLIST_SIZE_def)
  have "read_be_u64 (nat_be ?w n) = Inr n" using read_be_u64_exact [OF w storage_width(2) [OF n64]] .
  moreover have "take_bytes p (c + 2) stop ?w = Inr (nat_be ?w n, c + 2 + ?w)"
    using take_bytes_at [OF parts(3) _ stop(2), of ?w] len by simp
  moreover have "read_byte p (c + 1) stop = Inr (0x10 OR width_exponent ?w, c + 2)"
    using read_byte_at [OF parts(2), of stop] len by simp
  moreover have "\<not> n > max MAX_REFERENCES MAX_PLIST_SIZE" using n by simp
  moreover have "(m OR 0x0f) AND 0xf0 = m \<and> (m OR 0x0f) AND 0x0f = 0x0f" using m by auto
  moreover have "read_byte p c stop = Inr (m OR 0x0f, c + 1)" using read_byte_at [OF parts(1), of stop] len by simp
  ultimately show ?thesis using that [of "m OR 0x0f"] width_exponent_width [OF w] parts(4) w
    by (auto simp: read_length_def lb)
qed

text \<open>The integers: a marker, the width it announces, and the number read back.\<close>

lemma be_nat_zeros: "be_nat (replicate k 0 @ bs) = be_nat bs"
proof -
  have "foldl (\<lambda>v b. v * 256 + unat b) 0 (replicate k (0 :: u8)) = 0" by (induction k) auto
  then show ?thesis by (simp add: be_nat_def)
qed

lemma integer_bytes_read:
  assumes "- (2 ^ 63) \<le> n" and "n < 2 ^ 64"
  obtains e bs where "integer_bytes n = (0x10 OR e) # bs" and "(0x10 OR e) AND 0xf0 = 0x10"
    and "(0x10 OR e) AND 0x0f = e" and "integer_width e = Inr (length bs)" and "decode_integer bs = Inr n"
proof (cases "n < 0")
  case True
  have "be_nat (nat_be 8 (nat (n + 2 ^ 64))) = nat (n + 2 ^ 64)"
    using True assms(1) by (intro be_nat_exact) auto
  with True assms(1) have "decode_integer (nat_be 8 (nat (n + 2 ^ 64))) = Inr n"
    by (auto simp: decode_integer_def signed_of_def)
  with True show ?thesis using that [of 3 "nat_be 8 (nat (n + 2 ^ 64))"]
    by (simp add: integer_bytes_def integer_width_def)
next
  case False
  let ?v = "nat n" and ?w = "integer_storage_width (nat n)"
  have v: "?v < 2 ^ 64" using assms(2) by auto
  have exact: "be_nat (nat_be ?w ?v) = ?v" by (rule be_nat_exact [OF storage_width(2) [OF v]])
  consider "?w \<in> {1, 2, 4}" | "?w = 8" "?v < 2 ^ 63" | "?w = 8" "?v \<ge> 2 ^ 63"
    using storage_width(1) [of ?v] by (cases "?v < 2 ^ 63") auto
  then show ?thesis
  proof cases
    case 1
    have "?w < 8" "?w \<in> {1, 2, 4, 8}" using 1 by auto
    with 1 False exact show ?thesis
      using that [of "width_exponent ?w" "nat_be ?w ?v"] width_exponent_width [of ?w]
      by (auto simp: integer_bytes_def decode_integer_def Let_def)
  next
    case 2
    with False exact show ?thesis using that [of 3 "nat_be 8 ?v"]
      by (simp add: integer_bytes_def integer_width_def decode_integer_def signed_of_def)
  next
    case 3
    have "signed_of 128 ?v = n" using v False by (simp add: signed_of_def)
    with 3 False exact assms(2) show ?thesis using that [of 4 "replicate 8 0 @ nat_be 8 ?v"]
      by (simp add: integer_bytes_def integer_width_def decode_integer_def be_nat_zeros)
  qed
qed

text \<open>What the scanner finds in an object, and the objects it accepts among a number of objects.\<close>

fun scan_of :: "encoded_object \<Rightarrow> scanned_object" where
  "scan_of ENull = \<lparr>sob_kind = KNull, sob_children = [], sob_key_count = 0\<rparr>"
| "scan_of (EBoolean b) = \<lparr>sob_kind = KBoolean, sob_children = [], sob_key_count = 0\<rparr>"
| "scan_of (EInteger n) = \<lparr>sob_kind = KInteger, sob_children = [], sob_key_count = 0\<rparr>"
| "scan_of (EData bs) = \<lparr>sob_kind = KData, sob_children = [], sob_key_count = 0\<rparr>"
| "scan_of (EString t) = \<lparr>sob_kind = KString, sob_children = [], sob_key_count = 0\<rparr>"
| "scan_of (EArray cs) = \<lparr>sob_kind = KArray, sob_children = cs, sob_key_count = 0\<rparr>"
| "scan_of (EDictionary ks cs) = \<lparr>sob_kind = KDictionary, sob_children = ks @ cs, sob_key_count = length ks\<rparr>"

fun object_ok :: "nat \<Rightarrow> encoded_object \<Rightarrow> bool" where
  "object_ok N (EInteger n) = (- (2 ^ 63) \<le> n \<and> n < 2 ^ 64)"
| "object_ok N (EString t) = list_all scalar_ok t"
| "object_ok N (EArray cs) = (length cs \<le> MAX_REFERENCES \<and> list_all (\<lambda>c. c < N) cs)"
| "object_ok N (EDictionary ks cs) =
     (length cs = length ks \<and> 2 * length ks \<le> MAX_REFERENCES \<and> list_all (\<lambda>c. c < N) (ks @ cs))"
| "object_ok N _ = True"

lemma check_references_exact:
  "rs \<in> {1, 2, 4, 8} \<Longrightarrow> N \<le> 256 ^ rs \<Longrightarrow> list_all (\<lambda>c. c < N) cs \<Longrightarrow>
     check_references N (map (nat_be rs) cs) = Inr cs"
  by (induction cs) (auto simp: read_be_u64_exact)

lemma chunks_nat_be: "0 < rs \<Longrightarrow> chunks rs (concat (map (nat_be rs) cs)) = map (nat_be rs) cs"
  by (rule chunks_concat) auto

lemma length_concat_be [simp]: "length (concat (map (nat_be rs) cs)) = length cs * rs"
  by (induction cs) auto

lemma read_references_at:
  assumes at: "occurs_at p c (concat (map (nat_be rs) cs))" and stop: "c + length cs * rs \<le> stop" "stop < 2 ^ 64"
    and rs: "rs \<in> {1, 2, 4, 8}" "N \<le> 256 ^ rs" and cs: "length cs \<le> MAX_REFERENCES" "list_all (\<lambda>c. c < N) cs"
  shows "read_references p c stop (length cs) rs N = Inr (cs, c + length cs * rs)"
proof -
  have "take_bytes p c stop (length cs * rs) = Inr (concat (map (nat_be rs) cs), c + length cs * rs)"
    using take_bytes_at [OF at _ stop(2), of "length cs * rs"] stop(1) by simp
  moreover have "0 < rs" using rs(1) by auto
  moreover have "length cs * rs < 2 ^ 64" using stop by simp
  ultimately show ?thesis using cs(1) check_references_exact [OF rs cs(2)]
    by (simp add: read_references_def chunks_nat_be)
qed

fun leaf_value :: "encoded_object \<Rightarrow> plist option" where
  "leaf_value ENull = Some PNull"
| "leaf_value (EBoolean b) = Some (PBoolean b)"
| "leaf_value (EInteger n) = Some (PInteger n)"
| "leaf_value (EData bs) = Some (PData bs)"
| "leaf_value (EString t) = Some (PString t)"
| "leaf_value _ = None"

fun leaf_charge :: "encoded_object \<Rightarrow> nat" where
  "leaf_charge (EData bs) = length bs"
| "leaf_charge (EString t) = (if is_ascii t then length t else length (encode_utf16 t) * 2)"
| "leaf_charge _ = 0"

definition add_bytes :: "nat \<Rightarrow> decode_budget \<Rightarrow> decode_budget" where
  "add_bytes n budget = budget\<lparr>db_value_bytes := db_value_bytes budget + n\<rparr>"

lemma charge_bytes_add: "db_value_bytes budget + n \<le> MAX_VALUE_BYTES \<Longrightarrow> charge_bytes budget n = Inr (add_bytes n budget)"
  by (simp add: charge_bytes_def add_bytes_def MAX_VALUE_BYTES_def MAX_PLIST_SIZE_def)

lemma add_bytes_0 [simp]: "add_bytes 0 budget = budget"
  by (simp add: add_bytes_def)

text \<open>Where the bytes of an object stand, the scanner finds the object and the decoder its value.\<close>

definition reads_as :: "bytes \<Rightarrow> nat \<Rightarrow> nat \<Rightarrow> nat \<Rightarrow> nat \<Rightarrow> encoded_object \<Rightarrow> bool" where
  "reads_as p c stop rs N ob \<longleftrightarrow> scan_object p c stop rs N = Inr (scan_of ob)
     \<and> (\<exists>b. read_byte p c stop = Inr (b, c + 1) \<and> (\<forall>v T budget. leaf_value ob = Some v \<longrightarrow> ot_input T = p \<longrightarrow>
          db_value_bytes budget + leaf_charge ob \<le> MAX_VALUE_BYTES \<longrightarrow>
          decode_leaf T (sob_kind (scan_of ob)) b (c + 1) stop budget = Inr (v, add_bytes (leaf_charge ob) budget)))"

lemma high_nonzero: "b AND 0xf0 = m \<Longrightarrow> m \<noteq> 0 \<Longrightarrow> b \<noteq> 0 \<and> b \<noteq> 8 \<and> b \<noteq> (9 :: u8)"
  by auto

lemma reads_as_integer:
  assumes at: "occurs_at p c (integer_bytes n)" and len: "length p \<le> MAX_PLIST_SIZE" and n: "- (2 ^ 63) \<le> n" "n < 2 ^ 64"
  shows "reads_as p c (c + length (integer_bytes n)) rs N (EInteger n)"
proof -
  let ?stop = "c + length (integer_bytes n)"
  obtain e bs where e: "integer_bytes n = (0x10 OR e) # bs" "(0x10 OR e) AND 0xf0 = 0x10" "(0x10 OR e) AND 0x0f = e"
    "integer_width e = Inr (length bs)" "decode_integer bs = Inr n"
    using integer_bytes_read [OF n] by metis
  have stop: "?stop \<le> length p" "?stop < 2 ^ 64" using at len by (auto simp: occurs_at_def MAX_PLIST_SIZE_def)
  have "read_byte p c ?stop = Inr (0x10 OR e, c + 1)" using read_byte_at at unfolding e(1) by simp
  moreover have "take_bytes p (c + 1) ?stop (length bs) = Inr (bs, ?stop)"
    using at stop take_bytes_at [of p "c + 1" bs ?stop "length bs"] unfolding e(1) by (simp add: occurs_at_Cons)
  ultimately show ?thesis using e high_nonzero [OF e(2)]
    by (simp add: reads_as_def scan_object_def decode_leaf_def)
qed

lemma sized_object_read:
  assumes at: "occurs_at p c (length_bytes m n @ s)" and len: "length p \<le> MAX_PLIST_SIZE" and n: "n \<le> length s"
    and m: "m \<in> {0x40, 0x50, 0x60, 0xa0, 0xd0}" and stop: "stop = c + length (length_bytes m n @ s)"
  obtains b d where "read_byte p c stop = Inr (b, c + 1)" and "b AND 0xf0 = m" and "b \<noteq> 0" and "b \<noteq> 8" and "b \<noteq> 9"
    and "read_length p (c + 1) stop (b AND 0x0f) = Inr (n, d)" and "occurs_at p d s" and "stop = d + length s"
    and "take_bytes p d stop (length s) = Inr (s, stop)" and "stop < 2 ^ 64"
proof -
  let ?d = "c + length (length_bytes m n)"
  have stop_le: "stop \<le> length p" using at unfolding stop by (simp add: occurs_at_def)
  then have stop64: "stop < 2 ^ 64" using len by (simp add: MAX_PLIST_SIZE_def)
  have small: "n \<le> MAX_PLIST_SIZE" using n stop_le len unfolding stop by simp
  have d: "?d \<le> stop" "stop = ?d + length s" unfolding stop by simp_all
  obtain b where b: "read_byte p c stop = Inr (b, c + 1)" "b AND 0xf0 = m"
    "read_length p (c + 1) stop (b AND 0x0f) = Inr (n, ?d)" "occurs_at p ?d s"
    by (rule occurs_length_bytes [OF at m small d(1) stop64])
  have "m \<noteq> 0" using m by auto
  note nz = high_nonzero [OF b(2) this]
  have "take_bytes p ?d stop (length s) = Inr (s, stop)" using take_bytes_at [OF b(4) _ stop64] d(2) by simp
  with b nz d stop64 show thesis using that by blast
qed

lemma reads_as_data:
  assumes "occurs_at p c (length_bytes 0x40 (length bs) @ bs)" and "length p \<le> MAX_PLIST_SIZE"
    and "stop = c + length (length_bytes 0x40 (length bs) @ bs)"
  shows "reads_as p c stop rs N (EData bs)"
proof -
  obtain b d where b: "read_byte p c stop = Inr (b, c + 1)" "b AND 0xf0 = 0x40" "b \<noteq> 0" "b \<noteq> 8" "b \<noteq> 9"
    "read_length p (c + 1) stop (b AND 0x0f) = Inr (length bs, d)" "take_bytes p d stop (length bs) = Inr (bs, stop)"
    by (rule sized_object_read [OF assms(1,2) le_refl _ assms(3)]) auto
  then show ?thesis by (simp add: reads_as_def scan_object_def decode_leaf_def charge_bytes_add)
qed

lemma reads_as_ascii:
  assumes at: "occurs_at p c (length_bytes 0x50 (length t) @ map word_of_nat t)" and len: "length p \<le> MAX_PLIST_SIZE"
    and stop: "stop = c + length (length_bytes 0x50 (length t) @ map word_of_nat t)" and t: "is_ascii t"
  shows "reads_as p c stop rs N (EString t)"
proof -
  have n: "length t \<le> length (map word_of_nat t :: bytes)" by simp
  obtain b d where b: "read_byte p c stop = Inr (b, c + 1)" "b AND 0xf0 = 0x50" "b \<noteq> 0" "b \<noteq> 8" "b \<noteq> 9"
    "read_length p (c + 1) stop (b AND 0x0f) = Inr (length t, d)"
    "take_bytes p d stop (length (map word_of_nat t :: bytes)) = Inr (map word_of_nat t, stop)"
    by (rule sized_object_read [OF at len n _ stop]) auto
  with t ascii_text [OF t] show ?thesis by (simp add: reads_as_def scan_object_def decode_leaf_def charge_bytes_add)
qed

lemma reads_as_utf16:
  assumes at: "occurs_at p c (length_bytes 0x60 (length (encode_utf16 t)) @ concat (map (nat_be 2) (encode_utf16 t)))"
    and len: "length p \<le> MAX_PLIST_SIZE" and t: "\<not> is_ascii t" "list_all scalar_ok t"
    and stop: "stop = c + length (length_bytes 0x60 (length (encode_utf16 t)) @ concat (map (nat_be 2) (encode_utf16 t)))"
  shows "reads_as p c stop rs N (EString t)"
proof -
  let ?us = "encode_utf16 t"
  have n: "length ?us \<le> length (concat (map (nat_be 2) ?us))" by simp
  have bytes: "length (concat (map (nat_be 2) ?us)) = length ?us * 2" by simp
  obtain b d where b: "read_byte p c stop = Inr (b, c + 1)" "b AND 0xf0 = 0x60" "b \<noteq> 0" "b \<noteq> 8" "b \<noteq> 9"
    "read_length p (c + 1) stop (b AND 0x0f) = Inr (length ?us, d)"
    "take_bytes p d stop (length ?us * 2) = Inr (concat (map (nat_be 2) ?us), stop)"
    "stop = d + length ?us * 2" "stop < 2 ^ 64"
    by (rule sized_object_read [OF at len n _ stop, unfolded bytes]) auto
  have "\<forall>u \<in> set ?us. u < 2 ^ 16"
    using t(2) utf16_units_bound by (auto simp: encode_utf16_def list_all_iff simp del: utf16_units.simps)
  then have "decode_utf16 (utf16_pairs (concat (map (nat_be 2) ?us))) = Some t"
    using decode_encode_utf16 [OF t(2)] by (simp add: utf16_pairs_units)
  moreover have "length ?us * 2 < 2 ^ 64" using b(8,9) by linarith
  ultimately show ?thesis using b(1-7) t(1)
    by (simp add: reads_as_def scan_object_def decode_leaf_def charge_bytes_add validate_utf16_def)
qed

lemma reads_as_array:
  assumes at: "occurs_at p c (length_bytes 0xa0 (length cs) @ concat (map (nat_be rs) cs))" and len: "length p \<le> MAX_PLIST_SIZE"
    and stop: "stop = c + length (length_bytes 0xa0 (length cs) @ concat (map (nat_be rs) cs))"
    and rs: "rs \<in> {1, 2, 4, 8}" "N \<le> 256 ^ rs" and cs: "object_ok N (EArray cs)"
  shows "reads_as p c stop rs N (EArray cs)"
proof -
  have n: "length cs \<le> length (concat (map (nat_be rs) cs))" using rs(1) by auto
  obtain b d where b: "read_byte p c stop = Inr (b, c + 1)" "b AND 0xf0 = 0xa0" "b \<noteq> 0" "b \<noteq> 8" "b \<noteq> 9"
    "read_length p (c + 1) stop (b AND 0x0f) = Inr (length cs, d)" "occurs_at p d (concat (map (nat_be rs) cs))"
    "stop = d + length (concat (map (nat_be rs) cs))" "stop < 2 ^ 64"
    by (rule sized_object_read [OF at len n _ stop]) auto
  have "read_references p d stop (length cs) rs N = Inr (cs, stop)"
    using read_references_at [OF b(7) _ b(9) rs] b(8) cs by simp
  with b(1-6) show ?thesis by (simp add: reads_as_def scan_object_def)
qed

lemma reads_as_dictionary:
  assumes at: "occurs_at p c (length_bytes 0xd0 (length ks) @ concat (map (nat_be rs) (ks @ cs)))"
    and len: "length p \<le> MAX_PLIST_SIZE"
    and stop: "stop = c + length (length_bytes 0xd0 (length ks) @ concat (map (nat_be rs) (ks @ cs)))"
    and rs: "rs \<in> {1, 2, 4, 8}" "N \<le> 256 ^ rs" and cs: "object_ok N (EDictionary ks cs)"
  shows "reads_as p c stop rs N (EDictionary ks cs)"
proof -
  have size: "length (ks @ cs) = length ks * 2" using cs by simp
  have n: "length ks \<le> length (concat (map (nat_be rs) (ks @ cs)))" using rs(1) size unfolding length_concat_be by auto
  obtain b d where b: "read_byte p c stop = Inr (b, c + 1)" "b AND 0xf0 = 0xd0" "b \<noteq> 0" "b \<noteq> 8" "b \<noteq> 9"
    "read_length p (c + 1) stop (b AND 0x0f) = Inr (length ks, d)" "occurs_at p d (concat (map (nat_be rs) (ks @ cs)))"
    "stop = d + length (concat (map (nat_be rs) (ks @ cs)))" "stop < 2 ^ 64"
    by (rule sized_object_read [OF at len n _ stop]) auto
  have stop': "stop = d + length (ks @ cs) * rs" using b(8) by (simp only: length_concat_be)
  have "read_references p d stop (length (ks @ cs)) rs N = Inr (ks @ cs, d + length (ks @ cs) * rs)"
    by (rule read_references_at [OF b(7) _ b(9) rs]) (use stop' cs in auto)
  then have "read_references p d stop (length ks * 2) rs N = Inr (ks @ cs, stop)" using stop' size by metis
  moreover have "length ks * 2 < 2 ^ 64" using cs by (simp add: MAX_REFERENCES_def)
  ultimately show ?thesis using b(1-6) by (simp add: reads_as_def scan_object_def)
qed

lemma reads_as_object:
  assumes at: "occurs_at p c (object_bytes rs ob)" and len: "length p \<le> MAX_PLIST_SIZE"
    and rs: "rs \<in> {1, 2, 4, 8}" "N \<le> 256 ^ rs" and ok: "object_ok N ob"
  shows "reads_as p c (c + length (object_bytes rs ob)) rs N ob"
proof (cases ob)
  case (EInteger n)
  with assms show ?thesis using reads_as_integer by simp
next
  case (EData bs)
  with assms show ?thesis using reads_as_data by simp
next
  case (EString t)
  with assms show ?thesis using reads_as_ascii [of p c t] reads_as_utf16 [of p c t] by (cases "is_ascii t") simp_all
next
  case (EArray cs)
  with assms show ?thesis using reads_as_array [of p c cs rs _ N] by simp
next
  case (EDictionary ks cs)
  have "reads_as p c (c + length (length_bytes 0xd0 (length ks) @ concat (map (nat_be rs) (ks @ cs)))) rs N (EDictionary ks cs)"
    by (rule reads_as_dictionary [OF _ len refl rs]) (use at ok EDictionary in simp_all)
  with EDictionary show ?thesis by simp
qed (use at in \<open>auto simp: reads_as_def scan_object_def decode_leaf_def read_byte_at [of p c _ "[]"]\<close>)

subsection \<open>The flat layout of a value\<close>

text \<open>How many objects a value takes, how deep it is, how many references it has.\<close>

fun plist_nodes :: "plist \<Rightarrow> nat" and element_nodes :: "plist list \<Rightarrow> nat"
  and entry_nodes :: "(scalars \<times> plist) list \<Rightarrow> nat" where
  "plist_nodes (PArray vs) = Suc (element_nodes vs)"
| "plist_nodes (PDictionary kvs) = Suc (entry_nodes kvs)"
| "plist_nodes _ = 1"
| "element_nodes [] = 0"
| "element_nodes (v # vs) = plist_nodes v + element_nodes vs"
| "entry_nodes [] = 0"
| "entry_nodes ((k, v) # kvs) = Suc (plist_nodes v + entry_nodes kvs)"

lemmas plist_induct = plist_nodes_element_nodes_entry_nodes.induct

fun plist_height :: "plist \<Rightarrow> nat" and element_height :: "plist list \<Rightarrow> nat"
  and entry_height :: "(scalars \<times> plist) list \<Rightarrow> nat" where
  "plist_height (PArray vs) = element_height vs"
| "plist_height (PDictionary kvs) = entry_height kvs"
| "plist_height _ = 0"
| "element_height [] = 0"
| "element_height (v # vs) = max (Suc (plist_height v)) (element_height vs)"
| "entry_height [] = 0"
| "entry_height ((k, v) # kvs) = max (Suc (plist_height v)) (entry_height kvs)"

fun element_starts :: "nat \<Rightarrow> plist list \<Rightarrow> nat list" where
  "element_starts i [] = []"
| "element_starts i (v # vs) = i # element_starts (i + plist_nodes v) vs"

fun entry_keys :: "nat \<Rightarrow> (scalars \<times> plist) list \<Rightarrow> nat list" where
  "entry_keys i [] = []"
| "entry_keys i ((k, v) # kvs) = i # entry_keys (Suc (i + plist_nodes v)) kvs"

fun entry_starts :: "nat \<Rightarrow> (scalars \<times> plist) list \<Rightarrow> nat list" where
  "entry_starts i [] = []"
| "entry_starts i ((k, v) # kvs) = Suc i # entry_starts (Suc (i + plist_nodes v)) kvs"

text \<open>The objects of a value whose first object has the given number.\<close>

fun flat :: "nat \<Rightarrow> plist \<Rightarrow> encoded_object list" and flat_elements :: "nat \<Rightarrow> plist list \<Rightarrow> encoded_object list"
  and flat_entries :: "nat \<Rightarrow> (scalars \<times> plist) list \<Rightarrow> encoded_object list" where
  "flat i PNull = [ENull]"
| "flat i (PBoolean b) = [EBoolean b]"
| "flat i (PInteger n) = [EInteger n]"
| "flat i (PData bs) = [EData bs]"
| "flat i (PString t) = [EString t]"
| "flat i (PArray vs) = EArray (element_starts (Suc i) vs) # flat_elements (Suc i) vs"
| "flat i (PDictionary kvs) = EDictionary (entry_keys (Suc i) kvs) (entry_starts (Suc i) kvs) # flat_entries (Suc i) kvs"
| "flat_elements i [] = []"
| "flat_elements i (v # vs) = flat i v @ flat_elements (i + plist_nodes v) vs"
| "flat_entries i [] = []"
| "flat_entries i ((k, v) # kvs) = EString k # flat (Suc i) v @ flat_entries (Suc (i + plist_nodes v)) kvs"

lemma length_flat [simp]:
  "length (flat i v) = plist_nodes v" "length (flat_elements i vs) = element_nodes vs"
  "length (flat_entries i kvs) = entry_nodes kvs"
  by (induction v and vs and kvs arbitrary: i and i and i rule: plist_induct) auto

lemma length_starts [simp]:
  "length (element_starts i vs) = length vs" "length (entry_keys i kvs) = length kvs"
  "length (entry_starts i kvs) = length kvs"
proof -
  show "length (element_starts i vs) = length vs" by (induction vs arbitrary: i) auto
  show "length (entry_keys i kvs) = length kvs" by (induction kvs arbitrary: i) auto
  show "length (entry_starts i kvs) = length kvs" by (induction kvs arbitrary: i) auto
qed

lemma plist_nodes_pos [simp]: "0 < plist_nodes v"
  by (cases v) auto

text \<open>Values as Rust's types have them: valid texts, dictionaries with ordered keys.\<close>

fun plist_ok :: "plist \<Rightarrow> bool" and elements_ok :: "plist list \<Rightarrow> bool"
  and entries_ok :: "(scalars \<times> plist) list \<Rightarrow> bool" where
  "plist_ok (PString t) = list_all scalar_ok t"
| "plist_ok (PArray vs) = elements_ok vs"
| "plist_ok (PDictionary kvs) = (sorted_wrt scalars_less (map fst kvs) \<and> entries_ok kvs)"
| "plist_ok _ = True"
| "elements_ok [] = True"
| "elements_ok (v # vs) = (plist_ok v \<and> elements_ok vs)"
| "entries_ok [] = True"
| "entries_ok ((k, v) # kvs) = (list_all scalar_ok k \<and> plist_ok v \<and> entries_ok kvs)"

subsection \<open>The encoder writes the flat layout\<close>

definition encoder_grew :: "plist_encoder \<Rightarrow> encoded_object list \<Rightarrow> plist_encoder \<Rightarrow> bool" where
  "encoder_grew e os e' \<longleftrightarrow> en_objects e' = en_objects e @ os \<and> length (en_objects e') \<le> MAX_OBJECTS
     \<and> en_references e' = en_references e + sum_list (map (length \<circ> sob_children \<circ> scan_of) os)
     \<and> (en_references e \<le> MAX_REFERENCES \<longrightarrow> en_references e' \<le> MAX_REFERENCES)
     \<and> (\<forall>n. EInteger n \<in> set os \<longrightarrow> - (2 ^ 63) \<le> n \<and> n < 2 ^ 64)"

lemma encoder_grew_trans:
  "encoder_grew e os e1 \<Longrightarrow> encoder_grew e1 os' e' \<Longrightarrow> encoder_grew e (os @ os') e'"
  by (auto simp: encoder_grew_def)

lemma charge_references_grew:
  "charge_references n e = Inr e' \<Longrightarrow> e' = e\<lparr>en_references := en_references e + n\<rparr> \<and> en_references e' \<le> MAX_REFERENCES"
  by (auto simp: charge_references_def split: if_splits)

lemma charge_encoded_same:
  "charge_encoded_bytes n e = Inr e' \<Longrightarrow> en_objects e' = en_objects e \<and> en_references e' = en_references e"
  by (auto simp: charge_encoded_bytes_def split: if_splits)

lemma encoder_adds:
  "encoder_add v d e = Inr (i, e') \<Longrightarrow>
     i = length (en_objects e) \<and> encoder_grew e (flat i v) e' \<and> d + plist_height v \<le> MAX_DEPTH"
  "encoder_add_elements vs d e = Inr (ss, e') \<Longrightarrow> length (en_objects e) \<le> MAX_OBJECTS \<Longrightarrow>
     ss = element_starts (length (en_objects e)) vs
     \<and> encoder_grew e (flat_elements (length (en_objects e)) vs) e' \<and> (vs \<noteq> [] \<longrightarrow> d + element_height vs \<le> Suc MAX_DEPTH)"
  "encoder_add_entries kvs d e = Inr ((ks, ss), e') \<Longrightarrow> length (en_objects e) \<le> MAX_OBJECTS \<Longrightarrow>
     ks = entry_keys (length (en_objects e)) kvs \<and> ss = entry_starts (length (en_objects e)) kvs
     \<and> encoder_grew e (flat_entries (length (en_objects e)) kvs) e' \<and> (kvs \<noteq> [] \<longrightarrow> d + entry_height kvs \<le> Suc MAX_DEPTH)"
proof (induction v and vs and kvs arbitrary: d e i e' and d e ss e' and d e ks ss e' rule: plist_induct)
  case (1 vs)
  let ?n = "length (en_objects e)"
  from "1.prems" obtain e1 ss e2 where e1: "charge_references (length vs) (reserve_object ENull e) = Inr e1"
    and e2: "encoder_add_elements vs (d + 1) e1 = Inr (ss, e2)" and r: "(i, e') = place_object ?n (EArray ss) e2"
    and d: "d \<le> MAX_DEPTH" "?n < MAX_OBJECTS"
    by (auto simp: encoder_add.simps Let_def split: if_splits)
  note c = charge_references_grew [OF e1]
  have n1: "length (en_objects e1) = Suc ?n" using c by (simp add: reserve_object_def)
  from "1.IH" [OF e2] n1 d have IH: "ss = element_starts (Suc ?n) vs" "encoder_grew e1 (flat_elements (Suc ?n) vs) e2"
    "vs \<noteq> [] \<longrightarrow> d + 1 + element_height vs \<le> Suc MAX_DEPTH" by simp_all
  with r c d show ?case
    by (cases "vs = []") (auto simp: place_object_def encoder_grew_def reserve_object_def list_update_append)
next
  case (2 kvs)
  let ?n = "length (en_objects e)"
  from "2.prems" obtain e1 ks ss e2 where e1: "charge_references (length kvs * 2) (reserve_object ENull e) = Inr e1"
    and e2: "encoder_add_entries kvs (d + 1) e1 = Inr ((ks, ss), e2)" and r: "(i, e') = place_object ?n (EDictionary ks ss) e2"
    and d: "d \<le> MAX_DEPTH" "?n < MAX_OBJECTS"
    by (auto simp: encoder_add.simps Let_def split: if_splits)
  note c = charge_references_grew [OF e1]
  have n1: "length (en_objects e1) = Suc ?n" using c by (simp add: reserve_object_def)
  from "2.IH" [OF e2] n1 d have IH: "ks = entry_keys (Suc ?n) kvs" "ss = entry_starts (Suc ?n) kvs"
    "encoder_grew e1 (flat_entries (Suc ?n) kvs) e2" "kvs \<noteq> [] \<longrightarrow> d + 1 + entry_height kvs \<le> Suc MAX_DEPTH" by simp_all
  with r c d show ?case
    by (cases "kvs = []") (auto simp: place_object_def encoder_grew_def reserve_object_def list_update_append)
next
  case (5 v vs)
  then obtain j e1 js where v: "encoder_add v d e = Inr (j, e1)" and vs: "encoder_add_elements vs d e1 = Inr (js, e')"
    and ss: "ss = j # js"
    by auto
  note v = "5.IH"(1) [OF v]
  then have "length (en_objects e1) = length (en_objects e) + plist_nodes v" "length (en_objects e1) \<le> MAX_OBJECTS"
    by (auto simp: encoder_grew_def)
  with "5.IH"(2) [OF vs] v ss show ?case using encoder_grew_trans [of e "flat j v" e1 "flat_elements (length (en_objects e1)) vs" e']
    by (cases "vs = []") auto
next
  case (7 k v kvs)
  let ?n = "length (en_objects e)"
  from "7.prems"(1) obtain e1 j e2 js ls where e1: "charge_encoded_bytes (string_len k) e = Inr e1"
    and n: "length (en_objects e1) < MAX_OBJECTS"
    and v: "encoder_add v d (reserve_object (EString k) e1) = Inr (j, e2)"
    and kvs: "encoder_add_entries kvs d e2 = Inr ((js, ls), e')"
    and ss: "ks = length (en_objects e1) # js" "ss = j # ls"
    by (auto simp: Let_def split: if_splits)
  note same = charge_encoded_same [OF e1]
  have grew: "encoder_grew e [EString k] (reserve_object (EString k) e1)"
    using same n by (simp add: encoder_grew_def reserve_object_def)
  have start: "length (en_objects (reserve_object (EString k) e1)) = Suc ?n" using same by (simp add: reserve_object_def)
  note v = "7.IH"(1) [OF v]
  from encoder_grew_trans [OF grew] v start have both: "encoder_grew e (EString k # flat (Suc ?n) v) e2" by fastforce
  then have size: "length (en_objects e2) = Suc (?n + plist_nodes v)" "length (en_objects e2) \<le> MAX_OBJECTS"
    by (auto simp: encoder_grew_def)
  note kvs = "7.IH"(2) [OF kvs size(2)]
  from encoder_grew_trans [OF both] kvs size(1)
  have "encoder_grew e (EString k # flat (Suc ?n) v @ flat_entries (Suc (?n + plist_nodes v)) kvs) e'" by fastforce
  with kvs v ss size(1) start same show ?case by (cases "kvs = []") auto
qed (auto simp: encoder_add.simps Let_def place_object_def reserve_object_def encoder_grew_def split: if_splits dest!: charge_encoded_same)

subsection \<open>References of the flat layout\<close>

lemma starts_range:
  "c \<in> set (element_starts i vs) \<Longrightarrow> i \<le> c \<and> c < i + element_nodes vs"
  "c \<in> set (entry_keys i kvs) \<Longrightarrow> i \<le> c \<and> c < i + entry_nodes kvs"
  "c \<in> set (entry_starts i kvs) \<Longrightarrow> i \<le> c \<and> c < i + entry_nodes kvs"
proof -
  show "c \<in> set (element_starts i vs) \<Longrightarrow> i \<le> c \<and> c < i + element_nodes vs"
    by (induction vs arbitrary: i) fastforce+
  show "c \<in> set (entry_keys i kvs) \<Longrightarrow> i \<le> c \<and> c < i + entry_nodes kvs"
    by (induction kvs arbitrary: i) fastforce+
  show "c \<in> set (entry_starts i kvs) \<Longrightarrow> i \<le> c \<and> c < i + entry_nodes kvs"
    by (induction kvs arbitrary: i) fastforce+
qed

lemma flat_children:
  "ob \<in> set (flat i v) \<Longrightarrow> c \<in> set (sob_children (scan_of ob)) \<Longrightarrow> i \<le> c \<and> c < i + plist_nodes v"
  "ob \<in> set (flat_elements i vs) \<Longrightarrow> c \<in> set (sob_children (scan_of ob)) \<Longrightarrow> i \<le> c \<and> c < i + element_nodes vs"
  "ob \<in> set (flat_entries i kvs) \<Longrightarrow> c \<in> set (sob_children (scan_of ob)) \<Longrightarrow> i \<le> c \<and> c < i + entry_nodes kvs"
  by (induction v and vs and kvs arbitrary: i and i and i rule: plist_induct)
    (fastforce dest: starts_range)+

lemma flat_dictionary:
  "EDictionary ks cs \<in> set (flat i v) \<Longrightarrow> length cs = length ks"
  "EDictionary ks cs \<in> set (flat_elements i vs) \<Longrightarrow> length cs = length ks"
  "EDictionary ks cs \<in> set (flat_entries i kvs) \<Longrightarrow> length cs = length ks"
  by (induction v and vs and kvs arbitrary: i and i and i rule: plist_induct) auto

lemma flat_strings:
  "plist_ok v \<Longrightarrow> EString t \<in> set (flat i v) \<Longrightarrow> list_all scalar_ok t"
  "elements_ok vs \<Longrightarrow> EString t \<in> set (flat_elements i vs) \<Longrightarrow> list_all scalar_ok t"
  "entries_ok kvs \<Longrightarrow> EString t \<in> set (flat_entries i kvs) \<Longrightarrow> list_all scalar_ok t"
  by (induction v and vs and kvs arbitrary: i and i and i rule: plist_induct) auto

lemma flat_object_ok:
  assumes "plist_ok v" and "ob \<in> set (flat 0 v)" and "\<And>n. EInteger n \<in> set (flat 0 v) \<Longrightarrow> - (2 ^ 63) \<le> n \<and> n < 2 ^ 64"
    and "length (sob_children (scan_of ob)) \<le> MAX_REFERENCES"
  shows "object_ok (plist_nodes v) ob"
  using assms flat_children(1) [OF assms(2)] flat_strings(1) [OF assms(1)] flat_dictionary(1) [of _ _ 0 v]
  by (cases ob) (auto simp: list_all_iff)

text \<open>The keys of a dictionary stand where its object says.\<close>

lemma entry_keys_strings:
  "occurs_at objs i (flat_entries i kvs) \<Longrightarrow> k \<in> set (entry_keys i kvs) \<Longrightarrow> \<exists>t. objs ! k = EString t"
proof (induction kvs arbitrary: i)
  case (Cons kv kvs)
  then show ?case by (cases kv) (auto simp: occurs_at_Cons occurs_at_append)
qed simp

lemma flat_keys_strings:
  "occurs_at objs i (flat i v) \<Longrightarrow> EDictionary ks cs \<in> set (flat i v) \<Longrightarrow> k \<in> set ks \<Longrightarrow> \<exists>t. objs ! k = EString t"
  "occurs_at objs i (flat_elements i vs) \<Longrightarrow> EDictionary ks cs \<in> set (flat_elements i vs) \<Longrightarrow> k \<in> set ks \<Longrightarrow>
     \<exists>t. objs ! k = EString t"
  "occurs_at objs i (flat_entries i kvs) \<Longrightarrow> EDictionary ks cs \<in> set (flat_entries i kvs) \<Longrightarrow> k \<in> set ks \<Longrightarrow>
     \<exists>t. objs ! k = EString t"
  by (induction v and vs and kvs arbitrary: i and i and i rule: plist_induct)
    (auto simp: occurs_at_Cons occurs_at_append entry_keys_strings)

subsection \<open>The decoder reads the flat layout\<close>

definition spend :: "nat \<Rightarrow> nat \<Rightarrow> decode_budget \<Rightarrow> decode_budget" where
  "spend n b budget = budget\<lparr>db_nodes := db_nodes budget + n, db_value_bytes := db_value_bytes budget + b\<rparr>"

definition affords :: "decode_budget \<Rightarrow> nat \<Rightarrow> nat \<Rightarrow> bool" where
  "affords budget n b \<longleftrightarrow> db_nodes budget + n \<le> MAX_DECODED_NODES \<and> db_value_bytes budget + b \<le> MAX_VALUE_BYTES"

lemma spend_spend [simp]: "spend n b (spend m a budget) = spend (m + n) (a + b) budget"
  by (simp add: spend_def add.assoc)

lemma spend_0 [simp]: "spend 0 0 budget = budget"
  by (simp add: spend_def)

lemma affords_spend [simp]: "affords (spend m a budget) n b \<longleftrightarrow> affords budget (m + n) (a + b)"
  by (simp add: affords_def spend_def add.assoc)

lemma affords_mono: "affords budget n b \<Longrightarrow> m \<le> n \<Longrightarrow> a \<le> b \<Longrightarrow> affords budget m a"
  by (auto simp: affords_def)

lemma charge_node_spend: "affords budget (Suc n) b \<Longrightarrow> charge_node budget = Inr (spend 1 0 budget)"
  by (auto simp: affords_def charge_node_def spend_def MAX_DECODED_NODES_def)

definition charges :: "encoded_object list \<Rightarrow> nat" where
  "charges os = sum_list (map leaf_charge os)"

lemma charges_simps [simp]: "charges [] = 0" "charges (ob # os) = leaf_charge ob + charges os"
  "charges (os @ os') = charges os + charges os'"
  by (simp_all add: charges_def)

definition table_ok :: "object_table \<Rightarrow> nat \<Rightarrow> encoded_object list \<Rightarrow> bool" where
  "table_ok T rs objs \<longleftrightarrow> (\<forall>j < length objs. ot_scanned T ! j = scan_of (objs ! j)
     \<and> (\<exists>stop. ot_ends T (ot_offsets T ! j) = Some stop
          \<and> reads_as (ot_input T) (ot_offsets T ! j) stop rs (length objs) (objs ! j)))"

lemma decode_leaf_object:
  assumes T: "table_ok T rs objs" and j: "j < length objs" and v: "leaf_value (objs ! j) = Some v"
    and d: "d \<le> MAX_DEPTH" and b: "affords budget 1 (leaf_charge (objs ! j))"
  shows "decode_object T j d budget = Inr (v, spend 1 (leaf_charge (objs ! j)) budget)"
proof -
  from T j obtain stop b where stop: "ot_ends T (ot_offsets T ! j) = Some stop"
    and scan: "ot_scanned T ! j = scan_of (objs ! j)"
    and byte: "read_byte (ot_input T) (ot_offsets T ! j) stop = Inr (b, ot_offsets T ! j + 1)"
    and leaf: "\<And>budget. db_value_bytes budget + leaf_charge (objs ! j) \<le> MAX_VALUE_BYTES \<Longrightarrow>
      decode_leaf T (sob_kind (scan_of (objs ! j))) b (ot_offsets T ! j + 1) stop budget =
        Inr (v, add_bytes (leaf_charge (objs ! j)) budget)"
    using v unfolding table_ok_def reads_as_def by blast
  have "sob_kind (scan_of (objs ! j)) \<notin> {KArray, KDictionary}" using v by (cases "objs ! j") auto
  moreover have "charge_node budget = Inr (spend 1 0 budget)" using b charge_node_spend [of budget 0] by simp
  moreover have "db_value_bytes (spend 1 0 budget) + leaf_charge (objs ! j) \<le> MAX_VALUE_BYTES"
    using b by (simp add: affords_def spend_def)
  ultimately show ?thesis using d stop scan byte leaf [of "spend 1 0 budget"]
    by (subst decode_object.simps) (simp add: add_bytes_def spend_def)
qed

lemma decode_container:
  assumes T: "table_ok T rs objs" and j: "j < length objs" and d: "d \<le> MAX_DEPTH" and b: "affords budget (Suc n) c"
  shows "objs ! j = EArray cs \<Longrightarrow> decode_object T j d budget =
      rbind (decode_elements T cs (d + 1) (spend 1 0 budget)) (\<lambda>(values, budget). Inr (PArray values, budget))"
    and "objs ! j = EDictionary ks cs \<Longrightarrow> decode_object T j d budget =
      rbind (decode_entries T (zip ks cs) (d + 1) [] (spend 1 0 budget)) (\<lambda>(entries, budget). Inr (PDictionary entries, budget))"
proof -
  from T j obtain stop b where stop: "ot_ends T (ot_offsets T ! j) = Some stop"
    and scan: "ot_scanned T ! j = scan_of (objs ! j)"
    and byte: "read_byte (ot_input T) (ot_offsets T ! j) stop = Inr (b, ot_offsets T ! j + 1)"
    unfolding table_ok_def reads_as_def by blast
  note all = d stop scan byte charge_node_spend [OF b]
  show "objs ! j = EArray cs \<Longrightarrow> decode_object T j d budget =
      rbind (decode_elements T cs (d + 1) (spend 1 0 budget)) (\<lambda>(values, budget). Inr (PArray values, budget))"
    using all by (subst decode_object.simps) simp
  show "objs ! j = EDictionary ks cs \<Longrightarrow> decode_object T j d budget =
      rbind (decode_entries T (zip ks cs) (d + 1) [] (spend 1 0 budget)) (\<lambda>(entries, budget). Inr (PDictionary entries, budget))"
    using all by (subst decode_object.simps) simp
qed

lemma scalars_less_irrefl [simp]: "\<not> scalars_less t t"
  by (induction t) auto

lemma scalars_less_asym: "scalars_less s t \<Longrightarrow> \<not> scalars_less t s"
  by (induction s t rule: scalars_less.induct) auto

lemma dictionary_insert_last:
  "\<forall>l \<in> set (map fst dict). scalars_less l k \<Longrightarrow> dictionary_insert k v dict = (dict @ [(k, v)], False)"
proof (induction dict)
  case (Cons lw dict)
  then show ?case using scalars_less_asym by (cases lw) auto
qed simp

lemma decode_flat:
  assumes T: "table_ok T rs objs"
  shows "occurs_at objs i (flat i v) \<Longrightarrow> plist_ok v \<Longrightarrow> d + plist_height v \<le> MAX_DEPTH \<Longrightarrow>
      affords budget (plist_nodes v) (charges (flat i v)) \<Longrightarrow>
      decode_object T i d budget = Inr (v, spend (plist_nodes v) (charges (flat i v)) budget)"
    and "occurs_at objs i (flat_elements i vs) \<Longrightarrow> elements_ok vs \<Longrightarrow> (vs \<noteq> [] \<longrightarrow> d + element_height vs \<le> Suc MAX_DEPTH) \<Longrightarrow>
      affords budget (element_nodes vs) (charges (flat_elements i vs)) \<Longrightarrow>
      decode_elements T (element_starts i vs) d budget =
        Inr (vs, spend (element_nodes vs) (charges (flat_elements i vs)) budget)"
    and "occurs_at objs i (flat_entries i kvs) \<Longrightarrow> entries_ok kvs \<Longrightarrow> sorted_wrt scalars_less (map fst (dict @ kvs)) \<Longrightarrow>
      (kvs \<noteq> [] \<longrightarrow> d + entry_height kvs \<le> Suc MAX_DEPTH) \<Longrightarrow>
      affords budget (entry_nodes kvs) (charges (flat_entries i kvs)) \<Longrightarrow>
      decode_entries T (zip (entry_keys i kvs) (entry_starts i kvs)) d dict budget =
        Inr (dict @ kvs, spend (entry_nodes kvs) (charges (flat_entries i kvs)) budget)"
proof (induction v and vs and kvs arbitrary: i d budget and i d budget and i d dict budget rule: plist_induct)
  case (1 vs)
  then have at: "i < length objs" "objs ! i = EArray (element_starts (Suc i) vs)" "occurs_at objs (Suc i) (flat_elements (Suc i) vs)"
    by (auto simp: occurs_at_Cons)
  have d: "d \<le> MAX_DEPTH" "vs \<noteq> [] \<longrightarrow> d + 1 + element_height vs \<le> Suc MAX_DEPTH" using "1.prems"(3) by auto
  have b: "affords budget (Suc (element_nodes vs)) (charges (flat_elements (Suc i) vs))" using "1.prems"(4) by simp
  have "affords (spend 1 0 budget) (element_nodes vs) (charges (flat_elements (Suc i) vs))" using b by simp
  from "1.IH" [OF at(3) _ d(2) this] "1.prems"(2) decode_container(1) [OF T at(1) d(1) b at(2)] show ?case by simp
next
  case (2 kvs)
  then have at: "i < length objs" "objs ! i = EDictionary (entry_keys (Suc i) kvs) (entry_starts (Suc i) kvs)"
    "occurs_at objs (Suc i) (flat_entries (Suc i) kvs)"
    by (auto simp: occurs_at_Cons)
  have d: "d \<le> MAX_DEPTH" "kvs \<noteq> [] \<longrightarrow> d + 1 + entry_height kvs \<le> Suc MAX_DEPTH" using "2.prems"(3) by auto
  have b: "affords budget (Suc (entry_nodes kvs)) (charges (flat_entries (Suc i) kvs))" using "2.prems"(4) by simp
  have "affords (spend 1 0 budget) (entry_nodes kvs) (charges (flat_entries (Suc i) kvs))" using b by simp
  from "2.IH" [OF at(3) _ _ d(2) this, of "[]"] "2.prems"(2) decode_container(2) [OF T at(1) d(1) b at(2)] show ?case by simp
next
  case (5 v vs)
  let ?c = "charges (flat i v)"
  have at: "occurs_at objs i (flat i v)" "occurs_at objs (i + plist_nodes v) (flat_elements (i + plist_nodes v) vs)"
    using "5.prems"(1) by (simp_all add: occurs_at_append)
  have d: "d + plist_height v \<le> MAX_DEPTH" "vs \<noteq> [] \<longrightarrow> d + element_height vs \<le> Suc MAX_DEPTH" using "5.prems"(3) by auto
  have b: "affords budget (plist_nodes v) ?c" "affords (spend (plist_nodes v) ?c budget) (element_nodes vs)
      (charges (flat_elements (i + plist_nodes v) vs))"
    using "5.prems"(4) by (auto intro: affords_mono)
  from "5.IH"(1) [OF at(1) _ d(1) b(1)] "5.IH"(2) [OF at(2) _ d(2) b(2)] "5.prems"(2) show ?case by simp
next
  case (7 k v kvs)
  let ?c = "charges (flat (Suc i) v)" and ?j = "Suc (i + plist_nodes v)"
  have at: "i < length objs" "objs ! i = EString k" "occurs_at objs (Suc i) (flat (Suc i) v)" "occurs_at objs ?j (flat_entries ?j kvs)"
    using "7.prems"(1) by (simp_all add: occurs_at_append occurs_at_Cons)
  have d: "d \<le> MAX_DEPTH" "d + plist_height v \<le> MAX_DEPTH" "kvs \<noteq> [] \<longrightarrow> d + entry_height kvs \<le> Suc MAX_DEPTH"
    using "7.prems"(4) by auto
  let ?k = "leaf_charge (EString k)"
  have b: "affords budget 1 ?k" "affords (spend 1 ?k budget) (plist_nodes v) ?c"
    "affords (spend (Suc (plist_nodes v)) (?k + ?c) budget) (entry_nodes kvs) (charges (flat_entries ?j kvs))"
    using "7.prems"(5) by (auto intro: affords_mono simp: add.assoc)
  have key: "decode_object T i d budget = Inr (PString k, spend 1 ?k budget)"
    using decode_leaf_object [OF T at(1) _ d(1), of "PString k" budget] at(2) b(1) by simp
  have ins: "dictionary_insert k v dict = (dict @ [(k, v)], False)"
    using "7.prems"(3) by (intro dictionary_insert_last) (auto simp: sorted_wrt_append)
  from "7.IH"(1) [OF at(3) _ d(2) b(2)] "7.IH"(2) [OF at(4) _ _ d(3) b(3), of "dict @ [(k, v)]"] "7.prems"(2,3) key ins
  show ?case by (simp add: add.assoc)
qed (use decode_leaf_object [OF T] in \<open>auto simp: occurs_at_Cons\<close>)

subsection \<open>The flat layout has no cycles\<close>

lemma validate_children_append:
  "validate_children (xs @ ys) objects colors d =
     rbind (validate_children xs objects colors d) (\<lambda>colors. validate_children ys objects colors d)"
proof (induction xs arbitrary: colors)
  case (Cons x xs)
  then show ?case by (cases "validate_acyclic x objects colors d") auto
qed simp

text \<open>The colours of dictionary entries: those of the keys and those of the values.\<close>

fun entry_colors :: "nat \<Rightarrow> nat \<Rightarrow> (scalars \<times> plist) list \<Rightarrow> nat list" where
  "entry_colors a b [] = []"
| "entry_colors a b ((k, v) # kvs) = a # replicate (plist_nodes v) b @ entry_colors a b kvs"

lemma entry_colors_same: "entry_colors a a kvs = replicate (entry_nodes kvs) a"
proof (induction kvs)
  case (Cons kv kvs)
  then show ?case by (cases kv) (simp add: replicate_add)
qed simp

lemma length_entry_colors [simp]: "length (entry_colors a b kvs) = entry_nodes kvs"
proof (induction kvs)
  case (Cons kv kvs)
  then show ?case by (cases kv) simp
qed simp

lemma validate_leaf:
  assumes "occurs_at objs i [ob]" and "sob_children (scan_of ob) = []" and "d \<le> MAX_DEPTH" and "length pre = i"
  shows "validate_acyclic i (map scan_of objs) (pre @ 0 # post) d = Inr (pre @ 2 # post)"
  using assms by (subst validate_acyclic.simps) (auto simp: occurs_at_Cons nth_append)

lemma validate_keys:
  "occurs_at objs i (flat_entries i kvs) \<Longrightarrow> (kvs \<noteq> [] \<longrightarrow> d \<le> MAX_DEPTH) \<Longrightarrow> length pre = i \<Longrightarrow>
     validate_children (entry_keys i kvs) (map scan_of objs) (pre @ entry_colors 0 0 kvs @ post) d =
       Inr (pre @ entry_colors 2 0 kvs @ post)"
proof (induction kvs arbitrary: i pre)
  case (Cons kv kvs)
  obtain k v where kv: "kv = (k, v)" by (cases kv)
  have at: "occurs_at objs i [EString k]" "occurs_at objs (Suc (i + plist_nodes v)) (flat_entries (Suc (i + plist_nodes v)) kvs)"
    using Cons.prems(1) by (simp_all add: kv occurs_at_append occurs_at_Cons)
  have "validate_acyclic i (map scan_of objs) (pre @ 0 # replicate (plist_nodes v) 0 @ entry_colors 0 0 kvs @ post) d =
      Inr (pre @ 2 # replicate (plist_nodes v) 0 @ entry_colors 0 0 kvs @ post)"
    using validate_leaf [OF at(1)] Cons.prems by simp
  with Cons.IH [OF at(2), of "pre @ 2 # replicate (plist_nodes v) 0"] Cons.prems show ?case by (simp add: kv)
qed simp

lemma validate_flat:
  "occurs_at objs i (flat i v) \<Longrightarrow> d + plist_height v \<le> MAX_DEPTH \<Longrightarrow> length pre = i \<Longrightarrow>
     validate_acyclic i (map scan_of objs) (pre @ replicate (plist_nodes v) 0 @ post) d =
       Inr (pre @ replicate (plist_nodes v) 2 @ post)"
  "occurs_at objs i (flat_elements i vs) \<Longrightarrow> (vs \<noteq> [] \<longrightarrow> d + element_height vs \<le> Suc MAX_DEPTH) \<Longrightarrow> length pre = i \<Longrightarrow>
     validate_children (element_starts i vs) (map scan_of objs) (pre @ replicate (element_nodes vs) 0 @ post) d =
       Inr (pre @ replicate (element_nodes vs) 2 @ post)"
  "occurs_at objs i (flat_entries i kvs) \<Longrightarrow> (kvs \<noteq> [] \<longrightarrow> d + entry_height kvs \<le> Suc MAX_DEPTH) \<Longrightarrow> length pre = i \<Longrightarrow>
     validate_children (entry_starts i kvs) (map scan_of objs) (pre @ entry_colors 2 0 kvs @ post) d =
       Inr (pre @ entry_colors 2 2 kvs @ post)"
proof (induction v and vs and kvs arbitrary: i d pre post and i d pre post and i d pre post rule: plist_induct)
  case (1 vs)
  have at: "i < length objs" "objs ! i = EArray (element_starts (Suc i) vs)" "occurs_at objs (Suc i) (flat_elements (Suc i) vs)"
    using "1.prems"(1) by (auto simp: occurs_at_Cons)
  have d: "d \<le> MAX_DEPTH" "vs \<noteq> [] \<longrightarrow> d + 1 + element_height vs \<le> Suc MAX_DEPTH" using "1.prems"(2) by auto
  from "1.IH" [OF at(3) d(2), of "pre @ [1]" post] "1.prems"(3) at d(1) show ?case
    by (subst validate_acyclic.simps) (auto simp: nth_append list_update_append)
next
  case (2 kvs)
  have at: "i < length objs" "objs ! i = EDictionary (entry_keys (Suc i) kvs) (entry_starts (Suc i) kvs)"
    "occurs_at objs (Suc i) (flat_entries (Suc i) kvs)"
    using "2.prems"(1) by (auto simp: occurs_at_Cons)
  have d: "d \<le> MAX_DEPTH" "kvs \<noteq> [] \<longrightarrow> d + 1 + entry_height kvs \<le> Suc MAX_DEPTH" using "2.prems"(2) by auto
  have d1: "kvs \<noteq> [] \<longrightarrow> d + 1 \<le> MAX_DEPTH" using d(2) by (cases kvs) auto
  have "validate_children (entry_keys (Suc i) kvs @ entry_starts (Suc i) kvs) (map scan_of objs)
      (pre @ 1 # replicate (entry_nodes kvs) 0 @ post) (d + 1) = Inr (pre @ 1 # replicate (entry_nodes kvs) 2 @ post)"
    unfolding validate_children_append
    using validate_keys [OF at(3) d1, of "pre @ [1]" post] "2.IH" [OF at(3) d(2), of "pre @ [1]" post] "2.prems"(3)
    by (simp add: entry_colors_same)
  with "2.prems"(3) at d(1) show ?case
    by (subst validate_acyclic.simps) (auto simp: nth_append list_update_append)
next
  case (5 v vs)
  have at: "occurs_at objs i (flat i v)" "occurs_at objs (i + plist_nodes v) (flat_elements (i + plist_nodes v) vs)"
    using "5.prems"(1) by (simp_all add: occurs_at_append)
  have d: "d + plist_height v \<le> MAX_DEPTH" "vs \<noteq> [] \<longrightarrow> d + element_height vs \<le> Suc MAX_DEPTH" using "5.prems"(2) by auto
  from "5.IH"(1) [OF at(1) d(1) "5.prems"(3), of "replicate (element_nodes vs) 0 @ post"]
    "5.IH"(2) [OF at(2) d(2), of "pre @ replicate (plist_nodes v) 2" post] "5.prems"(3)
  show ?case by (simp add: replicate_add)
next
  case (7 k v kvs)
  let ?j = "Suc (i + plist_nodes v)"
  have at: "occurs_at objs (Suc i) (flat (Suc i) v)" "occurs_at objs ?j (flat_entries ?j kvs)"
    using "7.prems"(1) by (simp_all add: occurs_at_append occurs_at_Cons)
  have d: "d + plist_height v \<le> MAX_DEPTH" "kvs \<noteq> [] \<longrightarrow> d + entry_height kvs \<le> Suc MAX_DEPTH" using "7.prems"(2) by auto
  from "7.IH"(1) [OF at(1) d(1), of "pre @ [2]" "entry_colors 2 0 kvs @ post"]
    "7.IH"(2) [OF at(2) d(2), of "pre @ 2 # replicate (plist_nodes v) 2" post] "7.prems"(3)
  show ?case by simp
qed (use validate_leaf in auto)

lemma validate_done: "\<forall>i \<in> set ps. colors ! i = 2 \<Longrightarrow> validate_all ps objects colors = Inr colors"
  by (induction ps) (auto simp: validate_acyclic.simps)

lemma validate_all_flat:
  assumes "plist_height v \<le> MAX_DEPTH"
  shows "validate_all [0..<plist_nodes v] (map scan_of (flat 0 v)) (replicate (plist_nodes v) 0) =
    Inr (replicate (plist_nodes v) 2)"
proof -
  have "[0..<plist_nodes v] = 0 # [1..<plist_nodes v]" by (simp add: upt_conv_Cons)
  moreover have "validate_acyclic 0 (map scan_of (flat 0 v)) (replicate (plist_nodes v) 0) 0 = Inr (replicate (plist_nodes v) 2)"
    using validate_flat(1) [of "flat 0 v" 0 v 0 "[]" "[]"] assms by (simp add: occurs_at_def)
  moreover have "validate_all [1..<plist_nodes v] (map scan_of (flat 0 v)) (replicate (plist_nodes v) 2) =
      Inr (replicate (plist_nodes v) 2)"
    by (rule validate_done) simp
  ultimately show ?thesis by simp
qed

subsection \<open>The document of a value\<close>

definition document :: "nat \<Rightarrow> nat \<Rightarrow> encoded_object list \<Rightarrow> bytes" where
  "document os rs objs = BPLIST_HEADER @ table_bytes rs objs @ concat (map (nat_be os) (object_offsets rs 8 objs))
     @ replicate 6 0 @ [word_of_nat os, word_of_nat rs] @ nat_be 8 (length objs) @ nat_be 8 0
     @ nat_be 8 (8 + length (table_bytes rs objs))"

definition offset_width :: "nat \<Rightarrow> encoded_object list \<Rightarrow> nat" where
  "offset_width rs objs = integer_storage_width (8 + length (table_bytes rs objs))"

lemma wrote_Inr: "wrote out bs r \<Longrightarrow> r = Inr res \<Longrightarrow> length out \<le> MAX_PLIST_SIZE \<Longrightarrow>
    res = out @ bs \<and> length res \<le> MAX_PLIST_SIZE"
  by (auto simp: wrote_def)

lemma plist_encode_document:
  assumes "plist_encode v = Inr bytes"
  defines "rs \<equiv> integer_storage_width (plist_nodes v - 1)"
  shows "bytes = document (offset_width rs (flat 0 v)) rs (flat 0 v) \<and> length bytes \<le> MAX_PLIST_SIZE
    \<and> plist_nodes v \<le> MAX_OBJECTS \<and> plist_height v \<le> MAX_DEPTH
    \<and> sum_list (map (length \<circ> sob_children \<circ> scan_of) (flat 0 v)) \<le> MAX_REFERENCES
    \<and> (\<forall>n. EInteger n \<in> set (flat 0 v) \<longrightarrow> - (2 ^ 63) \<le> n \<and> n < 2 ^ 64)"
proof -
  let ?objs = "flat 0 v"
  from assms(1) obtain top e out1 offsets out2 where
    add: "encoder_add v 0 \<lparr>en_objects = [], en_references = 0, en_value_bytes = 0\<rparr> = Inr (top, e)"
    and head: "append_bytes [] BPLIST_HEADER = Inr out1"
    and objs: "write_objects (en_objects e) (integer_storage_width (length (en_objects e) - 1)) out1 = Inr (offsets, out2)"
    and rest: "rbind (append_references offsets (integer_storage_width (length out2)) out2) (\<lambda>out.
         rbind (append_bytes out (replicate 6 0)) (\<lambda>out.
         rbind (push_byte out (word_of_nat (integer_storage_width (length out2)))) (\<lambda>out.
         rbind (push_byte out (word_of_nat (integer_storage_width (length (en_objects e) - 1)))) (\<lambda>out.
         rbind (append_be out (length (en_objects e)) 8) (\<lambda>out.
         rbind (append_be out top 8) (\<lambda>out. append_be out (length out2) 8)))))) = Inr bytes"
    unfolding plist_encode_def Let_def by (auto simp del: replicate.simps)
  note grew = encoder_adds(1) [OF add]
  then have e: "top = 0" "en_objects e = ?objs" by (auto simp: encoder_grew_def)
  have h: "out1 = BPLIST_HEADER" using wrote_append [of "[]" BPLIST_HEADER] head by (simp add: wrote_def)
  then have "length out1 \<le> MAX_PLIST_SIZE" by (simp add: MAX_PLIST_SIZE_def)
  with write_objects_wrote [OF objs] h have out2: "out2 = BPLIST_HEADER @ table_bytes rs ?objs"
    "offsets = object_offsets rs 8 ?objs" "length out2 \<le> MAX_PLIST_SIZE"
    by (auto simp: e rs_def)
  have w: "integer_storage_width (length out2) = offset_width rs ?objs" by (simp add: out2(1) offset_width_def)
  have "wrote out2 (concat (map (nat_be (offset_width rs ?objs)) offsets) @ replicate 6 0
      @ [word_of_nat (offset_width rs ?objs)] @ [word_of_nat rs] @ nat_be 8 (plist_nodes v) @ nat_be 8 0 @ nat_be 8 (length out2))
      (Inr bytes)"
    unfolding rest [symmetric] w unfolding e length_flat rs_def [symmetric]
    by (intro wrote_rbind wrote_references wrote_append wrote_push wrote_be)
  from wrote_Inr [OF this refl out2(3)] have "bytes = document (offset_width rs ?objs) rs ?objs \<and> length bytes \<le> MAX_PLIST_SIZE"
    by (auto simp: document_def out2(1,2))
  with grew e show ?thesis by (auto simp: encoder_grew_def)
qed

subsection \<open>Reading the tables of a document\<close>

lemma object_bytes_nonempty [simp]: "0 < length (object_bytes rs ob)"
  by (cases ob) (auto simp: length_bytes_def integer_bytes_def Let_def)

lemma length_object_offsets [simp]: "length (object_offsets rs c objs) = length objs"
  by (induction objs arbitrary: c) auto

lemma object_offsets_bound: "x \<in> set (object_offsets rs c objs) \<Longrightarrow> c \<le> x \<and> x < c + length (table_bytes rs objs)"
proof (induction objs arbitrary: c)
  case (Cons ob objs)
  then show ?case using object_bytes_nonempty [of rs ob] by (fastforce simp: table_bytes_def simp del: object_bytes_nonempty)
qed simp

lemma object_offsets_sorted: "sorted_wrt (<) (object_offsets rs c objs)"
proof (induction objs arbitrary: c)
  case (Cons ob objs)
  have "c < x" if "x \<in> set (object_offsets rs (c + length (object_bytes rs ob)) objs)" for x
    using object_offsets_bound [OF that] object_bytes_nonempty [of rs ob] by linarith
  with Cons show ?case by simp
qed simp

fun object_stops :: "nat \<Rightarrow> nat \<Rightarrow> encoded_object list \<Rightarrow> nat list" where
  "object_stops rs c [] = []"
| "object_stops rs c (ob # objs) = (c + length (object_bytes rs ob)) # object_stops rs (c + length (object_bytes rs ob)) objs"

lemma object_stops_tl:
  "objs \<noteq> [] \<Longrightarrow> tl (object_offsets rs c objs) @ [c + length (table_bytes rs objs)] = object_stops rs c objs"
proof (induction objs arbitrary: c)
  case (Cons ob objs)
  show ?case
  proof (cases objs)
    case (Cons ob' objs')
    with Cons.IH [of "c + length (object_bytes rs ob)"] show ?thesis by (simp add: table_bytes_def add.assoc)
  qed (simp add: table_bytes_def)
qed simp

lemma length_object_stops [simp]: "length (object_stops rs c objs) = length objs"
  by (induction objs arbitrary: c) auto

lemma object_stops_nth:
  "i < length objs \<Longrightarrow> object_stops rs c objs ! i = object_offsets rs c objs ! i + length (object_bytes rs (objs ! i))"
  by (induction objs arbitrary: c i) (auto simp: nth_Cons split: nat.splits)

lemma object_at:
  "occurs_at p c (table_bytes rs objs) \<Longrightarrow> i < length objs \<Longrightarrow>
     occurs_at p (object_offsets rs c objs ! i) (object_bytes rs (objs ! i))"
  by (induction objs arbitrary: c i) (auto simp: table_bytes_def occurs_at_append nth_Cons split: nat.splits)

lemma sorted_less_distinct: "sorted_wrt (<) xs \<Longrightarrow> sort xs = xs \<and> distinct (xs :: nat list)"
  using strict_sorted_iff [of xs] by (simp add: sorted_sort_id)

lemma object_ends_offsets:
  assumes "objs \<noteq> []"
  shows "\<exists>ends. object_ends (object_offsets rs 8 objs) (8 + length (table_bytes rs objs)) = Inr ends
    \<and> (\<forall>i < length objs. ends (object_offsets rs 8 objs ! i) =
         Some (object_offsets rs 8 objs ! i + length (object_bytes rs (objs ! i))))"
proof -
  let ?offs = "object_offsets rs 8 objs"
  note so = sorted_less_distinct [OF object_offsets_sorted [of rs 8 objs]]
  have "hd ?offs = 8" using assms by (cases objs) auto
  moreover have "?offs \<noteq> []" using assms length_object_offsets [of rs 8 objs] by (metis length_0_conv)
  ultimately have "object_ends ?offs (8 + length (table_bytes rs objs)) = Inr (map_of (zip ?offs (object_stops rs 8 objs)))"
    using so object_stops_tl [OF assms, of rs 8] by (simp add: object_ends_def)
  moreover have "map_of (zip ?offs (object_stops rs 8 objs)) (?offs ! i) = Some (?offs ! i + length (object_bytes rs (objs ! i)))"
    if "i < length objs" for i
    using map_of_zip_nth [of ?offs "object_stops rs 8 objs" i] so that by (simp add: object_stops_nth)
  ultimately show ?thesis by blast
qed

lemma scan_objects_found:
  assumes "length offs = length objs"
    and "\<And>i. i < length objs \<Longrightarrow> \<exists>stop. ends (offs ! i) = Some stop
      \<and> scan_object input (offs ! i) stop (tr_reference_size tr) (tr_object_count tr) = Inr (scan_of (objs ! i))"
    and "total_references + sum_list (map (length \<circ> sob_children \<circ> scan_of) objs) \<le> MAX_REFERENCES"
  shows "scan_objects input tr ends offs total_references = Inr (map scan_of objs)"
  using assms
proof (induction objs arbitrary: offs total_references)
  case (Cons ob objs)
  then obtain off offs' where offs: "offs = off # offs'" "length offs' = length objs" by (cases offs) auto
  from Cons.prems(2) [of 0] offs obtain stop where "ends off = Some stop"
    "scan_object input off stop (tr_reference_size tr) (tr_object_count tr) = Inr (scan_of ob)" by auto
  moreover have "scan_objects input tr ends offs' (total_references + length (sob_children (scan_of ob))) = Inr (map scan_of objs)"
    using Cons.prems(2) [of "Suc _"] Cons.prems(3) offs by (intro Cons.IH) auto
  moreover have "total_references + length (sob_children (scan_of ob)) \<le> MAX_REFERENCES" using Cons.prems(3) by simp
  ultimately show ?case by (simp add: offs Let_def MAX_REFERENCES_def)
qed simp

lemma occurs_at_concat:
  "occurs_at p c (concat xs) \<Longrightarrow> \<forall>x \<in> set xs. length x = k \<Longrightarrow> i < length xs \<Longrightarrow> occurs_at p (c + i * k) (xs ! i)"
proof (induction xs arbitrary: c i)
  case (Cons x xs)
  then have "occurs_at p c x" "occurs_at p (c + k) (concat xs)" by (auto simp: occurs_at_append)
  with Cons.IH [of "c + k" "i - 1"] Cons.prems(2,3) show ?case by (cases i) (simp_all add: add.assoc)
qed simp

lemma read_offsets_found:
  assumes at: "occurs_at input (tr_offset_table_start tr) (concat (map (nat_be (tr_offset_size tr)) offs))"
    and w: "tr_offset_size tr \<in> {1, 2, 4, 8}"
    and bound: "\<And>x. x \<in> set offs \<Longrightarrow> 8 \<le> x \<and> x < tr_offset_table_start tr \<and> x < 256 ^ tr_offset_size tr"
  shows "\<forall>i \<in> set is'. i < length offs \<Longrightarrow> read_offsets input tr is' = Inr (map ((!) offs) is')"
proof (induction is')
  case (Cons i is')
  let ?s = "tr_offset_table_start tr + i * tr_offset_size tr"
  have i: "i < length offs" using Cons.prems by simp
  have "occurs_at input ?s (nat_be (tr_offset_size tr) (offs ! i))"
    using occurs_at_concat [OF at, of "tr_offset_size tr" i] i by simp
  then have "slice ?s (?s + tr_offset_size tr) input = nat_be (tr_offset_size tr) (offs ! i)"
    by (simp add: occurs_at_def)
  moreover note bound [OF nth_mem [OF i]]
  ultimately show ?case using Cons read_be_u64_exact [OF w, of "offs ! i"] by (simp add: Let_def)
qed simp

lemma word_byte_width: "w \<in> {1, 2, 4, 8} \<Longrightarrow> unat (word_of_nat w :: u8) = w"
  by auto

lemma parse_trailer_document:
  fixes objs rs os
  defines "start \<equiv> 8 + length (table_bytes rs objs)"
  assumes rs: "rs \<in> {1, 2, 4, 8}" and os: "os \<in> {1, 2, 4, 8}" and n: "objs \<noteq> []" "length objs \<le> MAX_OBJECTS"
    and len: "length (document os rs objs) \<le> MAX_PLIST_SIZE"
  shows "parse_trailer (document os rs objs) = Inr \<lparr>tr_offset_size = os, tr_reference_size = rs,
    tr_object_count = length objs, tr_top_object = 0, tr_offset_table_start = start\<rparr>"
proof -
  let ?front = "BPLIST_HEADER @ table_bytes rs objs @ concat (map (nat_be os) (object_offsets rs 8 objs))"
  let ?trailer = "replicate 6 0 @ [word_of_nat os, word_of_nat rs] @ nat_be 8 (length objs) @ nat_be 8 0 @ nat_be 8 start"
  have doc: "document os rs objs = ?front @ ?trailer" by (simp add: document_def start_def)
  have front: "length ?front = start + length objs * os" by (simp add: start_def)
  have drop: "length (document os rs objs) - 32 = start + length objs * os"
    "drop (start + length objs * os) (document os rs objs) = ?trailer"
    unfolding doc using front by simp_all
  have "start + length objs * os \<le> MAX_PLIST_SIZE" using len by (simp add: document_def start_def)
  then have small: "start + length objs * os < 2 ^ 64" "length objs < 2 ^ 64" "start < 2 ^ 64"
    using n(2) by (auto simp: MAX_PLIST_SIZE_def MAX_OBJECTS_def)
  have reads: "read_be_u64 (slice 8 16 ?trailer) = Inr (length objs)" "read_be_u64 (slice 16 24 ?trailer) = Inr 0"
    "read_be_u64 (slice 24 32 ?trailer) = Inr start"
    using read_be_u64_exact [of 8] small by (simp_all add: slice_def)
  have sizes: "unat (?trailer ! 6) = os" "unat (?trailer ! 7) = rs" "take 6 ?trailer = replicate 6 0"
    using word_byte_width [OF rs] word_byte_width [OF os] by (simp_all add: nth_append)
  have range: "os \<in> {1..8}" "rs \<in> {1..8}" using rs os by auto
  have start: "8 \<le> start" by (simp add: start_def)
  show ?thesis
    unfolding parse_trailer_def TRAILER_SIZE_def Let_def drop sizes reads
    using range start small n by (simp add: Let_def)
qed

lemma charges_le_bytes: "charges objs \<le> length (table_bytes rs objs)"
proof -
  have "leaf_charge ob \<le> length (object_bytes rs ob)" for ob by (cases ob) auto
  then show ?thesis by (induction objs) (auto simp: table_bytes_def intro: add_mono)
qed

text \<open>
  The table of a document is loaded: every object stands where its offset says, and the checks of keys
  and cycles pass.
\<close>

lemma load_table_document:
  fixes v rs
  defines "objs \<equiv> flat 0 v"
  defines "doc \<equiv> document (offset_width rs objs) rs objs"
  assumes v: "plist_ok v" "plist_height v \<le> MAX_DEPTH" "plist_nodes v \<le> MAX_OBJECTS"
    and ints: "\<And>n. EInteger n \<in> set objs \<Longrightarrow> - (2 ^ 63) \<le> n \<and> n < 2 ^ 64"
    and refs: "sum_list (map (length \<circ> sob_children \<circ> scan_of) objs) \<le> MAX_REFERENCES"
    and rs: "rs \<in> {1, 2, 4, 8}" "plist_nodes v \<le> 256 ^ rs" and len: "length doc \<le> MAX_PLIST_SIZE"
    and tr: "parse_trailer doc = Inr tr"
  shows "\<exists>T. load_table doc tr = Inr T \<and> table_ok T rs objs"
proof -
  let ?start = "8 + length (table_bytes rs objs)" and ?os = "offset_width rs objs" and ?offs = "object_offsets rs 8 objs"
  have n: "length objs = plist_nodes v" "objs \<noteq> []" "length objs \<le> MAX_OBJECTS"
    using plist_nodes_pos [of v] v(3) unfolding objs_def by (simp, metis length_flat(1) length_0_conv less_irrefl, simp)
  have os: "?os \<in> {1, 2, 4, 8}" unfolding offset_width_def by (rule storage_width)
  have tr': "tr = \<lparr>tr_offset_size = ?os, tr_reference_size = rs, tr_object_count = length objs, tr_top_object = 0,
      tr_offset_table_start = ?start\<rparr>"
    using parse_trailer_document [OF rs(1) os n(2,3)] len tr unfolding doc_def by simp
  have table: "occurs_at doc 8 (table_bytes rs objs)" "occurs_at doc ?start (concat (map (nat_be ?os) ?offs))"
    unfolding doc_def document_def by (simp_all add: occurs_at_def)
  have start64: "?start < 2 ^ 64" using len by (simp add: doc_def document_def MAX_PLIST_SIZE_def)
  have "8 \<le> x \<and> x < ?start \<and> x < 256 ^ ?os" if "x \<in> set ?offs" for x
    using object_offsets_bound [OF that] storage_width(2) [OF start64] unfolding offset_width_def by linarith
  then have "read_offsets doc tr [0..<length objs] = Inr (map ((!) ?offs) [0..<length objs])"
    using table(2) os by (intro read_offsets_found) (auto simp: tr')
  moreover have "map ((!) ?offs) [0..<length objs] = ?offs" using map_nth [of ?offs] by simp
  ultimately have offs: "read_offsets doc tr [0..<tr_object_count tr] = Inr ?offs" by (simp add: tr')
  obtain ends where ends: "object_ends ?offs ?start = Inr ends"
    "\<And>i. i < length objs \<Longrightarrow> ends (?offs ! i) = Some (?offs ! i + length (object_bytes rs (objs ! i)))"
    using object_ends_offsets [OF n(2), of rs] by blast
  have small: "length (sob_children (scan_of ob)) \<le> MAX_REFERENCES" if "ob \<in> set objs" for ob
    using member_le_sum_list [of "length (sob_children (scan_of ob))" "map (length \<circ> sob_children \<circ> scan_of) objs"] that refs
    by fastforce
  have ok: "object_ok (length objs) (objs ! i)" if "i < length objs" for i
    using flat_object_ok [OF v(1), of "objs ! i"] ints small that n(1) unfolding objs_def by simp
  have reads: "reads_as doc (?offs ! i) (?offs ! i + length (object_bytes rs (objs ! i))) rs (length objs) (objs ! i)"
    if "i < length objs" for i
    using reads_as_object [OF object_at [OF table(1) that] len rs(1) _ ok [OF that]] rs(2) n(1) by simp
  have scan: "scan_objects doc tr ends ?offs 0 = Inr (map scan_of objs)"
    using ends(2) reads refs by (intro scan_objects_found) (auto simp: tr' reads_as_def)
  have "keys_are_strings (map scan_of objs)"
  proof -
    have "sob_kind (map scan_of objs ! k) = KString" if "ob \<in> set objs" "k \<in> set (take (sob_key_count (scan_of ob)) (sob_children (scan_of ob)))" for ob k
    proof -
      from that(2) obtain ks cs where ob: "ob = EDictionary ks cs" "k \<in> set ks" by (cases ob) auto
      have "k < length objs" using flat_children(1) [of ob 0 v k] that ob n(1) unfolding objs_def by simp
      moreover from flat_keys_strings(1) [of objs 0 v ks cs k] that(1) ob obtain t where "objs ! k = EString t"
        unfolding objs_def by (auto simp: occurs_at_def)
      ultimately show ?thesis by simp
    qed
    then show ?thesis by (simp add: keys_are_strings_def list_all_iff)
  qed
  moreover have "validate_all [0..<length objs] (map scan_of objs) (replicate (length objs) 0) = Inr (replicate (length objs) 2)"
    using validate_all_flat [OF v(2)] unfolding objs_def by simp
  ultimately have "load_table doc tr = Inr \<lparr>ot_input = doc, ot_offsets = ?offs, ot_ends = ends, ot_scanned = map scan_of objs\<rparr>"
    unfolding load_table_def offs using ends(1) scan by (simp add: tr')
  then show ?thesis using ends(2) reads by (auto simp: table_ok_def)
qed

lemma decode_encode:
  assumes "plist_ok v" and "plist_encode v = Inr bytes"
  shows "plist_decode bytes = Inr v"
proof -
  let ?objs = "flat 0 v" and ?rs = "integer_storage_width (plist_nodes v - 1)"
  let ?doc = "document (offset_width ?rs ?objs) ?rs ?objs"
  note enc = plist_encode_document [OF assms(2)]
  then have bytes: "bytes = ?doc" and len: "length ?doc \<le> MAX_PLIST_SIZE" by auto
  have rs: "?rs \<in> {1, 2, 4, 8}" by (rule storage_width)
  have lim: "plist_nodes v \<le> MAX_OBJECTS" "plist_height v \<le> MAX_DEPTH" using enc by auto
  then have "plist_nodes v - 1 < 2 ^ 64" by (simp add: MAX_OBJECTS_def)
  then have "plist_nodes v - 1 < 256 ^ ?rs" by (rule storage_width)
  then have n: "plist_nodes v \<le> 256 ^ ?rs" by linarith
  have os: "offset_width ?rs ?objs \<in> {1, 2, 4, 8}" unfolding offset_width_def by (rule storage_width)
  have ne: "?objs \<noteq> []" using plist_nodes_pos [of v] by (metis length_flat(1) length_0_conv less_irrefl)
  obtain tr where tr: "parse_trailer ?doc = Inr tr" "tr_top_object tr = 0"
    using parse_trailer_document [OF rs os ne _ len] lim by simp
  obtain T where T: "load_table ?doc tr = Inr T" "table_ok T ?rs ?objs"
    using load_table_document [OF assms(1) _ _ _ _ rs n len tr(1)] enc by blast
  have "charges ?objs \<le> MAX_VALUE_BYTES"
    using charges_le_bytes [of ?objs ?rs] len by (simp add: document_def MAX_VALUE_BYTES_def)
  then have "affords \<lparr>db_nodes = 0, db_value_bytes = 0\<rparr> (plist_nodes v) (charges ?objs)"
    using lim by (simp add: affords_def MAX_OBJECTS_def MAX_DECODED_NODES_def)
  then have "decode_object T 0 0 \<lparr>db_nodes = 0, db_value_bytes = 0\<rparr> =
      Inr (v, spend (plist_nodes v) (charges ?objs) \<lparr>db_nodes = 0, db_value_bytes = 0\<rparr>)"
    using decode_flat(1) [OF T(2), of 0 v 0] assms(1) lim by (simp add: occurs_at_def)
  moreover have "take 8 ?doc = BPLIST_HEADER" "40 \<le> length ?doc" by (simp_all add: document_def)
  ultimately show ?thesis
    unfolding bytes plist_decode_def using len tr T by simp
qed

interpretation plist_codec: codec plist_ok plist_encode plist_decode
  by unfold_locales (rule decode_encode)

end
