(* ===== verification/Bplist_Correct.thy ===== *)
theory Bplist_Correct
  imports Bplist_Codec
begin

section \<open>What the property list codec accepts\<close>

text \<open>
  Shows that the check for cycles makes the references of a document well-founded, that whatever the decoder accepts
  is well formed and within the limits, and that the encoder admits every value within them; states the properties
  of the codec.
\<close>

subsection \<open>What passes the check for cycles\<close>

text \<open>The finished objects in an order that has the children of an object before it.\<close>

definition finished_in_order :: "scanned_object list \<Rightarrow> nat list \<Rightarrow> nat list \<Rightarrow> bool" where
  "finished_in_order objects colors order \<longleftrightarrow>
     distinct order \<and> set order = {i. i < length colors \<and> colors ! i = 2}
     \<and> (\<forall>pre x post. order = pre @ x # post \<longrightarrow> set (sob_children (objects ! x)) \<subseteq> set pre)"

lemma finish_one:
  assumes "finished_in_order objects colors order" and "i < length colors" and "colors ! i \<noteq> 2"
    and "set (sob_children (objects ! i)) \<subseteq> set order"
  shows "finished_in_order objects (colors[i := 2]) (order @ [i])"
proof -
  have "i \<notin> set order" using assms(1,3) by (simp add: finished_in_order_def)
  moreover have "{j. j < length colors \<and> (j = i \<or> colors ! j = 2)} = insert i {j. j < length colors \<and> colors ! j = 2}"
    using assms(2) by auto
  moreover have "set (sob_children (objects ! x)) \<subseteq> set pre" if "order @ [i] = pre @ x # post" for pre x post
    using that assms(1,4) by (cases post rule: rev_cases) (auto simp: finished_in_order_def)
  ultimately show ?thesis
    using assms(1,2) by (auto simp: finished_in_order_def nth_list_update split: if_splits)
qed

definition visit_ok :: "scanned_object list \<Rightarrow> nat list \<Rightarrow> nat list \<Rightarrow> bool" where
  "visit_ok objects colors colors' \<longleftrightarrow> length colors' = length colors
     \<and> (\<forall>j. colors' ! j = 1 \<longleftrightarrow> colors ! j = 1) \<and> (\<forall>j < length colors. colors ! j = 2 \<longrightarrow> colors' ! j = 2)
     \<and> (\<forall>order. finished_in_order objects colors order \<longrightarrow> (\<exists>order'. finished_in_order objects colors' order'))"

lemma validate_finishes:
  "validate_acyclic index objects colors depth = Inr colors' \<Longrightarrow> index < length colors \<Longrightarrow>
     (\<forall>i < length colors. \<forall>c \<in> set (sob_children (objects ! i)). c < length colors) \<Longrightarrow>
     visit_ok objects colors colors' \<and> colors' ! index = 2"
  "validate_children xs objects colors depth = Inr colors' \<Longrightarrow> (\<forall>x \<in> set xs. x < length colors) \<Longrightarrow>
     (\<forall>i < length colors. \<forall>c \<in> set (sob_children (objects ! i)). c < length colors) \<Longrightarrow>
     visit_ok objects colors colors' \<and> (\<forall>x \<in> set xs. colors' ! x = 2)"
proof (induction index objects colors depth and xs objects colors depth arbitrary: colors' and colors'
    rule: validate_acyclic_validate_children.induct)
  case (1 index objects colors depth)
  show ?case
  proof (cases "colors ! index = 2")
    case True
    with "1.prems"(1) show ?thesis by (auto simp: validate_acyclic.simps visit_ok_def split: if_splits)
  next
    case False
    with "1.prems"(1) obtain c where c: "validate_children (sob_children (objects ! index)) objects (colors[index := 1]) (depth + 1) = Inr c"
      "colors' = c[index := 2]" and d: "\<not> depth > MAX_DEPTH" "colors ! index \<noteq> 1"
      by (auto simp: validate_acyclic.simps split: if_splits)
    have IH: "visit_ok objects (colors[index := 1]) c" "\<forall>x \<in> set (sob_children (objects ! index)). c ! x = 2"
      using "1.IH" [OF d(1,2) False c(1)] "1.prems" by auto
    have one: "c ! index = 1" using IH(1) "1.prems"(2) by (auto simp: visit_ok_def)
    have "\<exists>order'. finished_in_order objects colors' order'" if order: "finished_in_order objects colors order" for order
    proof -
      have "{i. i < length colors \<and> colors[index := 1] ! i = 2} = {i. i < length colors \<and> colors ! i = 2}"
        using False "1.prems"(2) by (auto simp: nth_list_update split: if_splits)
      then have "finished_in_order objects (colors[index := 1]) order" using order by (simp add: finished_in_order_def)
      then obtain order' where o': "finished_in_order objects c order'" using IH(1) by (auto simp: visit_ok_def)
      have len: "length c = length colors" using IH(1) by (simp add: visit_ok_def)
      have "set (sob_children (objects ! index)) \<subseteq> set order'"
        using IH(2) "1.prems"(2,3) o' len by (auto simp: finished_in_order_def)
      from finish_one [OF o' _ _ this] len "1.prems"(2) one show ?thesis unfolding c(2) by auto
    qed
    moreover have "length colors' = length colors" using IH(1) by (simp add: c(2) visit_ok_def)
    moreover have "colors' ! j = 1 \<longleftrightarrow> colors ! j = 1" for j
      using IH(1) d(2) "1.prems"(2) by (cases "j = index") (auto simp: c(2) visit_ok_def)
    moreover have "colors' ! j = 2" if "j < length colors" "colors ! j = 2" for j
      using IH(1) that False by (cases "j = index") (auto simp: c(2) visit_ok_def)
    moreover have "colors' ! index = 2" using IH(1) "1.prems"(2) by (simp add: c(2) visit_ok_def)
    ultimately show ?thesis by (auto simp: visit_ok_def)
  qed
next
  case (2 objects colors depth)
  then show ?case by (auto simp: visit_ok_def)
next
  case (3 child children objects colors depth)
  then obtain c where c: "validate_acyclic child objects colors depth = Inr c" "validate_children children objects c depth = Inr colors'"
    by auto
  have v: "visit_ok objects colors c \<and> c ! child = 2" using "3.IH"(1) [OF c(1)] "3.prems" by simp
  then have len: "length c = length colors" by (simp add: visit_ok_def)
  have w: "visit_ok objects c colors' \<and> (\<forall>x \<in> set children. colors' ! x = 2)"
    using "3.IH"(2) [OF c] "3.prems" len by simp
  have "colors' ! child = 2" using v w "3.prems"(2) len by (auto simp: visit_ok_def)
  with v w show ?case by (auto simp: visit_ok_def)
qed

lemma validate_all_finishes:
  "validate_all ps objects colors = Inr colors' \<Longrightarrow> \<forall>p \<in> set ps. p < length colors \<Longrightarrow>
     (\<forall>i < length colors. \<forall>c \<in> set (sob_children (objects ! i)). c < length colors) \<Longrightarrow>
     visit_ok objects colors colors' \<and> (\<forall>p \<in> set ps. colors' ! p = 2)"
proof (induction ps arbitrary: colors)
  case Nil
  then show ?case by (auto simp: visit_ok_def)
next
  case (Cons p ps)
  then obtain c where c: "validate_acyclic p objects colors 0 = Inr c" "validate_all ps objects c = Inr colors'" by auto
  have v: "visit_ok objects colors c \<and> c ! p = 2" using validate_finishes(1) [OF c(1)] Cons.prems by simp
  then have len: "length c = length colors" by (simp add: visit_ok_def)
  have w: "visit_ok objects c colors' \<and> (\<forall>p \<in> set ps. colors' ! p = 2)" using Cons.IH [OF c(2)] Cons.prems len by simp
  have "colors' ! p = 2" using v w Cons.prems(2) len by (auto simp: visit_ok_def)
  with v w show ?case by (auto simp: visit_ok_def)
qed

lemma ordered_wf:
  assumes "finished_in_order objects colors order"
  shows "wf {(c, i). i \<in> set order \<and> c \<in> set (sob_children (objects ! i))}"
proof -
  let ?rank = "\<lambda>x. length (takeWhile (\<lambda>y. y \<noteq> x) order)"
  have "?rank c < ?rank i" if i: "i \<in> set order" and c: "c \<in> set (sob_children (objects ! i))" for c i
  proof -
    from i obtain pre post where order: "order = pre @ i # post" "i \<notin> set pre" by (meson split_list_first)
    have "set (sob_children (objects ! i)) \<subseteq> set pre" using assms order(1) unfolding finished_in_order_def by blast
    with c have "c \<in> set pre" by blast
    then obtain pre1 pre2 where "pre = pre1 @ c # pre2" "c \<notin> set pre1" by (meson split_list_first)
    with order show ?thesis by (auto simp: takeWhile_append takeWhile_eq_all_conv)
  qed
  then show ?thesis by (intro wf_subset [OF wf_measure [of ?rank]]) auto
qed

lemma check_references_range: "check_references N raws = Inr refs \<Longrightarrow> r \<in> set refs \<Longrightarrow> r < N"
  by (induction raws arbitrary: refs) (auto split: if_splits)

lemma read_references_range: "read_references input c stop n rs N = Inr (refs, c') \<Longrightarrow> r \<in> set refs \<Longrightarrow> r < N"
  by (auto simp: read_references_def split: if_splits dest: check_references_range)

lemma scan_object_range:
  assumes "scan_object input start stop rs N = Inr ob" and "c \<in> set (sob_children ob)"
  shows "c < N"
proof -
  from assms(1) obtain marker cursor where "read_byte input start stop = Inr (marker, cursor)"
    by (auto simp: scan_object_def)
  with assms show ?thesis
    by (auto simp: scan_object_def Let_def split: if_splits dest: read_references_range)
qed

lemma scan_objects_range:
  "scan_objects input tr ends offs tot = Inr objects \<Longrightarrow> length objects = length offs
     \<and> (\<forall>ob \<in> set objects. \<forall>c \<in> set (sob_children ob). c < tr_object_count tr)"
  by (induction offs arbitrary: tot objects) (auto simp: Let_def split: if_splits dest: scan_object_range)

lemma read_offsets_length: "read_offsets input tr ps = Inr offs \<Longrightarrow> length offs = length ps"
  by (induction ps arbitrary: offs) (auto simp: Let_def split: if_splits)

lemma loaded_table:
  assumes "load_table input tr = Inr T"
  defines "R \<equiv> {(c, i). i < length (ot_scanned T) \<and> c \<in> set (sob_children (ot_scanned T ! i))}"
  shows "wf R \<and> Domain R \<subseteq> {..<length (ot_scanned T)} \<and> keys_are_strings (ot_scanned T)"
proof -
  let ?N = "tr_object_count tr"
  from assms(1) obtain offs ends scanned colors where
    o': "read_offsets input tr [0..<?N] = Inr offs" and s: "scan_objects input tr ends offs 0 = Inr scanned"
    and k: "keys_are_strings scanned" and v: "validate_all [0..<?N] scanned (replicate ?N 0) = Inr colors"
    and T: "ot_scanned T = scanned"
    by (auto simp: load_table_def split: if_splits)
  have n: "length scanned = ?N" "\<forall>ob \<in> set scanned. \<forall>c \<in> set (sob_children ob). c < ?N"
    using scan_objects_range [OF s] read_offsets_length [OF o'] by auto
  have in_range: "\<forall>i < ?N. \<forall>c \<in> set (sob_children (scanned ! i)). c < ?N" using n by (metis nth_mem)
  have done_all: "visit_ok scanned (replicate ?N 0) colors" "\<forall>p < ?N. colors ! p = 2"
    using validate_all_finishes [OF v] in_range by auto
  have "finished_in_order scanned (replicate ?N 0) []" by (simp add: finished_in_order_def)
  with done_all(1) obtain order where order: "finished_in_order scanned colors order" by (auto simp: visit_ok_def)
  have "length colors = ?N" using done_all(1) by (simp add: visit_ok_def)
  then have "set order = {..<?N}" using order done_all(2) by (auto simp: finished_in_order_def)
  with ordered_wf [OF order] have "wf R" by (simp add: R_def T n(1))
  moreover have "Domain R \<subseteq> {..<length (ot_scanned T)}" using n unfolding R_def T by auto
  ultimately show ?thesis using k T by simp
qed

subsection \<open>What the decoder accepts\<close>

lemma scalar_three:
  assumes "0xE0 \<le> a" "a \<le> (0xEF :: u8)" "cont b" "a = 0xED \<longrightarrow> b \<le> 0x9F" "cont c"
  shows "scalar_ok ((unat a - 0xE0) * 0x1000 + (unat b - 0x80) * 0x40 + (unat c - 0x80))"
proof -
  have "unat a = 0xED \<longrightarrow> unat b \<le> 0x9F" using assms(4) by (auto simp: word_le_nat_alt word_unat_eq_iff)
  moreover have "0xE0 \<le> unat a" "unat a \<le> 0xEF" "0x80 \<le> unat b" "unat b \<le> 0xBF" "0x80 \<le> unat c" "unat c \<le> 0xBF"
    using assms by (auto simp: cont_def word_le_nat_alt)
  ultimately show ?thesis unfolding scalar_ok_def by (cases "unat a = 0xED"; cases "unat a < 0xED") auto
qed

lemma scalar_four:
  assumes "0xF0 \<le> a" "a \<le> (0xF4 :: u8)" "cont b" "a = 0xF0 \<longrightarrow> 0x90 \<le> b" "a = 0xF4 \<longrightarrow> b \<le> 0x8F" "cont c" "cont d"
  shows "scalar_ok ((unat a - 0xF0) * 0x40000 + (unat b - 0x80) * 0x1000 + (unat c - 0x80) * 0x40 + (unat d - 0x80))"
proof -
  have "unat a = 0xF0 \<longrightarrow> 0x90 \<le> unat b" "unat a = 0xF4 \<longrightarrow> unat b \<le> 0x8F"
    using assms(4,5) by (auto simp: word_le_nat_alt word_unat_eq_iff)
  moreover have "0xF0 \<le> unat a" "unat a \<le> 0xF4" "0x80 \<le> unat b" "unat b \<le> 0xBF" "0x80 \<le> unat c" "unat c \<le> 0xBF"
    "0x80 \<le> unat d" "unat d \<le> 0xBF"
    using assms by (auto simp: cont_def word_le_nat_alt)
  ultimately show ?thesis unfolding scalar_ok_def by (cases "unat a = 0xF0"; cases "unat a = 0xF4") auto
qed

lemma utf8_scalars_ok: "utf8_valid bs \<Longrightarrow> list_all scalar_ok (utf8_scalars bs)"
proof (induction bs rule: utf8_valid.induct)
  case (2 a bs)
  consider "a \<le> 0x7F" | "\<not> a \<le> 0x7F" "a \<le> 0xDF" | "\<not> a \<le> 0xDF" "a \<le> 0xEF" | "\<not> a \<le> 0xEF" by blast
  then show ?case
  proof cases
    case 1
    with 2 show ?thesis by (auto simp: scalar_ok_def word_le_nat_alt)
  next
    case c: 2
    then have "\<not> 0xE0 \<le> a" "\<not> 0xF0 \<le> a" by (auto simp: word_le_nat_alt)
    with c "2.prems" obtain b cs where bs: "bs = b # cs" "cont b" "0xC2 \<le> a" "utf8_valid cs"
      by (auto split: if_splits list.splits)
    have "scalar_ok ((unat a - 0xC0) * 0x40 + (unat b - 0x80))"
      using bs(2,3) c(2) by (auto simp: scalar_ok_def word_le_nat_alt cont_def)
    with c bs "2.IH"(2) show ?thesis by simp
  next
    case c: 3
    have nle: "\<not> a \<le> 0x7F" "\<not> 0xF0 \<le> a" using c by (auto simp: word_le_nat_alt)
    with c "2.prems" obtain b d ds where bs: "bs = b # d # ds" "cont b" "0xE0 \<le> a" "a = 0xED \<longrightarrow> b \<le> 0x9F" "cont d" "utf8_valid ds"
      by (auto split: if_splits list.splits)
    from scalar_three [OF bs(3) c(2) bs(2,4,5)] c nle bs "2.IH"(3) show ?thesis by simp
  next
    case c: 4
    have nle: "\<not> a \<le> 0x7F" "\<not> a \<le> 0xDF" using c(1) by (auto simp: word_le_nat_alt)
    with c "2.prems" obtain b d e es where bs: "bs = b # d # e # es" "0xF0 \<le> a" "a \<le> 0xF4" "cont b"
      "a = 0xF0 \<longrightarrow> 0x90 \<le> b" "a = 0xF4 \<longrightarrow> b \<le> 0x8F" "cont d" "cont e" "utf8_valid es"
      by (auto split: if_splits list.splits)
    from scalar_four [OF bs(2-8)] c nle bs "2.IH"(4) show ?thesis by simp
  qed
qed simp

lemma decode_utf16_ok: "decode_utf16 us = Some t \<Longrightarrow> \<forall>u \<in> set us. u < 0x10000 \<Longrightarrow> list_all scalar_ok t"
proof (induction us arbitrary: t rule: decode_utf16.induct)
  case (2 u us)
  show ?case
  proof (cases "u < 0xD800 \<or> 0xE000 \<le> u")
    case True
    with 2 show ?thesis by (auto simp: scalar_ok_def)
  next
    case False
    with "2.prems"(1) obtain w ws t' where "\<not> 0xDC00 \<le> u" "us = w # ws" "0xDC00 \<le> w" "w < 0xE000"
      "decode_utf16 ws = Some t'" "t = (0x10000 + (u - 0xD800) * 0x400 + (w - 0xDC00)) # t'"
      by (auto split: if_splits list.splits)
    with "2.IH"(2) [OF False] "2.prems"(2) False show ?thesis by (auto simp: scalar_ok_def)
  qed
qed simp

lemma utf16_pairs_bound: "u \<in> set (utf16_pairs bs) \<Longrightarrow> u < 0x10000"
proof -
  assume "u \<in> set (utf16_pairs bs)"
  then obtain c where "c \<in> set (chunks 2 bs)" "u = be_nat c" by (auto simp: utf16_pairs_def)
  with be_nat_bound [of c] length_in_chunks [of c 2 bs] show ?thesis by simp
qed

lemma decode_integer_range: "decode_integer bs = Inr n \<Longrightarrow> - (2 ^ 63) \<le> n \<and> n < 2 ^ 64"
proof -
  assume n: "decode_integer bs = Inr n"
  have "be_nat bs < 256 ^ length bs" by (rule be_nat_bound)
  with n show ?thesis by (auto simp: decode_integer_def signed_of_def Let_def split: if_splits)
qed

text \<open>Integers in the range of the format, and how much data and text a value holds.\<close>

fun integers_ok :: "plist \<Rightarrow> bool" and element_integers_ok :: "plist list \<Rightarrow> bool"
  and entry_integers_ok :: "(scalars \<times> plist) list \<Rightarrow> bool" where
  "integers_ok (PInteger n) = (- (2 ^ 63) \<le> n \<and> n < 2 ^ 64)"
| "integers_ok (PArray vs) = element_integers_ok vs"
| "integers_ok (PDictionary kvs) = entry_integers_ok kvs"
| "integers_ok _ = True"
| "element_integers_ok [] = True"
| "element_integers_ok (v # vs) = (integers_ok v \<and> element_integers_ok vs)"
| "entry_integers_ok [] = True"
| "entry_integers_ok ((k, v) # kvs) = (integers_ok v \<and> entry_integers_ok kvs)"

text \<open>
  A text weighs at least one byte for an ASCII scalar and the bytes of its UTF-16 code units for any other one;
  as a string in memory it takes its bytes in UTF-8, which can be half as many again.
\<close>

definition stored_length :: "nat \<Rightarrow> nat" where
  "stored_length c = (if c < 0x80 then 1 else if c < 0x10000 then 2 else 4)"

definition text_size :: "scalars \<Rightarrow> nat" where
  "text_size t = sum_list (map stored_length t)"

lemma text_size_simps [simp]: "text_size [] = 0" "text_size (c # t) = stored_length c + text_size t"
  by (simp_all add: text_size_def)

lemma string_len_text_size: "2 * string_len t \<le> 3 * text_size t"
  by (induction t) (auto simp: string_len_def utf8_length_def stored_length_def)

text \<open>The bytes of data and text a value holds, for a measure of texts.\<close>

fun plist_size :: "(scalars \<Rightarrow> nat) \<Rightarrow> plist \<Rightarrow> nat"
  and element_size :: "(scalars \<Rightarrow> nat) \<Rightarrow> plist list \<Rightarrow> nat"
  and entry_size :: "(scalars \<Rightarrow> nat) \<Rightarrow> (scalars \<times> plist) list \<Rightarrow> nat" where
  "plist_size w (PData bs) = length bs"
| "plist_size w (PString t) = w t"
| "plist_size w (PArray vs) = element_size w vs"
| "plist_size w (PDictionary kvs) = entry_size w kvs"
| "plist_size w _ = 0"
| "element_size w [] = 0"
| "element_size w (v # vs) = plist_size w v + element_size w vs"
| "entry_size w [] = 0"
| "entry_size w ((k, v) # kvs) = w k + plist_size w v + entry_size w kvs"

lemma plist_size_scale:
  assumes "\<And>t. a * w t \<le> b * u t" and "a \<le> b"
  shows "a * plist_size w v \<le> b * plist_size u v" and "a * element_size w vs \<le> b * element_size u vs"
    and "a * entry_size w kvs \<le> b * entry_size u kvs"
  using assms by (induction v and vs and kvs rule: plist_induct) (auto simp: distrib_left intro: add_mono mult_le_mono1)

lemma scalars_less_total: "\<not> scalars_less s t \<Longrightarrow> s \<noteq> t \<Longrightarrow> scalars_less t s"
  by (induction s t rule: scalars_less.induct) (auto simp: neq_Nil_conv)

lemma scalars_less_trans: "scalars_less s t \<Longrightarrow> scalars_less t u \<Longrightarrow> scalars_less s u"
proof (induction s t arbitrary: u rule: scalars_less.induct)
  case (2 y ys)
  then show ?case by (cases u) auto
next
  case (3 x xs y ys)
  then show ?case by (cases u) auto
qed simp

lemma dictionary_insert_keys: "fst ` set (fst (dictionary_insert k v dict)) = insert k (fst ` set dict)"
  by (induction k v dict rule: dictionary_insert.induct) (simp_all add: case_prod_beta insert_commute)

lemma dictionary_insert_sorted:
  "dictionary_insert k v dict = (dict', present) \<Longrightarrow> sorted_wrt scalars_less (map fst dict) \<Longrightarrow>
     sorted_wrt scalars_less (map fst dict')"
proof (induction dict arbitrary: dict')
  case (Cons lw dict)
  obtain l w where lw: "lw = (l, w)" by (cases lw)
  consider "k = l" | "k \<noteq> l" "scalars_less k l" | "k \<noteq> l" "\<not> scalars_less k l" by blast
  then show ?case
  proof cases
    case 2
    have "scalars_less k (fst x)" if "x \<in> set dict" for x
      using scalars_less_trans [OF 2(2), of "fst x"] that Cons.prems(2) by (simp add: lw)
    with 2 Cons.prems show ?thesis by (auto simp: lw)
  next
    case 3
    then obtain dict1 where d: "dictionary_insert k v dict = (dict1, present)" "dict' = (l, w) # dict1"
      using Cons.prems(1) by (auto simp: lw split: prod.splits)
    have "sorted_wrt scalars_less (map fst dict1)" using Cons.IH [OF d(1)] Cons.prems(2) by (simp add: lw)
    moreover have "scalars_less l x" if "x \<in> fst ` set dict1" for x
      using that dictionary_insert_keys [of k v dict] d(1) scalars_less_total [OF 3(2,1)] Cons.prems(2) by (auto simp: lw)
    ultimately show ?thesis by (simp add: lw d(2))
  qed (use Cons.prems lw in auto)
qed simp

lemma dictionary_insert_new:
  "dictionary_insert k v dict = (dict', False) \<Longrightarrow> entry_nodes dict' = Suc (plist_nodes v + entry_nodes dict)
     \<and> entry_height dict' = max (Suc (plist_height v)) (entry_height dict)
     \<and> entry_size text_size dict' = text_size k + plist_size text_size v + entry_size text_size dict
     \<and> (entry_integers_ok dict' \<longleftrightarrow> integers_ok v \<and> entry_integers_ok dict)
     \<and> (entries_ok dict' \<longleftrightarrow> list_all scalar_ok k \<and> plist_ok v \<and> entries_ok dict)"
proof (induction dict arbitrary: dict')
  case (Cons lw dict)
  then show ?case by (cases lw) (auto split: if_splits prod.splits)
qed auto

lemma utf8_text_size: "utf8_valid bs \<Longrightarrow> text_size (utf8_scalars bs) \<le> length bs"
proof (induction bs rule: utf8_valid.induct)
  case (2 a bs)
  consider "a \<le> 0x7F" | "\<not> a \<le> 0x7F" "a \<le> 0xDF" | "\<not> a \<le> 0xDF" "a \<le> 0xEF" | "\<not> a \<le> 0xEF" by blast
  then show ?case
  proof cases
    case 1
    with 2 show ?thesis by (auto simp: stored_length_def word_le_nat_alt)
  next
    case c: 2
    then have "\<not> 0xE0 \<le> a" "\<not> 0xF0 \<le> a" by (auto simp: word_le_nat_alt)
    with c "2.prems" obtain b cs where bs: "bs = b # cs" "cont b" "0xC2 \<le> a" "utf8_valid cs"
      by (auto split: if_splits list.splits)
    have "stored_length ((unat a - 0xC0) * 0x40 + (unat b - 0x80)) \<le> 2"
      using bs(2) c(2) by (auto simp: stored_length_def word_le_nat_alt cont_def)
    with c bs "2.IH"(2) show ?thesis by simp
  next
    case c: 3
    have nle: "\<not> a \<le> 0x7F" "\<not> 0xF0 \<le> a" using c by (auto simp: word_le_nat_alt)
    with c "2.prems" obtain b d ds where bs: "bs = b # d # ds" "cont b" "cont d" "utf8_valid ds" "0xE0 \<le> a"
      by (auto split: if_splits list.splits)
    have "stored_length ((unat a - 0xE0) * 0x1000 + (unat b - 0x80) * 0x40 + (unat d - 0x80)) \<le> 3"
      using bs(2,3) c(2) by (auto simp: stored_length_def word_le_nat_alt cont_def)
    moreover have "text_size (utf8_scalars ds) \<le> length ds" using c nle bs "2.IH"(3) by blast
    ultimately show ?thesis using c nle bs(1) by simp
  next
    case c: 4
    have nle: "\<not> a \<le> 0x7F" "\<not> a \<le> 0xDF" using c(1) by (auto simp: word_le_nat_alt)
    with c "2.prems" obtain b d e es where bs: "bs = b # d # e # es" "0xF0 \<le> a" "a \<le> 0xF4" "utf8_valid es"
      by (auto split: if_splits list.splits)
    have "stored_length ((unat a - 0xF0) * 0x40000 + (unat b - 0x80) * 0x1000 + (unat d - 0x80) * 0x40 + (unat e - 0x80)) \<le> 4"
      by (simp add: stored_length_def)
    moreover have "text_size (utf8_scalars es) \<le> length es" using c nle bs "2.IH"(4) by blast
    ultimately show ?thesis using c nle bs(1) by simp
  qed
qed simp

lemma utf16_text_size:
  "decode_utf16 us = Some t \<Longrightarrow> \<forall>u \<in> set us. u < 0x10000 \<Longrightarrow> text_size t \<le> 2 * length us"
proof (induction us arbitrary: t rule: decode_utf16.induct)
  case (2 u us)
  show ?case
  proof (cases "u < 0xD800 \<or> 0xE000 \<le> u")
    case True
    with 2 show ?thesis by (fastforce simp: stored_length_def)
  next
    case False
    with "2.prems"(1) obtain w ws t' where ws: "us = w # ws" "\<not> 0xDC00 \<le> u" "0xDC00 \<le> w \<and> w < 0xE000"
      "decode_utf16 ws = Some t'" "t = (0x10000 + (u - 0xD800) * 0x400 + (w - 0xDC00)) # t'"
      by (auto split: if_splits list.splits)
    have "text_size t' \<le> 2 * length ws" using "2.IH"(2) [OF False ws(2,1,3,4)] "2.prems"(2) ws(1) by simp
    with ws show ?thesis by (simp add: stored_length_def)
  qed
qed simp

lemma take_bytes_length: "take_bytes input c stop n = Inr (bs, c') \<Longrightarrow> length bs = n"
  by (auto simp: take_bytes_def split: if_splits)

lemma charge_bytes_Inr: "charge_bytes budget n = Inr budget' \<Longrightarrow>
    budget' = add_bytes n budget \<and> db_value_bytes budget' \<le> MAX_VALUE_BYTES"
  by (auto simp: charge_bytes_def add_bytes_def split: if_splits)

definition accepted :: "plist \<Rightarrow> nat \<Rightarrow> decode_budget \<Rightarrow> decode_budget \<Rightarrow> bool" where
  "accepted v d b b' \<longleftrightarrow> plist_ok v \<and> integers_ok v \<and> d + plist_height v \<le> MAX_DEPTH
     \<and> db_nodes b' = db_nodes b + plist_nodes v \<and> db_nodes b' \<le> MAX_DECODED_NODES
     \<and> db_value_bytes b + plist_size text_size v \<le> db_value_bytes b'
     \<and> (db_value_bytes b \<le> MAX_VALUE_BYTES \<longrightarrow> db_value_bytes b' \<le> MAX_VALUE_BYTES)"

lemma decode_leaf_accepted:
  assumes "decode_leaf T kind marker cursor stop budget = Inr (v, budget')"
  shows "plist_ok v \<and> integers_ok v \<and> plist_height v = 0 \<and> plist_nodes v = 1 \<and> db_nodes budget' = db_nodes budget
    \<and> db_value_bytes budget + plist_size text_size v \<le> db_value_bytes budget'
    \<and> (db_value_bytes budget \<le> MAX_VALUE_BYTES \<longrightarrow> db_value_bytes budget' \<le> MAX_VALUE_BYTES)"
proof (cases kind)
  case KInteger
  with assms show ?thesis by (auto simp: decode_leaf_def dest: decode_integer_range)
next
  case KData
  with assms show ?thesis
    by (auto simp: decode_leaf_def add_bytes_def dest!: take_bytes_length charge_bytes_Inr)
next
  case KString
  show ?thesis
  proof (cases "marker AND 0xf0 = 0x50")
    case True
    with KString assms obtain n c bs c' t where "charge_bytes budget n = Inr budget'"
      "take_bytes (ot_input T) c stop n = Inr (bs, c')" "str_from_utf8 bs = Some t" "v = PString t"
      by (auto simp: decode_leaf_def)
    then show ?thesis using utf8_scalars_ok [of bs] utf8_text_size [of bs]
      by (auto simp: str_from_utf8_def add_bytes_def split: if_splits dest!: take_bytes_length charge_bytes_Inr)
  next
    case False
    with KString assms obtain n c bs c' t where "charge_bytes budget (n * 2) = Inr budget'"
      "take_bytes (ot_input T) c stop (n * 2) = Inr (bs, c')" "decode_utf16 (utf16_pairs bs) = Some t" "v = PString t"
      by (auto simp: decode_leaf_def split: if_splits)
    moreover from this(2) have "length (utf16_pairs bs) = n"
      by (auto simp: utf16_pairs_def length_chunks dest: take_bytes_length)
    ultimately show ?thesis using decode_utf16_ok [of "utf16_pairs bs" t] utf16_text_size [of "utf16_pairs bs" t] utf16_pairs_bound
      by (fastforce simp: add_bytes_def dest!: charge_bytes_Inr)
  qed
qed (use assms in \<open>auto simp: decode_leaf_def\<close>)

definition accepted_elements :: "plist list \<Rightarrow> nat \<Rightarrow> decode_budget \<Rightarrow> decode_budget \<Rightarrow> bool" where
  "accepted_elements vs d b b' \<longleftrightarrow> elements_ok vs \<and> element_integers_ok vs
     \<and> (d \<le> Suc MAX_DEPTH \<longrightarrow> d + element_height vs \<le> Suc MAX_DEPTH)
     \<and> db_nodes b' = db_nodes b + element_nodes vs
     \<and> (db_nodes b \<le> MAX_DECODED_NODES \<longrightarrow> db_nodes b' \<le> MAX_DECODED_NODES)
     \<and> db_value_bytes b + element_size text_size vs \<le> db_value_bytes b'
     \<and> (db_value_bytes b \<le> MAX_VALUE_BYTES \<longrightarrow> db_value_bytes b' \<le> MAX_VALUE_BYTES)"

definition accepted_entries :: "(scalars \<times> plist) list \<Rightarrow> nat \<Rightarrow> (scalars \<times> plist) list \<Rightarrow> decode_budget \<Rightarrow> decode_budget \<Rightarrow> bool" where
  "accepted_entries dict d dict' b b' \<longleftrightarrow>
     (sorted_wrt scalars_less (map fst dict) \<and> entries_ok dict \<longrightarrow> sorted_wrt scalars_less (map fst dict') \<and> entries_ok dict')
     \<and> (entry_integers_ok dict \<longrightarrow> entry_integers_ok dict')
     \<and> (d + entry_height dict \<le> Suc MAX_DEPTH \<longrightarrow> d + entry_height dict' \<le> Suc MAX_DEPTH)
     \<and> db_nodes b' + entry_nodes dict = db_nodes b + entry_nodes dict'
     \<and> (db_nodes b \<le> MAX_DECODED_NODES \<longrightarrow> db_nodes b' \<le> MAX_DECODED_NODES)
     \<and> db_value_bytes b + entry_size text_size dict' \<le> db_value_bytes b' + entry_size text_size dict
     \<and> (db_value_bytes b \<le> MAX_VALUE_BYTES \<longrightarrow> db_value_bytes b' \<le> MAX_VALUE_BYTES)"

lemma accepted_Cons:
  "accepted v d b b1 \<Longrightarrow> accepted_elements vs d b1 b' \<Longrightarrow> accepted_elements (v # vs) d b b'"
  by (auto simp: accepted_def accepted_elements_def)

lemma accepted_insert:
  assumes "accepted (PString k) d b b1" "accepted v d b1 b2" "dictionary_insert k v dict = (dict1, False)"
    "accepted_entries dict1 d dict' b2 b'"
  shows "accepted_entries dict d dict' b b'"
  using assms(1,2,4) dictionary_insert_sorted [OF assms(3)] dictionary_insert_new [OF assms(3)]
  unfolding accepted_def accepted_entries_def by auto

lemma charge_node_Inr: "charge_node b = Inr b' \<Longrightarrow> b' = b\<lparr>db_nodes := Suc (db_nodes b)\<rparr> \<and> Suc (db_nodes b) \<le> MAX_DECODED_NODES"
  by (auto simp: charge_node_def split: if_splits)

lemma decode_accepted:
  shows "decode_object T index d b = Inr (v, b') \<Longrightarrow> accepted v d b b'"
    and "decode_elements T children d b = Inr (vs, b') \<Longrightarrow> accepted_elements vs d b b'"
    and "decode_entries T pairs d dict b = Inr (dict', b') \<Longrightarrow> accepted_entries dict d dict' b b'"
proof (induction T index d b and T children d b and T pairs d dict b arbitrary: v b' and vs b' and dict' b'
    rule: decode_object_decode_elements_decode_entries.induct)
  case (1 T index depth budget)
  let ?object = "ot_scanned T ! index"
  from "1.prems" obtain b1 stop marker cursor where h: "\<not> MAX_DEPTH < depth" "charge_node budget = Inr b1"
    "ot_ends T (ot_offsets T ! index) = Some stop"
    "read_byte (ot_input T) (ot_offsets T ! index) stop = Inr (marker, cursor)"
    by (subst (asm) decode_object.simps) (auto simp: Let_def split: if_splits)
  note b1 = charge_node_Inr [OF h(2)]
  have stop: "ok_or (ot_ends T (ot_offsets T ! index)) Malformed = Inr stop" by (simp add: h(3))
  consider "sob_kind ?object = KArray" | "sob_kind ?object = KDictionary"
    | "sob_kind ?object \<noteq> KArray" "sob_kind ?object \<noteq> KDictionary" by blast
  then show ?case
  proof cases
    case k: 1
    with "1.prems" h obtain vs where vs: "decode_elements T (sob_children ?object) (depth + 1) b1 = Inr (vs, b')" "v = PArray vs"
      by (subst (asm) decode_object.simps) (auto simp: Let_def)
    from "1.IH"(1) [OF h(1,2) refl refl stop h(4) refl k vs(1)] h b1 vs(2) show ?thesis
      by (auto simp: accepted_def accepted_elements_def)
  next
    case k: 2
    with "1.prems" h obtain kvs where kvs: "decode_entries T (zip (take (sob_key_count ?object) (sob_children ?object))
                (drop (sob_key_count ?object) (sob_children ?object))) (depth + 1) [] b1 = Inr (kvs, b')" "v = PDictionary kvs"
      by (subst (asm) decode_object.simps) (auto simp: Let_def)
    from "1.IH"(2) [OF h(1,2) refl refl stop h(4) refl _ k kvs(1)] k h b1 kvs(2) show ?thesis
      by (auto simp: accepted_def accepted_entries_def)
  next
    case k: 3
    with "1.prems" h have "decode_leaf T (sob_kind ?object) marker cursor stop b1 = Inr (v, b')"
      by (subst (asm) decode_object.simps) (auto simp: Let_def)
    from decode_leaf_accepted [OF this] h(1) b1 show ?thesis by (auto simp: accepted_def)
  qed
next
  case (3 T child children depth budget)
  then obtain w b1 ws where "decode_object T child depth budget = Inr (w, b1)"
    "decode_elements T children depth b1 = Inr (ws, b')" "vs = w # ws" by auto
  with 3 show ?case by (auto intro: accepted_Cons)
next
  case (5 T key val rest depth dict budget)
  obtain k b1 where k: "decode_object T key depth budget = Inr (k, b1)" using "5.prems" by auto
  with "5.prems" obtain t where "k = PString t" by (cases k) auto
  with "5.prems" k obtain w b2 dict1 where h: "decode_object T key depth budget = Inr (PString t, b1)"
    "decode_object T val depth b1 = Inr (w, b2)" "dictionary_insert t w dict = (dict1, False)"
    "decode_entries T rest depth dict1 b2 = Inr (dict', b')"
    by (auto simp: case_prod_beta split: if_split_asm) (metis prod.collapse)
  from "5.IH"(3) [OF h(1) refl refl h(2) refl h(3) [symmetric] _ h(4)] have "accepted_entries dict1 depth dict' b2 b'" by simp
  with "5.IH"(1) [OF h(1)] "5.IH"(2) [OF h(1) refl _ h(2)] h(3) show ?case by (auto intro: accepted_insert)
qed (auto simp: accepted_elements_def accepted_entries_def)

subsection \<open>What the encoder admits\<close>

fun subvalues :: "plist \<Rightarrow> plist list" and element_subvalues :: "plist list \<Rightarrow> plist list"
  and entry_subvalues :: "(scalars \<times> plist) list \<Rightarrow> plist list" where
  "subvalues (PArray vs) = PArray vs # element_subvalues vs"
| "subvalues (PDictionary kvs) = PDictionary kvs # entry_subvalues kvs"
| "subvalues v = [v]"
| "element_subvalues [] = []"
| "element_subvalues (v # vs) = subvalues v @ element_subvalues vs"
| "entry_subvalues [] = []"
| "entry_subvalues ((k, v) # kvs) = PString k # subvalues v @ entry_subvalues kvs"

fun own_references :: "plist \<Rightarrow> nat" where
  "own_references (PArray vs) = length vs"
| "own_references (PDictionary kvs) = length kvs * 2"
| "own_references _ = 0"

fun own_bytes :: "plist \<Rightarrow> nat" where
  "own_bytes (PData bs) = length bs"
| "own_bytes (PString t) = string_len t"
| "own_bytes _ = 0"

definition references_in :: "plist list \<Rightarrow> nat" where
  "references_in vs = sum_list (map own_references vs)"

definition bytes_in :: "plist list \<Rightarrow> nat" where
  "bytes_in vs = sum_list (map own_bytes vs)"

lemma in_simps [simp]: "references_in [] = 0" "references_in (v # vs) = own_references v + references_in vs"
  "references_in (vs @ ws) = references_in vs + references_in ws"
  "bytes_in [] = 0" "bytes_in (v # vs) = own_bytes v + bytes_in vs" "bytes_in (vs @ ws) = bytes_in vs + bytes_in ws"
  by (simp_all add: references_in_def bytes_in_def)

definition room :: "plist_encoder \<Rightarrow> nat \<Rightarrow> plist list \<Rightarrow> bool" where
  "room e n vs \<longleftrightarrow> length (en_objects e) + n \<le> MAX_OBJECTS \<and> en_references e + references_in vs \<le> MAX_REFERENCES
     \<and> en_value_bytes e + bytes_in vs \<le> MAX_VALUE_BYTES"

definition room_used :: "plist_encoder \<Rightarrow> nat \<Rightarrow> plist list \<Rightarrow> plist_encoder \<Rightarrow> bool" where
  "room_used e n vs e' \<longleftrightarrow> length (en_objects e') = length (en_objects e) + n
     \<and> en_references e' = en_references e + references_in vs \<and> en_value_bytes e' = en_value_bytes e + bytes_in vs"

lemmas limits = MAX_OBJECTS_def MAX_REFERENCES_def MAX_VALUE_BYTES_def MAX_PLIST_SIZE_def

lemma encoder_admits:
  "room e (plist_nodes v) (subvalues v) \<Longrightarrow> d + plist_height v \<le> MAX_DEPTH \<Longrightarrow> integers_ok v \<Longrightarrow>
     \<exists>i e'. encoder_add v d e = Inr (i, e') \<and> room_used e (plist_nodes v) (subvalues v) e'"
  "room e (element_nodes vs) (element_subvalues vs) \<Longrightarrow> d + element_height vs \<le> Suc MAX_DEPTH \<Longrightarrow> element_integers_ok vs \<Longrightarrow>
     \<exists>ss e'. encoder_add_elements vs d e = Inr (ss, e') \<and> room_used e (element_nodes vs) (element_subvalues vs) e'"
  "room e (entry_nodes kvs) (entry_subvalues kvs) \<Longrightarrow> d + entry_height kvs \<le> Suc MAX_DEPTH \<Longrightarrow> entry_integers_ok kvs \<Longrightarrow>
     \<exists>ks ss e'. encoder_add_entries kvs d e = Inr ((ks, ss), e') \<and> room_used e (entry_nodes kvs) (entry_subvalues kvs) e'"
proof (induction v and vs and kvs arbitrary: d e and d e and d e rule: plist_induct)
  case (1 vs)
  let ?e = "(reserve_object ENull e)\<lparr>en_references := en_references e + length vs\<rparr>"
  have "charge_references (length vs) (reserve_object ENull e) = Inr ?e"
    using "1.prems"(1) by (simp add: charge_references_def room_def reserve_object_def limits)
  moreover have "room ?e (element_nodes vs) (element_subvalues vs)"
    using "1.prems"(1) by (simp add: room_def reserve_object_def)
  ultimately show ?case using "1.IH" [of ?e "d + 1"] "1.prems"
    by (auto simp: encoder_add.simps Let_def place_object_def room_used_def reserve_object_def room_def)
next
  case (2 kvs)
  let ?e = "(reserve_object ENull e)\<lparr>en_references := en_references e + length kvs * 2\<rparr>"
  have "charge_references (length kvs * 2) (reserve_object ENull e) = Inr ?e" "length kvs * 2 < 2 ^ 64"
    using "2.prems"(1) by (simp_all add: charge_references_def room_def reserve_object_def limits)
  moreover have "room ?e (entry_nodes kvs) (entry_subvalues kvs)"
    using "2.prems"(1) by (simp add: room_def reserve_object_def)
  ultimately show ?case using "2.IH" [of ?e "d + 1"] "2.prems"
    by (fastforce simp: encoder_add.simps Let_def place_object_def room_used_def reserve_object_def room_def)
next
  case (5 v vs)
  have h: "d + plist_height v \<le> MAX_DEPTH" "d + element_height vs \<le> Suc MAX_DEPTH" using "5.prems"(2) by simp_all
  from "5.prems" have "room e (plist_nodes v) (subvalues v)" by (simp add: room_def)
  with "5.IH"(1) [of e d] h "5.prems" obtain i e1 where v: "encoder_add v d e = Inr (i, e1)" "room_used e (plist_nodes v) (subvalues v) e1"
    by auto
  with "5.prems" have "room e1 (element_nodes vs) (element_subvalues vs)" by (simp add: room_def room_used_def)
  with "5.IH"(2) [of e1 d] h "5.prems" v show ?case by (auto simp: room_used_def)
next
  case (7 k v kvs)
  let ?e = "reserve_object (EString k) (e\<lparr>en_value_bytes := en_value_bytes e + string_len k\<rparr>)"
  have k: "charge_encoded_bytes (string_len k) e = Inr (e\<lparr>en_value_bytes := en_value_bytes e + string_len k\<rparr>)"
    "length (en_objects e) < MAX_OBJECTS"
    using "7.prems"(1) by (simp_all add: charge_encoded_bytes_def room_def limits)
  have h: "d + plist_height v \<le> MAX_DEPTH" "d + entry_height kvs \<le> Suc MAX_DEPTH" using "7.prems"(2) by simp_all
  from "7.prems" have "room ?e (plist_nodes v) (subvalues v)" by (simp add: room_def reserve_object_def)
  with "7.IH"(1) [of ?e d] h "7.prems" obtain i e1 where v: "encoder_add v d ?e = Inr (i, e1)" "room_used ?e (plist_nodes v) (subvalues v) e1"
    by auto
  with "7.prems" have "room e1 (entry_nodes kvs) (entry_subvalues kvs)" by (simp add: room_def room_used_def reserve_object_def)
  with "7.IH"(2) [of e1 d] h "7.prems" v k show ?case by (auto simp: room_used_def reserve_object_def)
qed (auto simp: encoder_add.simps Let_def place_object_def reserve_object_def room_used_def room_def charge_encoded_bytes_def limits)

text \<open>A write that has room for its bytes succeeds.\<close>

definition writes :: "bytes \<Rightarrow> bytes \<Rightarrow> plist_error + bytes \<Rightarrow> bool" where
  "writes out bs r \<longleftrightarrow> (length out + length bs \<le> MAX_PLIST_SIZE \<longrightarrow> r = Inr (out @ bs))"

lemma writes_rbind: "writes out as m \<Longrightarrow> (\<And>out'. writes out' bs (f out')) \<Longrightarrow> writes out (as @ bs) (rbind m f)"
  by (simp add: writes_def)

lemma writes_push: "writes out [b] (push_byte out b)"
  by (simp add: writes_def push_byte_def)

lemma writes_push_then: "(\<And>out'. writes out' bs (f out')) \<Longrightarrow> writes out (b # bs) (rbind (push_byte out b) f)"
  using writes_rbind [OF writes_push, of bs f] by simp

lemma writes_append: "writes out bs (append_bytes out bs)"
  by (simp add: writes_def append_bytes_def MAX_PLIST_SIZE_def)

lemma writes_nil: "writes out [] (Inr out)"
  by (simp add: writes_def)

lemma writes_be: "w \<in> {1, 2, 4, 8} \<Longrightarrow> writes out (nat_be w v) (append_be out v w)"
  unfolding append_be_def by (simp add: writes_append)

lemma writes_length: "writes out (length_bytes marker n) (encode_length marker n out)"
  using storage_width(1) [of n]
  by (auto simp: encode_length_def length_bytes_def Let_def simp del: insert_iff intro!: writes_push_then writes_be writes_push)

lemma writes_integer: "- (2 ^ 63) \<le> n \<Longrightarrow> n < 2 ^ 64 \<Longrightarrow> writes out (integer_bytes n) (encode_integer n out)"
proof -
  assume n: "- (2 ^ 63) \<le> n" "n < 2 ^ 64"
  have small: "integer_storage_width v < 8 \<longleftrightarrow> integer_storage_width v \<in> {1, 2, 4}" for v
    by (simp add: integer_storage_width_def)
  show ?thesis
    using n unfolding encode_integer_def integer_bytes_def Let_def small
    by (auto intro!: writes_push_then writes_rbind writes_append writes_be)
qed

lemma writes_references: "rs \<in> {1, 2, 4, 8} \<Longrightarrow> writes out (concat (map (nat_be rs) refs)) (append_references refs rs out)"
  by (induction refs arbitrary: out) (auto simp del: insert_iff simp: writes_nil intro!: writes_rbind writes_be)

lemma writes_units: "writes out (concat (map (nat_be 2) us)) (append_units us out)"
  by (induction us arbitrary: out) (auto simp: writes_nil intro!: writes_rbind writes_append)

lemma writes_object:
  "rs \<in> {1, 2, 4, 8} \<Longrightarrow> (\<And>n. ob = EInteger n \<Longrightarrow> - (2 ^ 63) \<le> n \<and> n < 2 ^ 64) \<Longrightarrow>
     writes out (object_bytes rs ob) (encode_object ob rs out)"
  by (cases ob) (auto simp: string_len_ascii simp flip: map_append concat_append simp del: map_append concat_append insert_iff
      intro!: writes_push writes_integer writes_rbind writes_length writes_append writes_units writes_references)

lemma write_objects_writes:
  assumes "rs \<in> {1, 2, 4, 8}"
  shows "\<forall>n. EInteger n \<in> set os \<longrightarrow> - (2 ^ 63) \<le> n \<and> n < 2 ^ 64 \<Longrightarrow>
     length out + length (table_bytes rs os) \<le> MAX_PLIST_SIZE \<Longrightarrow>
     write_objects os rs out = Inr (object_offsets rs (length out) os, out @ table_bytes rs os)"
proof (induction os arbitrary: out)
  case (Cons ob os)
  then have "encode_object ob rs out = Inr (out @ object_bytes rs ob)"
    using writes_object [OF assms, of ob out] by (auto simp: writes_def table_bytes_def)
  with Cons.IH [of "out @ object_bytes rs ob"] Cons.prems show ?case by (simp add: table_bytes_def)
qed (simp add: table_bytes_def)


definition plist_document :: "plist \<Rightarrow> bytes" where
  "plist_document v = (let rs = integer_storage_width (plist_nodes v - 1) in
     document (offset_width rs (flat 0 v)) rs (flat 0 v))"

definition within_limits :: "plist \<Rightarrow> bool" where
  "within_limits v \<longleftrightarrow> integers_ok v \<and> plist_height v \<le> MAX_DEPTH \<and> plist_nodes v \<le> MAX_OBJECTS
     \<and> references_in (subvalues v) \<le> MAX_REFERENCES \<and> bytes_in (subvalues v) \<le> MAX_VALUE_BYTES
     \<and> length (plist_document v) \<le> MAX_PLIST_SIZE"

lemma length_document:
  "length (document os rs objs) = 40 + length (table_bytes rs objs) + length objs * os"
  by (simp add: document_def BPLIST_HEADER_def)

lemma encode_within_limits:
  assumes "within_limits v"
  shows "plist_encode v = Inr (plist_document v)"
proof -
  let ?e = "\<lparr>en_objects = [], en_references = 0, en_value_bytes = 0\<rparr>" and ?objs = "flat 0 v"
  define rs where "rs = integer_storage_width (plist_nodes v - 1)"
  define os where "os = offset_width rs ?objs"
  have w: "rs \<in> {1, 2, 4, 8}" "os \<in> {1, 2, 4, 8}"
    unfolding rs_def os_def offset_width_def by (rule storage_width(1))+
  from assms encoder_admits(1) [of ?e v 0] obtain i e where add: "encoder_add v 0 ?e = Inr (i, e)"
    by (auto simp: within_limits_def room_def)
  from encoder_adds(1) [OF add] have e: "i = 0" "en_objects e = ?objs"
    and ints: "\<forall>n. EInteger n \<in> set ?objs \<longrightarrow> - (2 ^ 63) \<le> n \<and> n < 2 ^ 64" by (auto simp: encoder_grew_def)
  have size: "40 + length (table_bytes rs ?objs) + plist_nodes v * os \<le> MAX_PLIST_SIZE"
    using assms by (simp add: within_limits_def plist_document_def Let_def length_document rs_def os_def)
  have h8: "length BPLIST_HEADER = 8" by (simp add: BPLIST_HEADER_def)
  let ?out = "BPLIST_HEADER @ table_bytes rs ?objs"
  have objs: "write_objects ?objs rs BPLIST_HEADER = Inr (object_offsets rs 8 ?objs, ?out)"
    using write_objects_writes [OF w(1) ints, of BPLIST_HEADER] size by (simp add: h8)
  have width: "integer_storage_width (8 + length (table_bytes rs ?objs)) = os" by (simp add: os_def offset_width_def)
  have doc: "plist_document v = document os rs ?objs" by (simp add: plist_document_def Let_def rs_def os_def)
  have "writes ?out (concat (map (nat_be os) (object_offsets rs 8 ?objs)) @ replicate 6 0 @ [word_of_nat os]
      @ [word_of_nat rs] @ nat_be 8 (plist_nodes v) @ nat_be 8 0 @ nat_be 8 (length ?out))
    (rbind (append_references (object_offsets rs 8 ?objs) os ?out) (\<lambda>out.
       rbind (append_bytes out (replicate 6 0)) (\<lambda>out. rbind (push_byte out (word_of_nat os)) (\<lambda>out.
       rbind (push_byte out (word_of_nat rs)) (\<lambda>out. rbind (append_be out (plist_nodes v) 8) (\<lambda>out.
       rbind (append_be out 0 8) (\<lambda>out. append_be out (length ?out) 8)))))))"
    by (intro writes_rbind writes_references [OF w(2)] writes_append writes_push writes_be) simp_all
  moreover have "append_bytes [] BPLIST_HEADER = Inr BPLIST_HEADER"
    by (simp add: append_bytes_def h8 MAX_PLIST_SIZE_def)
  ultimately show ?thesis using size
    unfolding plist_encode_def add rbind.simps case_prod_conv Let_def e length_flat rs_def [symmetric]
    by (simp add: objs width writes_def doc document_def h8 del: replicate.simps)
qed

subsection \<open>The properties\<close>

definition demo_plist :: plist where
  "demo_plist = PDictionary [([0x61], PArray [PInteger 300, PInteger (- 1), PData [1, 2, 3], PNull]),
     ([0x7A, 0x1F600], PDictionary [([0xE9], PBoolean True)])]"

lemma demo_flat: "flat 0 demo_plist = [EDictionary [1, 7] [2, 8], EString [0x61], EArray [3, 4, 5, 6], EInteger 300,
    EInteger (- 1), EData [1, 2, 3], ENull, EString [0x7A, 0x1F600], EDictionary [9] [10], EString [0xE9], EBoolean True]"
  by (simp add: demo_plist_def)

lemma demo_nodes: "plist_nodes demo_plist = 11"
  by (simp add: demo_plist_def)

lemma demo_length: "length (plist_document demo_plist) \<le> MAX_PLIST_SIZE"
  by (simp add: plist_document_def demo_nodes demo_flat Let_def integer_storage_width_def length_document table_bytes_def
      length_bytes_def integer_bytes_def is_ascii_def encode_utf16_def offset_width_def MAX_PLIST_SIZE_def)

lemma demo_encodes: "plist_ok demo_plist" "within_limits demo_plist"
  by (simp_all add: within_limits_def demo_length)
     (simp_all add: demo_plist_def scalar_ok_def string_len_def utf8_length_def limits MAX_DEPTH_def)

text \<open>
  C4. Binary property lists round trip.  Whatever \<open>encode\<close> writes for a well formed value \<open>decode\<close> reads back as
  that value, so no value the encoder admits runs into a limit of the decoder; and the encoder admits every value
  whose integers, depth, objects, references, text and document stay within the limits of the format.
\<close>

theorem plist_round_trip:
  assumes "plist_ok v"
  shows "(\<forall>document. plist_encode v = Inr document \<longrightarrow> plist_decode document = Inr v)
    \<and> (within_limits v \<longrightarrow> (\<exists>document. plist_encode v = Inr document \<and> plist_decode document = Inr v))"
  using plist_codec.dec_enc [OF assms] encode_within_limits by blast

theorem plist_round_trip_witness:
  "\<exists>document. plist_encode demo_plist = Inr document \<and> plist_decode document = Inr demo_plist"
  using plist_round_trip [OF demo_encodes(1)] demo_encodes(2) by blast

lemma demo_decodes: "plist_decode (plist_document demo_plist) = Inr demo_plist"
  by (rule decode_encode [OF demo_encodes(1) encode_within_limits [OF demo_encodes(2)]])

text \<open>
  C8. What the decoder accepts is bounded.  From any input whatever, a value that \<open>decode\<close> returns has its text in
  Unicode scalars, its dictionaries strictly ordered by key, its integers in the range of the format, and at most the
  depth and the nodes that the limits allow: shared references cannot expand past them.  Its data, with its texts
  at one byte for an ASCII scalar and at their UTF-16 size otherwise, fits the limit on bytes; so
  with its texts in UTF-8, as strings hold them, it takes at most half as much again.
\<close>

theorem plist_decode_bounded:
  assumes "plist_decode input = Inr v"
  shows "length input \<le> MAX_PLIST_SIZE \<and> plist_ok v \<and> integers_ok v \<and> plist_height v \<le> MAX_DEPTH
    \<and> plist_nodes v \<le> MAX_DECODED_NODES \<and> plist_size text_size v \<le> MAX_VALUE_BYTES
    \<and> 2 * plist_size string_len v \<le> 3 * MAX_VALUE_BYTES"
proof -
  from assms obtain tr :: plist_trailer and T b where len: "length input \<le> MAX_PLIST_SIZE"
    and "decode_object T (tr_top_object tr) 0 \<lparr>db_nodes = 0, db_value_bytes = 0\<rparr> = Inr (v, b)"
    by (auto simp: plist_decode_def split: if_splits)
  from decode_accepted(1) [OF this(2)] have acc: "accepted v 0 \<lparr>db_nodes = 0, db_value_bytes = 0\<rparr> b" .
  then have "plist_size text_size v \<le> MAX_VALUE_BYTES" by (auto simp: accepted_def)
  moreover from this have "2 * plist_size string_len v \<le> 3 * MAX_VALUE_BYTES"
    using plist_size_scale(1) [of 2 string_len 3 text_size v] string_len_text_size by fastforce
  ultimately show ?thesis using acc len by (auto simp: accepted_def)
qed

theorem plist_decode_bounded_witness:
  "plist_decode (plist_document demo_plist) = Inr demo_plist \<and> plist_ok demo_plist \<and> integers_ok demo_plist
   \<and> plist_height demo_plist \<le> 64 \<and> plist_nodes demo_plist \<le> 1048576
   \<and> plist_size text_size demo_plist \<le> 16777216 \<and> 2 * plist_size string_len demo_plist \<le> 3 * 16777216"
  using plist_decode_bounded [OF demo_decodes] demo_decodes
  by (simp add: MAX_DEPTH_def MAX_DECODED_NODES_def MAX_VALUE_BYTES_def MAX_PLIST_SIZE_def)

text \<open>
  C11. Decoding is on well founded ground.  Every document that \<open>decode\<close> accepts has a table of objects whose references
  stay inside the table and whose child relation is well founded, so a walk along the references from any object ends;
  and the keys of every dictionary are strings.
\<close>

theorem plist_references_well_founded:
  assumes "plist_decode input = Inr v"
  shows "\<exists>tr T. parse_trailer input = Inr tr \<and> load_table input tr = Inr T
    \<and> (\<forall>i c. i < length (ot_scanned T) \<longrightarrow> c \<in> set (sob_children (ot_scanned T ! i)) \<longrightarrow> c < length (ot_scanned T))
    \<and> wf {(c, i). i < length (ot_scanned T) \<and> c \<in> set (sob_children (ot_scanned T ! i))}
    \<and> keys_are_strings (ot_scanned T)"
proof -
  from assms obtain tr T where "parse_trailer input = Inr tr" and T: "load_table input tr = Inr T"
    by (auto simp: plist_decode_def split: if_splits)
  with loaded_table [OF T] show ?thesis by blast
qed

theorem plist_references_well_founded_witness:
  "\<exists>tr T. parse_trailer (plist_document demo_plist) = Inr tr \<and> load_table (plist_document demo_plist) tr = Inr T
    \<and> wf {(c, i). i < length (ot_scanned T) \<and> c \<in> set (sob_children (ot_scanned T ! i))}"
  using plist_references_well_founded [OF demo_decodes] by blast

end
