(* ===== verification/Bridge_Rpc.thy ===== *)
theory Bridge_Rpc
  imports Bplist_Correct
begin

section \<open>RPC envelopes of the bridge\<close>

text \<open>
  Models \<^verbatim>\<open>crates/t1-bridge/src/rpc.rs\<close>: request identifiers, the four-element envelope of a request or a reply,
  the payloads of the methods the client calls and the validation of their results, and the handling of the service
  status callbacks the peer makes. A command packet and a service status event are the structures of
  \<^verbatim>\<open>commands.rs\<close> and \<^verbatim>\<open>mesa.rs\<close>. Text is a list of Unicode scalars, as in the property lists.
  The lemmas show that identifiers made from random bytes are canonical and keep the random bits, that an envelope is
  read back as it was written, and what a callback is answered.
\<close>

subsection \<open>Text as bytes\<close>

definition utf8_bytes :: "nat \<Rightarrow> bytes" where
  "utf8_bytes c =
     (if c < 0x80 then [word_of_nat c]
      else if c < 0x800 then [word_of_nat (0xC0 + c div 0x40), word_of_nat (0x80 + c mod 0x40)]
      else if c < 0x10000 then
        [word_of_nat (0xE0 + c div 0x1000), word_of_nat (0x80 + c div 0x40 mod 0x40), word_of_nat (0x80 + c mod 0x40)]
      else [word_of_nat (0xF0 + c div 0x40000), word_of_nat (0x80 + c div 0x1000 mod 0x40),
            word_of_nat (0x80 + c div 0x40 mod 0x40), word_of_nat (0x80 + c mod 0x40)])"

definition string_bytes :: "scalars \<Rightarrow> bytes" where
  "string_bytes t = concat (map utf8_bytes t)"

definition literal :: "string \<Rightarrow> scalars" where
  "literal s = map of_char s"

subsection \<open>Identifiers, envelopes and results\<close>

definition RPC_PROTOCOL_VERSION :: int where "RPC_PROTOCOL_VERSION = 1"

definition BRIDGEXPC_NIL :: scalars where
  "BRIDGEXPC_NIL = literal ''d4161201-daf5-4bbd-ae4f-9bf319fabbe0''"

definition UUID_HEX :: scalars where
  "UUID_HEX = literal ''0123456789ABCDEF''"

type_synonym request_id = scalars

definition from_uuid_v4_bytes :: "bytes \<Rightarrow> request_id" where
  "from_uuid_v4_bytes bs =
     (let bs = bs[6 := (bs ! 6 AND 0x0f) OR 0x40]; bs = bs[8 := (bs ! 8 AND 0x3f) OR 0x80] in
      concat (map (\<lambda>(i, b). (if i \<in> {4, 6, 8, 10} then literal ''-'' else [])
        @ [UUID_HEX ! unat (drop_bit 4 b), UUID_HEX ! unat (b AND 0x0f)]) (enumerate 0 bs)))"

definition is_canonical_request_id :: "scalars \<Rightarrow> bool" where
  "is_canonical_request_id value \<longleftrightarrow> string_len value = 36
     \<and> list_all (\<lambda>(i, b). if i \<in> {8, 13, 18, 23} then b = 0x2D
         else (0x30 \<le> b \<and> b \<le> 0x39) \<or> (0x41 \<le> b \<and> b \<le> 0x46)) (enumerate 0 (string_bytes value))"

datatype rpc_envelope =
    RpcRequest request_id "plist list"
  | RpcReply request_id "plist list"

fun matching_reply :: "rpc_envelope \<Rightarrow> request_id \<Rightarrow> plist list option" where
  "matching_reply (RpcReply request_id results) expected = (if request_id = expected then Some results else None)"
| "matching_reply (RpcRequest _ _) expected = None"

datatype calibration_source = Eeprom | Fdr

record service_status_event =
  se_service :: u32
  se_data :: bytes
  se_reference_timestamp :: u64
  se_continuous_time_delta :: u64

record command_packet =
  cp_request :: bytes
  cp_response_capacity :: nat
  cp_wipe_on_drop :: bool

record inbound_request_result =
  ir_reply :: "plist list"
  ir_service_event :: "service_status_event option"

datatype rpc_error =
    RpcBinaryPlist plist_error
  | InvalidRequestId
  | InvalidEnvelope
  | UnsupportedProtocolVersion
  | InvalidRawDictionary
  | InvalidBiometricResult
  | BiometricStatusOutOfRange
  | BiometricCommandFailed int u16
  | InvalidClientVersionResult
  | InvalidCalibrationResult calibration_source
  | EmptyCalibration calibration_source
  | CalibrationTooLarge calibration_source nat nat
  | InvalidCallbackService
  | InvalidCallbackData
  | InvalidCallbackTiming

definition request_id_parse :: "scalars \<Rightarrow> rpc_error + request_id" where
  "request_id_parse value = (if \<not> is_canonical_request_id value then Inl InvalidRequestId else Inr value)"

subsection \<open>Encoding and decoding\<close>

definition encode_envelope :: "bool \<Rightarrow> request_id \<Rightarrow> plist list \<Rightarrow> rpc_error + bytes" where
  "encode_envelope is_reply request_id payload =
     map_err RpcBinaryPlist (plist_encode (PArray
       [PInteger RPC_PROTOCOL_VERSION, PBoolean is_reply, PString request_id, PArray payload]))"

definition encode_rpc_request :: "request_id \<Rightarrow> plist list \<Rightarrow> rpc_error + bytes" where
  "encode_rpc_request request_id payload =
     (if \<not> is_canonical_request_id request_id then Inl InvalidRequestId
      else encode_envelope False request_id payload)"

definition encode_rpc_reply :: "request_id \<Rightarrow> plist list \<Rightarrow> rpc_error + bytes" where
  "encode_rpc_reply request_id results = encode_envelope True request_id results"

definition decode_envelope :: "bytes \<Rightarrow> rpc_error + rpc_envelope" where
  "decode_envelope data =
     rbind (map_err RpcBinaryPlist (plist_decode data)) (\<lambda>value.
       case value of
         PArray elements \<Rightarrow>
           if length elements \<noteq> 4 then Inl InvalidEnvelope
           else (case elements ! 3 of
             PArray payload \<Rightarrow> (case elements ! 2 of
               PString request_id \<Rightarrow> (case elements ! 1 of
                 PBoolean is_reply \<Rightarrow>
                   if elements ! 0 \<noteq> PInteger RPC_PROTOCOL_VERSION then Inl UnsupportedProtocolVersion
                   else if is_reply then Inr (RpcReply request_id payload)
                   else Inr (RpcRequest request_id payload)
               | _ \<Rightarrow> Inl InvalidEnvelope)
             | _ \<Rightarrow> Inl InvalidEnvelope)
           | _ \<Rightarrow> Inl InvalidEnvelope)
       | _ \<Rightarrow> Inl InvalidEnvelope)"

definition encode_raw_dictionary :: "(scalars \<times> plist) list \<Rightarrow> rpc_error + bytes" where
  "encode_raw_dictionary dictionary = map_err RpcBinaryPlist (plist_encode (PDictionary dictionary))"

definition decode_raw_dictionary :: "bytes \<Rightarrow> rpc_error + (scalars \<times> plist) list" where
  "decode_raw_dictionary data =
     rbind (map_err RpcBinaryPlist (plist_decode data)) (\<lambda>value.
       case value of PDictionary dictionary \<Rightarrow> Inr dictionary | _ \<Rightarrow> Inl InvalidRawDictionary)"

subsection \<open>Methods\<close>

definition perform_biometric_command_request :: "command_packet \<Rightarrow> plist list" where
  "perform_biometric_command_request packet =
     [PInteger 3, PInteger 0, PData (cp_request packet), PInteger (int (cp_response_capacity packet))]"

definition parse_biometric_command_result :: "command_packet \<Rightarrow> plist list \<Rightarrow> rpc_error + bytes" where
  "parse_biometric_command_result packet results =
     (case results of
        [PInteger status, out] \<Rightarrow>
          if \<not> (- (2 ^ 63) \<le> status \<and> status < 2 ^ 63) then Inl BiometricStatusOutOfRange
          else if status \<noteq> 0 then
            Inl (BiometricCommandFailed status
              (if length (cp_request packet) < 4 then 0 else from_le (slice 2 4 (cp_request packet))))
          else (case out of
            PString value \<Rightarrow> if value = BRIDGEXPC_NIL then Inr [] else Inl InvalidBiometricResult
          | PData data \<Rightarrow> Inr data
          | _ \<Rightarrow> Inl InvalidBiometricResult)
      | _ \<Rightarrow> Inl InvalidBiometricResult)"

definition set_client_version_request :: "u64 \<Rightarrow> plist list" where
  "set_client_version_request version = [PInteger 1, PInteger (uint version)]"

definition validate_set_client_version_result :: "plist list \<Rightarrow> rpc_error + unit" where
  "validate_set_client_version_result results =
     (if results = [PInteger 0, PBoolean True] then Inr () else Inl InvalidClientVersionResult)"

definition calibration_request :: "calibration_source \<Rightarrow> plist list" where
  "calibration_request source = [PInteger (case source of Eeprom \<Rightarrow> 5 | Fdr \<Rightarrow> 11)]"

definition MAX_CALIBRATION_DATA_SIZE :: nat where
  "MAX_CALIBRATION_DATA_SIZE = 16 * 1024 * 1024 - 8"

definition parse_calibration_result :: "calibration_source \<Rightarrow> plist list \<Rightarrow> rpc_error + bytes option" where
  "parse_calibration_result source results =
     (case results of
        [value] \<Rightarrow>
          (case value of
             PString text \<Rightarrow> if text = BRIDGEXPC_NIL then Inr None else Inl (InvalidCalibrationResult source)
           | PData data \<Rightarrow>
               if data = [] then Inl (EmptyCalibration source)
               else if length data > MAX_CALIBRATION_DATA_SIZE
               then Inl (CalibrationTooLarge source (length data) MAX_CALIBRATION_DATA_SIZE)
               else Inr (Some data)
           | _ \<Rightarrow> Inl (InvalidCalibrationResult source))
      | _ \<Rightarrow> Inl (InvalidCalibrationResult source))"

definition unsupported_request :: inbound_request_result where
  "unsupported_request = \<lparr>ir_reply = [PInteger 22], ir_service_event = None\<rparr>"

definition handle_inbound_request :: "plist list \<Rightarrow> rpc_error + inbound_request_result" where
  "handle_inbound_request payload =
     (case payload of
        [PInteger ordinal, service, data, reference_timestamp, continuous_time_delta] \<Rightarrow>
          if \<not> (0 \<le> ordinal \<and> ordinal < 2 ^ 64) \<or> ordinal \<notin> {9, 10} then Inr unsupported_request
          else (case service of
            PInteger service \<Rightarrow>
              if \<not> (0 \<le> service \<and> service < 2 ^ 32) then Inl InvalidCallbackService
              else rbind (case data of
                  PString value \<Rightarrow> if value = BRIDGEXPC_NIL then Inr [] else Inl InvalidCallbackData
                | PData data \<Rightarrow> Inr data
                | _ \<Rightarrow> Inl InvalidCallbackData) (\<lambda>data.
                (case (reference_timestamp, continuous_time_delta) of
                   (PInteger reference_timestamp, PInteger continuous_time_delta) \<Rightarrow>
                     if \<not> (0 \<le> reference_timestamp \<and> reference_timestamp < 2 ^ 64) then Inl InvalidCallbackTiming
                     else if \<not> (0 \<le> continuous_time_delta \<and> continuous_time_delta < 2 ^ 64)
                     then Inl InvalidCallbackTiming
                     else Inr \<lparr>ir_reply = [PInteger 0],
                       ir_service_event = Some \<lparr>se_service = word_of_int service, se_data = data,
                         se_reference_timestamp = word_of_int reference_timestamp,
                         se_continuous_time_delta = word_of_int continuous_time_delta\<rparr>\<rparr>
                 | _ \<Rightarrow> Inl InvalidCallbackTiming))
          | _ \<Rightarrow> Inl InvalidCallbackService)
      | _ \<Rightarrow> Inr unsupported_request)"

subsection \<open>Identifiers made from random bytes\<close>

lemma hex_digit: "n < 16 \<Longrightarrow> UUID_HEX ! n = (if n < 10 then 48 + n else 55 + n)"
proof -
  have "\<forall>n < 16. UUID_HEX ! n = (if n < 10 then 48 + n else 55 + n)"
    by (simp add: UUID_HEX_def literal_def All_less_Suc numeral_eq_Suc)
  then show "n < 16 \<Longrightarrow> UUID_HEX ! n = (if n < 10 then 48 + n else 55 + n)" by blast
qed

lemma nibble_bounds: "unat (drop_bit 4 (b :: u8)) < 16" "unat (b AND 15) < 16"
proof -
  have "unat b < 256" using unsigned_less [of b] by simp
  then show "unat (drop_bit 4 b) < 16" unfolding unat_drop_bit_eq by (simp add: drop_bit_eq_div)
  have "b AND 15 = take_bit 4 b" by (simp add: take_bit_eq_mask mask_eq_exp_minus_1)
  then have "unat (b AND 15) = take_bit 4 (unat b)" by (simp only: unsigned_take_bit_eq)
  then show "unat (b AND 15) < 16" by (simp add: take_bit_eq_mod)
qed

lemma nibbles_eq: "drop_bit 4 b = drop_bit 4 c \<Longrightarrow> b AND 15 = c AND 15 \<Longrightarrow> b = (c :: u8)"
proof -
  assume h: "drop_bit 4 b = drop_bit 4 c" "b AND 15 = c AND 15"
  have "x AND 15 = take_bit 4 x" for x :: u8 by (simp add: take_bit_eq_mask mask_eq_exp_minus_1)
  with h have "take_bit 4 b = take_bit 4 c" by simp
  with h(1) show "b = c" by (metis bits_ident)
qed

definition hex_pair :: "u8 \<Rightarrow> scalars" where
  "hex_pair b = [UUID_HEX ! unat (drop_bit 4 b), UUID_HEX ! unat (b AND 0x0f)]"

lemma hex_digit_inject: "n < 16 \<Longrightarrow> m < 16 \<Longrightarrow> UUID_HEX ! n = UUID_HEX ! m \<longleftrightarrow> n = m"
  by (auto simp: hex_digit split: if_splits)

lemma hex_pair_inject: "hex_pair b = hex_pair c \<longleftrightarrow> b = c"
proof
  assume "hex_pair b = hex_pair c"
  then have "unat (drop_bit 4 b) = unat (drop_bit 4 c)" "unat (b AND 15) = unat (c AND 15)"
    by (simp_all add: hex_pair_def hex_digit_inject nibble_bounds)
  then show "b = c" by (rule nibbles_eq [OF unsigned_word_eqI unsigned_word_eqI])
qed simp

definition uuid_bits :: "bytes \<Rightarrow> bytes" where
  "uuid_bits bs = (let bs = bs[6 := (bs ! 6 AND 0x0f) OR 0x40] in bs[8 := (bs ! 8 AND 0x3f) OR 0x80])"

lemma length_uuid_bits [simp]: "length (uuid_bits bs) = length bs"
  by (simp add: uuid_bits_def Let_def)

lemma length_16: "length xs = 16 \<Longrightarrow>
    \<exists>a b c d e f g h i j k l m n p q. xs = [a, b, c, d, e, f, g, h, i, j, k, l, m, n, p, q]"
  by (simp add: numeral_eq_Suc length_Suc_conv, elim exE conjE, simp)

lemma from_uuid_pairs:
  assumes "uuid_bits bs = [a, b, c, d, e, f, g, h, i, j, k, l, m, n, p, q]"
  shows "from_uuid_v4_bytes bs = hex_pair a @ hex_pair b @ hex_pair c @ hex_pair d @ [45] @ hex_pair e @ hex_pair f @ [45]
    @ hex_pair g @ hex_pair h @ [45] @ hex_pair i @ hex_pair j @ [45]
    @ hex_pair k @ hex_pair l @ hex_pair m @ hex_pair n @ hex_pair p @ hex_pair q"
proof -
  have "from_uuid_v4_bytes bs = concat (map (\<lambda>(i, b). (if i \<in> {4, 6, 8, 10} then literal ''-'' else []) @ hex_pair b)
      (enumerate 0 (uuid_bits bs)))"
    by (simp add: from_uuid_v4_bytes_def uuid_bits_def hex_pair_def Let_def)
  then show ?thesis by (simp add: assms literal_def)
qed

definition hex_scalar :: "nat \<Rightarrow> bool" where
  "hex_scalar c \<longleftrightarrow> (48 \<le> c \<and> c \<le> 57) \<or> (65 \<le> c \<and> c \<le> 70)"

lemma hex_scalar_digit: "n < 16 \<Longrightarrow> hex_scalar (UUID_HEX ! n)"
  by (simp add: hex_digit hex_scalar_def)

lemma hex_scalar_bytes:
  assumes "hex_scalar c \<or> c = 45"
  shows "utf8_bytes c = [word_of_nat c]" "utf8_length c = 1"
    "hex_scalar c \<Longrightarrow> (0x30 \<le> (word_of_nat c :: u8) \<and> (word_of_nat c :: u8) \<le> 0x39)
      \<or> (0x41 \<le> (word_of_nat c :: u8) \<and> (word_of_nat c :: u8) \<le> 0x46)"
  using assms by (auto simp: utf8_bytes_def utf8_length_def hex_scalar_def word_le_nat_alt unat_of_nat take_bit_nat_eq_self)

lemma canonical_scalars:
  assumes "list_all (\<lambda>(i, c). if i \<in> {8, 13, 18, 23} then c = 45 else hex_scalar c) (enumerate 0 t)" "length t = 36"
  shows "is_canonical_request_id t"
proof -
  have s: "hex_scalar (t ! i) \<or> t ! i = 45" "if i \<in> {8, 13, 18, 23} then t ! i = 45 else hex_scalar (t ! i)" if "i < 36" for i
    using assms that by (auto simp: list_all_iff in_set_enumerate_eq split: if_splits)
  then have t: "\<forall>c \<in> set t. hex_scalar c \<or> c = 45" using assms(2) by (metis in_set_conv_nth)
  then have "string_bytes t = map word_of_nat t" "string_len t = length t"
    by (induction t) (auto simp: string_bytes_def string_len_def hex_scalar_bytes)
  moreover have "list_all (\<lambda>(i, b). if i \<in> {8, 13, 18, 23} then b = 0x2D
      else (0x30 \<le> b \<and> b \<le> 0x39) \<or> (0x41 \<le> b \<and> b \<le> (0x46 :: u8))) (enumerate 0 (map word_of_nat t))"
    unfolding list_all_iff
  proof safe
    fix i b
    assume "(i, b) \<in> set (enumerate 0 (map word_of_nat t :: bytes))"
    then have "i < 36" "b = word_of_nat (t ! i)" using assms(2) by (auto simp: in_set_enumerate_eq)
    with s [of i] hex_scalar_bytes(3) [of "t ! i"] show "if i \<in> {8, 13, 18, 23} then b = 0x2D
      else (0x30 \<le> b \<and> b \<le> 0x39) \<or> (0x41 \<le> b \<and> b \<le> 0x46)" by (cases "i \<in> {8, 13, 18, 23}") auto
  qed
  ultimately show ?thesis by (simp add: is_canonical_request_id_def assms(2))
qed

lemma from_uuid_canonical:
  assumes "length bs = 16"
  shows "is_canonical_request_id (from_uuid_v4_bytes bs)"
proof -
  from assms obtain a b c d e f g h i j k l m n p q where u: "uuid_bits bs = [a, b, c, d, e, f, g, h, i, j, k, l, m, n, p, q]"
    using length_16 [of "uuid_bits bs"] by auto
  show ?thesis
    unfolding from_uuid_pairs [OF u] hex_pair_def
    by (rule canonical_scalars) (simp_all add: hex_scalar_digit nibble_bounds)
qed

lemma from_uuid_inject:
  assumes "length bs = 16" "length cs = 16"
  shows "from_uuid_v4_bytes bs = from_uuid_v4_bytes cs \<longleftrightarrow> uuid_bits bs = uuid_bits cs"
proof -
  obtain a b c d e f g h i j k l m n p q where u: "uuid_bits bs = [a, b, c, d, e, f, g, h, i, j, k, l, m, n, p, q]"
    using length_16 [of "uuid_bits bs"] assms by auto
  obtain a' b' c' d' e' f' g' h' i' j' k' l' m' n' p' q' where
    v: "uuid_bits cs = [a', b', c', d', e', f', g', h', i', j', k', l', m', n', p', q']"
    using length_16 [of "uuid_bits cs"] assms by auto
  have len: "length (hex_pair x) = length (hex_pair y)" for x y by (simp add: hex_pair_def)
  show ?thesis
    unfolding from_uuid_pairs [OF u] from_uuid_pairs [OF v] u v by (simp add: append_eq_append_conv len hex_pair_inject)
qed

subsection \<open>Envelopes\<close>

definition envelope_value :: "rpc_envelope \<Rightarrow> plist" where
  "envelope_value envelope = (case envelope of
     RpcRequest i payload \<Rightarrow> PArray [PInteger RPC_PROTOCOL_VERSION, PBoolean False, PString i, PArray payload]
   | RpcReply i results \<Rightarrow> PArray [PInteger RPC_PROTOCOL_VERSION, PBoolean True, PString i, PArray results])"

definition encode_rpc :: "rpc_envelope \<Rightarrow> rpc_error + bytes" where
  "encode_rpc envelope = (case envelope of
     RpcRequest i payload \<Rightarrow> encode_rpc_request i payload | RpcReply i results \<Rightarrow> encode_rpc_reply i results)"

definition envelope_ok :: "rpc_envelope \<Rightarrow> bool" where
  "envelope_ok envelope \<longleftrightarrow> plist_ok (envelope_value envelope)"

lemma envelope_ok_simps [simp]:
  "envelope_ok (RpcRequest i payload) \<longleftrightarrow> list_all scalar_ok i \<and> elements_ok payload"
  "envelope_ok (RpcReply i results) \<longleftrightarrow> list_all scalar_ok i \<and> elements_ok results"
  by (simp_all add: envelope_ok_def envelope_value_def)

lemma length_4: "length xs = 4 \<Longrightarrow> xs = [xs ! 0, xs ! 1, xs ! 2, xs ! 3]"
  by (auto simp: numeral_eq_Suc length_Suc_conv)

lemma decode_envelope_iff:
  "decode_envelope data = Inr envelope \<longleftrightarrow> plist_decode data = Inr (envelope_value envelope)"
proof
  assume h: "decode_envelope data = Inr envelope"
  then obtain v where v: "plist_decode data = Inr v" by (auto simp: decode_envelope_def)
  with h obtain elements where e: "v = PArray elements" by (cases v) (auto simp: decode_envelope_def)
  with h v have l: "length elements = 4" by (auto simp: decode_envelope_def split: if_splits)
  with h v e obtain payload where p: "elements ! 3 = PArray payload"
    by (cases "elements ! 3") (auto simp: decode_envelope_def)
  with h v e l obtain i where i: "elements ! 2 = PString i" by (cases "elements ! 2") (auto simp: decode_envelope_def)
  with h v e l p obtain r where r: "elements ! 1 = PBoolean r" by (cases "elements ! 1") (auto simp: decode_envelope_def)
  from h v e l p i r have "elements ! 0 = PInteger RPC_PROTOCOL_VERSION"
    "envelope = (if r then RpcReply i payload else RpcRequest i payload)"
    by (auto simp: decode_envelope_def split: if_splits)
  with p i r length_4 [OF l] v e show "plist_decode data = Inr (envelope_value envelope)"
    by (auto simp: envelope_value_def)
next
  assume "plist_decode data = Inr (envelope_value envelope)"
  then show "decode_envelope data = Inr envelope"
    by (cases envelope) (simp_all add: decode_envelope_def envelope_value_def)
qed

lemma decode_envelope_ok: "decode_envelope data = Inr envelope \<Longrightarrow> envelope_ok envelope"
  using decode_accepted(1)
  by (auto simp: decode_envelope_iff envelope_ok_def plist_decode_def accepted_def split: if_splits)

lemma encode_rpc_value: "encode_rpc envelope = Inr data \<Longrightarrow> plist_encode (envelope_value envelope) = Inr data"
  by (cases envelope) (auto simp: encode_rpc_def encode_rpc_request_def encode_rpc_reply_def encode_envelope_def
      envelope_value_def split: if_splits)

interpretation envelope_codec: codec envelope_ok encode_rpc decode_envelope
  by unfold_locales (simp add: decode_envelope_iff envelope_ok_def plist_codec.dec_enc encode_rpc_value)

subsection \<open>Callbacks\<close>

text \<open>The callbacks that announce a service status, and the event each of them carries.\<close>

definition callback_event :: "plist list \<Rightarrow> service_status_event \<Rightarrow> bool" where
  "callback_event payload event \<longleftrightarrow> (\<exists>ordinal data. ordinal \<in> {9, 10}
     \<and> payload = [PInteger ordinal, PInteger (uint (se_service event)), data,
         PInteger (uint (se_reference_timestamp event)), PInteger (uint (se_continuous_time_delta event))]
     \<and> (data = PData (se_data event) \<or> se_data event = [] \<and> data = PString BRIDGEXPC_NIL))"

lemma uint_of_int: "0 \<le> n \<Longrightarrow> n < 2 ^ LENGTH('a) \<Longrightarrow> uint (word_of_int n :: 'a::len word) = n"
  by (simp add: uint_word_of_int take_bit_int_eq_self)

fun inbound_data :: "plist \<Rightarrow> rpc_error + bytes" where
  "inbound_data (PString value) = (if value = BRIDGEXPC_NIL then Inr [] else Inl InvalidCallbackData)"
| "inbound_data (PData data) = Inr data"
| "inbound_data _ = Inl InvalidCallbackData"

lemma inbound_data_Inr: "inbound_data v = Inr data \<longleftrightarrow> v = PData data \<or> data = [] \<and> v = PString BRIDGEXPC_NIL"
  by (cases v) auto

lemma inbound_case: "(case v of PString value \<Rightarrow> if value = BRIDGEXPC_NIL then Inr [] else Inl InvalidCallbackData
    | PData data \<Rightarrow> Inr data | _ \<Rightarrow> Inl InvalidCallbackData) = inbound_data v"
  by (cases v) auto

lemma inbound_event:
  assumes h: "handle_inbound_request payload = Inr handled" "handled \<noteq> unsupported_request"
  shows "\<exists>event. handled = \<lparr>ir_reply = [PInteger 0], ir_service_event = Some event\<rparr> \<and> callback_event payload event"
proof -
  from h obtain n service data rt delta where p: "payload = [PInteger n, service, data, rt, delta]"
    unfolding handle_inbound_request_def by (auto split: list.splits plist.splits)
  with h have n: "n \<in> {9, 10}" by (cases "n \<in> {9, 10}") (auto simp: handle_inbound_request_def)
  with h p obtain k where k: "service = PInteger k" by (cases service) (auto simp: handle_inbound_request_def)
  with h p n have k': "0 \<le> k" "k < 2 ^ 32" by (auto simp: handle_inbound_request_def split: if_splits)
  with h p n k obtain ds where ds: "inbound_data data = Inr ds" by (auto simp: handle_inbound_request_def inbound_case)
  with h p n k k' obtain r where r: "rt = PInteger r" by (cases rt) (auto simp: handle_inbound_request_def inbound_case)
  with h p n k k' ds obtain c where c: "delta = PInteger c" by (cases delta) (auto simp: handle_inbound_request_def inbound_case)
  from h p n k k' ds r c have rc: "0 \<le> r" "r < 2 ^ 64" "0 \<le> c" "c < 2 ^ 64"
    and "handled = \<lparr>ir_reply = [PInteger 0], ir_service_event = Some \<lparr>se_service = word_of_int k, se_data = ds,
      se_reference_timestamp = word_of_int r, se_continuous_time_delta = word_of_int c\<rparr>\<rparr>"
    by (auto simp: handle_inbound_request_def inbound_case split: if_splits)
  then show ?thesis using p n k k' ds r c by (auto simp: callback_event_def inbound_data_Inr uint_of_int)
qed

lemma callback_handled:
  assumes "callback_event payload event"
  shows "handle_inbound_request payload = Inr \<lparr>ir_reply = [PInteger 0], ir_service_event = Some event\<rparr>"
proof -
  have b: "uint (se_service event) < 2 ^ 32" "uint (se_reference_timestamp event) < 2 ^ 64"
    "uint (se_continuous_time_delta event) < 2 ^ 64"
    using uint_lt2p [of "se_service event"] uint_lt2p [of "se_reference_timestamp event"]
      uint_lt2p [of "se_continuous_time_delta event"] by simp_all
  from assms b show ?thesis
    by (cases event) (auto simp: callback_event_def handle_inbound_request_def)
qed

subsection \<open>The properties\<close>

lemma set_high_bits: "m AND k = 0 \<Longrightarrow> (x AND m) OR k = (y AND m) OR k \<longleftrightarrow> x AND m = y AND (m :: u8)"
  by (auto simp: bit_eq_iff bit_simps)

lemma uuid_bits_eq:
  assumes "length bs = 16" "length cs = 16"
  shows "uuid_bits bs = uuid_bits cs \<longleftrightarrow> (\<forall>i < 16. if i = 6 then bs ! i AND 0x0f = cs ! i AND 0x0f
    else if i = 8 then bs ! i AND 0x3f = cs ! i AND 0x3f else bs ! i = cs ! i)"
proof -
  have k: "(0x0f :: u8) AND 0x40 = 0" "(0x3f :: u8) AND 0x80 = 0" by simp_all
  have "uuid_bits bs ! i = uuid_bits cs ! i \<longleftrightarrow> (if i = 6 then bs ! i AND 0x0f = cs ! i AND 0x0f
      else if i = 8 then bs ! i AND 0x3f = cs ! i AND 0x3f else bs ! i = cs ! i)" if "i < 16" for i
    using assms that set_high_bits [OF k(1)] set_high_bits [OF k(2)]
    by (auto simp: uuid_bits_def Let_def nth_list_update)
  then show ?thesis using assms by (auto simp: list_eq_iff_nth_eq)
qed

text \<open>
  Request identifiers are canonical and as distinct as their random bytes.  The identifier made from sixteen random
  bytes is a canonical one, which \<open>parse\<close> accepts unchanged, and two identifiers are equal exactly when their bytes agree
  in every bit but the four of the version and the two of the variant.
\<close>

theorem request_ids_canonical:
  assumes "length bs = 16" "length cs = 16"
  shows "request_id_parse (from_uuid_v4_bytes bs) = Inr (from_uuid_v4_bytes bs)
    \<and> (from_uuid_v4_bytes bs = from_uuid_v4_bytes cs \<longleftrightarrow> (\<forall>i < 16. if i = 6 then bs ! i AND 0x0f = cs ! i AND 0x0f
      else if i = 8 then bs ! i AND 0x3f = cs ! i AND 0x3f else bs ! i = cs ! i))"
  using from_uuid_canonical [OF assms(1)] from_uuid_inject [OF assms] uuid_bits_eq [OF assms]
  by (simp add: request_id_parse_def)

theorem request_ids_canonical_witness:
  "request_id_parse (from_uuid_v4_bytes (replicate 16 0)) = Inr (from_uuid_v4_bytes (replicate 16 0))
    \<and> from_uuid_v4_bytes (replicate 16 0) \<noteq> from_uuid_v4_bytes (replicate 16 1)"
  using request_ids_canonical [of "replicate 16 0" "replicate 16 1"] by (auto intro: exI [of _ 0])

text \<open>
  C38. Envelopes round trip.  A request or a reply whose identifier and payload are well formed is decoded, from whatever
  bytes it was encoded to, as the same request or reply; and every identifier and payload that the decoder accepts is
  well formed, so that the reply to any request of the peer comes back under the identifier of that request.
\<close>

theorem envelopes_round_trip:
  assumes "list_all scalar_ok i" "elements_ok payload"
  shows "(\<forall>data. encode_rpc_request i payload = Inr data \<longrightarrow> decode_envelope data = Inr (RpcRequest i payload))
    \<and> (\<forall>data. encode_rpc_reply i payload = Inr data \<longrightarrow> decode_envelope data = Inr (RpcReply i payload))
    \<and> (\<forall>data j args. decode_envelope data \<in> {Inr (RpcRequest j args), Inr (RpcReply j args)}
          \<longrightarrow> list_all scalar_ok j \<and> elements_ok args)"
  using envelope_codec.dec_enc [of "RpcRequest i payload"] envelope_codec.dec_enc [of "RpcReply i payload"]
    assms decode_envelope_ok by (fastforce simp: encode_rpc_def)

definition demo_request_id :: request_id where
  "demo_request_id = from_uuid_v4_bytes (replicate 16 0)"

lemma demo_request_id: "demo_request_id = literal ''00000000-0000-4000-8000-000000000000''"
proof -
  have "uuid_bits (replicate 16 0) = [0, 0, 0, 0, 0, 0, 0x40, 0, 0x80, 0, 0, 0, 0, 0, 0, 0]"
    by (simp add: uuid_bits_def numeral_eq_Suc)
  from from_uuid_pairs [OF this] show ?thesis
    by (simp add: demo_request_id_def hex_pair_def hex_digit literal_def)
qed

lemmas limits_eval = within_limits_def envelope_value_def RPC_PROTOCOL_VERSION_def demo_request_id literal_def
  plist_document_def integer_storage_width_def length_document table_bytes_def length_bytes_def integer_bytes_def
  is_ascii_def offset_width_def limits MAX_DEPTH_def string_len_def utf8_length_def

lemma demo_reply_limits: "within_limits (envelope_value (RpcReply demo_request_id [PInteger 0]))"
  by (simp add: limits_eval)

theorem envelopes_round_trip_witness:
  "\<exists>data. encode_rpc_reply demo_request_id [PInteger 0] = Inr data
    \<and> decode_envelope data = Inr (RpcReply demo_request_id [PInteger 0])"
proof -
  have "encode_rpc_reply demo_request_id [PInteger 0] = Inr (plist_document (envelope_value (RpcReply demo_request_id [PInteger 0])))"
    using encode_within_limits [OF demo_reply_limits]
    by (simp add: encode_rpc_reply_def encode_envelope_def envelope_value_def)
  moreover have "list_all scalar_ok demo_request_id"
    by (simp add: demo_request_id literal_def scalar_ok_def)
  ultimately show ?thesis using envelopes_round_trip [of demo_request_id "[PInteger 0]"] by auto
qed

end
