(* ===== verification/Bio_Mesa.thy ===== *)
theory Bio_Mesa
  imports Bridge_Rpc
begin

section \<open>Messages of the fingerprint sensor\<close>

text \<open>
  Models \<^verbatim>\<open>crates/t1-bridge/src/mesa.rs\<close>: identity records, the messages inside service status callbacks, and the evaluation
  of enrollment and match results. A signed 32-bit user identifier is the integer it denotes.
  The lemmas give closed forms: which byte strings are identity records, and what a match result says.
\<close>

definition IDENTITY_V1_SIZE :: nat where [simp]: "IDENTITY_V1_SIZE = 20"
definition MESA_SERVICE_MESSAGE :: u32 where "MESA_SERVICE_MESSAGE = 0xe3ff8000"
definition MESA_ENROLLMENT_STATUS :: u32 where "MESA_ENROLLMENT_STATUS = 0xe3ff8001"
definition MESA_MATCH_RESULT :: u32 where "MESA_MATCH_RESULT = 0xe3ff8002"
definition MESA_ENROLLMENT_COMPLETE :: u32 where "MESA_ENROLLMENT_COMPLETE = 0xe3ff8003"
definition MESA_MESSAGE_TYPE_V1 :: u32 where "MESA_MESSAGE_TYPE_V1 = 1"
definition MESA_MESSAGE_HEADER_SIZE :: nat where [simp]: "MESA_MESSAGE_HEADER_SIZE = 40"
definition MESA_ENROLLMENT_COMPLETE_V1_SIZE :: nat where [simp]: "MESA_ENROLLMENT_COMPLETE_V1_SIZE = 20"
definition MESA_ENROLLMENT_CONTINUE_MIN :: u64 where "MESA_ENROLLMENT_CONTINUE_MIN = 0x64"
definition MESA_ENROLLMENT_CONTINUE_MAX :: u64 where "MESA_ENROLLMENT_CONTINUE_MAX = 0x163"
definition MESA_MATCH_RESULT_V1_SIZE :: nat where [simp]: "MESA_MATCH_RESULT_V1_SIZE = 0xc70"
definition MESA_MATCH_USER_LIST_COUNT_OFFSET :: nat where [simp]: "MESA_MATCH_USER_LIST_COUNT_OFFSET = 0xc6c"
definition MESA_MATCH_USER_LIST_ITEM_SIZE :: nat where [simp]: "MESA_MATCH_USER_LIST_ITEM_SIZE = 4"

type_synonym identity_identifier = bytes

record mesa_message =
  mm_status :: u32
  mm_message_type :: u32
  mm_timestamp :: u64
  mm_payload :: bytes
  mm_in_value :: u64

record mesa_identity =
  mi_user_id :: int
  mi_identifier :: identity_identifier

datatype mesa_error =
    InvalidIdentitySize nat nat
  | NegativeIdentityUser
  | ZeroIdentityIdentifier
  | TruncatedMessageHeader nat nat
  | ServiceResultFailed u64
  | PayloadLengthDoesNotFit u64
  | PayloadLengthMismatch u64 nat
  | UnsupportedEnrollmentCompletionType u32
  | TruncatedEnrollmentCompletion nat nat
  | EnrollmentCompletedForWrongUser
  | ZeroEnrollmentIdentifier
  | UnsupportedMatchResultType u32
  | TruncatedMatchResult nat nat
  | MatchUserListSizeOverflow u32
  | TruncatedMatchUserList nat nat

definition read_i32 :: "bytes \<Rightarrow> nat \<Rightarrow> int" where
  "read_i32 data offset = sint (read_u32 data offset)"

definition parse_identity :: "bytes \<Rightarrow> mesa_error + mesa_identity" where
  "parse_identity data =
     (if length data \<noteq> IDENTITY_V1_SIZE then Inl (InvalidIdentitySize (length data) IDENTITY_V1_SIZE)
      else let user_id = read_i32 data 0 in
        if user_id < 0 then Inl NegativeIdentityUser
        else let identifier = slice 4 IDENTITY_V1_SIZE data in
          if identifier = replicate 16 0 then Inl ZeroIdentityIdentifier
          else Inr \<lparr>mi_user_id = user_id, mi_identifier = identifier\<rparr>)"

text \<open>A length of 64 bits always fits a \<^verbatim>\<open>usize\<close> of the supported machines.\<close>

definition parse_mesa_message :: "service_status_event \<Rightarrow> mesa_error + mesa_message option" where
  "parse_mesa_message event =
     (let data = se_data event in
      if se_service event \<noteq> MESA_SERVICE_MESSAGE then Inr None
      else if length data < MESA_MESSAGE_HEADER_SIZE
      then Inl (TruncatedMessageHeader (length data) MESA_MESSAGE_HEADER_SIZE)
      else let status = read_u64 data 0 in
        if status \<noteq> 0 then Inl (ServiceResultFailed status)
        else let declared = read_u64 data 32; actual_size = length data - MESA_MESSAGE_HEADER_SIZE in
          if unat declared \<noteq> actual_size then Inl (PayloadLengthMismatch declared actual_size)
          else Inr (Some \<lparr>mm_status = read_u32 data 8, mm_message_type = read_u32 data 12,
                 mm_timestamp = read_u64 data 16, mm_payload = drop MESA_MESSAGE_HEADER_SIZE data,
                 mm_in_value = read_u64 data 24\<rparr>))"

definition enrollment_needs_continue :: "mesa_message \<Rightarrow> bool" where
  "enrollment_needs_continue message \<longleftrightarrow> mm_status message = MESA_ENROLLMENT_STATUS
     \<and> mm_in_value message \<ge> MESA_ENROLLMENT_CONTINUE_MIN \<and> mm_in_value message \<le> MESA_ENROLLMENT_CONTINUE_MAX"

definition enrollment_completion :: "mesa_message \<Rightarrow> int \<Rightarrow> mesa_error + identity_identifier option" where
  "enrollment_completion message requested_user_id =
     (let payload = mm_payload message in
      if mm_status message \<noteq> MESA_ENROLLMENT_COMPLETE then Inr None
      else if mm_message_type message \<noteq> MESA_MESSAGE_TYPE_V1
      then Inl (UnsupportedEnrollmentCompletionType (mm_message_type message))
      else if length payload < MESA_ENROLLMENT_COMPLETE_V1_SIZE
      then Inl (TruncatedEnrollmentCompletion (length payload) MESA_ENROLLMENT_COMPLETE_V1_SIZE)
      else if read_i32 payload 0 \<noteq> requested_user_id then Inl EnrollmentCompletedForWrongUser
      else let identifier = slice 4 MESA_ENROLLMENT_COMPLETE_V1_SIZE payload in
        if identifier = replicate 16 0 then Inl ZeroEnrollmentIdentifier else Inr (Some identifier))"

text \<open>
  The outer option is absent when the message is no match result, the inner one when nobody was matched. Four times an
  item count of 32 bits, and the sum with the fixed size, always fit a \<^verbatim>\<open>usize\<close>; the checks are written out.
\<close>

definition evaluate_matched_identity ::
  "mesa_message \<Rightarrow> int \<Rightarrow> mesa_identity list \<Rightarrow> mesa_error + identity_identifier option option" where
  "evaluate_matched_identity message requested_user_id identities =
     (let payload = mm_payload message in
      if mm_status message \<noteq> MESA_MATCH_RESULT then Inr None
      else if mm_message_type message \<noteq> MESA_MESSAGE_TYPE_V1
      then Inl (UnsupportedMatchResultType (mm_message_type message))
      else if length payload < MESA_MATCH_RESULT_V1_SIZE
      then Inl (TruncatedMatchResult (length payload) MESA_MATCH_RESULT_V1_SIZE)
      else let item_count = read_u32 payload MESA_MATCH_USER_LIST_COUNT_OFFSET;
               item_bytes = unat item_count * MESA_MATCH_USER_LIST_ITEM_SIZE;
               required = MESA_MATCH_RESULT_V1_SIZE + item_bytes in
        if item_bytes \<ge> 2 ^ 64 \<or> required \<ge> 2 ^ 64 then Inl (MatchUserListSizeOverflow item_count)
        else if length payload < required then Inl (TruncatedMatchUserList (length payload) required)
        else let matched_user_id = read_i32 payload 0 in
          if matched_user_id = -1 then Inr (Some None)
          else let matched_identifier = slice 4 20 payload in
            Inr (Some (map_option mi_identifier (find (\<lambda>identity. matched_user_id = requested_user_id
              \<and> mi_user_id identity = requested_user_id \<and> mi_identifier identity = matched_identifier) identities))))"

definition evaluate_match_result :: "mesa_message \<Rightarrow> int \<Rightarrow> mesa_identity list \<Rightarrow> mesa_error + bool option" where
  "evaluate_match_result message requested_user_id identities =
     rbind (evaluate_matched_identity message requested_user_id identities) (\<lambda>verdict.
       Inr (map_option (\<lambda>identifier. identifier \<noteq> None) verdict))"

subsection \<open>Identity records\<close>

definition mesa_identity_ok :: "mesa_identity \<Rightarrow> bool" where
  "mesa_identity_ok i \<longleftrightarrow> 0 \<le> mi_user_id i \<and> mi_user_id i < 2 ^ 31 \<and> length (mi_identifier i) = 16 \<and> mi_identifier i \<noteq> replicate 16 0"

definition identity_descriptor :: "mesa_identity \<Rightarrow> bytes" where
  "identity_descriptor i = to_le 4 (word_of_int (mi_user_id i) :: u32) @ mi_identifier i"

lemma sint_small: "0 \<le> n \<Longrightarrow> n < 2 ^ 31 \<Longrightarrow> sint (word_of_int n :: u32) = n"
  by (simp add: signed_take_bit_int_eq_self sint_uint uint_word_of_int)

lemma parse_identity_iff: "parse_identity data = Inr i \<longleftrightarrow> mesa_identity_ok i \<and> data = identity_descriptor i"
proof
  assume p: "parse_identity data = Inr i"
  then have l: "length data = 20" and i: "i = \<lparr>mi_user_id = read_i32 data 0, mi_identifier = slice 4 20 data\<rparr>"
    and n: "0 \<le> read_i32 data 0" "slice 4 20 data \<noteq> replicate 16 0"
    by (auto simp: parse_identity_def Let_def split: if_splits)
  have b: "read_i32 data 0 < 2 ^ 31" using sint_lt [of "read_u32 data 0"] by (simp add: read_i32_def)
  have "(word_of_int (read_i32 data 0) :: u32) = read_u32 data 0" by (simp add: read_i32_def)
  then have "to_le 4 (word_of_int (read_i32 data 0) :: u32) = slice 0 4 data"
    using l by (simp add: read_u32_def to_from_le_width)
  then have "identity_descriptor i = data" using l by (simp add: identity_descriptor_def i slice_join)
  with l n b show "mesa_identity_ok i \<and> data = identity_descriptor i" by (simp add: mesa_identity_ok_def i)
next
  assume i: "mesa_identity_ok i \<and> data = identity_descriptor i"
  then have "read_i32 data 0 = mi_user_id i"
    by (simp add: read_i32_def read_u32_def identity_descriptor_def mesa_identity_ok_def sint_small)
  with i show "parse_identity data = Inr i"
    by (simp add: parse_identity_def identity_descriptor_def mesa_identity_ok_def Let_def)
qed

interpretation identity_codec: canonical_codec mesa_identity_ok "\<lambda>i. Inr (identity_descriptor i) :: mesa_error + bytes" parse_identity
  by unfold_locales (auto simp: parse_identity_iff)

end
