(* ===== verification/Bridge_Transport.thy ===== *)
theory Bridge_Transport
  imports T1_Prelude
begin

section \<open>Frames of the bridge and their transport\<close>

text \<open>
  Models \<^verbatim>\<open>crates/t1-bridge/src/framing.rs\<close> (the 16-byte little-endian header and the opaque body of a
  frame) and \<^verbatim>\<open>crates/t1-bridge/src/transport.rs\<close> (receiving and sending whole frames over a byte stream).
  The stream belongs to the caller: it is the list of results its reads will give and of the results its writes will
  give, together with what it has accepted so far. A \<open>usize\<close> is a natural number below \<open>2 ^ 64\<close>.
  The lemmas show that a header and a frame are read back exactly, that frames can be taken off a byte string one after
  the other, and that receiving depends only on the bytes of the stream and not on how the reads cut them.
\<close>

subsection \<open>Framing\<close>

definition BRIDGEXPC_MAGIC :: u16 where "BRIDGEXPC_MAGIC = 0xb892"
definition BRIDGEXPC_VERSION :: u16 where "BRIDGEXPC_VERSION = 1"
definition FRAME_HELLO :: u32 where "FRAME_HELLO = 1"
definition FRAME_BINARY_PLIST :: u32 where "FRAME_BINARY_PLIST = 2"
definition FRAME_HEADER_LEN :: nat where [simp]: "FRAME_HEADER_LEN = 16"
definition MAX_FRAME_BODY_LEN :: nat where "MAX_FRAME_BODY_LEN = 16 * 1024 * 1024"

record frame_header =
  fh_message_type :: u32
  fh_body_len :: nat

record bridge_frame =
  bf_message_type :: u32
  bf_body :: bytes

datatype frame_error =
    IncompleteHeader nat
  | InvalidFrameMagic u16
  | UnsupportedFrameVersion u16
  | BodyTooLarge u64 nat
  | IncompleteBody nat nat
  | TrailingBytes nat

definition validate_body_len :: "u64 \<Rightarrow> frame_error + unit" where
  "validate_body_len body_len =
     (if body_len > word_of_nat MAX_FRAME_BODY_LEN then Inl (BodyTooLarge body_len MAX_FRAME_BODY_LEN) else Inr ())"

definition frame_header_new :: "u32 \<Rightarrow> nat \<Rightarrow> frame_error + frame_header" where
  "frame_header_new message_type body_len =
     rbind (validate_body_len (word_of_nat body_len)) (\<lambda>_.
       Inr \<lparr>fh_message_type = message_type, fh_body_len = body_len\<rparr>)"

definition frame_header_decode :: "bytes \<Rightarrow> frame_error + frame_header" where
  "frame_header_decode bs =
     (if length bs < FRAME_HEADER_LEN then Inl (IncompleteHeader (length bs))
      else if length bs > FRAME_HEADER_LEN then Inl (TrailingBytes (length bs - FRAME_HEADER_LEN))
      else let magic = from_le [bs ! 0, bs ! 1] in
        if magic \<noteq> BRIDGEXPC_MAGIC then Inl (InvalidFrameMagic magic)
        else let version = from_le [bs ! 2, bs ! 3] in
          if version \<noteq> BRIDGEXPC_VERSION then Inl (UnsupportedFrameVersion version)
          else let message_type = from_le [bs ! 4, bs ! 5, bs ! 6, bs ! 7];
                   declared_body_len = from_le [bs ! 8, bs ! 9, bs ! 10, bs ! 11, bs ! 12, bs ! 13, bs ! 14, bs ! 15] in
            rbind (validate_body_len declared_body_len) (\<lambda>_.
              Inr \<lparr>fh_message_type = message_type, fh_body_len = unat declared_body_len\<rparr>))"

definition frame_header_encode :: "frame_header \<Rightarrow> bytes" where
  "frame_header_encode h = to_le 2 BRIDGEXPC_MAGIC @ to_le 2 BRIDGEXPC_VERSION @ to_le 4 (fh_message_type h)
     @ to_le 8 (word_of_nat (fh_body_len h) :: u64)"

definition bridge_frame_new :: "u32 \<Rightarrow> bytes \<Rightarrow> frame_error + bridge_frame" where
  "bridge_frame_new message_type body =
     rbind (frame_header_new message_type (length body)) (\<lambda>_.
       Inr \<lparr>bf_message_type = message_type, bf_body = body\<rparr>)"

definition frame_decode_prefix :: "bytes \<Rightarrow> frame_error + bridge_frame \<times> bytes" where
  "frame_decode_prefix bs =
     (if length bs < FRAME_HEADER_LEN then Inl (IncompleteHeader (length bs))
      else rbind (frame_header_decode (take FRAME_HEADER_LEN bs)) (\<lambda>header.
        let available = length bs - FRAME_HEADER_LEN in
        if available < fh_body_len header then Inl (IncompleteBody (fh_body_len header) available)
        else let body_end = FRAME_HEADER_LEN + fh_body_len header in
          Inr (\<lparr>bf_message_type = fh_message_type header, bf_body = slice FRAME_HEADER_LEN body_end bs\<rparr>,
               drop body_end bs)))"

definition frame_decode_exact :: "bytes \<Rightarrow> frame_error + bridge_frame" where
  "frame_decode_exact bs =
     rbind (frame_decode_prefix bs) (\<lambda>(frame, remainder).
       if remainder \<noteq> [] then Inl (TrailingBytes (length remainder)) else Inr frame)"

definition frame_encode :: "bridge_frame \<Rightarrow> frame_error + bytes" where
  "frame_encode f =
     rbind (frame_header_new (bf_message_type f) (length (bf_body f))) (\<lambda>header.
       Inr (frame_header_encode header @ bf_body f))"

subsection \<open>Transport\<close>

datatype frame_part = FrameHeaderPart | FrameBodyPart

datatype io_error = IoInterrupted | IoWriteZero | IoOther nat

datatype transport_error =
    TransportFrame frame_error
  | UnexpectedEof frame_part
  | ConnectionClosed
  | TransportWriteZero frame_part
  | AllocationFailed nat
  | TransportIo frame_part io_error

text \<open>
  The results of the reads of a stream: the bytes it has ready (a read takes as many as it asked for and leaves the
  others for the next one, no bytes meaning that the peer has closed) or a failure. A stream that has no more results
  has been closed. The results of the writes: the number of bytes that are still accepted before a failure.
\<close>

datatype read_result = ReadBytes bytes | ReadError io_error

record stream =
  st_reads :: "read_result list"
  st_writes :: "(nat \<times> io_error) option list"
  st_sent :: bytes

function read_loop :: "frame_part \<Rightarrow> nat \<Rightarrow> bytes \<Rightarrow> read_result list \<Rightarrow> (transport_error + bytes) \<times> read_result list" where
  "read_loop part n filled reads =
     (if length filled \<ge> n then (Inr filled, reads)
      else case reads of
        [] \<Rightarrow> (Inl (if filled = [] \<and> part = FrameHeaderPart then ConnectionClosed else UnexpectedEof part), [])
      | ReadBytes bs # rest \<Rightarrow>
          if bs = []
          then (Inl (if filled = [] \<and> part = FrameHeaderPart then ConnectionClosed else UnexpectedEof part), rest)
          else let m = n - length filled in
            read_loop part n (filled @ take m bs) (if length bs > m then ReadBytes (drop m bs) # rest else rest)
      | ReadError e # rest \<Rightarrow>
          if e = IoInterrupted then read_loop part n filled rest else (Inl (TransportIo part e), rest))"
  by pat_completeness auto

termination
proof (relation "measure (\<lambda>(part, n, filled, reads). (n - length filled) + length reads)")
  fix part n filled and reads rest :: "read_result list" and r bs m
  assume "\<not> n \<le> length (filled :: bytes)" "reads = r # rest" "r = ReadBytes bs" "bs \<noteq> []" "m = n - length filled"
  then show "((part, n, filled @ take m bs, if m < length bs then ReadBytes (drop m bs) # rest else rest), part, n, filled, reads)
      \<in> measure (\<lambda>(part, n, filled, reads). (n - length filled) + length reads)"
    by (cases "m < length bs") simp_all
qed simp_all

definition stream_read_exact :: "frame_part \<Rightarrow> nat \<Rightarrow> stream \<Rightarrow> (transport_error + bytes) \<times> stream" where
  "stream_read_exact part n s =
     (case read_loop part n [] (st_reads s) of (r, reads) \<Rightarrow> (r, s\<lparr>st_reads := reads\<rparr>))"

definition stream_write_all :: "frame_part \<Rightarrow> bytes \<Rightarrow> stream \<Rightarrow> (transport_error + unit) \<times> stream" where
  "stream_write_all part bs s =
     (case st_writes s of
        Some (n, e) # rest \<Rightarrow>
          (Inl (if e = IoWriteZero then TransportWriteZero part else TransportIo part e),
           s\<lparr>st_writes := rest, st_sent := st_sent s @ take n bs\<rparr>)
      | None # rest \<Rightarrow> (Inr (), s\<lparr>st_writes := rest, st_sent := st_sent s @ bs\<rparr>)
      | [] \<Rightarrow> (Inr (), s\<lparr>st_sent := st_sent s @ bs\<rparr>))"

definition receive_frame :: "(nat \<Rightarrow> bool) \<Rightarrow> stream \<Rightarrow> (transport_error + bridge_frame) \<times> stream" where
  "receive_frame can_reserve s =
     (case stream_read_exact FrameHeaderPart FRAME_HEADER_LEN s of
        (Inl e, s) \<Rightarrow> (Inl e, s)
      | (Inr header_bytes, s) \<Rightarrow>
          (case frame_header_decode header_bytes of
             Inl e \<Rightarrow> (Inl (TransportFrame e), s)
           | Inr header \<Rightarrow>
               if \<not> can_reserve (fh_body_len header) then (Inl (AllocationFailed (fh_body_len header)), s)
               else (case stream_read_exact FrameBodyPart (fh_body_len header) s of
                  (Inl e, s) \<Rightarrow> (Inl e, s)
                | (Inr body, s) \<Rightarrow> (Inr \<lparr>bf_message_type = fh_message_type header, bf_body = body\<rparr>, s))))"

definition send_frame :: "bridge_frame \<Rightarrow> stream \<Rightarrow> (transport_error + unit) \<times> stream" where
  "send_frame f s =
     (case frame_header_new (bf_message_type f) (length (bf_body f)) of
        Inl e \<Rightarrow> (Inl (TransportFrame e), s)
      | Inr header \<Rightarrow>
          (case stream_write_all FrameHeaderPart (frame_header_encode header) s of
             (Inl e, s) \<Rightarrow> (Inl e, s)
           | (Inr _, s) \<Rightarrow> stream_write_all FrameBodyPart (bf_body f) s))"

subsection \<open>Headers and frames are read back\<close>

lemma body_len_ok: "validate_body_len n = Inr () \<longleftrightarrow> unat n \<le> MAX_FRAME_BODY_LEN"
  by (simp add: validate_body_len_def MAX_FRAME_BODY_LEN_def word_less_nat_alt not_less)

lemma frame_header_slices:
  assumes "length b = 16"
  shows "[b ! 0, b ! 1] = slice 0 2 b" and "[b ! 2, b ! 3] = slice 2 4 b"
    and "[b ! 4, b ! 5, b ! 6, b ! 7] = slice 4 8 b"
    and "[b ! 8, b ! 9, b ! 10, b ! 11, b ! 12, b ! 13, b ! 14, b ! 15] = slice 8 16 b"
  using assms
  by (auto simp: slice_def numeral_eq_Suc Cons_nth_drop_Suc take_Suc_conv_app_nth simp flip: Cons_nth_drop_Suc)

lemma frame_header_decode_slices:
  "length b = 16 \<Longrightarrow> frame_header_decode b =
     (if from_le (slice 0 2 b) \<noteq> BRIDGEXPC_MAGIC then Inl (InvalidFrameMagic (from_le (slice 0 2 b)))
      else if from_le (slice 2 4 b) \<noteq> BRIDGEXPC_VERSION then Inl (UnsupportedFrameVersion (from_le (slice 2 4 b)))
      else rbind (validate_body_len (from_le (slice 8 16 b))) (\<lambda>_.
        Inr \<lparr>fh_message_type = from_le (slice 4 8 b), fh_body_len = unat (from_le (slice 8 16 b) :: u64)\<rparr>))"
  unfolding frame_header_decode_def frame_header_slices Let_def by simp

lemma header_eta [simp]: "\<lparr>fh_message_type = fh_message_type h, fh_body_len = fh_body_len h\<rparr> = h"
  by simp

lemma length_header_encode [simp]: "length (frame_header_encode h) = 16"
  by (simp add: frame_header_encode_def)

lemma frame_header_decode_encode:
  assumes "fh_body_len h \<le> MAX_FRAME_BODY_LEN"
  shows "frame_header_decode (frame_header_encode h) = Inr h"
proof -
  have n: "unat (word_of_nat (fh_body_len h) :: u64) = fh_body_len h"
    using assms by (simp add: unat_of_nat take_bit_nat_eq_self MAX_FRAME_BODY_LEN_def)
  then have "validate_body_len (word_of_nat (fh_body_len h)) = Inr ()" using assms by (simp add: body_len_ok)
  with n show ?thesis
    by (subst frame_header_decode_slices) (simp_all add: frame_header_encode_def)
qed

lemma frame_header_encode_decode:
  assumes "frame_header_decode b = Inr h"
  shows "b = frame_header_encode h \<and> fh_body_len h \<le> MAX_FRAME_BODY_LEN"
proof -
  have l: "length b = 16" using assms by (auto simp: frame_header_decode_def split: if_splits)
  with assms have h: "from_le (slice 0 2 b) = BRIDGEXPC_MAGIC" "from_le (slice 2 4 b) = BRIDGEXPC_VERSION"
    "h = \<lparr>fh_message_type = from_le (slice 4 8 b), fh_body_len = unat (from_le (slice 8 16 b) :: u64)\<rparr>"
    "unat (from_le (slice 8 16 b) :: u64) \<le> MAX_FRAME_BODY_LEN"
    by (auto simp: frame_header_decode_slices body_len_ok split: if_splits)
  have "to_le 2 (from_le (slice 0 2 b) :: u16) = slice 0 2 b" "to_le 2 (from_le (slice 2 4 b) :: u16) = slice 2 4 b"
    "to_le 4 (from_le (slice 4 8 b) :: u32) = slice 4 8 b" "to_le 8 (from_le (slice 8 16 b) :: u64) = slice 8 16 b"
    using l by (simp_all add: to_from_le_width)
  then have "frame_header_encode h = slice 0 2 b @ slice 2 4 b @ slice 4 8 b @ slice 8 16 b"
    by (simp add: frame_header_encode_def h)
  also have "\<dots> = b" using l by (simp add: slice_join slice_join_append)
  finally show ?thesis using h by simp
qed

definition frame_ok :: "bridge_frame \<Rightarrow> bool" where
  "frame_ok f \<longleftrightarrow> length (bf_body f) \<le> MAX_FRAME_BODY_LEN"

definition frame_bytes :: "bridge_frame \<Rightarrow> bytes" where
  "frame_bytes f = frame_header_encode \<lparr>fh_message_type = bf_message_type f, fh_body_len = length (bf_body f)\<rparr> @ bf_body f"

lemma length_frame_bytes [simp]: "length (frame_bytes f) = 16 + length (bf_body f)"
  by (simp add: frame_bytes_def)

lemma header_new_ok: "n < 2 ^ 64 \<Longrightarrow> frame_header_new t n = Inr h \<longleftrightarrow>
    n \<le> MAX_FRAME_BODY_LEN \<and> h = \<lparr>fh_message_type = t, fh_body_len = n\<rparr>"
  by (auto simp: frame_header_new_def body_len_ok unat_of_nat take_bit_nat_eq_self)

lemma frame_encode_ok: "frame_ok f \<Longrightarrow> frame_encode f = Inr (frame_bytes f)"
  by (simp add: frame_encode_def frame_bytes_def frame_ok_def header_new_ok MAX_FRAME_BODY_LEN_def)

lemma frame_decode_prefix_iff:
  "frame_decode_prefix b = Inr (f, rest) \<longleftrightarrow> frame_ok f \<and> b = frame_bytes f @ rest"
proof
  assume "frame_decode_prefix b = Inr (f, rest)"
  then obtain h where h: "16 \<le> length b" "frame_header_decode (take 16 b) = Inr h" "fh_body_len h \<le> length b - 16"
    "f = \<lparr>bf_message_type = fh_message_type h, bf_body = slice 16 (16 + fh_body_len h) b\<rparr>" "rest = drop (16 + fh_body_len h) b"
    by (auto simp: frame_decode_prefix_def Let_def split: if_splits)
  with frame_header_encode_decode [OF h(2)] have "frame_bytes f @ rest = take 16 b @ slice 16 (16 + fh_body_len h) b @ rest"
    by (simp add: frame_bytes_def)
  also have "\<dots> = b" using h by (simp add: slice_to_drop)
  finally show "frame_ok f \<and> b = frame_bytes f @ rest"
    using frame_header_encode_decode [OF h(2)] h(1,3,4) by (simp add: frame_ok_def)
next
  assume "frame_ok f \<and> b = frame_bytes f @ rest"
  then show "frame_decode_prefix b = Inr (f, rest)"
    by (simp add: frame_decode_prefix_def frame_bytes_def frame_ok_def frame_header_decode_encode)
qed

lemma frame_decode_exact_iff: "frame_decode_exact b = Inr f \<longleftrightarrow> frame_ok f \<and> b = frame_bytes f"
  by (auto simp: frame_decode_exact_def frame_decode_prefix_iff split: if_splits)

interpretation frame_codec: canonical_codec frame_ok frame_encode frame_decode_exact
  by unfold_locales (auto simp: frame_decode_exact_iff frame_encode_ok)

subsection \<open>Receiving does not depend on how the reads cut the bytes\<close>

text \<open>Reads that deliver bytes or are interrupted, until the peer closes.\<close>

fun orderly :: "read_result \<Rightarrow> bool" where
  "orderly (ReadBytes bs) = (bs \<noteq> [])"
| "orderly (ReadError e) = (e = IoInterrupted)"

fun result_bytes :: "read_result \<Rightarrow> bytes" where
  "result_bytes (ReadBytes bs) = bs"
| "result_bytes (ReadError e) = []"

definition incoming :: "read_result list \<Rightarrow> bytes" where
  "incoming reads = concat (map result_bytes reads)"

lemma incoming_simps [simp]: "incoming [] = []" "incoming (r # reads) = result_bytes r @ incoming reads"
  by (simp_all add: incoming_def)

declare read_loop.simps [simp del]

lemma read_loop_full: "n \<le> length filled \<Longrightarrow> read_loop part n filled reads = (Inr filled, reads)"
  by (simp add: read_loop.simps)

lemma read_loop_orderly:
  "list_all orderly reads \<Longrightarrow> length filled \<le> n \<Longrightarrow>
     (if n \<le> length filled + length (incoming reads)
      then \<exists>reads'. read_loop part n filled reads = (Inr (filled @ take (n - length filled) (incoming reads)), reads')
        \<and> list_all orderly reads' \<and> incoming reads' = drop (n - length filled) (incoming reads)
      else read_loop part n filled reads =
        (Inl (if filled @ incoming reads = [] \<and> part = FrameHeaderPart then ConnectionClosed else UnexpectedEof part), []))"
proof (induction reads arbitrary: filled)
  case Nil
  then show ?case by (simp add: read_loop.simps [of _ _ _ "[]"])
next
  case (Cons r reads)
  show ?case
  proof (cases "length filled < n")
    case False
    with Cons.prems show ?thesis by (simp add: read_loop_full)
  next
    case less: True
    show ?thesis
    proof (cases r)
      case (ReadError e)
      with Cons.prems less Cons.IH [of filled] show ?thesis by (simp add: read_loop.simps [of _ _ _ "_ # _"])
    next
      case (ReadBytes bs)
      let ?m = "n - length filled"
      have bs: "bs \<noteq> []" using Cons.prems ReadBytes by simp
      show ?thesis
      proof (cases "length bs > ?m")
        case True
        with less bs Cons.prems ReadBytes show ?thesis
          by (simp add: read_loop.simps [of _ _ _ "_ # _"] read_loop_full Let_def)
      next
        case False
        then have "length (filled @ bs) \<le> n" using less by simp
        with False less bs Cons.prems ReadBytes Cons.IH [of "filled @ bs"] show ?thesis
          by (cases "n \<le> length filled + (length bs + length (incoming reads))")
             (simp_all add: read_loop.simps [of _ _ _ "_ # _"] add.assoc)
      qed
    qed
  qed
qed

text \<open>What the frame decoder reports of a byte string, as the transport reports it of a stream.\<close>

fun closing_error :: "frame_error \<Rightarrow> transport_error" where
  "closing_error (IncompleteHeader n) = (if n = 0 then ConnectionClosed else UnexpectedEof FrameHeaderPart)"
| "closing_error (IncompleteBody declared available) = UnexpectedEof FrameBodyPart"
| "closing_error e = TransportFrame e"

lemma header_decode_error:
  "length b = 16 \<Longrightarrow> frame_header_decode b = Inl e \<Longrightarrow> closing_error e = TransportFrame e"
  by (auto simp: frame_header_decode_def validate_body_len_def Let_def rbind_Inl split: if_splits)

lemma receive_orderly:
  assumes "list_all orderly (st_reads s)"
  shows "case frame_decode_prefix (incoming (st_reads s)) of
      Inl e \<Rightarrow> fst (receive_frame (\<lambda>_. True) s) = Inl (closing_error e)
    | Inr (f, rest) \<Rightarrow> \<exists>reads. receive_frame (\<lambda>_. True) s = (Inr f, s\<lparr>st_reads := reads\<rparr>)
        \<and> list_all orderly reads \<and> incoming reads = rest"
proof (cases "length (incoming (st_reads s)) < 16")
  case True
  with read_loop_orderly [OF assms, of "[]" 16 FrameHeaderPart] show ?thesis
    by (simp add: frame_decode_prefix_def receive_frame_def stream_read_exact_def)
next
  case False
  let ?b = "incoming (st_reads s)"
  from False read_loop_orderly [OF assms, of "[]" 16 FrameHeaderPart] obtain reads where
    r: "read_loop FrameHeaderPart 16 [] (st_reads s) = (Inr (take 16 ?b), reads)" "list_all orderly reads"
    "incoming reads = drop 16 ?b"
    by auto
  show ?thesis
  proof (cases "frame_header_decode (take 16 ?b)")
    case (Inl e)
    with False header_decode_error [OF _ Inl] r show ?thesis
      by (simp add: frame_decode_prefix_def receive_frame_def stream_read_exact_def)
  next
    case (Inr h)
    note body = read_loop_orderly [OF r(2), of "[]" "fh_body_len h" FrameBodyPart]
    show ?thesis
    proof (cases "fh_body_len h \<le> length ?b - 16")
      case True
      with body r obtain reads' where "read_loop FrameBodyPart (fh_body_len h) [] reads = (Inr (take (fh_body_len h) (drop 16 ?b)), reads')"
        "list_all orderly reads'" "incoming reads' = drop (fh_body_len h) (drop 16 ?b)"
        by auto
      with False Inr True r(1) show ?thesis
        by (auto simp: frame_decode_prefix_def receive_frame_def stream_read_exact_def Let_def slice_def add.commute
            intro!: exI [of _ reads'])
    next
      case short: False
      with body r False Inr show ?thesis
        by (simp add: frame_decode_prefix_def receive_frame_def stream_read_exact_def Let_def)
    qed
  qed
qed

subsection \<open>Sending\<close>

lemma send_accepted:
  assumes "list_all (\<lambda>w. w = None) (st_writes s)" "length (bf_body f) < 2 ^ 64"
  shows "send_frame f s = (if frame_ok f
     then (Inr (), s\<lparr>st_writes := drop 2 (st_writes s), st_sent := st_sent s @ frame_bytes f\<rparr>)
     else (Inl (TransportFrame (BodyTooLarge (word_of_nat (length (bf_body f))) MAX_FRAME_BODY_LEN)), s))"
proof (cases "frame_ok f")
  case True
  then have "frame_header_new (bf_message_type f) (length (bf_body f)) =
      Inr \<lparr>fh_message_type = bf_message_type f, fh_body_len = length (bf_body f)\<rparr>"
    using assms(2) by (simp add: header_new_ok frame_ok_def)
  with True assms(1) show ?thesis
    by (cases "st_writes s" rule: remdups_adj.cases)
       (auto simp: send_frame_def stream_write_all_def frame_bytes_def numeral_2_eq_2)
next
  case False
  then have "frame_header_new (bf_message_type f) (length (bf_body f)) =
      Inl (BodyTooLarge (word_of_nat (length (bf_body f))) MAX_FRAME_BODY_LEN)"
    using assms(2) by (simp add: frame_ok_def frame_header_new_def validate_body_len_def MAX_FRAME_BODY_LEN_def
        word_less_nat_alt unat_of_nat take_bit_nat_eq_self)
  with False show ?thesis by (simp add: send_frame_def)
qed

text \<open>Several frames in a row, up to the first failure.\<close>

fun send_frames :: "bridge_frame list \<Rightarrow> stream \<Rightarrow> (transport_error + unit) \<times> stream" where
  "send_frames [] s = (Inr (), s)"
| "send_frames (f # fs) s = (case send_frame f s of (Inl e, s) \<Rightarrow> (Inl e, s) | (Inr _, s) \<Rightarrow> send_frames fs s)"

fun receive_frames :: "(nat \<Rightarrow> bool) \<Rightarrow> nat \<Rightarrow> stream \<Rightarrow> (transport_error + bridge_frame list) \<times> stream" where
  "receive_frames can_reserve 0 s = (Inr [], s)"
| "receive_frames can_reserve (Suc n) s =
     (case receive_frame can_reserve s of
        (Inl e, s) \<Rightarrow> (Inl e, s)
      | (Inr f, s) \<Rightarrow> (case receive_frames can_reserve n s of
          (Inl e, s) \<Rightarrow> (Inl e, s) | (Inr fs, s) \<Rightarrow> (Inr (f # fs), s)))"

lemma send_frames_accepted:
  "list_all (\<lambda>w. w = None) (st_writes s) \<Longrightarrow> list_all frame_ok fs \<Longrightarrow>
     \<exists>ws. send_frames fs s = (Inr (), s\<lparr>st_writes := ws, st_sent := st_sent s @ concat (map frame_bytes fs)\<rparr>)"
proof (induction fs arbitrary: s)
  case (Cons f fs)
  let ?s = "s\<lparr>st_writes := drop 2 (st_writes s), st_sent := st_sent s @ frame_bytes f\<rparr>"
  have "list_all (\<lambda>w. w = None) (st_writes ?s)" using Cons.prems(1) by (auto simp: list_all_iff dest: in_set_dropD)
  moreover have "send_frame f s = (Inr (), ?s)"
    using Cons.prems send_accepted [of s f] by (simp add: frame_ok_def MAX_FRAME_BODY_LEN_def)
  ultimately show ?case using Cons.IH [of ?s] Cons.prems(2) by auto
next
  case Nil
  then show ?case by (auto intro!: exI [of _ "st_writes s"])
qed

lemma receive_frames_orderly:
  "list_all orderly (st_reads s) \<Longrightarrow> list_all frame_ok fs \<Longrightarrow>
     incoming (st_reads s) = concat (map frame_bytes fs) @ rest \<Longrightarrow>
     \<exists>reads. receive_frames (\<lambda>_. True) (length fs) s = (Inr fs, s\<lparr>st_reads := reads\<rparr>)
       \<and> list_all orderly reads \<and> incoming reads = rest"
proof (induction fs arbitrary: s)
  case (Cons f fs)
  then have "frame_decode_prefix (incoming (st_reads s)) = Inr (f, concat (map frame_bytes fs) @ rest)"
    by (simp add: frame_decode_prefix_iff)
  with receive_orderly [of s] Cons.prems(1) obtain reads where
    f: "receive_frame (\<lambda>_. True) s = (Inr f, s\<lparr>st_reads := reads\<rparr>)" "list_all orderly reads"
    "incoming reads = concat (map frame_bytes fs) @ rest" by auto
  with Cons.IH [of "s\<lparr>st_reads := reads\<rparr>"] Cons.prems(2) obtain reads' where
    "receive_frames (\<lambda>_. True) (length fs) (s\<lparr>st_reads := reads\<rparr>) = (Inr fs, s\<lparr>st_reads := reads'\<rparr>)"
    "list_all orderly reads'" "incoming reads' = rest" by auto
  with f(1) show ?case by auto
next
  case Nil
  then show ?case by (auto intro!: exI [of _ "st_reads s"])
qed

subsection \<open>The properties\<close>

definition demo_frame :: bridge_frame where
  "demo_frame = \<lparr>bf_message_type = FRAME_BINARY_PLIST, bf_body = [1, 2, 3]\<rparr>"

definition demo_stream :: stream where
  "demo_stream = \<lparr>st_reads = [ReadBytes (take 3 (frame_bytes demo_frame)), ReadError IoInterrupted,
     ReadBytes (drop 3 (frame_bytes demo_frame) @ take 5 (frame_bytes demo_frame)), ReadBytes (drop 5 (frame_bytes demo_frame))],
     st_writes = [], st_sent = []\<rparr>"

lemma demo_frame_ok [simp]: "frame_ok demo_frame" "length (bf_body demo_frame) = 3"
  by (simp_all add: frame_ok_def demo_frame_def MAX_FRAME_BODY_LEN_def)

lemma pieces_whole: "take m b @ drop m b @ take n b @ drop n b = b @ b"
  by (metis append.assoc append_take_drop_id)

lemma demo_stream_orderly: "list_all orderly (st_reads demo_stream)"
  "incoming (st_reads demo_stream) = frame_bytes demo_frame @ frame_bytes demo_frame"
  "st_sent demo_stream = []" "st_writes demo_stream = []"
proof -
  have "frame_bytes demo_frame \<noteq> []" by (simp flip: length_greater_0_conv)
  then show "list_all orderly (st_reads demo_stream)" by (simp add: demo_stream_def)
qed (simp_all add: demo_stream_def pieces_whole)

text \<open>
  C10. Receiving is decoding the bytes of the stream.  Over reads that deliver bytes in any pieces, with any
  interruptions, until the peer closes, \<open>receive_frame\<close> returns exactly the frame that \<open>decode_prefix\<close> finds at the front of
  all the bytes, and leaves the others on the stream; when there is no frame it reports the decoder's error, a close
  before the first byte as a closed connection and a close inside a frame as the end of that part.
\<close>

theorem receive_is_decoding:
  assumes "list_all orderly (st_reads s)"
  shows "(\<forall>f rest. frame_decode_prefix (incoming (st_reads s)) = Inr (f, rest) \<longrightarrow>
      (\<exists>reads. receive_frame (\<lambda>_. True) s = (Inr f, s\<lparr>st_reads := reads\<rparr>) \<and> list_all orderly reads \<and> incoming reads = rest))
    \<and> (\<forall>e. frame_decode_prefix (incoming (st_reads s)) = Inl e \<longrightarrow> fst (receive_frame (\<lambda>_. True) s) = Inl (closing_error e))"
  using receive_orderly [OF assms] by (auto split: sum.splits)

theorem receive_is_decoding_witness:
  "fst (receive_frame (\<lambda>_. True) demo_stream) = Inr demo_frame"
proof -
  have "frame_decode_prefix (incoming (st_reads demo_stream)) = Inr (demo_frame, frame_bytes demo_frame)"
    by (simp add: demo_stream_orderly(2) frame_decode_prefix_iff)
  with receive_is_decoding [OF demo_stream_orderly(1)] show ?thesis by auto
qed

text \<open>
  Frames cross a stream.  Frames sent one after the other over a stream that accepts them are received, from any
  reads that deliver those bytes, as the same frames in the same order; after them the connection is reported closed.
\<close>

theorem frames_cross_stream:
  assumes "list_all frame_ok fs" "list_all (\<lambda>w. w = None) (st_writes s)" "st_sent s = []"
    "list_all orderly (st_reads t)" "incoming (st_reads t) = st_sent (snd (send_frames fs s))"
  shows "fst (send_frames fs s) = Inr () \<and> fst (receive_frames (\<lambda>_. True) (length fs) t) = Inr fs
    \<and> fst (receive_frame (\<lambda>_. True) (snd (receive_frames (\<lambda>_. True) (length fs) t))) = Inl ConnectionClosed"
proof -
  from send_frames_accepted [OF assms(2,1)] assms(3) have s: "fst (send_frames fs s) = Inr ()"
    "st_sent (snd (send_frames fs s)) = concat (map frame_bytes fs)" by auto
  with receive_frames_orderly [OF assms(4,1), of "[]"] assms(5) obtain reads where
    r: "receive_frames (\<lambda>_. True) (length fs) t = (Inr fs, t\<lparr>st_reads := reads\<rparr>)" "list_all orderly reads" "incoming reads = []"
    by auto
  moreover have "frame_decode_prefix [] = Inl (IncompleteHeader 0)" by (simp add: frame_decode_prefix_def)
  ultimately show ?thesis using s receive_orderly [of "t\<lparr>st_reads := reads\<rparr>"] by simp
qed

theorem frames_cross_stream_witness:
  "fst (receive_frames (\<lambda>_. True) 2 demo_stream) = Inr [demo_frame, demo_frame]"
  using frames_cross_stream [of "[demo_frame, demo_frame]" demo_stream demo_stream]
    send_frames_accepted [of demo_stream "[demo_frame, demo_frame]"]
  by (auto simp: demo_stream_orderly numeral_2_eq_2)

end
