(* ===== verification/Bridge_Hello.thy ===== *)
theory Bridge_Hello
  imports Bridge_Rpc T1_Float
begin

section \<open>The HELLO of the bridge\<close>

text \<open>
  Models \<^verbatim>\<open>crates/t1-bridge/src/hello.rs\<close>: the JSON text each side of a bridge session opens with, and the bounded
  parser that validates the peer's. The position of the parser is the rest of the text: the parser compares
  bytes only with ASCII characters and fails on any other byte it takes, so it always stands between two characters.
  The lemmas show that every result of the parser is a proper rest of its input, so that its loops end.
\<close>

subsection \<open>Encoding\<close>

definition MAX_HELLO_BODY_LEN :: nat where "MAX_HELLO_BODY_LEN = 64 * 1024"
definition MAX_PROCESS_NAME_LEN :: nat where "MAX_PROCESS_NAME_LEN = 255"
definition MAX_JSON_DEPTH :: nat where "MAX_JSON_DEPTH = 32"
definition MAX_JSON_KEY_LEN :: nat where "MAX_JSON_KEY_LEN = 512"
definition PROTOCOL_VERSION_KEY :: scalars where
  "PROTOCOL_VERSION_KEY = literal ''MaxSupportedProtocolVersion''"

datatype hello_error =
    InvalidProcessName
  | HelloBodyTooLarge
  | MalformedJson
  | NestingTooDeep
  | JsonKeyTooLong
  | MissingProtocolVersion
  | DuplicateProtocolVersion
  | UnsupportedHelloVersion

definition ascii_bytes :: "string \<Rightarrow> bytes" where
  "ascii_bytes s = map of_char s"

definition append_unicode_escape :: "nat \<Rightarrow> bytes" where
  "append_unicode_escape value =
     (let HEX = ascii_bytes ''0123456789abcdef'' in
      [0x5C, 0x75, HEX ! (value div 0x1000 mod 16), HEX ! (value div 0x100 mod 16), HEX ! (value div 0x10 mod 16),
       HEX ! (value mod 16)])"

definition escape_character :: "nat \<Rightarrow> bytes" where
  "escape_character c =
     (if c = 0x22 then [0x5C, 0x22]
      else if c = 0x5C then [0x5C, 0x5C]
      else if c = 0x08 then [0x5C, 0x62]
      else if c = 0x0C then [0x5C, 0x66]
      else if c = 0x0A then [0x5C, 0x6E]
      else if c = 0x0D then [0x5C, 0x72]
      else if c = 0x09 then [0x5C, 0x74]
      else if c \<le> 0x1F \<or> (0x80 \<le> c \<and> c \<le> 0xFFFF) then append_unicode_escape c
      else if 0x10000 \<le> c then
        append_unicode_escape (0xD800 + (c - 0x10000) div 0x400) @ append_unicode_escape (0xDC00 + (c - 0x10000) mod 0x400)
      else utf8_bytes c)"

definition escape_json_string :: "scalars \<Rightarrow> bytes" where
  "escape_json_string value = concat (map escape_character value)"

definition encode_hello :: "scalars \<Rightarrow> hello_error + bytes" where
  "encode_hello process_name =
     (if process_name = [] \<or> string_len process_name > MAX_PROCESS_NAME_LEN then Inl InvalidProcessName
      else Inr (ascii_bytes ''{\"OSBuild\":\"Linux\",\"BridgeXPCVersion\":1.35,\"ProcessName\":\"''
        @ escape_json_string process_name @ ascii_bytes ''\",\"MaxSupportedProtocolVersion\":1}''))"

subsection \<open>Parsing characters, strings and numbers\<close>

definition is_digit :: "nat \<Rightarrow> bool" where
  "is_digit c \<longleftrightarrow> 0x30 \<le> c \<and> c \<le> 0x39"

definition peek_is :: "nat \<Rightarrow> scalars \<Rightarrow> bool" where
  "peek_is b rest \<longleftrightarrow> rest \<noteq> [] \<and> hd rest = b"

definition peek_digit :: "scalars \<Rightarrow> bool" where
  "peek_digit rest \<longleftrightarrow> rest \<noteq> [] \<and> is_digit (hd rest)"

definition skip_whitespace :: "scalars \<Rightarrow> scalars" where
  "skip_whitespace rest = dropWhile (\<lambda>c. c \<in> {0x20, 0x0A, 0x0D, 0x09}) rest"

definition expect_byte :: "nat \<Rightarrow> scalars \<Rightarrow> hello_error + scalars" where
  "expect_byte b rest = (case rest of c # r \<Rightarrow> if c = b then Inr r else Inl MalformedJson | [] \<Rightarrow> Inl MalformedJson)"

definition finish_hello :: "scalars \<Rightarrow> hello_error + unit" where
  "finish_hello rest = (if skip_whitespace rest = [] then Inr () else Inl MalformedJson)"

definition parse_literal :: "scalars \<Rightarrow> scalars \<Rightarrow> hello_error + scalars" where
  "parse_literal lit rest = (if take (length lit) rest = lit then Inr (drop (length lit) rest) else Inl MalformedJson)"

definition hex_value :: "nat \<Rightarrow> nat option" where
  "hex_value d = (if 0x30 \<le> d \<and> d \<le> 0x39 then Some (d - 0x30)
     else if 0x61 \<le> d \<and> d \<le> 0x66 then Some (d - 0x61 + 10)
     else if 0x41 \<le> d \<and> d \<le> 0x46 then Some (d - 0x41 + 10) else None)"

fun parse_hex_digits :: "nat \<Rightarrow> nat \<Rightarrow> scalars \<Rightarrow> hello_error + nat \<times> scalars" where
  "parse_hex_digits 0 value rest = Inr (value, rest)"
| "parse_hex_digits (Suc n) value [] = Inl MalformedJson"
| "parse_hex_digits (Suc n) value (d # rest) =
     rbind (ok_or (hex_value d) MalformedJson) (\<lambda>digit. parse_hex_digits n (value * 16 + digit) rest)"

definition parse_hex_quad :: "scalars \<Rightarrow> hello_error + nat \<times> scalars" where
  "parse_hex_quad rest = parse_hex_digits 4 0 rest"

definition parse_unicode_escape :: "scalars \<Rightarrow> hello_error + nat \<times> scalars" where
  "parse_unicode_escape rest =
     rbind (parse_hex_quad rest) (\<lambda>(first, rest).
       if 0xD800 \<le> first \<and> first \<le> 0xDBFF then
         rbind (parse_literal [0x5C, 0x75] rest) (\<lambda>rest.
         rbind (parse_hex_quad rest) (\<lambda>(second, rest).
           if \<not> (0xDC00 \<le> second \<and> second \<le> 0xDFFF) then Inl MalformedJson
           else Inr (0x10000 + (first - 0xD800) * 0x400 + (second - 0xDC00), rest)))
       else if 0xDC00 \<le> first \<and> first \<le> 0xDFFF then Inl MalformedJson
       else Inr (first, rest))"

definition parse_escape :: "scalars \<Rightarrow> hello_error + nat \<times> scalars" where
  "parse_escape rest =
     (case rest of
        [] \<Rightarrow> Inl MalformedJson
      | c # rest \<Rightarrow>
          if c = 0x22 then Inr (0x22, rest)
          else if c = 0x5C then Inr (0x5C, rest)
          else if c = 0x2F then Inr (0x2F, rest)
          else if c = 0x62 then Inr (0x08, rest)
          else if c = 0x66 then Inr (0x0C, rest)
          else if c = 0x6E then Inr (0x0A, rest)
          else if c = 0x72 then Inr (0x0D, rest)
          else if c = 0x74 then Inr (0x09, rest)
          else if c = 0x75 then parse_unicode_escape rest
          else Inl MalformedJson)"

lemma parse_hex_digits_rest: "parse_hex_digits n acc rest = Inr (v, rest') \<Longrightarrow> length rest = n + length rest'"
  by (induction n acc rest rule: parse_hex_digits.induct) (auto split: option.splits)

lemma parse_literal_rest: "parse_literal lit rest = Inr rest' \<Longrightarrow> rest = lit @ rest'"
  by (auto simp: parse_literal_def split: if_splits) (metis append_take_drop_id)

lemma hex_quad_rest: "parse_hex_quad rest = Inr (v, rest') \<Longrightarrow> length rest = 4 + length rest'"
  by (auto simp: parse_hex_quad_def dest: parse_hex_digits_rest)

lemma unicode_escape_rest:
  assumes "parse_unicode_escape rest = Inr (c, rest')"
  shows "length rest' < length rest"
proof -
  obtain u r where u: "parse_hex_quad rest = Inr (u, r)"
    using assms by (cases "parse_hex_quad rest") (auto simp: parse_unicode_escape_def)
  show ?thesis
  proof (cases "0xD800 \<le> u \<and> u \<le> 0xDBFF")
    case True
    then obtain r2 where r2: "parse_literal [0x5C, 0x75] r = Inr r2"
      using assms u by (cases "parse_literal [0x5C, 0x75] r") (simp_all add: parse_unicode_escape_def)
    then obtain w where "parse_hex_quad r2 = Inr (w, rest')"
      using assms u True by (cases "parse_hex_quad r2") (auto simp: parse_unicode_escape_def split: if_splits)
    with u r2 show ?thesis by (auto dest!: hex_quad_rest parse_literal_rest)
  next
    case False
    with assms u have "r = rest'" by (simp only: parse_unicode_escape_def rbind.simps split_conv if_False split: if_splits) simp_all
    with hex_quad_rest [OF u] show ?thesis by simp
  qed
qed

lemma parse_escape_rest: "parse_escape rest = Inr (c, rest') \<Longrightarrow> length rest' < length rest"
  by (auto simp: parse_escape_def split: list.splits if_splits dest: unicode_escape_rest)

definition string_character :: "scalars \<Rightarrow> hello_error + nat \<times> scalars" where
  "string_character rest =
     (case rest of
        [] \<Rightarrow> Inl MalformedJson
      | c # rest \<Rightarrow> if c = 0x5C then parse_escape rest else if c \<le> 0x1F then Inl MalformedJson else Inr (c, rest))"

lemma string_character_rest: "string_character rest = Inr (c, rest') \<Longrightarrow> length rest' < length rest"
  by (auto simp: string_character_def split: list.splits if_splits dest: parse_escape_rest)

text \<open>The characters of a string up to its closing quote; they are kept, and their length limited, for a key only.\<close>

function parse_characters :: "scalars option \<Rightarrow> scalars \<Rightarrow> hello_error + scalars option \<times> scalars" where
  "parse_characters out rest =
     (if peek_is 0x22 rest then Inr (out, tl rest)
      else rbind (string_character rest) (\<lambda>(c, rest).
        case out of
          None \<Rightarrow> parse_characters None rest
        | Some value \<Rightarrow>
            if string_len value + utf8_length c > MAX_JSON_KEY_LEN then Inl JsonKeyTooLong
            else parse_characters (Some (value @ [c])) rest))"
  by pat_completeness auto

termination
  by (relation "measure (length \<circ> snd)") (auto dest: string_character_rest)

declare parse_characters.simps [simp del]

lemma parse_characters_close: "parse_characters out (0x22 # rest) = Inr (out, rest)"
  by (simp add: parse_characters.simps peek_is_def)

lemma parse_characters_next:
  assumes "\<not> peek_is 0x22 rest" "string_character rest = Inr (c, r)"
  shows "parse_characters out rest = (case out of
      None \<Rightarrow> parse_characters None r
    | Some v \<Rightarrow> if string_len v + utf8_length c > MAX_JSON_KEY_LEN then Inl JsonKeyTooLong
        else parse_characters (Some (v @ [c])) r)"
  using assms by (subst parse_characters.simps) (auto split: option.splits)

definition parse_string :: "scalars option \<Rightarrow> scalars \<Rightarrow> hello_error + scalars option \<times> scalars" where
  "parse_string out rest = rbind (expect_byte 0x22 rest) (\<lambda>rest. parse_characters out rest)"

definition take_digits :: "scalars \<Rightarrow> hello_error + scalars \<times> scalars" where
  "take_digits rest =
     (if \<not> peek_digit rest then Inl MalformedJson
      else Inr (takeWhile is_digit rest, dropWhile is_digit rest))"

text \<open>A number with the text of its sign, its integral digits, its fraction and its exponent.\<close>

record json_number =
  jn_negative :: bool
  jn_digits :: scalars
  jn_fraction :: scalars
  jn_exponent_negative :: bool
  jn_exponent :: scalars

definition parse_fraction :: "scalars \<Rightarrow> hello_error + scalars \<times> scalars" where
  "parse_fraction rest = (if peek_is 0x2E rest then take_digits (tl rest) else Inr ([], rest))"

definition parse_exponent :: "scalars \<Rightarrow> hello_error + (bool \<times> scalars) \<times> scalars" where
  "parse_exponent rest =
     (if peek_is 0x65 rest \<or> peek_is 0x45 rest then
        let rest = tl rest; minus = peek_is 0x2D rest; rest = if peek_is 0x2B rest \<or> minus then tl rest else rest in
        rbind (take_digits rest) (\<lambda>(exponent, rest). Inr ((minus, exponent), rest))
      else Inr ((False, []), rest))"

definition parse_number :: "scalars \<Rightarrow> hello_error + json_number \<times> scalars" where
  "parse_number rest =
     (let negative = peek_is 0x2D rest; rest = if negative then tl rest else rest in
      if \<not> peek_digit rest \<or> (peek_is 0x30 rest \<and> peek_digit (tl rest)) then Inl MalformedJson
      else
        rbind (parse_fraction (dropWhile is_digit rest)) (\<lambda>(fraction, rest').
        rbind (parse_exponent rest') (\<lambda>((minus, exponent), rest').
          Inr (\<lparr>jn_negative = negative, jn_digits = takeWhile is_digit rest, jn_fraction = fraction,
                jn_exponent_negative = minus, jn_exponent = exponent\<rparr>, rest'))))"

definition decimal :: "scalars \<Rightarrow> nat" where
  "decimal ds = foldl (\<lambda>n d. n * 10 + (d - 0x30)) 0 ds"

text \<open>
  Whether the double nearest to a number is at least one. A number that is too large for a double is read as
  infinity, which is at least one, and one too small for the normal range as less than one, as here.
\<close>

definition number_at_least_one :: "json_number \<Rightarrow> bool" where
  "number_at_least_one n \<longleftrightarrow>
     (let m = of_nat (decimal (jn_digits n @ jn_fraction n));
          e = (if jn_exponent_negative n then - int (decimal (jn_exponent n)) else int (decimal (jn_exponent n)))
            - int (length (jn_fraction n)) in
      \<not> jn_negative n \<and> f64_round (m * 10 powi e) \<ge> 1)"

subsection \<open>Parsing values\<close>

lemma length_skip: "length (skip_whitespace rest) \<le> length rest"
  by (simp add: skip_whitespace_def length_dropWhile_le)

lemma expect_byte_rest: "expect_byte b rest = Inr rest' \<Longrightarrow> rest = b # rest'"
  by (auto simp: expect_byte_def split: list.splits if_splits)

lemma parse_characters_rest: "parse_characters out rest = Inr (out', rest') \<Longrightarrow> length rest' < length rest"
proof (induction out rest rule: parse_characters.induct)
  case (1 out rest)
  show ?case
  proof (cases "peek_is 0x22 rest")
    case True
    with "1.prems" show ?thesis by (cases rest) (auto simp: parse_characters_close peek_is_def)
  next
    case False
    with "1.prems" obtain c r where c: "string_character rest = Inr (c, r)"
      by (subst (asm) parse_characters.simps) auto
    note step = parse_characters_next [OF False c]
    have "length rest' < length r"
    proof (cases out)
      case None
      from "1.IH"(1) [OF False c refl None] "1.prems" show ?thesis by (simp add: step None)
    next
      case (Some v)
      from "1.IH"(2) [OF False c refl Some] "1.prems" show ?thesis by (simp add: step Some split: if_splits)
    qed
    with string_character_rest [OF c] show ?thesis by simp
  qed
qed

lemma parse_string_rest: "parse_string out rest = Inr (out', rest') \<Longrightarrow> length rest' < length rest"
  by (auto simp: parse_string_def dest!: expect_byte_rest parse_characters_rest)

lemma take_digits_rest: "take_digits rest = Inr (ds, rest') \<Longrightarrow> length rest' < length rest"
  by (cases rest) (auto simp: take_digits_def peek_digit_def le_imp_less_Suc length_dropWhile_le split: if_splits)

lemma parse_fraction_rest: "parse_fraction rest = Inr (fr, rest') \<Longrightarrow> length rest' \<le> length rest"
  by (auto simp: parse_fraction_def peek_is_def split: if_splits dest!: take_digits_rest)

lemma parse_exponent_rest: "parse_exponent rest = Inr (ex, rest') \<Longrightarrow> length rest' \<le> length rest"
  by (auto simp: parse_exponent_def Let_def split: if_splits dest!: take_digits_rest)

lemma parse_number_rest:
  assumes "parse_number rest = Inr (n, rest')"
  shows "length rest' < length rest"
proof -
  define r where "r = (if peek_is 0x2D rest then tl rest else rest)"
  have r: "length r \<le> length rest" by (simp add: r_def)
  have "peek_digit r" using assms by (auto simp: parse_number_def Let_def r_def split: if_splits)
  then have d: "length (dropWhile is_digit r) < length r"
    by (cases r) (simp_all add: peek_digit_def le_imp_less_Suc length_dropWhile_le)
  obtain fr r1 ex where "parse_fraction (dropWhile is_digit r) = Inr (fr, r1)" "parse_exponent r1 = Inr (ex, rest')"
    using assms by (auto simp: parse_number_def Let_def r_def split: if_splits)
  from this(1) [THEN parse_fraction_rest] this(2) [THEN parse_exponent_rest] r d show ?thesis by simp
qed

function parse_value :: "nat \<Rightarrow> scalars \<Rightarrow> hello_error + scalars"
  and parse_members :: "nat \<Rightarrow> scalars \<Rightarrow> hello_error + scalars"
  and parse_elements :: "nat \<Rightarrow> scalars \<Rightarrow> hello_error + scalars" where
  "parse_value depth rest =
     (if depth > MAX_JSON_DEPTH then Inl NestingTooDeep
      else if peek_is 0x22 rest then rbind (parse_string None rest) (\<lambda>(_, rest). Inr rest)
      else if peek_is 0x7B rest then
        (let rest = skip_whitespace (tl rest) in
         if peek_is 0x7D rest then Inr (tl rest) else parse_members depth rest)
      else if peek_is 0x5B rest then
        (let rest = skip_whitespace (tl rest) in
         if peek_is 0x5D rest then Inr (tl rest) else parse_elements depth rest)
      else if peek_is 0x74 rest then parse_literal (literal ''true'') rest
      else if peek_is 0x66 rest then parse_literal (literal ''false'') rest
      else if peek_is 0x6E rest then parse_literal (literal ''null'') rest
      else if peek_is 0x2D rest \<or> peek_digit rest
      then rbind (parse_number rest) (\<lambda>(_, rest). Inr rest)
      else Inl MalformedJson)"
| "parse_members depth rest =
     rbind (parse_string None rest) (\<lambda>(_, rest).
     rbind (expect_byte 0x3A (skip_whitespace rest)) (\<lambda>rest.
     rbind (parse_value (depth + 1) (skip_whitespace rest)) (\<lambda>rest.
       let rest = skip_whitespace rest in
       if peek_is 0x7D rest then Inr (tl rest)
       else rbind (expect_byte 0x2C rest) (\<lambda>rest. parse_members depth (skip_whitespace rest)))))"
| "parse_elements depth rest =
     rbind (parse_value (depth + 1) rest) (\<lambda>rest.
       let rest = skip_whitespace rest in
       if peek_is 0x5D rest then Inr (tl rest)
       else rbind (expect_byte 0x2C rest) (\<lambda>rest. parse_elements depth (skip_whitespace rest)))"
  by pat_completeness auto

lemma peek_tl_rest: "peek_is b rest \<Longrightarrow> length (tl rest) < length rest"
  by (cases rest) (simp_all add: peek_is_def)

lemma peek_skip_rest: "peek_is b rest \<Longrightarrow> length (skip_whitespace (tl rest)) < length rest"
  using length_skip [of "tl rest"] peek_tl_rest [of b rest] by simp

lemma expect_skip_rest:
  assumes "expect_byte b (skip_whitespace rest) = Inr rest'"
  shows "length (skip_whitespace rest') < length rest"
proof -
  from expect_byte_rest [OF assms] have "length rest' < length (skip_whitespace rest)" by simp
  with length_skip [of rest] length_skip [of rest'] show ?thesis by simp
qed

lemma after_item_rest:
  assumes "(if peek_is b (skip_whitespace rest) then Inr (tl (skip_whitespace rest))
      else rbind (expect_byte 0x2C (skip_whitespace rest)) (\<lambda>r. f (skip_whitespace r))) = Inr rest'"
    and "\<And>r. \<not> peek_is b (skip_whitespace rest) \<Longrightarrow> expect_byte 0x2C (skip_whitespace rest) = Inr r
      \<Longrightarrow> f (skip_whitespace r) = Inr rest' \<Longrightarrow> length rest' < length (skip_whitespace r)"
  shows "length rest' < length rest"
proof (cases "peek_is b (skip_whitespace rest)")
  case True
  with assms(1) peek_tl_rest [OF True] length_skip [of rest] show ?thesis by simp
next
  case False
  with assms(1) obtain r where r: "expect_byte 0x2C (skip_whitespace rest) = Inr r" "f (skip_whitespace r) = Inr rest'"
    by auto
  from assms(2) [OF False this] expect_skip_rest [OF r(1)] show ?thesis by simp
qed

lemma scalar_value_rest:
  assumes "parse_value_parse_members_parse_elements_dom (Inl (depth, rest))" "parse_value depth rest = Inr rest'"
    and "\<not> peek_is 0x7B rest" "\<not> peek_is 0x5B rest"
  shows "length rest' < length rest"
  using assms(2-4)
  by (auto simp: parse_value.psimps [OF assms(1)] literal_def split: if_splits
      dest!: parse_string_rest parse_literal_rest parse_number_rest)

lemma parse_rest_dom:
  "parse_value_parse_members_parse_elements_dom (Inl (depth, rest)) \<Longrightarrow>
     parse_value depth rest = Inr rest' \<Longrightarrow> length rest' < length rest"
  "parse_value_parse_members_parse_elements_dom (Inr (Inl (depth2, rest2))) \<Longrightarrow>
     parse_members depth2 rest2 = Inr rest' \<Longrightarrow> length rest' < length rest2"
  "parse_value_parse_members_parse_elements_dom (Inr (Inr (depth3, rest3))) \<Longrightarrow>
     parse_elements depth3 rest3 = Inr rest' \<Longrightarrow> length rest' < length rest3"
proof (induction depth rest and depth2 rest2 and depth3 rest3 arbitrary: rest' and rest' and rest'
    rule: parse_value_parse_members_parse_elements.pinduct)
  case (1 depth rest)
  note eq = "1.prems" [unfolded parse_value.psimps [OF "1.hyps"]]
  consider "peek_is 0x7B rest" | "peek_is 0x5B rest" | "\<not> peek_is 0x7B rest" "\<not> peek_is 0x5B rest" by blast
  then show ?case
  proof cases
    case a: 1
    let ?r = "skip_whitespace (tl rest)"
    have g: "\<not> MAX_JSON_DEPTH < depth" "\<not> peek_is 0x22 rest" using eq a by (auto simp: peek_is_def split: if_splits)
    with a eq "1.IH"(1) [OF g a refl] peek_skip_rest [OF a] peek_tl_rest [of "0x7D" ?r] show ?thesis
      by (cases "peek_is 0x7D ?r") (fastforce simp: Let_def)+
  next
    case a: 2
    let ?r = "skip_whitespace (tl rest)"
    have g: "\<not> MAX_JSON_DEPTH < depth" "\<not> peek_is 0x22 rest" "\<not> peek_is 0x7B rest"
      using eq a by (auto simp: peek_is_def split: if_splits)
    with a eq "1.IH"(2) [OF g a refl] peek_skip_rest [OF a] peek_tl_rest [of "0x5D" ?r] show ?thesis
      by (cases "peek_is 0x5D ?r") (fastforce simp: Let_def)+
  next
    case 3
    with scalar_value_rest [OF "1.hyps" "1.prems"] show ?thesis .
  qed
next
  case (2 depth rest)
  note eq = "2.prems" [unfolded parse_members.psimps [OF "2.hyps"] Let_def]
  then obtain t r1 r2 r3 where s: "parse_string None rest = Inr (t, r1)"
    and e: "expect_byte 0x3A (skip_whitespace r1) = Inr r2"
    and v: "parse_value (depth + 1) (skip_whitespace r2) = Inr r3"
    by auto
  have "length rest' < length r3"
    using after_item_rest [of "0x7D" r3 "parse_members depth" rest'] "2.IH"(2) [OF s refl e v refl] eq
    by (simp add: s e v [simplified] del: rbind_Inr)
  with parse_string_rest [OF s] expect_skip_rest [OF e] "2.IH"(1) [OF s refl e v] show ?case by simp
next
  case (3 depth rest)
  note eq = "3.prems" [unfolded parse_elements.psimps [OF "3.hyps"] Let_def]
  then obtain r where v: "parse_value (depth + 1) rest = Inr r" by auto
  have "length rest' < length r"
    using after_item_rest [of "0x5D" r "parse_elements depth" rest'] "3.IH"(2) [OF v refl] eq
    by (simp add: v [simplified] del: rbind_Inr)
  with "3.IH"(1) [OF v] show ?case by simp
qed

lemma parse_terminates: "All parse_value_parse_members_parse_elements_dom"
proof (relation "measure (case_sum (\<lambda>(d, r). 3 * length r + 2)
    (case_sum (\<lambda>(d, r). 3 * length r) (\<lambda>(d, r). 3 * length r + 3)))", goal_cases)
  case (4 depth rest x xa y xb)
  then show ?case using parse_string_rest [of None rest xa y] expect_skip_rest [of "0x3A" y xb] by simp
next
  case (5 depth rest x xa y xb xc xd xe)
  then show ?case
    using parse_string_rest [of None rest xa y] expect_skip_rest [of "0x3A" y xb] parse_rest_dom(1) [of "depth + 1"]
      expect_skip_rest [of "0x2C" xc xe] by fastforce
next
  case (7 depth rest x xa xb)
  then show ?case using parse_rest_dom(1) [of "depth + 1" rest x] expect_skip_rest [of "0x2C" x xb] by simp
qed (use peek_skip_rest in fastforce)+

termination parse_value by (rule parse_terminates)

lemmas parse_rest = parse_rest_dom [OF parse_terminates [THEN spec]]

declare parse_value.simps [simp del] parse_members.simps [simp del] parse_elements.simps [simp del]

subsection \<open>Validating the HELLO of the peer\<close>

definition parse_protocol_version :: "scalars \<Rightarrow> hello_error + bool \<times> scalars" where
  "parse_protocol_version rest =
     (if \<not> (peek_is 0x2D rest \<or> peek_digit rest) then rbind (parse_value 1 rest) (\<lambda>rest. Inr (False, rest))
      else rbind (parse_number rest) (\<lambda>(number, rest). Inr (number_at_least_one number, rest)))"

definition hello_field :: "bool option \<Rightarrow> scalars \<Rightarrow> scalars \<Rightarrow> hello_error + bool option \<times> scalars" where
  "hello_field protocol_version key rest =
     (if key = PROTOCOL_VERSION_KEY then
        if protocol_version \<noteq> None then Inl DuplicateProtocolVersion
        else rbind (parse_protocol_version rest) (\<lambda>(supported, rest). Inr (Some supported, rest))
      else rbind (parse_value 1 rest) (\<lambda>rest. Inr (protocol_version, rest)))"

lemma hello_field_rest: "hello_field v key rest = Inr (v', rest') \<Longrightarrow> length rest' < length rest"
  by (auto simp: hello_field_def parse_protocol_version_def split: if_splits dest: parse_rest parse_number_rest)

definition parse_key :: "scalars \<Rightarrow> hello_error + scalars \<times> scalars" where
  "parse_key rest = rbind (parse_string (Some []) rest) (\<lambda>(key, rest). Inr (the key, rest))"

lemma parse_key_rest: "parse_key rest = Inr (key, rest') \<Longrightarrow> length rest' < length rest"
  by (auto simp: parse_key_def dest: parse_string_rest)

function hello_loop :: "bool option \<Rightarrow> scalars \<Rightarrow> hello_error + bool option \<times> scalars" where
  "hello_loop protocol_version rest =
     rbind (parse_key rest) (\<lambda>(key, rest).
     rbind (expect_byte 0x3A (skip_whitespace rest)) (\<lambda>rest.
     rbind (hello_field protocol_version key (skip_whitespace rest)) (\<lambda>(protocol_version, rest).
       let rest = skip_whitespace rest in
       if peek_is 0x7D rest then Inr (protocol_version, tl rest)
       else rbind (expect_byte 0x2C rest) (\<lambda>rest. hello_loop protocol_version (skip_whitespace rest)))))"
  by pat_completeness auto

termination
proof (relation "measure (length \<circ> snd)", goal_cases)
  case (2 version rest x key r1 r2 z version' r3 xa r4)
  then show ?case
    using parse_key_rest [of rest key r1] expect_skip_rest [of "0x3A" r1 r2]
      hello_field_rest [of version key "skip_whitespace r2"] expect_skip_rest [of "0x2C" r3 r4] by fastforce
qed simp

definition parse_hello :: "scalars \<Rightarrow> hello_error + unit" where
  "parse_hello rest =
     (let rest = skip_whitespace rest in
      if \<not> peek_is 0x7B rest then Inl MalformedJson
      else let rest = skip_whitespace (tl rest) in
        if peek_is 0x7D rest then rbind (finish_hello (tl rest)) (\<lambda>_. Inl MissingProtocolVersion)
        else rbind (hello_loop None rest) (\<lambda>(protocol_version, rest).
             rbind (finish_hello rest) (\<lambda>_.
               case protocol_version of
                 Some True \<Rightarrow> Inr ()
               | Some False \<Rightarrow> Inl UnsupportedHelloVersion
               | None \<Rightarrow> Inl MissingProtocolVersion)))"

definition validate_peer_hello :: "bytes \<Rightarrow> hello_error + unit" where
  "validate_peer_hello body =
     (if length body > MAX_HELLO_BODY_LEN then Inl HelloBodyTooLarge
      else rbind (ok_or (str_from_utf8 body) MalformedJson) parse_hello)"

end
