(* ===== verification/Bridge_Hello_Correct.thy ===== *)
theory Bridge_Hello_Correct
  imports Bridge_Hello
begin

section \<open>Which HELLOs are accepted\<close>

text \<open>
  The grammar of a HELLO (JSON with a bounded nesting depth, an object with one protocol version field), and that the
  parser of \<^verbatim>\<open>crates/t1-bridge/src/hello.rs\<close> accepts exactly the texts of the grammar; the
  HELLO that \<open>encode_hello\<close> writes is one of them, and its process name field stands for the name that was given.
\<close>

subsection \<open>The grammar of a HELLO\<close>

definition whitespace :: "scalars \<Rightarrow> bool" where
  "whitespace w \<longleftrightarrow> set w \<subseteq> {0x20, 0x0A, 0x0D, 0x09}"

text \<open>Four hexadecimal digits and their value.\<close>

definition hex_quad :: "scalars \<Rightarrow> nat \<Rightarrow> bool" where
  "hex_quad q u \<longleftrightarrow> length q = 4 \<and> list_all (\<lambda>d. hex_value d \<noteq> None) q
     \<and> u = foldl (\<lambda>v d. v * 16 + the (hex_value d)) 0 q"

text \<open>What follows a backslash, and the character it stands for.\<close>

inductive escape_text :: "scalars \<Rightarrow> nat \<Rightarrow> bool" where
  short: "(e, c) \<in> {(0x22, 0x22), (0x5C, 0x5C), (0x2F, 0x2F), (0x62, 0x08), (0x66, 0x0C), (0x6E, 0x0A), (0x72, 0x0D), (0x74, 0x09)}
    \<Longrightarrow> escape_text [e] c"
| unit: "hex_quad q u \<Longrightarrow> u < 0xD800 \<or> 0xDFFF < u \<Longrightarrow> escape_text (0x75 # q) u"
| pair: "hex_quad q u \<Longrightarrow> hex_quad p w \<Longrightarrow> decode_utf16 [u, w] = Some [c] \<Longrightarrow> escape_text (0x75 # q @ [0x5C, 0x75] @ p) c"

text \<open>The inside of a string and the characters it stands for.\<close>

inductive string_text :: "scalars \<Rightarrow> scalars \<Rightarrow> bool" where
  empty: "string_text [] []"
| plain: "c \<notin> {0x22, 0x5C} \<Longrightarrow> 0x1F < c \<Longrightarrow> string_text t k \<Longrightarrow> string_text (c # t) (c # k)"
| escape: "escape_text e c \<Longrightarrow> string_text t k \<Longrightarrow> string_text (0x5C # e @ t) (c # k)"

definition digits :: "scalars \<Rightarrow> bool" where
  "digits ds \<longleftrightarrow> ds \<noteq> [] \<and> list_all is_digit ds"

definition exponent_text :: "bool \<Rightarrow> scalars \<Rightarrow> scalars \<Rightarrow> bool" where
  "exponent_text neg ds t \<longleftrightarrow> digits ds \<and> (\<exists>e sign. e \<in> {0x65, 0x45} \<and> t = e # sign @ ds
     \<and> (if neg then sign = [0x2D] else sign \<in> {[], [0x2B]}))"

definition number_text :: "json_number \<Rightarrow> scalars \<Rightarrow> bool" where
  "number_text n t \<longleftrightarrow> digits (jn_digits n) \<and> (jn_digits n = [0x30] \<or> hd (jn_digits n) \<noteq> 0x30)
     \<and> (\<exists>frac ex. t = (if jn_negative n then [0x2D] else []) @ jn_digits n @ frac @ ex
         \<and> (if jn_fraction n = [] then frac = [] else digits (jn_fraction n) \<and> frac = 0x2E # jn_fraction n)
         \<and> (if jn_exponent n = [] then ex = [] \<and> \<not> jn_exponent_negative n
            else exponent_text (jn_exponent_negative n) (jn_exponent n) ex))"

text \<open>The value a number denotes.\<close>

definition number_value :: "json_number \<Rightarrow> rat" where
  "number_value n = (if jn_negative n then -1 else 1) * of_nat (decimal (jn_digits n @ jn_fraction n))
     * 10 powi ((if jn_exponent_negative n then -1 else 1) * int (decimal (jn_exponent n)) - int (length (jn_fraction n)))"

text \<open>Values nested at most \<open>MAX_JSON_DEPTH\<close> deep, with the members of an object and the elements of an array.\<close>

inductive json_value :: "nat \<Rightarrow> scalars \<Rightarrow> bool"
  and json_members :: "nat \<Rightarrow> scalars \<Rightarrow> bool"
  and json_elements :: "nat \<Rightarrow> scalars \<Rightarrow> bool" where
  string: "d \<le> MAX_JSON_DEPTH \<Longrightarrow> string_text t k \<Longrightarrow> json_value d (0x22 # t @ [0x22])"
| word: "d \<le> MAX_JSON_DEPTH \<Longrightarrow> t \<in> {literal ''true'', literal ''false'', literal ''null''} \<Longrightarrow> json_value d t"
| number: "d \<le> MAX_JSON_DEPTH \<Longrightarrow> number_text n t \<Longrightarrow> json_value d t"
| empty_object: "d \<le> MAX_JSON_DEPTH \<Longrightarrow> whitespace w \<Longrightarrow> json_value d (0x7B # w @ [0x7D])"
| object: "d \<le> MAX_JSON_DEPTH \<Longrightarrow> whitespace w \<Longrightarrow> json_members d t \<Longrightarrow> json_value d (0x7B # w @ t @ [0x7D])"
| empty_array: "d \<le> MAX_JSON_DEPTH \<Longrightarrow> whitespace w \<Longrightarrow> json_value d (0x5B # w @ [0x5D])"
| array: "d \<le> MAX_JSON_DEPTH \<Longrightarrow> whitespace w \<Longrightarrow> json_elements d t \<Longrightarrow> json_value d (0x5B # w @ t @ [0x5D])"
| member: "string_text k n \<Longrightarrow> whitespace w1 \<Longrightarrow> whitespace w2 \<Longrightarrow> json_value (d + 1) v \<Longrightarrow> whitespace w3
    \<Longrightarrow> json_members d (0x22 # k @ [0x22] @ w1 @ [0x3A] @ w2 @ v @ w3)"
| members: "json_members d m \<Longrightarrow> whitespace w \<Longrightarrow> json_members d ms \<Longrightarrow> json_members d (m @ [0x2C] @ w @ ms)"
| element: "json_value (d + 1) v \<Longrightarrow> whitespace w \<Longrightarrow> json_elements d (v @ w)"
| elements: "json_elements d e \<Longrightarrow> whitespace w \<Longrightarrow> json_elements d es \<Longrightarrow> json_elements d (e @ [0x2C] @ w @ es)"

text \<open>The fields of a HELLO, each with its key and the text of its value.\<close>

definition field_text :: "scalars \<times> scalars \<Rightarrow> scalars \<Rightarrow> bool" where
  "field_text kv t \<longleftrightarrow> (\<exists>k w1 w2 w3. string_text k (fst kv) \<and> whitespace w1 \<and> whitespace w2 \<and> whitespace w3
     \<and> json_value 1 (snd kv) \<and> t = 0x22 # k @ [0x22] @ w1 @ [0x3A] @ w2 @ snd kv @ w3)"

fun fields_text :: "(scalars \<times> scalars) list \<Rightarrow> scalars \<Rightarrow> bool" where
  "fields_text [] t = False"
| "fields_text [kv] t = field_text kv t"
| "fields_text (kv # kvs) t = (\<exists>m w ms. t = m @ [0x2C] @ w @ ms \<and> field_text kv m \<and> whitespace w \<and> fields_text kvs ms)"

definition hello_text :: "(scalars \<times> scalars) list \<Rightarrow> scalars \<Rightarrow> bool" where
  "hello_text kvs t \<longleftrightarrow> (\<exists>w1 w2 w3 fs. whitespace w1 \<and> whitespace w2 \<and> whitespace w3 \<and> fields_text kvs fs
     \<and> t = w1 @ [0x7B] @ w2 @ fs @ [0x7D] @ w3)"

subsection \<open>The parser accepts only texts of the grammar\<close>

lemma skip_text: obtains w where "whitespace w" "rest = w @ skip_whitespace rest"
proof
  show "whitespace (takeWhile (\<lambda>c. c \<in> {0x20, 0x0A, 0x0D, 0x09}) rest)"
    by (auto simp: whitespace_def dest: set_takeWhileD)
  show "rest = takeWhile (\<lambda>c. c \<in> {0x20, 0x0A, 0x0D, 0x09}) rest @ skip_whitespace rest"
    by (simp add: skip_whitespace_def)
qed

lemma peek_text: "peek_is b rest \<Longrightarrow> rest = b # tl rest"
  by (cases rest) (simp_all add: peek_is_def)

lemma expect_text:
  assumes "expect_byte b (skip_whitespace rest) = Inr rest'"
  obtains w w' where "whitespace w" "whitespace w'" "rest = w @ [b] @ w' @ skip_whitespace rest'"
proof -
  obtain w where w: "whitespace w" "rest = w @ skip_whitespace rest" by (rule skip_text)
  obtain w' where w': "whitespace w'" "rest' = w' @ skip_whitespace rest'" by (rule skip_text)
  have "rest = w @ [b] @ w' @ skip_whitespace rest'"
    using w(2) w'(2) expect_byte_rest [OF assms] by simp
  with w(1) w'(1) show thesis by (rule that)
qed

lemma hex_digits_text:
  "parse_hex_digits n acc rest = Inr (v, rest') \<Longrightarrow> \<exists>q. rest = q @ rest' \<and> length q = n
     \<and> list_all (\<lambda>d. hex_value d \<noteq> None) q \<and> v = foldl (\<lambda>v d. v * 16 + the (hex_value d)) acc q"
proof (induction n acc rest rule: parse_hex_digits.induct)
  case (3 n acc d rest)
  then obtain x where x: "hex_value d = Some x" "parse_hex_digits n (acc * 16 + x) rest = Inr (v, rest')" by auto
  from "3.IH" [OF _ x(2)] x(1) obtain q where "rest = q @ rest'" "length q = n"
    "list_all (\<lambda>d. hex_value d \<noteq> None) q" "v = foldl (\<lambda>v d. v * 16 + the (hex_value d)) (acc * 16 + x) q" by auto
  with x(1) show ?case by (intro exI [of _ "d # q"]) simp
qed simp_all

lemma hex_quad_text:
  assumes "parse_hex_quad rest = Inr (u, rest')"
  obtains q where "rest = q @ rest'" "hex_quad q u"
  using hex_digits_text [of 4 0 rest u rest'] assms by (auto simp: parse_hex_quad_def hex_quad_def)

lemma unicode_escape_text:
  assumes "parse_unicode_escape rest = Inr (c, rest')"
  obtains e where "rest = e @ rest'" "escape_text (0x75 # e) c"
proof -
  obtain u r where u: "parse_hex_quad rest = Inr (u, r)"
    using assms by (cases "parse_hex_quad rest") (auto simp: parse_unicode_escape_def)
  then obtain q where q: "rest = q @ r" "hex_quad q u" by (rule hex_quad_text)
  show thesis
  proof (cases "0xD800 \<le> u \<and> u \<le> 0xDBFF")
    case True
    then obtain r2 where r2: "parse_literal [0x5C, 0x75] r = Inr r2"
      using assms u by (cases "parse_literal [0x5C, 0x75] r") (simp_all add: parse_unicode_escape_def)
    then obtain w where w: "parse_hex_quad r2 = Inr (w, rest')" "0xDC00 \<le> w" "w \<le> 0xDFFF"
      "c = 0x10000 + (u - 0xD800) * 0x400 + (w - 0xDC00)"
      using assms u True by (cases "parse_hex_quad r2") (auto simp: parse_unicode_escape_def split: if_splits)
    from w(1) obtain p where p: "r2 = p @ rest'" "hex_quad p w" by (rule hex_quad_text)
    have "decode_utf16 [u, w] = Some [c]" using True w(2-4) by simp
    with escape_text.pair [OF q(2) p(2)] parse_literal_rest [OF r2] q(1) p(1) show thesis
      by (intro that [of "q @ [0x5C, 0x75] @ p"]) simp_all
  next
    case False
    with assms u have "r = rest' \<and> c = u \<and> (u < 0xD800 \<or> 0xDFFF < u)"
      by (simp only: parse_unicode_escape_def rbind.simps split_conv if_False split: if_splits) auto
    with q escape_text.unit show thesis by (intro that [of q]) auto
  qed
qed

lemma escape_text_sound:
  assumes "parse_escape rest = Inr (c, rest')"
  obtains e where "rest = e @ rest'" "escape_text e c"
proof -
  from assms obtain a r where a: "rest = a # r" by (cases rest) (simp_all add: parse_escape_def)
  show thesis
  proof (cases "a = 0x75")
    case True
    with assms a have "parse_unicode_escape r = Inr (c, rest')" by (simp add: parse_escape_def)
    then obtain e where "r = e @ rest'" "escape_text (0x75 # e) c" by (rule unicode_escape_text)
    with True a that [of "0x75 # e"] show thesis by simp
  next
    case False
    with assms a have "rest' = r \<and>
        (a, c) \<in> {(0x22, 0x22), (0x5C, 0x5C), (0x2F, 0x2F), (0x62, 0x08), (0x66, 0x0C), (0x6E, 0x0A), (0x72, 0x0D), (0x74, 0x09)}"
      by (auto simp: parse_escape_def split: if_splits)
    with a escape_text.short that [of "[a]"] show thesis by simp
  qed
qed

lemma characters_text:
  "parse_characters out rest = Inr (out', rest') \<Longrightarrow>
     \<exists>t k. rest = t @ 0x22 # rest' \<and> string_text t k \<and> out' = map_option (\<lambda>v. v @ k) out"
proof (induction out rest rule: parse_characters.induct)
  case (1 out rest)
  show ?case
  proof (cases "peek_is 0x22 rest")
    case True
    note r = peek_text [OF True]
    with "1.prems" have "out' = out" "rest' = tl rest" using parse_characters_close [of out "tl rest"] by auto
    with r string_text.empty show ?thesis by (intro exI [of _ "[]"]) (auto simp: option.map_ident)
  next
    case False
    with "1.prems" obtain c r where c: "string_character rest = Inr (c, r)"
      by (subst (asm) parse_characters.simps) auto
    have "\<exists>t k. r = t @ 0x22 # rest' \<and> string_text t k \<and> out' = map_option (\<lambda>v. v @ c # k) out"
    proof (cases out)
      case None
      from "1.IH"(1) [OF False c refl None] "1.prems" show ?thesis by (simp add: parse_characters_next [OF False c] None)
    next
      case (Some v)
      from "1.IH"(2) [OF False c refl Some] "1.prems" show ?thesis
        by (simp add: parse_characters_next [OF False c] Some split: if_splits)
    qed
    then obtain t k where t: "r = t @ 0x22 # rest'" "string_text t k" "out' = map_option (\<lambda>v. v @ c # k) out" by blast
    obtain a r' where a: "rest = a # r'" using c by (cases rest) (simp_all add: string_character_def)
    show ?thesis
    proof (cases "a = 0x5C")
      case True
      with c a have "parse_escape r' = Inr (c, r)" by (simp add: string_character_def)
      then obtain e where "r' = e @ r" "escape_text e c" by (rule escape_text_sound)
      with t a True string_text.escape show ?thesis
        by (intro exI [of _ "0x5C # e @ t"] exI [of _ "c # k"]) simp
    next
      case plain: False
      with c a have "a = c" "r' = r" "0x1F < c" by (auto simp: string_character_def split: if_splits)
      with plain False t a string_text.plain [of c t k] show ?thesis
        by (intro exI [of _ "c # t"] exI [of _ "c # k"]) (simp add: peek_is_def)
    qed
  qed
qed

lemma string_text_sound:
  assumes "parse_string out rest = Inr (out', rest')"
  obtains t k where "rest = 0x22 # t @ 0x22 # rest'" "string_text t k" "out' = map_option (\<lambda>v. v @ k) out"
proof -
  from assms obtain r where r: "expect_byte 0x22 rest = Inr r" "parse_characters out r = Inr (out', rest')"
    by (auto simp: parse_string_def)
  with characters_text [OF r(2)] expect_byte_rest [OF r(1)] that show thesis by auto
qed

lemma take_digits_text: "take_digits rest = Inr (ds, rest') \<Longrightarrow> digits ds \<and> rest = ds @ rest'"
  by (cases rest) (auto simp: take_digits_def peek_digit_def digits_def list_all_iff dest: set_takeWhileD split: if_splits)

lemma fraction_text:
  "parse_fraction rest = Inr (fr, rest') \<Longrightarrow>
     \<exists>t. rest = t @ rest' \<and> (if fr = [] then t = [] else digits fr \<and> t = 0x2E # fr)"
  by (cases "peek_is 0x2E rest")
     (auto simp: parse_fraction_def digits_def dest!: peek_text take_digits_text)

lemma exponent_text_sound:
  assumes "parse_exponent rest = Inr ((neg, ex), rest')"
  shows "\<exists>t. rest = t @ rest' \<and> (if ex = [] then t = [] \<and> \<not> neg else exponent_text neg ex t)"
proof (cases "peek_is 0x65 rest \<or> peek_is 0x45 rest")
  case True
  then obtain e where e: "e \<in> {0x65, 0x45}" "rest = e # tl rest" using peek_text by blast
  define r where "r = (if peek_is 0x2B (tl rest) \<or> peek_is 0x2D (tl rest) then tl (tl rest) else tl rest)"
  have d: "take_digits r = Inr (ex, rest')" and neg: "neg = peek_is 0x2D (tl rest)"
    using assms True by (auto simp: parse_exponent_def Let_def r_def)
  obtain sign where s: "tl rest = sign @ r" "if neg then sign = [0x2D] else sign \<in> {[], [0x2B]}"
  proof (cases "peek_is 0x2B (tl rest) \<or> peek_is 0x2D (tl rest)")
    case True
    then show thesis using peek_text [of "0x2B" "tl rest"] peek_text [of "0x2D" "tl rest"]
      by (intro that [of "[hd (tl rest)]"]) (auto simp: r_def neg peek_is_def)
  next
    case False
    then show thesis by (intro that [of "[]"]) (simp_all add: r_def neg)
  qed
  from take_digits_text [OF d] have "digits ex" "tl rest = sign @ ex @ rest'" using s(1) by simp_all
  with e s(2) show ?thesis
    by (intro exI [of _ "e # sign @ ex"]) (auto simp: exponent_text_def digits_def)
next
  case False
  with assms show ?thesis by (simp add: parse_exponent_def)
qed

lemma leading_digits:
  assumes "peek_digit rest" "\<not> (peek_is 0x30 rest \<and> peek_digit (tl rest))"
  defines "ds \<equiv> takeWhile is_digit rest"
  shows "digits ds" "ds = [0x30] \<or> hd ds \<noteq> 0x30"
  using assms by (cases rest; cases "tl rest"; auto simp: peek_digit_def peek_is_def digits_def list_all_iff dest: set_takeWhileD)+

lemma number_text_sound:
  assumes "parse_number rest = Inr (n, rest')"
  obtains t where "rest = t @ rest'" "number_text n t"
proof -
  define r where "r = (if peek_is 0x2D rest then tl rest else rest)"
  have sign: "rest = (if peek_is 0x2D rest then [0x2D] else []) @ r" using peek_text [of "0x2D" rest] by (simp add: r_def)
  have p: "peek_digit r" "\<not> (peek_is 0x30 r \<and> peek_digit (tl r))"
    using assms by (auto simp: parse_number_def Let_def r_def split: if_splits)
  then obtain fr r1 neg ex where f: "parse_fraction (dropWhile is_digit r) = Inr (fr, r1)"
    and x: "parse_exponent r1 = Inr ((neg, ex), rest')"
    and n: "n = \<lparr>jn_negative = peek_is 0x2D rest, jn_digits = takeWhile is_digit r, jn_fraction = fr,
                jn_exponent_negative = neg, jn_exponent = ex\<rparr>"
    using assms by (auto simp: parse_number_def Let_def r_def split: if_splits)
  from fraction_text [OF f] obtain t1 where t1: "dropWhile is_digit r = t1 @ r1"
    "if fr = [] then t1 = [] else digits fr \<and> t1 = 0x2E # fr" by blast
  from exponent_text_sound [OF x] obtain t2 where t2: "r1 = t2 @ rest'"
    "if ex = [] then t2 = [] \<and> \<not> neg else exponent_text neg ex t2" by blast
  have "r = takeWhile is_digit r @ t1 @ t2 @ rest'"
    using takeWhile_dropWhile_id [of is_digit r] t1(1) t2(1) by simp
  with sign have rest: "rest = ((if peek_is 0x2D rest then [0x2D] else []) @ takeWhile is_digit r @ t1 @ t2) @ rest'"
    by simp
  have "number_text n ((if peek_is 0x2D rest then [0x2D] else []) @ takeWhile is_digit r @ t1 @ t2)"
    unfolding number_text_def
    by (intro conjI exI [of _ t1] exI [of _ t2]) (use leading_digits [OF p] t1(2) t2(2) in \<open>simp_all add: n\<close>)
  with rest show thesis by (rule that)
qed

lemma literal_value_text:
  assumes "parse_literal t rest = Inr rest'" "t \<in> {literal ''true'', literal ''false'', literal ''null''}"
    "d \<le> MAX_JSON_DEPTH"
  shows "\<exists>t. rest = t @ rest' \<and> json_value d t"
  using parse_literal_rest [OF assms(1)] json_value_json_members_json_elements.word [OF assms(3,2)] by blast

text \<open>What follows an item: the closing bracket, or a comma and more items.\<close>

lemma after_item_text:
  assumes "(if peek_is b (skip_whitespace rest) then Inr (tl (skip_whitespace rest))
      else rbind (expect_byte 0x2C (skip_whitespace rest)) (\<lambda>r. f (skip_whitespace r))) = Inr rest'"
  obtains w where "whitespace w" "rest = w @ [b] @ rest'"
  | w w' r where "whitespace w" "whitespace w'" "rest = w @ [0x2C] @ w' @ skip_whitespace r"
      "\<not> peek_is b (skip_whitespace rest)" "expect_byte 0x2C (skip_whitespace rest) = Inr r" "f (skip_whitespace r) = Inr rest'"
proof (cases "peek_is b (skip_whitespace rest)")
  case True
  obtain w where "whitespace w" "rest = w @ skip_whitespace rest" by (rule skip_text)
  with True assms peek_text [OF True] show thesis by (intro that(1) [of w]) simp_all
next
  case False
  with assms obtain r where r: "expect_byte 0x2C (skip_whitespace rest) = Inr r" "f (skip_whitespace r) = Inr rest'" by auto
  from r(1) obtain w w' where "whitespace w" "whitespace w'" "rest = w @ [0x2C] @ w' @ skip_whitespace r" by (rule expect_text)
  with False r show thesis by (intro that(2)) auto
qed

lemmas json_intros = json_value_json_members_json_elements.intros

lemma bracket_text:
  assumes "(let r = skip_whitespace (tl rest) in if peek_is cl r then Inr (tl r) else items r) = Inr rest'"
    "peek_is op rest"
  obtains w where "whitespace w" "rest = op # w @ [cl] @ rest'"
  | w where "whitespace w" "rest = op # w @ skip_whitespace (tl rest)"
      "\<not> peek_is cl (skip_whitespace (tl rest))" "items (skip_whitespace (tl rest)) = Inr rest'"
proof -
  obtain w where w: "whitespace w" "tl rest = w @ skip_whitespace (tl rest)" by (rule skip_text)
  have rest: "rest = op # w @ skip_whitespace (tl rest)" using peek_text [OF assms(2)] w(2) by simp
  show thesis
  proof (cases "peek_is cl (skip_whitespace (tl rest))")
    case True
    with assms(1) rest peek_text [OF True] w(1) show thesis by (intro that(1) [of w]) (simp_all add: Let_def)
  next
    case False
    with assms(1) rest w(1) show thesis by (intro that(2) [of w]) (simp_all add: Let_def)
  qed
qed

lemma rbindE:
  assumes "rbind m f = Inr y"
  obtains x where "m = Inr x" "f x = Inr y"
  using assms by (cases m) simp_all

lemma value_text_step:
  assumes "parse_value d rest = Inr rest'"
    and "\<not> MAX_JSON_DEPTH < d \<Longrightarrow> \<not> peek_is 0x22 rest \<Longrightarrow> peek_is 0x7B rest
      \<Longrightarrow> \<not> peek_is 0x7D (skip_whitespace (tl rest)) \<Longrightarrow> parse_members d (skip_whitespace (tl rest)) = Inr rest'
      \<Longrightarrow> \<exists>t. skip_whitespace (tl rest) = t @ [0x7D] @ rest' \<and> json_members d t"
    and "\<not> MAX_JSON_DEPTH < d \<Longrightarrow> \<not> peek_is 0x22 rest \<Longrightarrow> \<not> peek_is 0x7B rest \<Longrightarrow> peek_is 0x5B rest
      \<Longrightarrow> \<not> peek_is 0x5D (skip_whitespace (tl rest)) \<Longrightarrow> parse_elements d (skip_whitespace (tl rest)) = Inr rest'
      \<Longrightarrow> \<exists>t. skip_whitespace (tl rest) = t @ [0x5D] @ rest' \<and> json_elements d t"
  shows "\<exists>t. rest = t @ rest' \<and> json_value d t"
proof -
  have d: "\<not> MAX_JSON_DEPTH < d" using assms(1) by (simp add: parse_value.simps split: if_splits)
  then have le: "d \<le> MAX_JSON_DEPTH" by simp
  note eq = assms(1) [unfolded parse_value.simps [of d rest] if_not_P [OF d]]
  consider (str) "peek_is 0x22 rest" | (obj) "peek_is 0x7B rest" "\<not> peek_is 0x22 rest"
    | (arr) "peek_is 0x5B rest" "\<not> peek_is 0x22 rest" "\<not> peek_is 0x7B rest"
    | (lit) "parse_literal (literal ''true'') rest = Inr rest' \<or> parse_literal (literal ''false'') rest = Inr rest'
        \<or> parse_literal (literal ''null'') rest = Inr rest'"
    | (num) n where "parse_number rest = Inr (n, rest')"
    using eq by (auto split: if_splits)
  then show ?thesis
  proof cases
    case str
    with eq obtain k where "parse_string None rest = Inr (k, rest')" by auto
    then obtain t k' where "rest = 0x22 # t @ 0x22 # rest'" "string_text t k'" by (rule string_text_sound)
    with json_intros(1) [OF le] show ?thesis by (intro exI [of _ "0x22 # t @ [0x22]"]) simp
  next
    case obj
    have "(let r = skip_whitespace (tl rest) in if peek_is 0x7D r then Inr (tl r) else parse_members d r) = Inr rest'"
      using eq obj by simp
    then show ?thesis
    proof (cases rule: bracket_text [OF _ obj(1), consumes 1, case_names closed items])
      case (closed w)
      with json_intros(4) [OF le] show ?thesis by (intro exI [of _ "0x7B # w @ [0x7D]"]) simp
    next
      case (items w)
      from assms(2) [OF d obj(2,1) items(3,4)] obtain t where
        "skip_whitespace (tl rest) = t @ [0x7D] @ rest'" "json_members d t" by blast
      with items(1,2) json_intros(5) [OF le] show ?thesis by (intro exI [of _ "0x7B # w @ t @ [0x7D]"]) simp
    qed
  next
    case arr
    have "(let r = skip_whitespace (tl rest) in if peek_is 0x5D r then Inr (tl r) else parse_elements d r) = Inr rest'"
      using eq arr by simp
    then show ?thesis
    proof (cases rule: bracket_text [OF _ arr(1), consumes 1, case_names closed items])
      case (closed w)
      with json_intros(6) [OF le] show ?thesis by (intro exI [of _ "0x5B # w @ [0x5D]"]) simp
    next
      case (items w)
      from assms(3) [OF d arr(2,3,1) items(3,4)] obtain t where
        "skip_whitespace (tl rest) = t @ [0x5D] @ rest'" "json_elements d t" by blast
      with items(1,2) json_intros(7) [OF le] show ?thesis by (intro exI [of _ "0x5B # w @ t @ [0x5D]"]) simp
    qed
  next
    case lit
    with literal_value_text [OF _ _ le] show ?thesis by blast
  next
    case num
    then obtain t where "rest = t @ rest'" "number_text n t" by (rule number_text_sound)
    with json_intros(3) [OF le] show ?thesis by blast
  qed
qed

lemma members_text_step:
  assumes "parse_members d rest = Inr rest'"
    and "\<And>k r1 r2 r3. parse_string None rest = Inr (k, r1) \<Longrightarrow> expect_byte 0x3A (skip_whitespace r1) = Inr r2
      \<Longrightarrow> parse_value (d + 1) (skip_whitespace r2) = Inr r3
      \<Longrightarrow> \<exists>t. skip_whitespace r2 = t @ r3 \<and> json_value (d + 1) t"
    and "\<And>k r1 r2 r3 r4. parse_string None rest = Inr (k, r1) \<Longrightarrow> expect_byte 0x3A (skip_whitespace r1) = Inr r2
      \<Longrightarrow> parse_value (d + 1) (skip_whitespace r2) = Inr r3 \<Longrightarrow> \<not> peek_is 0x7D (skip_whitespace r3)
      \<Longrightarrow> expect_byte 0x2C (skip_whitespace r3) = Inr r4 \<Longrightarrow> parse_members d (skip_whitespace r4) = Inr rest'
      \<Longrightarrow> \<exists>t. skip_whitespace r4 = t @ [0x7D] @ rest' \<and> json_members d t"
  shows "\<exists>t. rest = t @ [0x7D] @ rest' \<and> json_members d t"
proof -
  note eq = assms(1) [unfolded parse_members.simps [of d rest] Let_def]
  then obtain k r1 r2 r3 where s: "parse_string None rest = Inr (k, r1)"
    and e: "expect_byte 0x3A (skip_whitespace r1) = Inr r2"
    and v: "parse_value (d + 1) (skip_whitespace r2) = Inr r3"
    and a: "(if peek_is 0x7D (skip_whitespace r3) then Inr (tl (skip_whitespace r3))
      else rbind (expect_byte 0x2C (skip_whitespace r3)) (\<lambda>r. parse_members d (skip_whitespace r))) = Inr rest'"
    by (auto simp del: rbind_Inr elim!: rbindE)
  from s obtain t k' where t: "rest = 0x22 # t @ 0x22 # r1" "string_text t k'" by (rule string_text_sound)
  from e obtain w1 w2 where w: "whitespace w1" "whitespace w2" "r1 = w1 @ [0x3A] @ w2 @ skip_whitespace r2" by (rule expect_text)
  from assms(2) [OF s e v] obtain u where u: "skip_whitespace r2 = u @ r3" "json_value (d + 1) u" by blast
  let ?m = "\<lambda>w3. 0x22 # t @ [0x22] @ w1 @ [0x3A] @ w2 @ u @ w3"
  from a show ?thesis
  proof (cases rule: after_item_text)
    case (1 w3)
    with json_intros(8) [OF t(2) w(1,2) u(2)] t(1) w(3) u(1) show ?thesis by (intro exI [of _ "?m w3"]) simp
  next
    case (2 w3 w4 r4)
    from assms(3) [OF s e v 2(4,5,6)] obtain ms where
      "skip_whitespace r4 = ms @ [0x7D] @ rest'" "json_members d ms" by blast
    with json_intros(9) [OF json_intros(8) [OF t(2) w(1,2) u(2) 2(1)] 2(2)] t(1) w(3) u(1) 2(3) show ?thesis
      by (intro exI [of _ "?m w3 @ [0x2C] @ w4 @ ms"]) simp
  qed
qed

lemma elements_text_step:
  assumes "parse_elements d rest = Inr rest'"
    and "\<And>r. parse_value (d + 1) rest = Inr r \<Longrightarrow> \<exists>t. rest = t @ r \<and> json_value (d + 1) t"
    and "\<And>r r4. parse_value (d + 1) rest = Inr r \<Longrightarrow> \<not> peek_is 0x5D (skip_whitespace r)
      \<Longrightarrow> expect_byte 0x2C (skip_whitespace r) = Inr r4 \<Longrightarrow> parse_elements d (skip_whitespace r4) = Inr rest'
      \<Longrightarrow> \<exists>t. skip_whitespace r4 = t @ [0x5D] @ rest' \<and> json_elements d t"
  shows "\<exists>t. rest = t @ [0x5D] @ rest' \<and> json_elements d t"
proof -
  note eq = assms(1) [unfolded parse_elements.simps [of d rest] Let_def]
  then obtain r where v: "parse_value (d + 1) rest = Inr r"
    and a: "(if peek_is 0x5D (skip_whitespace r) then Inr (tl (skip_whitespace r))
      else rbind (expect_byte 0x2C (skip_whitespace r)) (\<lambda>r. parse_elements d (skip_whitespace r))) = Inr rest'"
    by (auto simp del: rbind_Inr elim!: rbindE)
  from assms(2) [OF v] obtain u where u: "rest = u @ r" "json_value (d + 1) u" by blast
  from a show ?thesis
  proof (cases rule: after_item_text)
    case (1 w)
    with json_intros(10) [OF u(2)] u(1) show ?thesis by (intro exI [of _ "u @ w"]) simp
  next
    case (2 w w' r4)
    from assms(3) [OF v 2(4,5,6)] obtain es where
      "skip_whitespace r4 = es @ [0x5D] @ rest'" "json_elements d es" by blast
    with json_intros(11) [OF json_intros(10) [OF u(2) 2(1)] 2(2)] u(1) 2(3) show ?thesis
      by (intro exI [of _ "(u @ w) @ [0x2C] @ w' @ es"]) simp
  qed
qed

lemma value_text_sound:
  "parse_value d rest = Inr rest' \<Longrightarrow> \<exists>t. rest = t @ rest' \<and> json_value d t"
  "parse_members d2 rest2 = Inr rest' \<Longrightarrow> \<exists>t. rest2 = t @ [0x7D] @ rest' \<and> json_members d2 t"
  "parse_elements d3 rest3 = Inr rest' \<Longrightarrow> \<exists>t. rest3 = t @ [0x5D] @ rest' \<and> json_elements d3 t"
proof (induction d rest and d2 rest2 and d3 rest3 arbitrary: rest' and rest' and rest'
    rule: parse_value_parse_members_parse_elements.induct)
  case (1 d rest)
  show ?case by (rule value_text_step [OF "1.prems"]) (rule "1.IH"; simp)+
next
  case (2 d rest)
  show ?case by (rule members_text_step [OF "2.prems"]) (rule "2.IH"; (assumption | rule refl))+
next
  case (3 d rest)
  show ?case by (rule elements_text_step [OF "3.prems"]) (rule "3.IH"; (assumption | rule refl))+
qed

lemma number_at_least_one_iff: "number_at_least_one n \<longleftrightarrow> 1 - 1 / 2 ^ 54 \<le> number_value n"
proof -
  let ?m = "of_nat (decimal (jn_digits n @ jn_fraction n)) :: rat"
  let ?e = "(if jn_exponent_negative n then - int (decimal (jn_exponent n)) else int (decimal (jn_exponent n)))
    - int (length (jn_fraction n))"
  have pos: "0 \<le> ?m * 10 powi ?e" by simp
  have v: "number_value n = (if jn_negative n then - (?m * 10 powi ?e) else ?m * 10 powi ?e)"
    by (simp add: number_value_def)
  show ?thesis
  proof (cases "jn_negative n")
    case True
    with pos v have "number_value n \<le> 0" by simp
    moreover have "(0 :: rat) < 1 - 1 / 2 ^ 54" by simp
    ultimately have "\<not> 1 - 1 / 2 ^ 54 \<le> number_value n" by linarith
    with True show ?thesis by (simp add: number_at_least_one_def Let_def)
  next
    case False
    then show ?thesis using v f64_round_ge_one [OF pos]
      by (simp only: number_at_least_one_def Let_def not_False_eq_True simp_thms if_False)
  qed
qed

lemma key_characters_bound:
  "parse_characters (Some v) rest = Inr (out', rest') \<Longrightarrow> string_len v \<le> MAX_JSON_KEY_LEN
     \<Longrightarrow> \<exists>k. out' = Some k \<and> string_len k \<le> MAX_JSON_KEY_LEN"
proof (induction "Some v" rest arbitrary: v rule: parse_characters.induct)
  case (1 rest)
  show ?case
  proof (cases "peek_is 0x22 rest")
    case True
    with "1.prems" parse_characters_close [of "Some v" "tl rest"] peek_text [OF True] show ?thesis by auto
  next
    case False
    with "1.prems" obtain c r where c: "string_character rest = Inr (c, r)"
      by (subst (asm) parse_characters.simps) auto
    with "1.prems"(1) have "\<not> string_len v + utf8_length c > MAX_JSON_KEY_LEN"
      "parse_characters (Some (v @ [c])) r = Inr (out', rest')"
      by (auto simp: parse_characters_next [OF False c] split: if_splits)
    with "1.hyps"(1) [OF False c refl refl] show ?thesis by (simp add: string_len_def)
  qed
qed

lemma key_text_sound:
  assumes "parse_key rest = Inr (key, rest')"
  obtains t where "rest = 0x22 # t @ 0x22 # rest'" "string_text t key" "string_len key \<le> MAX_JSON_KEY_LEN"
proof -
  from assms obtain out where p: "parse_string (Some []) rest = Inr (out, rest')" "key = the out"
    by (auto simp: parse_key_def)
  from p(1) obtain r where "parse_characters (Some []) r = Inr (out, rest')" by (auto simp: parse_string_def)
  with key_characters_bound [of "[]" r] have len: "string_len key \<le> MAX_JSON_KEY_LEN"
    by (auto simp: string_len_def p(2))
  from p(1) obtain t k where "rest = 0x22 # t @ 0x22 # rest'" "string_text t k" "out = map_option (\<lambda>v. v @ k) (Some [])"
    by (rule string_text_sound)
  with len p(2) that [of t] show thesis by simp
qed

text \<open>What the parser keeps of the fields: whether the version field occurred, and with a number of at least one.\<close>

definition version_fields :: "(scalars \<times> scalars) list \<Rightarrow> (scalars \<times> scalars) list" where
  "version_fields kvs = filter (\<lambda>kv. fst kv = PROTOCOL_VERSION_KEY) kvs"

definition supports :: "scalars \<Rightarrow> bool" where
  "supports t \<longleftrightarrow> (\<exists>n. number_text n t \<and> 1 - 1 / 2 ^ 54 \<le> number_value n)"

definition version_read :: "bool option \<Rightarrow> (scalars \<times> scalars) list \<Rightarrow> bool option \<Rightarrow> bool" where
  "version_read v kvs v' \<longleftrightarrow>
     (if version_fields kvs = [] then v' = v
      else v = None \<and> (\<exists>t b. version_fields kvs = [(PROTOCOL_VERSION_KEY, t)] \<and> v' = Some b \<and> (b \<longrightarrow> supports t)))"

lemma version_read_Cons: "version_read v [kv] v1 \<Longrightarrow> version_read v1 kvs v' \<Longrightarrow> version_read v (kv # kvs) v'"
  by (cases "fst kv = PROTOCOL_VERSION_KEY") (auto simp: version_read_def version_fields_def split: if_splits)

lemma protocol_version_text:
  assumes "parse_protocol_version rest = Inr (b, rest')"
  shows "\<exists>t. rest = t @ rest' \<and> json_value 1 t \<and> (b \<longrightarrow> supports t)"
proof (cases "peek_is 0x2D rest \<or> peek_digit rest")
  case True
  with assms obtain n where n: "parse_number rest = Inr (n, rest')" "b = number_at_least_one n"
    by (auto simp: parse_protocol_version_def)
  from n(1) obtain t where "rest = t @ rest'" "number_text n t" by (rule number_text_sound)
  with json_intros(3) [of 1 n t] n(2) show ?thesis
    by (auto simp: supports_def number_at_least_one_iff MAX_JSON_DEPTH_def simp del: One_nat_def)
next
  case False
  with assms value_text_sound(1) [of 1 rest rest'] show ?thesis by (auto simp: parse_protocol_version_def)
qed

lemma hello_field_text:
  assumes "hello_field v key rest = Inr (v', rest')"
  shows "\<exists>t. rest = t @ rest' \<and> json_value 1 t \<and> version_read v [(key, t)] v'"
proof (cases "key = PROTOCOL_VERSION_KEY")
  case True
  with assms obtain b where "v = None" "v' = Some b" "parse_protocol_version rest = Inr (b, rest')"
    by (auto simp: hello_field_def split: if_splits)
  with protocol_version_text [OF this(3)] True show ?thesis by (auto simp: version_read_def version_fields_def)
next
  case False
  with assms value_text_sound(1) [of 1 rest rest'] show ?thesis
    by (auto simp: hello_field_def version_read_def version_fields_def)
qed

declare hello_loop.simps [simp del]

lemma hello_loop_step:
  assumes "hello_loop v rest = Inr (v', rest')"
  obtains (last) t key x w where "rest = t @ w @ [0x7D] @ rest'" "whitespace w" "field_text (key, x) (t @ w)"
    "string_len key \<le> MAX_JSON_KEY_LEN" "version_read v [(key, x)] v'"
  | (more) m key x v1 w r where "rest = m @ [0x2C] @ w @ r" "whitespace w" "field_text (key, x) m"
    "string_len key \<le> MAX_JSON_KEY_LEN" "version_read v [(key, x)] v1" "hello_loop v1 r = Inr (v', rest')" "length r < length rest"
proof -
  from assms obtain key r1 r2 v1 r3 where k: "parse_key rest = Inr (key, r1)"
    and e: "expect_byte 0x3A (skip_whitespace r1) = Inr r2"
    and f: "hello_field v key (skip_whitespace r2) = Inr (v1, r3)"
    and a: "(if peek_is 0x7D (skip_whitespace r3) then Inr (v1, tl (skip_whitespace r3))
      else rbind (expect_byte 0x2C (skip_whitespace r3)) (\<lambda>r. hello_loop v1 (skip_whitespace r))) = Inr (v', rest')"
    by (subst (asm) hello_loop.simps) (auto simp: Let_def simp del: rbind_Inr elim!: rbindE)
  from k obtain t where t: "rest = 0x22 # t @ 0x22 # r1" "string_text t key" "string_len key \<le> MAX_JSON_KEY_LEN"
    by (rule key_text_sound)
  from e obtain w1 w2 where w: "whitespace w1" "whitespace w2" "r1 = w1 @ [0x3A] @ w2 @ skip_whitespace r2" by (rule expect_text)
  from hello_field_text [OF f] obtain x where x: "skip_whitespace r2 = x @ r3" "json_value 1 x" "version_read v [(key, x)] v1" by blast
  define m where "m = 0x22 # t @ [0x22] @ w1 @ [0x3A] @ w2 @ x"
  have rest: "rest = m @ r3" using t(1) w(3) x(1) by (simp add: m_def)
  have m: "field_text (key, x) (m @ w3)" if "whitespace w3" for w3
    unfolding field_text_def m_def using t(2) w(1,2) x(2) that by (intro exI [of _ t] exI [of _ w1] exI [of _ w2] exI [of _ w3]) simp
  show thesis
  proof (cases "peek_is 0x7D (skip_whitespace r3)")
    case True
    obtain w3 where w3: "whitespace w3" "r3 = w3 @ skip_whitespace r3" by (rule skip_text)
    from True a have "v1 = v'" "rest' = tl (skip_whitespace r3)" by simp_all
    with rest w3(2) peek_text [OF True] have "rest = m @ w3 @ [0x7D] @ rest'" by simp
    with w3(1) m [OF w3(1)] t(3) x(3) \<open>v1 = v'\<close> show thesis by (intro last) simp_all
  next
    case False
    with a obtain r where r: "expect_byte 0x2C (skip_whitespace r3) = Inr r" "hello_loop v1 (skip_whitespace r) = Inr (v', rest')"
      by auto
    from r(1) obtain w3 w4 where w4: "whitespace w3" "whitespace w4" "r3 = w3 @ [0x2C] @ w4 @ skip_whitespace r" by (rule expect_text)
    have rest4: "rest = (m @ w3) @ [0x2C] @ w4 @ skip_whitespace r" using rest w4(3) by simp
    then have "length (skip_whitespace r) < length rest" by simp
    with rest4 w4(2) m [OF w4(1)] t(3) x(3) r(2) show thesis by (rule more)
  qed
qed

lemma hello_loop_text:
  "hello_loop v rest = Inr (v', rest') \<Longrightarrow> \<exists>kvs t. rest = t @ [0x7D] @ rest' \<and> fields_text kvs t
     \<and> list_all (\<lambda>kv. string_len (fst kv) \<le> MAX_JSON_KEY_LEN) kvs \<and> version_read v kvs v'"
proof (induction rest arbitrary: v rule: length_induct)
  case (1 rest)
  from "1.prems" show ?case
  proof (cases rule: hello_loop_step)
    case (last t key x w)
    then show ?thesis by (intro exI [of _ "[(key, x)]"] exI [of _ "t @ w"]) simp
  next
    case (more m key x v1 w r)
    from "1.IH" more(6,7) obtain kvs t where t: "r = t @ [0x7D] @ rest'" "fields_text kvs t"
      "list_all (\<lambda>kv. string_len (fst kv) \<le> MAX_JSON_KEY_LEN) kvs" "version_read v1 kvs v'" by blast
    then have "fields_text ((key, x) # kvs) (m @ [0x2C] @ w @ t)" using more(2,3) by (cases kvs) auto
    with t more(1,4) version_read_Cons [OF more(5) t(4)] show ?thesis
      by (intro exI [of _ "(key, x) # kvs"] exI [of _ "m @ [0x2C] @ w @ t"]) simp
  qed
qed

lemma finish_text: "finish_hello rest = Inr u \<Longrightarrow> whitespace rest"
  by (auto simp: finish_hello_def skip_whitespace_def whitespace_def dropWhile_eq_Nil_conv split: if_splits)

lemma parse_hello_text:
  assumes "parse_hello text = Inr u"
  shows "\<exists>kvs t. hello_text kvs text \<and> list_all (\<lambda>kv. string_len (fst kv) \<le> MAX_JSON_KEY_LEN) kvs
    \<and> version_fields kvs = [(PROTOCOL_VERSION_KEY, t)] \<and> supports t"
proof -
  let ?r1 = "skip_whitespace text" and ?r2 = "skip_whitespace (tl (skip_whitespace text))"
  obtain w1 where w1: "whitespace w1" "text = w1 @ ?r1" by (rule skip_text)
  obtain w2 where w2: "whitespace w2" "tl ?r1 = w2 @ ?r2" by (rule skip_text)
  from assms have p: "peek_is 0x7B ?r1" and n: "\<not> peek_is 0x7D ?r2"
    by (auto simp: parse_hello_def Let_def split: if_splits)
  with assms obtain v rest where v: "hello_loop None ?r2 = Inr (v, rest)" "finish_hello rest = Inr ()" "v = Some True"
    by (cases "hello_loop None ?r2") (auto simp: parse_hello_def split: option.splits bool.splits)
  from hello_loop_text [OF v(1)] obtain kvs t where t: "?r2 = t @ [0x7D] @ rest" "fields_text kvs t"
    "list_all (\<lambda>kv. string_len (fst kv) \<le> MAX_JSON_KEY_LEN) kvs" "version_read None kvs v" by blast
  have "text = w1 @ [0x7B] @ w2 @ t @ [0x7D] @ rest"
    using w1(2) w2(2) peek_text [OF p] t(1) by simp
  then have "hello_text kvs text" unfolding hello_text_def
    using w1(1) w2(1) finish_text [OF v(2)] t(2) by blast
  with t(3,4) v(3) show ?thesis by (auto simp: version_read_def split: if_splits)
qed

subsection \<open>The parser accepts every text of the grammar\<close>

lemma skip_append [simp]: "whitespace w \<Longrightarrow> skip_whitespace (w @ rest) = skip_whitespace rest"
  by (induction w) (auto simp: whitespace_def skip_whitespace_def)

lemma skip_stop [simp]: "c \<notin> {0x20, 0x0A, 0x0D, 0x09} \<Longrightarrow> skip_whitespace (c # rest) = c # rest"
  by (simp add: skip_whitespace_def)

lemma peek_simps [simp]: "peek_is b (c # rest) \<longleftrightarrow> c = b" "peek_digit (c # rest) \<longleftrightarrow> is_digit c"
  "\<not> peek_is b []" "\<not> peek_digit []"
  by (simp_all add: peek_is_def peek_digit_def)

lemma expect_simps [simp]: "expect_byte b (b # rest) = Inr rest"
  by (simp add: expect_byte_def)

lemma hex_digits_complete:
  "list_all (\<lambda>d. hex_value d \<noteq> None) q \<Longrightarrow>
     parse_hex_digits (length q) acc (q @ rest) = Inr (foldl (\<lambda>v d. v * 16 + the (hex_value d)) acc q, rest)"
  by (induction q arbitrary: acc) auto

lemma hex_quad_complete: "hex_quad q u \<Longrightarrow> parse_hex_quad (q @ rest) = Inr (u, rest)"
  using hex_digits_complete [of q 0 rest] by (simp add: hex_quad_def parse_hex_quad_def)

lemma surrogate_pair:
  assumes "decode_utf16 [u, w] = Some [c]"
  shows "0xD800 \<le> u" "u \<le> 0xDBFF" "0xDC00 \<le> w" "w \<le> 0xDFFF" "c = 0x10000 + (u - 0xD800) * 0x400 + (w - 0xDC00)"
  using assms by (auto split: if_splits)

lemma escape_complete: "escape_text e c \<Longrightarrow> parse_escape (e @ rest) = Inr (c, rest)"
proof (induction rule: escape_text.induct)
  case (short e c)
  then show ?case by (auto simp: parse_escape_def)
next
  case (unit q u)
  then have "\<not> (0xD800 \<le> u \<and> u \<le> 0xDBFF)" "\<not> (0xDC00 \<le> u \<and> u \<le> 0xDFFF)" by auto
  with hex_quad_complete [OF unit(1)] show ?case by (auto simp: parse_escape_def parse_unicode_escape_def)
next
  case (pair q u p w c)
  note b = surrogate_pair [OF pair(3)]
  have "parse_unicode_escape (q @ [0x5C, 0x75] @ p @ rest) = Inr (c, rest)"
    using b hex_quad_complete [OF pair(1)] hex_quad_complete [OF pair(2)]
    by (simp add: parse_unicode_escape_def parse_literal_def)
  then show ?case by (simp add: parse_escape_def)
qed

lemma plain_character: "c \<notin> {0x22, 0x5C} \<Longrightarrow> 0x1F < c \<Longrightarrow> string_character (c # rest) = Inr (c, rest)"
  by (simp add: string_character_def)

lemma escaped_character: "escape_text e c \<Longrightarrow> string_character (0x5C # e @ rest) = Inr (c, rest)"
  by (simp add: string_character_def escape_complete)

lemma characters_complete:
  "string_text t k \<Longrightarrow> (\<And>v. out = Some v \<Longrightarrow> string_len (v @ k) \<le> MAX_JSON_KEY_LEN) \<Longrightarrow>
     parse_characters out (t @ 0x22 # rest) = Inr (map_option (\<lambda>v. v @ k) out, rest)"
proof (induction arbitrary: out rule: string_text.induct)
  case empty
  show ?case by (simp add: parse_characters_close option.map_ident)
next
  case (plain c t k)
  have n: "\<not> peek_is 0x22 ((c # t) @ 0x22 # rest)" using plain(1) by simp
  have c: "string_character ((c # t) @ 0x22 # rest) = Inr (c, t @ 0x22 # rest)" using plain_character [OF plain(1,2)] by simp
  show ?case unfolding parse_characters_next [OF n c]
    using plain.IH [of None] plain.IH [of "map_option (\<lambda>v. v @ [c]) out"] plain.prems
    by (cases out) (auto simp: string_len_def)
next
  case (escape e c t k)
  have n: "\<not> peek_is 0x22 ((0x5C # e @ t) @ 0x22 # rest)" by simp
  have c: "string_character ((0x5C # e @ t) @ 0x22 # rest) = Inr (c, t @ 0x22 # rest)"
    using escaped_character [OF escape(1)] by simp
  show ?case unfolding parse_characters_next [OF n c]
    using escape.IH [of None] escape.IH [of "map_option (\<lambda>v. v @ [c]) out"] escape.prems
    by (cases out) (auto simp: string_len_def)
qed

lemma string_complete: "string_text t k \<Longrightarrow> parse_string None (0x22 # t @ 0x22 # rest) = Inr (None, rest)"
  using characters_complete [of t k None rest] by (simp add: parse_string_def)

lemma key_complete:
  "string_text t k \<Longrightarrow> string_len k \<le> MAX_JSON_KEY_LEN \<Longrightarrow> parse_key (0x22 # t @ 0x22 # rest) = Inr (k, rest)"
  using characters_complete [of t k "Some []" rest] by (simp add: parse_key_def parse_string_def)

text \<open>A number ends where none of its characters can follow.\<close>

definition number_ends :: "scalars \<Rightarrow> bool" where
  "number_ends rest \<longleftrightarrow> \<not> peek_digit rest \<and> \<not> peek_is 0x2E rest \<and> \<not> peek_is 0x65 rest \<and> \<not> peek_is 0x45 rest"

lemma number_ends_item: "whitespace w \<Longrightarrow> b \<in> {0x2C, 0x7D, 0x5D} \<Longrightarrow> number_ends (w @ b # rest)"
  by (cases w) (auto simp: number_ends_def whitespace_def is_digit_def)

lemma digits_cut:
  assumes "list_all is_digit ds" "\<not> peek_digit rest"
  shows "takeWhile is_digit (ds @ rest) = ds" "dropWhile is_digit (ds @ rest) = rest"
  using assms by (induction ds) (auto simp: peek_digit_def takeWhile_eq_Nil_iff dropWhile_eq_self_iff)

lemma take_digits_complete: "digits ds \<Longrightarrow> \<not> peek_digit rest \<Longrightarrow> take_digits (ds @ rest) = Inr (ds, rest)"
  by (cases ds) (auto simp: take_digits_def digits_def digits_cut)

lemma exponent_complete:
  assumes "if ex = [] then t = [] \<and> \<not> neg else exponent_text neg ex t" "number_ends rest"
  shows "parse_exponent (t @ rest) = Inr ((neg, ex), rest)"
proof (cases "ex = []")
  case True
  with assms show ?thesis by (simp add: parse_exponent_def number_ends_def)
next
  case False
  with assms obtain e sign where t: "digits ex" "e \<in> {0x65, 0x45}" "t = e # sign @ ex"
    "if neg then sign = [0x2D] else sign \<in> {[], [0x2B]}" by (auto simp: exponent_text_def)
  have d: "take_digits (ex @ rest) = Inr (ex, rest)" using t(1) assms(2) by (simp add: take_digits_complete number_ends_def)
  have x: "\<not> peek_is 0x2B (ex @ rest)" "\<not> peek_is 0x2D (ex @ rest)"
    using t(1) by (cases ex; simp add: digits_def is_digit_def)+
  from t(2-4) d x show ?thesis by (cases neg) (auto simp: parse_exponent_def Let_def)
qed

lemma exponent_start:
  assumes "if ex = [] then t = [] \<and> \<not> neg else exponent_text neg ex t" "number_ends rest"
  shows "\<not> peek_digit (t @ rest)" "\<not> peek_is 0x2E (t @ rest)"
  using assms by (auto simp: exponent_text_def number_ends_def is_digit_def split: if_splits)

lemma fraction_complete:
  assumes "if fr = [] then t = [] else digits fr \<and> t = 0x2E # fr" "\<not> peek_digit rest" "\<not> peek_is 0x2E rest"
  shows "parse_fraction (t @ rest) = Inr (fr, rest)" "\<not> peek_digit (t @ rest)"
  using assms by (auto simp: parse_fraction_def take_digits_complete is_digit_def split: if_splits)

lemma number_complete:
  assumes "number_text n t" "number_ends rest"
  shows "parse_number (t @ rest) = Inr (n, rest)" "peek_is 0x2D t \<or> peek_digit t"
proof -
  let ?s = "if jn_negative n then [0x2D] else []" and ?ds = "jn_digits n"
  from assms(1) obtain frac ex where t: "t = ?s @ ?ds @ frac @ ex"
    and ds: "digits ?ds" "?ds = [0x30] \<or> hd ?ds \<noteq> 0x30"
    and f: "if jn_fraction n = [] then frac = [] else digits (jn_fraction n) \<and> frac = 0x2E # jn_fraction n"
    and x: "if jn_exponent n = [] then ex = [] \<and> \<not> jn_exponent_negative n else exponent_text (jn_exponent_negative n) (jn_exponent n) ex"
    by (auto simp: number_text_def)
  note e = exponent_complete [OF x assms(2)] and es = exponent_start [OF x assms(2)]
  note fr = fraction_complete [OF f es]
  obtain c ds' where c: "?ds = c # ds'" "is_digit c" using ds(1) by (cases ?ds) (auto simp: digits_def)
  have cut: "takeWhile is_digit (?ds @ frac @ ex @ rest) = ?ds" "dropWhile is_digit (?ds @ frac @ ex @ rest) = frac @ ex @ rest"
    using digits_cut [of ?ds "frac @ ex @ rest"] ds(1) fr(2) by (simp_all add: digits_def)
  have neg: "peek_is 0x2D (t @ rest) = jn_negative n" using c by (auto simp: t is_digit_def)
  have r: "(if jn_negative n then tl (t @ rest) else t @ rest) = ?ds @ frac @ ex @ rest" by (simp add: t)
  have ok: "peek_digit (?ds @ frac @ ex @ rest)" "\<not> (peek_is 0x30 (?ds @ frac @ ex @ rest) \<and> peek_digit (tl (?ds @ frac @ ex @ rest)))"
    using c ds(2) fr(2) by auto
  show "parse_number (t @ rest) = Inr (n, rest)"
    by (simp add: parse_number_def Let_def neg r ok cut fr(1) e)
  show "peek_is 0x2D t \<or> peek_digit t" using c by (simp add: t)
qed

text \<open>No value begins with whitespace or a closing bracket.\<close>

lemma number_start: "number_text n t \<Longrightarrow> \<exists>c r. t = c # r \<and> c \<notin> {0x20, 0x0A, 0x0D, 0x09, 0x5D}"
  using number_complete(2) [of n t "[]"]
  by (cases t) (auto simp: number_ends_def is_digit_def)

lemma json_start:
  "json_value d t \<Longrightarrow> \<exists>c r. t = c # r \<and> c \<notin> {0x20, 0x0A, 0x0D, 0x09, 0x5D}"
  "json_members d2 t2 \<Longrightarrow> \<exists>r. t2 = 0x22 # r"
  "json_elements d3 t3 \<Longrightarrow> \<exists>c r. t3 = c # r \<and> c \<notin> {0x20, 0x0A, 0x0D, 0x09, 0x5D}"
  by (induction rule: json_value_json_members_json_elements.inducts) (auto simp: literal_def dest: number_start)

lemma skip_value: "json_value d t \<Longrightarrow> skip_whitespace (t @ rest) = t @ rest"
  using json_start(1) [of d t] by (auto simp: skip_stop)

lemma skip_members: "json_members d t \<Longrightarrow> skip_whitespace (t @ rest) = t @ rest \<and> \<not> peek_is 0x7D (t @ rest)"
  using json_start(2) [of d t] by (auto simp: skip_stop)

lemma skip_elements: "json_elements d t \<Longrightarrow> skip_whitespace (t @ rest) = t @ rest \<and> \<not> peek_is 0x5D (t @ rest)"
  using json_start(3) [of d t] by (auto simp: skip_stop)

lemma literal_words:
  "literal ''true'' = [0x74, 0x72, 0x75, 0x65]" "literal ''false'' = [0x66, 0x61, 0x6C, 0x73, 0x65]"
  "literal ''null'' = [0x6E, 0x75, 0x6C, 0x6C]"
  by (simp_all add: literal_def)

lemma literal_complete:
  assumes "t \<in> {literal ''true'', literal ''false'', literal ''null''}" "d \<le> MAX_JSON_DEPTH"
  shows "parse_value d (t @ rest) = Inr rest"
  using assms by (elim insertE emptyE; simp add: parse_value.simps [of d] parse_literal_def literal_words)

lemma number_value_complete:
  assumes "number_text n t" "d \<le> MAX_JSON_DEPTH" "number_ends rest"
  shows "parse_value d (t @ rest) = Inr rest"
proof -
  note n = number_complete [OF assms(1,3)]
  obtain c r where c: "t = c # r" "c = 0x2D \<or> is_digit c" using n(2) by (cases t) auto
  then have "\<not> peek_is b (t @ rest)" if "b \<in> {0x22, 0x7B, 0x5B, 0x74, 0x66, 0x6E}" for b
    using that by (auto simp: is_digit_def)
  moreover have "peek_is 0x2D (t @ rest) \<or> peek_digit (t @ rest)" using c by auto
  ultimately show ?thesis using n(1) assms(2) by (subst parse_value.simps) simp
qed

text \<open>Members and elements are read one after the other; the bracket ends them.\<close>

lemma json_complete:
  "json_value d t \<Longrightarrow> number_ends rest \<Longrightarrow> parse_value d (t @ rest) = Inr rest"
  "json_members d2 t2 \<Longrightarrow> parse_members d2 (t2 @ 0x7D # rest) = Inr rest
     \<and> parse_members d2 (t2 @ 0x2C # rest) = parse_members d2 (skip_whitespace rest)"
  "json_elements d3 t3 \<Longrightarrow> parse_elements d3 (t3 @ 0x5D # rest) = Inr rest
     \<and> parse_elements d3 (t3 @ 0x2C # rest) = parse_elements d3 (skip_whitespace rest)"
proof (induction arbitrary: rest and rest and rest rule: json_value_json_members_json_elements.inducts)
  case (string d t k)
  then show ?case by (simp add: parse_value.simps Let_def string_complete)
next
  case (word d t)
  then show ?case by (intro literal_complete)
next
  case (number d n t)
  then show ?case by (intro number_value_complete)
next
  case (empty_object d w)
  then show ?case by (simp add: parse_value.simps Let_def)
next
  case (object d w t)
  then show ?case using skip_members [OF object(3), of "0x7D # rest"] by (simp add: parse_value.simps Let_def)
next
  case (empty_array d w)
  then show ?case by (simp add: parse_value.simps Let_def)
next
  case (array d w t)
  then show ?case using skip_elements [OF array(3), of "0x5D # rest"] by (simp add: parse_value.simps Let_def)
next
  case (member k n w1 w2 d v w3)
  have "parse_value (Suc d) (skip_whitespace (w2 @ v @ w3 @ b # r)) = Inr (w3 @ b # r)" if "b \<in> {0x2C, 0x7D}" for b r
    using member.IH [of "w3 @ b # r"] number_ends_item [OF member(5), of b r] that member(3) skip_value [OF member(4)] by auto
  then show ?case using member(1-3,5)
    by (simp add: parse_members.simps [of _ "_ # _"] string_complete Let_def)
next
  case (members d m w ms)
  then show ?case using skip_members [OF members.hyps(3)] by simp
next
  case (element d v w)
  have "parse_value (Suc d) (v @ w @ b # r) = Inr (w @ b # r)" if "b \<in> {0x2C, 0x5D}" for b r
    using element.IH [of "w @ b # r"] number_ends_item [OF element(2), of b r] that by auto
  then show ?case using element(2) by (simp add: parse_elements.simps [of d "_ @ _"] Let_def)
next
  case (elements d e w es)
  then show ?case using skip_elements [OF elements.hyps(3)] by simp
qed

lemma hello_field_complete:
  assumes "json_value 1 x" "number_ends rest"
  shows "key \<noteq> PROTOCOL_VERSION_KEY \<Longrightarrow> hello_field v key (x @ rest) = Inr (v, rest)"
    and "supports x \<Longrightarrow> hello_field None PROTOCOL_VERSION_KEY (x @ rest) = Inr (Some True, rest)"
proof -
  show "hello_field v key (x @ rest) = Inr (v, rest)" if "key \<noteq> PROTOCOL_VERSION_KEY"
    using that json_complete(1) [OF assms] by (simp add: hello_field_def)
  assume "supports x"
  then obtain n where n: "number_text n x" "number_at_least_one n" by (auto simp: supports_def number_at_least_one_iff)
  have "peek_is 0x2D (x @ rest) \<or> peek_digit (x @ rest)"
    using number_complete(2) [OF n(1) assms(2)] by (cases x) auto
  with number_complete(1) [OF n(1) assms(2)] n(2) show "hello_field None PROTOCOL_VERSION_KEY (x @ rest) = Inr (Some True, rest)"
    by (simp add: hello_field_def parse_protocol_version_def)
qed

lemma field_complete:
  assumes "field_text (key, x) m" "string_len key \<le> MAX_JSON_KEY_LEN"
    and "\<And>r. number_ends r \<Longrightarrow> hello_field v key (x @ r) = Inr (v1, r)"
  shows "hello_loop v (m @ 0x7D # rest) = Inr (v1, rest)" "hello_loop v (m @ 0x2C # rest) = hello_loop v1 (skip_whitespace rest)"
proof -
  from assms(1) obtain k w1 w2 w3 where m: "string_text k key" "whitespace w1" "whitespace w2" "whitespace w3" "json_value 1 x"
    "m = 0x22 # k @ [0x22] @ w1 @ [0x3A] @ w2 @ x @ w3" by (auto simp: field_text_def)
  have f: "hello_field v key (x @ w3 @ b # r) = Inr (v1, w3 @ b # r)" if "b \<in> {0x2C, 0x7D, 0x5D}" for b r
    by (rule assms(3)) (rule number_ends_item [OF m(4) that])
  show "hello_loop v (m @ 0x7D # rest) = Inr (v1, rest)"
    using m f by (subst hello_loop.simps) (simp add: key_complete [OF _ assms(2)] skip_value [OF m(5)] Let_def)
  show "hello_loop v (m @ 0x2C # rest) = hello_loop v1 (skip_whitespace rest)"
    using m f by (subst hello_loop.simps) (simp add: key_complete [OF _ assms(2)] skip_value [OF m(5)] Let_def)
qed

lemma fields_start: "fields_text kvs t \<Longrightarrow> \<exists>r. t = 0x22 # r"
  by (induction kvs t rule: fields_text.induct) (auto simp: field_text_def)

definition version_accepted :: "bool option \<Rightarrow> (scalars \<times> scalars) list \<Rightarrow> bool" where
  "version_accepted v kvs \<longleftrightarrow> version_fields kvs = []
     \<or> v = None \<and> (\<exists>t. version_fields kvs = [(PROTOCOL_VERSION_KEY, t)] \<and> supports t)"

definition version_after :: "bool option \<Rightarrow> (scalars \<times> scalars) list \<Rightarrow> bool option" where
  "version_after v kvs = (if version_fields kvs = [] then v else Some True)"

lemma field_accepted:
  assumes "version_accepted v (kv # kvs)" "json_value 1 (snd kv)"
  shows "number_ends r \<Longrightarrow> hello_field v (fst kv) (snd kv @ r) = Inr (version_after v [kv], r)"
    and "version_accepted (version_after v [kv]) kvs"
    and "version_after (version_after v [kv]) kvs = version_after v (kv # kvs)"
  using assms hello_field_complete [of "snd kv" r]
  by (cases kv; cases "fst kv = PROTOCOL_VERSION_KEY"; auto simp: version_accepted_def version_after_def version_fields_def)+

lemma hello_loop_complete:
  "fields_text kvs t \<Longrightarrow> list_all (\<lambda>kv. string_len (fst kv) \<le> MAX_JSON_KEY_LEN) kvs \<Longrightarrow> version_accepted v kvs
     \<Longrightarrow> hello_loop v (t @ 0x7D # rest) = Inr (version_after v kvs, rest)"
proof (induction kvs t arbitrary: v rule: fields_text.induct)
  case (2 kv t)
  then have "json_value 1 (snd kv)" by (auto simp: field_text_def)
  from field_accepted(1) [OF "2.prems"(3) this] field_complete(1) [of "fst kv" "snd kv" t] "2.prems"(1,2) show ?case by simp
next
  case (3 kv kv' kvs t)
  then obtain m w ms where t: "t = m @ [0x2C] @ w @ ms" "field_text kv m" "whitespace w" "fields_text (kv' # kvs) ms" by auto
  then have j: "json_value 1 (snd kv)" by (auto simp: field_text_def)
  note a = field_accepted [OF "3.prems"(3) j]
  have "hello_loop v (m @ 0x2C # w @ ms @ 0x7D # rest) = hello_loop (version_after v [kv]) (skip_whitespace (w @ ms @ 0x7D # rest))"
    using field_complete(2) [of "fst kv" "snd kv" m] a(1) t(2) "3.prems"(2) by simp
  also have "\<dots> = hello_loop (version_after v [kv]) (ms @ 0x7D # rest)" using t(3) fields_start [OF t(4)] by auto
  also have "\<dots> = Inr (version_after (version_after v [kv]) (kv' # kvs), rest)" using "3.IH" t(4) "3.prems"(2) a(2) by simp
  finally show ?case by (simp add: t(1) a(3))
qed simp

lemma parse_hello_complete:
  assumes "hello_text kvs text" "list_all (\<lambda>kv. string_len (fst kv) \<le> MAX_JSON_KEY_LEN) kvs"
    and "version_fields kvs = [(PROTOCOL_VERSION_KEY, t)]" "supports t"
  shows "parse_hello text = Inr ()"
proof -
  from assms(1) obtain w1 w2 w3 fs where h: "whitespace w1" "whitespace w2" "whitespace w3" "fields_text kvs fs"
    "text = w1 @ [0x7B] @ w2 @ fs @ [0x7D] @ w3" by (auto simp: hello_text_def)
  have "version_accepted None kvs" "version_after None kvs = Some True"
    using assms(3,4) by (simp_all add: version_accepted_def version_after_def)
  with hello_loop_complete [OF h(4) assms(2), of None w3] have "hello_loop None (fs @ 0x7D # w3) = Inr (Some True, w3)" by simp
  moreover obtain r where "fs = 0x22 # r" using fields_start [OF h(4)] by blast
  moreover have "skip_whitespace w3 = []" using skip_append [OF h(3), of "[]"] by (simp add: skip_whitespace_def)
  ultimately show ?thesis using h(1,2) by (simp add: h(5) parse_hello_def Let_def finish_hello_def)
qed

subsection \<open>The HELLO that is written\<close>

lemma json_hex_digit: "n < 16 \<Longrightarrow> hex_value (unat (ascii_bytes ''0123456789abcdef'' ! n)) = Some n"
proof -
  have "list_all (\<lambda>n. hex_value (unat (ascii_bytes ''0123456789abcdef'' ! n)) = Some n) [0..<16]" by code_simp
  then show "n < 16 \<Longrightarrow> ?thesis" by (simp only: list_all_iff set_upt) simp
qed

lemma json_hex_digit_ascii: "n < 16 \<Longrightarrow> ascii_bytes ''0123456789abcdef'' ! n < 0x80"
proof -
  have "list_all (\<lambda>n. ascii_bytes ''0123456789abcdef'' ! n < 0x80) [0..<16]" by code_simp
  then show "n < 16 \<Longrightarrow> ?thesis" by (simp only: list_all_iff set_upt) simp
qed

lemma hex_digits_join:
  assumes "(v :: nat) < 0x10000"
  shows "((v div 0x1000 mod 16 * 16 + v div 0x100 mod 16) * 16 + v div 0x10 mod 16) * 16 + v mod 16 = v"
    and "v div 0x1000 < 16"
proof -
  show l: "v div 0x1000 < 16" using assms by (simp add: less_mult_imp_div_less)
  then have m: "v div 0x1000 mod 16 = v div 0x1000" by simp
  have "v div 0x1000 = v div 16 div 16 div 16" "v div 0x100 = v div 16 div 16" by (simp_all add: div_mult2_eq [symmetric])
  with m show "((v div 0x1000 mod 16 * 16 + v div 0x100 mod 16) * 16 + v div 0x10 mod 16) * 16 + v mod 16 = v"
    by (simp only: m div_mult_mod_eq)
qed

lemma unicode_escape_written:
  assumes "v < 0x10000"
  obtains q where "map unat (append_unicode_escape v) = 0x5C # 0x75 # q" "hex_quad q v"
proof
  let ?d = "\<lambda>n. unat (ascii_bytes ''0123456789abcdef'' ! (n mod 16))"
  show "map unat (append_unicode_escape v) = 0x5C # 0x75 # [?d (v div 0x1000), ?d (v div 0x100), ?d (v div 0x10), ?d v]"
    by (simp add: append_unicode_escape_def Let_def)
  show "hex_quad [?d (v div 0x1000), ?d (v div 0x100), ?d (v div 0x10), ?d v] v"
    using hex_digits_join [OF assms] by (simp add: hex_quad_def json_hex_digit)
qed

lemma escape_character_text:
  assumes "scalar_ok c" "string_text t k"
  shows "string_text (map unat (escape_character c) @ t) (c # k)"
proof -
  note short = string_text.escape [OF escape_text.short assms(2)]
  consider (s) "c \<in> {0x22, 0x5C, 0x08, 0x0C, 0x0A, 0x0D, 0x09}"
    | (u) "c \<notin> {0x22, 0x5C, 0x08, 0x0C, 0x0A, 0x0D, 0x09}" "c \<le> 0x1F \<or> 0x80 \<le> c \<and> c \<le> 0xFFFF"
    | (p) "0x10000 \<le> c"
    | (a) "c \<notin> {0x22, 0x5C}" "0x1F < c" "c < 0x80" by force
  then show ?thesis
  proof cases
    case s
    then show ?thesis using short [of _ c] by (elim insertE emptyE; simp add: escape_character_def; fastforce)
  next
    case u
    then have "c < 0x10000" by auto
    then obtain q where q: "map unat (append_unicode_escape c) = 0x5C # 0x75 # q" "hex_quad q c" by (rule unicode_escape_written)
    have "c < 0xD800 \<or> 0xDFFF < c" using assms(1) by (auto simp: scalar_ok_def)
    with string_text.escape [OF escape_text.unit [OF q(2)] assms(2)] u q(1) show ?thesis by (simp add: escape_character_def)
  next
    case p
    define x where "x = c - 0x10000"
    have x: "x < 0x100000" "c = 0x10000 + x" using assms(1) p by (auto simp: scalar_ok_def x_def)
    have d: "x div 0x400 < 0x400" using x(1) by (simp add: less_mult_imp_div_less)
    have m: "x mod 0x400 < 0x400" by simp
    obtain q where q: "map unat (append_unicode_escape (0xD800 + x div 0x400)) = 0x5C # 0x75 # q" "hex_quad q (0xD800 + x div 0x400)"
      by (rule unicode_escape_written [of "0xD800 + x div 0x400"]) (use d in simp)
    obtain r where r: "map unat (append_unicode_escape (0xDC00 + x mod 0x400)) = 0x5C # 0x75 # r" "hex_quad r (0xDC00 + x mod 0x400)"
      by (rule unicode_escape_written [of "0xDC00 + x mod 0x400"]) (use m in simp)
    have "decode_utf16 [0xD800 + x div 0x400, 0xDC00 + x mod 0x400] = Some [c]" using d m x(2) by (simp add: div_mult_mod_eq)
    from string_text.escape [OF escape_text.pair [OF q(2) r(2) this] assms(2)] q(1) r(1) p show ?thesis
      by (simp add: escape_character_def x_def)
  next
    case a
    with string_text.plain [OF a(1,2) assms(2)] show ?thesis
      by (simp add: escape_character_def utf8_bytes_def ascii_byte(1))
  qed
qed

lemma escape_string_text: "list_all scalar_ok t \<Longrightarrow> string_text (map unat (escape_json_string t)) t"
  by (induction t) (simp_all add: escape_json_string_def string_text.empty escape_character_text)

lemma unicode_escape_ascii: "list_all (\<lambda>b. b < 0x80) (append_unicode_escape v)"
  by (simp add: append_unicode_escape_def Let_def json_hex_digit_ascii)

lemma escape_character_ascii: "list_all (\<lambda>b. b < 0x80) (escape_character c)"
  by (simp add: escape_character_def unicode_escape_ascii utf8_bytes_def ascii_byte(2))

lemma escape_string_ascii: "list_all (\<lambda>b. b < 0x80) (escape_json_string t)"
  by (induction t) (simp_all add: escape_json_string_def escape_character_ascii)

lemma escape_character_length: "length (escape_character c) \<le> 6 * utf8_length c"
  by (simp add: escape_character_def append_unicode_escape_def utf8_bytes_def utf8_length_def Let_def)

lemma escape_string_length: "length (escape_json_string t) \<le> 6 * string_len t"
proof (induction t)
  case (Cons c t)
  with escape_character_length [of c] show ?case by (simp add: escape_json_string_def string_len_def)
qed (simp add: escape_json_string_def)

lemma ascii_bytes_text:
  assumes "list_all (\<lambda>b. b < 0x80) bs"
  shows "str_from_utf8 bs = Some (map unat bs)"
proof -
  have "is_ascii (map unat bs)" using assms by (auto simp: is_ascii_def list_all_iff word_less_nat_alt)
  moreover have "map word_of_nat (map unat bs) = bs" by (induction bs) simp_all
  ultimately show ?thesis using ascii_text [of "map unat bs"] by simp
qed

text \<open>The fields that are written, given the escaped process name.\<close>

definition own_fields :: "scalars \<Rightarrow> (scalars \<times> scalars) list" where
  "own_fields e = [(literal ''OSBuild'', 0x22 # literal ''Linux'' @ [0x22]), (literal ''BridgeXPCVersion'', literal ''1.35''),
     (literal ''ProcessName'', 0x22 # e @ [0x22]), (PROTOCOL_VERSION_KEY, literal ''1'')]"

lemma plain_text: "list_all (\<lambda>c. c \<notin> {0x22, 0x5C} \<and> 0x1F < c) t \<Longrightarrow> string_text t t"
  by (induction t) (auto intro: string_text.intros)

lemma compact_field:
  assumes "list_all (\<lambda>c. c \<notin> {0x22, 0x5C} \<and> 0x1F < c) k" "json_value 1 v"
  shows "field_text (k, v) (0x22 # k @ [0x22, 0x3A] @ v)"
  unfolding field_text_def using plain_text [OF assms(1)] assms(2)
  by (intro exI [of _ k] exI [of _ "[]"]) (simp add: whitespace_def)

lemma json_integer: "number_text \<lparr>jn_negative = False, jn_digits = [0x31], jn_fraction = [], jn_exponent_negative = False, jn_exponent = []\<rparr> (literal ''1'')"
  by (simp add: number_text_def digits_def is_digit_def literal_def)

lemma json_decimal: "number_text \<lparr>jn_negative = False, jn_digits = [0x31], jn_fraction = [0x33, 0x35], jn_exponent_negative = False, jn_exponent = []\<rparr> (literal ''1.35'')"
  by (simp add: number_text_def digits_def is_digit_def literal_def)

lemma one_supported: "supports (literal ''1'')"
  using json_integer by (auto simp: supports_def number_value_def decimal_def intro!: exI)

lemma own_field_keys:
  "list_all (\<lambda>kv. string_len (fst kv) \<le> MAX_JSON_KEY_LEN) (own_fields e)"
  "version_fields (own_fields e) = [(PROTOCOL_VERSION_KEY, literal ''1'')]"
  by (simp_all add: own_fields_def version_fields_def string_len_def utf8_length_def literal_def PROTOCOL_VERSION_KEY_def MAX_JSON_KEY_LEN_def)

lemma own_fields_text:
  assumes "string_text e name"
  shows "hello_text (own_fields e) (literal ''{\"OSBuild\":\"Linux\",\"BridgeXPCVersion\":1.35,\"ProcessName\":\"'' @ e
    @ literal ''\",\"MaxSupportedProtocolVersion\":1}'')"
proof -
  let ?f = "\<lambda>k v. 0x22 # literal k @ [0x22, 0x3A] @ v"
  have one: "1 \<le> MAX_JSON_DEPTH" by (simp add: MAX_JSON_DEPTH_def)
  have l: "string_text (literal ''Linux'') (literal ''Linux'')" by (rule plain_text) (simp add: literal_def)
  have f: "field_text (literal ''OSBuild'', 0x22 # literal ''Linux'' @ [0x22]) (?f ''OSBuild'' (0x22 # literal ''Linux'' @ [0x22]))"
    "field_text (literal ''BridgeXPCVersion'', literal ''1.35'') (?f ''BridgeXPCVersion'' (literal ''1.35''))"
    "field_text (literal ''ProcessName'', 0x22 # e @ [0x22]) (?f ''ProcessName'' (0x22 # e @ [0x22]))"
    "field_text (PROTOCOL_VERSION_KEY, literal ''1'') (?f ''MaxSupportedProtocolVersion'' (literal ''1''))"
    unfolding PROTOCOL_VERSION_KEY_def
    by (rule compact_field; (rule json_intros(1) [OF one l] json_intros(1) [OF one assms] json_intros(3) [OF one json_integer]
        json_intros(3) [OF one json_decimal] | simp add: literal_def))+
  have w: "whitespace []" by (simp add: whitespace_def)
  have "fields_text (own_fields e) (?f ''OSBuild'' (0x22 # literal ''Linux'' @ [0x22]) @ [0x2C] @ [] @
      ?f ''BridgeXPCVersion'' (literal ''1.35'') @ [0x2C] @ [] @ ?f ''ProcessName'' (0x22 # e @ [0x22]) @ [0x2C] @ [] @
      ?f ''MaxSupportedProtocolVersion'' (literal ''1''))" (is "fields_text _ ?t")
    unfolding own_fields_def fields_text.simps using f w by blast
  moreover have "literal ''{\"OSBuild\":\"Linux\",\"BridgeXPCVersion\":1.35,\"ProcessName\":\"'' @ e
    @ literal ''\",\"MaxSupportedProtocolVersion\":1}'' = [] @ [0x7B] @ [] @ ?t @ [0x7D] @ []" by (simp add: literal_def)
  ultimately show ?thesis unfolding hello_text_def using w by blast
qed

lemma encode_hello_bytes:
  assumes "encode_hello name = Inr body"
  shows "str_from_utf8 body = Some (literal ''{\"OSBuild\":\"Linux\",\"BridgeXPCVersion\":1.35,\"ProcessName\":\"''
      @ map unat (escape_json_string name) @ literal ''\",\"MaxSupportedProtocolVersion\":1}'')"
    and "length body \<le> 96 + 6 * MAX_PROCESS_NAME_LEN"
proof -
  let ?p = "''{\"OSBuild\":\"Linux\",\"BridgeXPCVersion\":1.35,\"ProcessName\":\"''" and ?s = "''\",\"MaxSupportedProtocolVersion\":1}''"
  from assms have b: "body = ascii_bytes ?p @ escape_json_string name @ ascii_bytes ?s" and n: "string_len name \<le> MAX_PROCESS_NAME_LEN"
    by (auto simp: encode_hello_def split: if_splits)
  have a: "list_all (\<lambda>b. b < 0x80) (ascii_bytes ?p)" "list_all (\<lambda>b. b < 0x80) (ascii_bytes ?s)" by code_simp+
  have u: "map unat (ascii_bytes ?p) = literal ?p" "map unat (ascii_bytes ?s) = literal ?s" by code_simp+
  have "list_all (\<lambda>b. b < 0x80) body" using a escape_string_ascii by (simp add: b)
  from ascii_bytes_text [OF this] u show "str_from_utf8 body = Some (literal ?p @ map unat (escape_json_string name) @ literal ?s)"
    by (simp add: b)
  show "length body \<le> 96 + 6 * MAX_PROCESS_NAME_LEN"
    using escape_string_length [of name] n by (simp add: b ascii_bytes_def)
qed

lemma own_hello_valid:
  assumes "list_all scalar_ok name" "encode_hello name = Inr body"
  shows "validate_peer_hello body = Inr ()"
  using parse_hello_complete [OF own_fields_text [OF escape_string_text [OF assms(1)]] own_field_keys one_supported]
    encode_hello_bytes [OF assms(2)]
  by (simp add: validate_peer_hello_def MAX_HELLO_BODY_LEN_def MAX_PROCESS_NAME_LEN_def)

subsection \<open>The properties\<close>

text \<open>
  C12. Exactly these HELLOs are accepted.  A body is accepted exactly when it has at most 64 KiB and is the UTF-8 text of a
  JSON object, its values nested at most 32 deep and its keys at most 512 bytes long, with exactly one protocol
  version field, whose value is a number of at least \<open>1 - 2\<^sup>-\<^sup>5\<^sup>4\<close>: the numbers whose nearest double is at least one.
\<close>

theorem hello_accepted_exactly:
  "validate_peer_hello body = Inr () \<longleftrightarrow> length body \<le> MAX_HELLO_BODY_LEN
     \<and> (\<exists>doc kvs t. str_from_utf8 body = Some doc \<and> hello_text kvs doc
         \<and> list_all (\<lambda>kv. string_len (fst kv) \<le> MAX_JSON_KEY_LEN) kvs
         \<and> version_fields kvs = [(PROTOCOL_VERSION_KEY, t)] \<and> supports t)" (is "?l \<longleftrightarrow> ?r")
proof
  assume ?l
  then obtain doc where "length body \<le> MAX_HELLO_BODY_LEN" "str_from_utf8 body = Some doc" "parse_hello doc = Inr ()"
    by (auto simp: validate_peer_hello_def split: if_splits)
  with parse_hello_text [of doc] show ?r by blast
next
  assume ?r
  then obtain doc kvs t where "length body \<le> MAX_HELLO_BODY_LEN" "str_from_utf8 body = Some doc" "hello_text kvs doc"
    "list_all (\<lambda>kv. string_len (fst kv) \<le> MAX_JSON_KEY_LEN) kvs" "version_fields kvs = [(PROTOCOL_VERSION_KEY, t)]" "supports t"
    by blast
  with parse_hello_complete show ?l by (simp add: validate_peer_hello_def)
qed

text \<open>
  C39. A written HELLO is accepted and carries the name.  For every process name that can be encoded, the body is accepted by
  the validation, and it is the JSON object of four fields in which the process name field is a string that stands for
  exactly the given name, whatever characters the name has.
\<close>

theorem own_hello_accepted:
  assumes "list_all scalar_ok name" "encode_hello name = Inr body"
  shows "validate_peer_hello body = Inr ()
    \<and> (\<exists>doc e. str_from_utf8 body = Some doc \<and> hello_text (own_fields e) doc \<and> string_text e name)"
  using own_hello_valid [OF assms] encode_hello_bytes(1) [OF assms(2)] own_fields_text [OF escape_string_text [OF assms(1)]]
    escape_string_text [OF assms(1)] by blast

definition demo_hello :: bytes where
  "demo_hello = ascii_bytes ''{\"OSBuild\":\"Linux\",\"BridgeXPCVersion\":1.35,\"ProcessName\":\"t1'' @ [0x5C]
     @ ascii_bytes ''u00e9\",\"MaxSupportedProtocolVersion\":1}''"

lemma demo_hello_written: "encode_hello [0x74, 0x31, 0xE9] = Inr demo_hello"
  by (simp add: encode_hello_def demo_hello_def escape_json_string_def escape_character_def append_unicode_escape_def
      utf8_bytes_def ascii_bytes_def string_len_def utf8_length_def MAX_PROCESS_NAME_LEN_def Let_def)

theorem own_hello_accepted_witness:
  "encode_hello [0x74, 0x31, 0xE9] = Inr demo_hello \<and> validate_peer_hello demo_hello = Inr ()"
  using own_hello_accepted [of "[0x74, 0x31, 0xE9]" demo_hello] demo_hello_written by (simp add: scalar_ok_def)

end
