(* ===== verification/Bridge_Session.thy ===== *)
theory Bridge_Session
  imports Bridge_Transport Bridge_Hello_Correct
begin

section \<open>Sessions with the bridge\<close>

text \<open>
  Models \<^verbatim>\<open>crates/t1-bridge/src/session.rs\<close> over a connected stream: the HELLO exchange that opens a session; a call that sends its request
  and reads frames until its reply, acknowledging the callbacks it meets and queueing their events; the exchange of one
  raw dictionary; and the reading of one possible callback.
  The lemmas show that a call is a walk over the frames of the stream, whatever pieces they arrive in, that every
  request of the peer it meets is answered under the request's own identifier, and that the loop ends.
\<close>

datatype session_error =
    SessionTransport transport_error
  | SessionHello hello_error
  | SessionRpc rpc_error
  | ExpectedHello u32
  | UnsolicitedReply

datatype raw_dictionary_error = RawTransport transport_error | RawRpc rpc_error

record bridge_session =
  bs_stream :: stream
  bs_service_events :: "service_status_event list"

definition session_connect :: "(nat \<Rightarrow> bool) \<Rightarrow> stream \<Rightarrow> scalars \<Rightarrow> session_error + bridge_session" where
  "session_connect can_reserve s process_name =
     (case receive_frame can_reserve s of
        (Inl e, _) \<Rightarrow> Inl (SessionTransport e)
      | (Inr peer_hello, s) \<Rightarrow>
          if bf_message_type peer_hello \<noteq> FRAME_HELLO then Inl (ExpectedHello (bf_message_type peer_hello))
          else
            rbind (map_err SessionHello (validate_peer_hello (bf_body peer_hello))) (\<lambda>_.
            rbind (map_err SessionHello (encode_hello process_name)) (\<lambda>body.
            rbind (map_err (SessionTransport \<circ> TransportFrame) (bridge_frame_new FRAME_HELLO body)) (\<lambda>hello.
              case send_frame hello s of
                (Inl e, _) \<Rightarrow> Inl (SessionTransport e)
              | (Inr _, s) \<Rightarrow> Inr \<lparr>bs_stream = s, bs_service_events = []\<rparr>))))"

definition send_plist :: "bytes \<Rightarrow> bridge_session \<Rightarrow> (session_error + unit) \<times> bridge_session" where
  "send_plist body s =
     (case bridge_frame_new FRAME_BINARY_PLIST body of
        Inl e \<Rightarrow> (Inl (SessionTransport (TransportFrame e)), s)
      | Inr f \<Rightarrow> (case send_frame f (bs_stream s) of
          (Inl e, t) \<Rightarrow> (Inl (SessionTransport e), s\<lparr>bs_stream := t\<rparr>)
        | (Inr _, t) \<Rightarrow> (Inr (), s\<lparr>bs_stream := t\<rparr>)))"

definition acknowledge_request :: "request_id \<Rightarrow> plist list \<Rightarrow> bridge_session \<Rightarrow> (session_error + unit) \<times> bridge_session" where
  "acknowledge_request request_id payload s =
     (case handle_inbound_request payload of
        Inl e \<Rightarrow> (Inl (SessionRpc e), s)
      | Inr handled \<Rightarrow> (case encode_rpc_reply request_id (ir_reply handled) of
          Inl e \<Rightarrow> (Inl (SessionRpc e), s)
        | Inr body \<Rightarrow> (case send_plist body s of
            (Inl e, s) \<Rightarrow> (Inl e, s)
          | (Inr _, s) \<Rightarrow> (Inr (), case ir_service_event handled of
                None \<Rightarrow> s
              | Some event \<Rightarrow> s\<lparr>bs_service_events := bs_service_events s @ [event]\<rparr>))))"

subsection \<open>Every received frame uses up bytes of the stream\<close>

definition pending :: "read_result list \<Rightarrow> nat" where
  "pending reads = sum_list (map (\<lambda>r. Suc (length (result_bytes r))) reads)"

lemma pending_simps [simp]: "pending [] = 0" "pending (r # reads) = Suc (length (result_bytes r) + pending reads)"
  by (simp_all add: pending_def)

lemma read_loop_pending:
  "read_loop part n filled reads = (Inr bs, reads') \<Longrightarrow> pending reads' + (n - length filled) \<le> pending reads"
proof (induction part n filled reads rule: read_loop.induct)
  case (1 part n filled reads)
  show ?case
  proof (cases "n \<le> length filled")
    case True
    with "1.prems" show ?thesis by (simp add: read_loop_full)
  next
    case False
    with "1.prems" obtain r rest where reads: "reads = r # rest"
      by (cases reads) (simp_all add: read_loop.simps [of _ _ _ "[]"])
    show ?thesis
    proof (cases r)
      case (ReadBytes cs)
      let ?m = "n - length filled"
      have cs: "cs \<noteq> []" using "1.prems" False by (auto simp: reads ReadBytes read_loop.simps [of _ _ _ "_ # _"])
      have "read_loop part n (filled @ take ?m cs) (if length cs > ?m then ReadBytes (drop ?m cs) # rest else rest) = (Inr bs, reads')"
        using "1.prems" False cs by (subst (asm) read_loop.simps) (simp add: reads ReadBytes Let_def)
      from "1.IH"(1) [OF False reads ReadBytes cs refl this] False show ?thesis
        by (cases "length cs > ?m") (simp_all add: reads ReadBytes)
    next
      case (ReadError e)
      then have e: "e = IoInterrupted" "read_loop part n filled rest = (Inr bs, reads')"
        using "1.prems" False by (auto simp: reads read_loop.simps [of _ _ _ "_ # _"] split: if_splits)
      from "1.IH"(2) [OF False reads ReadError e] show ?thesis by (simp add: reads ReadError)
    qed
  qed
qed

lemma receive_frame_uses:
  assumes "receive_frame can_reserve s = (Inr f, t)"
  shows "pending (st_reads t) < pending (st_reads s) \<and> st_writes t = st_writes s \<and> st_sent t = st_sent s"
proof -
  from assms obtain header reads body reads' and h :: frame_header where
    "read_loop FrameHeaderPart 16 [] (st_reads s) = (Inr header, reads)"
    "read_loop FrameBodyPart (fh_body_len h) [] reads = (Inr body, reads')" "t = s\<lparr>st_reads := reads'\<rparr>"
    by (auto simp: receive_frame_def stream_read_exact_def split: sum.splits prod.splits if_splits)
  with read_loop_pending [OF this(1)] read_loop_pending [OF this(2)] show ?thesis by simp
qed

lemma send_frame_reads: "st_reads (snd (send_frame f s)) = st_reads s"
  by (auto simp: send_frame_def stream_write_all_def split: sum.splits prod.splits list.splits option.splits)

lemma send_plist_reads: "st_reads (bs_stream (snd (send_plist body s))) = st_reads (bs_stream s)"
  using send_frame_reads by (auto simp: send_plist_def split: sum.splits prod.splits) (metis snd_conv)+

lemma acknowledge_reads: "st_reads (bs_stream (snd (acknowledge_request i payload s))) = st_reads (bs_stream s)"
  using send_plist_reads
  by (auto simp: acknowledge_request_def split: sum.splits prod.splits option.splits) (metis snd_conv)+

lemma receive_smaller:
  assumes "(r, t) = receive_frame can_reserve (bs_stream s)" "r = Inr f"
  shows "((can_reserve, request_id, s\<lparr>bs_stream := t\<rparr>), can_reserve, request_id, s)
    \<in> measure (\<lambda>(can_reserve, request_id, s). pending (st_reads (bs_stream s)))"
  using assms receive_frame_uses [of can_reserve "bs_stream s" f t] by simp

subsection \<open>Calls\<close>

function call_loop :: "(nat \<Rightarrow> bool) \<Rightarrow> request_id \<Rightarrow> bridge_session \<Rightarrow> (session_error + plist list) \<times> bridge_session" where
  "call_loop can_reserve request_id s =
     (case receive_frame can_reserve (bs_stream s) of
        (Inl e, t) \<Rightarrow> (Inl (SessionTransport e), s\<lparr>bs_stream := t\<rparr>)
      | (Inr f, t) \<Rightarrow>
          if bf_message_type f \<noteq> FRAME_BINARY_PLIST then call_loop can_reserve request_id (s\<lparr>bs_stream := t\<rparr>)
          else (case decode_envelope (bf_body f) of
            Inl e \<Rightarrow> (Inl (SessionRpc e), s\<lparr>bs_stream := t\<rparr>)
          | Inr (RpcReply response_id results) \<Rightarrow>
              if response_id = request_id then (Inr results, s\<lparr>bs_stream := t\<rparr>)
              else call_loop can_reserve request_id (s\<lparr>bs_stream := t\<rparr>)
          | Inr (RpcRequest inbound_id payload) \<Rightarrow>
              (case acknowledge_request inbound_id payload (s\<lparr>bs_stream := t\<rparr>) of
                 (Inl e, s) \<Rightarrow> (Inl e, s)
               | (Inr _, s) \<Rightarrow> call_loop can_reserve request_id s)))"
  by pat_completeness auto

termination
proof (relation "measure (\<lambda>(can_reserve, request_id, s). pending (st_reads (bs_stream s)))")
  fix can_reserve request_id inbound_id payload u and s :: bridge_session and r t f envelope q s'
  assume "(r, t) = receive_frame can_reserve (bs_stream s)" "r = Inr f"
    and "(q, s') = acknowledge_request inbound_id payload (s\<lparr>bs_stream := t\<rparr>)"
  then show "((can_reserve, request_id, s'), can_reserve, request_id, s)
      \<in> measure (\<lambda>(can_reserve, request_id, s). pending (st_reads (bs_stream s)))"
    using receive_frame_uses [of can_reserve "bs_stream s" f t] acknowledge_reads [of inbound_id payload "s\<lparr>bs_stream := t\<rparr>"]
    by (simp add: prod_eq_iff)
qed (rule wf_measure, (erule (1) receive_smaller)+)

definition session_call :: "(nat \<Rightarrow> bool) \<Rightarrow> request_id \<Rightarrow> plist list \<Rightarrow> bridge_session
    \<Rightarrow> (session_error + plist list) \<times> bridge_session" where
  "session_call can_reserve request_id payload s =
     (case encode_rpc_request request_id payload of
        Inl e \<Rightarrow> (Inl (SessionRpc e), s)
      | Inr body \<Rightarrow> (case send_plist body s of
          (Inl e, s) \<Rightarrow> (Inl e, s)
        | (Inr _, s) \<Rightarrow> call_loop can_reserve request_id s))"

function raw_loop :: "(nat \<Rightarrow> bool) \<Rightarrow> bridge_session
    \<Rightarrow> (raw_dictionary_error + (scalars \<times> plist) list) \<times> bridge_session" where
  "raw_loop can_reserve s =
     (case receive_frame can_reserve (bs_stream s) of
        (Inl e, t) \<Rightarrow> (Inl (RawTransport e), s\<lparr>bs_stream := t\<rparr>)
      | (Inr f, t) \<Rightarrow>
          if bf_message_type f = FRAME_BINARY_PLIST
          then (map_err RawRpc (decode_raw_dictionary (bf_body f)), s\<lparr>bs_stream := t\<rparr>)
          else raw_loop can_reserve (s\<lparr>bs_stream := t\<rparr>))"
  by pat_completeness auto

termination
proof (relation "measure (\<lambda>(can_reserve, s). pending (st_reads (bs_stream s)))")
  fix can_reserve :: "nat \<Rightarrow> bool" and s :: bridge_session and r t f
  assume "(r, t) = receive_frame can_reserve (bs_stream s)" "r = Inr f"
  then show "((can_reserve, s\<lparr>bs_stream := t\<rparr>), can_reserve, s)
      \<in> measure (\<lambda>(can_reserve, s). pending (st_reads (bs_stream s)))"
    using receive_frame_uses [of can_reserve "bs_stream s" f t] by simp
qed simp

definition call_raw_dictionary :: "(nat \<Rightarrow> bool) \<Rightarrow> (scalars \<times> plist) list \<Rightarrow> bridge_session
    \<Rightarrow> (raw_dictionary_error + (scalars \<times> plist) list) \<times> bridge_session" where
  "call_raw_dictionary can_reserve request s =
     (case encode_raw_dictionary request of
        Inl e \<Rightarrow> (Inl (RawRpc e), s)
      | Inr body \<Rightarrow> (case bridge_frame_new FRAME_BINARY_PLIST body of
          Inl e \<Rightarrow> (Inl (RawTransport (TransportFrame e)), s)
        | Inr f \<Rightarrow> (case send_frame f (bs_stream s) of
            (Inl e, t) \<Rightarrow> (Inl (RawTransport e), s\<lparr>bs_stream := t\<rparr>)
          | (Inr _, t) \<Rightarrow> raw_loop can_reserve (s\<lparr>bs_stream := t\<rparr>))))"

definition service_inbound_request :: "(nat \<Rightarrow> bool) \<Rightarrow> bridge_session
    \<Rightarrow> (session_error + service_status_event option) \<times> bridge_session" where
  "service_inbound_request can_reserve s =
     (case receive_frame can_reserve (bs_stream s) of
        (Inl e, t) \<Rightarrow> (Inl (SessionTransport e), s\<lparr>bs_stream := t\<rparr>)
      | (Inr f, t) \<Rightarrow>
          if bf_message_type f \<noteq> FRAME_BINARY_PLIST then (Inr None, s\<lparr>bs_stream := t\<rparr>)
          else (case decode_envelope (bf_body f) of
            Inl e \<Rightarrow> (Inl (SessionRpc e), s\<lparr>bs_stream := t\<rparr>)
          | Inr (RpcReply _ _) \<Rightarrow> (Inl UnsolicitedReply, s\<lparr>bs_stream := t\<rparr>)
          | Inr (RpcRequest request_id payload) \<Rightarrow>
              (case handle_inbound_request payload of
                 Inl e \<Rightarrow> (Inl (SessionRpc e), s\<lparr>bs_stream := t\<rparr>)
               | Inr handled \<Rightarrow> (case encode_rpc_reply request_id (ir_reply handled) of
                   Inl e \<Rightarrow> (Inl (SessionRpc e), s\<lparr>bs_stream := t\<rparr>)
                 | Inr body \<Rightarrow> (case send_plist body (s\<lparr>bs_stream := t\<rparr>) of
                     (Inl e, s) \<Rightarrow> (Inl e, s)
                   | (Inr _, s) \<Rightarrow> (Inr (ir_service_event handled), s))))))"

definition take_service_event :: "bridge_session \<Rightarrow> service_status_event option \<times> bridge_session" where
  "take_service_event s =
     (case bs_service_events s of
        [] \<Rightarrow> (None, s)
      | event # events \<Rightarrow> (Some event, s\<lparr>bs_service_events := events\<rparr>))"

subsection \<open>A call as a walk over frames\<close>

definition answer :: "request_id \<Rightarrow> plist list \<Rightarrow> session_error + bridge_frame \<times> service_status_event option" where
  "answer j args =
     rbind (map_err SessionRpc (handle_inbound_request args)) (\<lambda>handled.
     rbind (map_err SessionRpc (encode_rpc_reply j (ir_reply handled))) (\<lambda>body.
       Inr (\<lparr>bf_message_type = FRAME_BINARY_PLIST, bf_body = body\<rparr>, ir_service_event handled)))"

fun event_list :: "'a option \<Rightarrow> 'a list" where
  "event_list None = []"
| "event_list (Some x) = [x]"

text \<open>The frames sent in answer, the events collected, the outcome and the frames left unread.\<close>

fun call_frames :: "request_id \<Rightarrow> bridge_frame list
    \<Rightarrow> bridge_frame list \<times> service_status_event list \<times> (session_error + plist list) \<times> bridge_frame list" where
  "call_frames i [] = ([], [], Inl (SessionTransport ConnectionClosed), [])"
| "call_frames i (f # fs) =
     (if bf_message_type f \<noteq> FRAME_BINARY_PLIST then call_frames i fs
      else case decode_envelope (bf_body f) of
        Inl e \<Rightarrow> ([], [], Inl (SessionRpc e), fs)
      | Inr (RpcReply j results) \<Rightarrow> if j = i then ([], [], Inr results, fs) else call_frames i fs
      | Inr (RpcRequest j args) \<Rightarrow>
          (case answer j args of
             Inl e \<Rightarrow> ([], [], Inl e, fs)
           | Inr (reply, event) \<Rightarrow> (case call_frames i fs of (replies, events, out, rest) \<Rightarrow>
               (reply # replies, event_list event @ events, out, rest))))"

text \<open>A session whose stream accepts every write and carries the given frames.\<close>

definition carries :: "bridge_session \<Rightarrow> bridge_frame list \<Rightarrow> bool" where
  "carries s fs \<longleftrightarrow> list_all (\<lambda>w. w = None) (st_writes (bs_stream s)) \<and> list_all orderly (st_reads (bs_stream s))
     \<and> list_all frame_ok fs \<and> incoming (st_reads (bs_stream s)) = concat (map frame_bytes fs)"

lemma plist_encode_size: "plist_encode v = Inr body \<Longrightarrow> length body \<le> MAX_FRAME_BODY_LEN"
  using plist_encode_document by (auto simp: MAX_PLIST_SIZE_def MAX_FRAME_BODY_LEN_def)

lemma frame_new_ok:
  "length body \<le> MAX_FRAME_BODY_LEN \<Longrightarrow> bridge_frame_new ty body = Inr \<lparr>bf_message_type = ty, bf_body = body\<rparr>"
  by (simp add: bridge_frame_new_def header_new_ok MAX_FRAME_BODY_LEN_def)

lemma send_carries:
  assumes "carries s fs" "frame_ok f"
  shows "\<exists>t. send_frame f (bs_stream s) = (Inr (), t) \<and> carries (s\<lparr>bs_stream := t\<rparr>) fs
    \<and> st_sent t = st_sent (bs_stream s) @ frame_bytes f"
proof -
  have "length (bf_body f) < 2 ^ 64" using assms(2) by (simp add: frame_ok_def MAX_FRAME_BODY_LEN_def)
  with send_accepted [of "bs_stream s" f] assms show ?thesis
    by (auto simp: carries_def list_all_iff dest: in_set_dropD)
qed

lemma send_plist_carries:
  assumes "carries s fs" "plist_encode v = Inr body"
  defines "f \<equiv> \<lparr>bf_message_type = FRAME_BINARY_PLIST, bf_body = body\<rparr>"
  shows "\<exists>t. send_plist body s = (Inr (), s\<lparr>bs_stream := t\<rparr>) \<and> carries (s\<lparr>bs_stream := t\<rparr>) fs
    \<and> st_sent t = st_sent (bs_stream s) @ frame_bytes f"
  using send_carries [OF assms(1), of f] plist_encode_size [OF assms(2)]
  by (auto simp: send_plist_def f_def frame_new_ok frame_ok_def)

lemma receive_carries:
  assumes "carries s (f # fs)"
  shows "\<exists>t. receive_frame (\<lambda>_. True) (bs_stream s) = (Inr f, t) \<and> carries (s\<lparr>bs_stream := t\<rparr>) fs
    \<and> st_sent t = st_sent (bs_stream s)"
proof -
  have "frame_decode_prefix (incoming (st_reads (bs_stream s))) = Inr (f, concat (map frame_bytes fs))"
    using assms by (simp add: carries_def frame_decode_prefix_iff)
  with receive_orderly [of "bs_stream s"] assms show ?thesis by (auto simp: carries_def)
qed

lemma receive_closed:
  assumes "carries s []"
  shows "\<exists>t. receive_frame (\<lambda>_. True) (bs_stream s) = (Inl ConnectionClosed, t) \<and> carries (s\<lparr>bs_stream := t\<rparr>) []
    \<and> st_sent t = st_sent (bs_stream s)"
  using assms read_loop_orderly [of "st_reads (bs_stream s)" "[]" 16 FrameHeaderPart]
  by (auto simp: carries_def receive_frame_def stream_read_exact_def)

lemma acknowledge_carries:
  assumes "carries s fs"
  shows "case answer j args of
      Inl e \<Rightarrow> acknowledge_request j args s = (Inl e, s)
    | Inr (f, event) \<Rightarrow> \<exists>t. acknowledge_request j args s =
          (Inr (), s\<lparr>bs_stream := t, bs_service_events := bs_service_events s @ event_list event\<rparr>)
        \<and> carries (s\<lparr>bs_stream := t, bs_service_events := bs_service_events s @ event_list event\<rparr>) fs
        \<and> st_sent t = st_sent (bs_stream s) @ frame_bytes f"
proof (cases "handle_inbound_request args")
  case (Inr handled)
  show ?thesis
  proof (cases "encode_rpc_reply j (ir_reply handled)")
    case body: (Inr body)
    then obtain v where "plist_encode v = Inr body" by (auto simp: encode_rpc_reply_def encode_envelope_def)
    with send_plist_carries [OF assms] obtain t where "send_plist body s = (Inr (), s\<lparr>bs_stream := t\<rparr>)"
      "carries (s\<lparr>bs_stream := t\<rparr>) fs"
      "st_sent t = st_sent (bs_stream s) @ frame_bytes \<lparr>bf_message_type = FRAME_BINARY_PLIST, bf_body = body\<rparr>" by blast
    with Inr body show ?thesis
      by (cases "ir_service_event handled") (auto simp: answer_def acknowledge_request_def carries_def)
  qed (simp add: answer_def acknowledge_request_def Inr)
qed (simp add: answer_def acknowledge_request_def)

declare call_loop.simps [simp del]

lemma call_loop_frames:
  assumes "carries s fs" "call_frames i fs = (replies, events, out, rest)"
  shows "\<exists>t. call_loop (\<lambda>_. True) i s = (out, s\<lparr>bs_stream := t, bs_service_events := bs_service_events s @ events\<rparr>)
    \<and> st_sent t = st_sent (bs_stream s) @ concat (map frame_bytes replies)
    \<and> list_all orderly (st_reads t) \<and> incoming (st_reads t) = concat (map frame_bytes rest)"
  using assms
proof (induction fs arbitrary: s replies events)
  case Nil
  with receive_closed [OF Nil.prems(1)] show ?case by (subst call_loop.simps) (auto simp: carries_def)
next
  case (Cons f fs)
  from receive_carries [OF Cons.prems(1)] obtain t where t: "receive_frame (\<lambda>_. True) (bs_stream s) = (Inr f, t)"
    "carries (s\<lparr>bs_stream := t\<rparr>) fs" "st_sent t = st_sent (bs_stream s)" by blast
  note step = call_loop.simps [of "\<lambda>_. True" i s]
  show ?case
  proof (cases "bf_message_type f = FRAME_BINARY_PLIST")
    case False
    with Cons.IH [OF t(2)] Cons.prems(2) t show ?thesis by (subst step) simp
  next
    case plist: True
    show ?thesis
    proof (cases "decode_envelope (bf_body f)")
      case (Inl e)
      with plist Cons.prems(2) t show ?thesis by (subst step) (auto simp: carries_def)
    next
      case (Inr envelope)
      show ?thesis
      proof (cases envelope)
        case (RpcReply j results)
        with plist Inr Cons.IH [OF t(2)] Cons.prems(2) t show ?thesis
          by (cases "j = i") (subst step, auto simp: carries_def)+
      next
        case (RpcRequest j args)
        note ack = acknowledge_carries [OF t(2), of j args]
        show ?thesis
        proof (cases "answer j args")
          case e: (Inl e)
          with plist Inr RpcRequest ack Cons.prems(2) t show ?thesis by (subst step) (auto simp: carries_def)
        next
          case a: (Inr a)
          obtain reply event where re: "a = (reply, event)" by (cases a)
          obtain replies' events' where sub: "call_frames i fs = (replies', events', out, rest)"
            "replies = reply # replies'" "events = event_list event @ events'"
            using Cons.prems(2) plist Inr RpcRequest a re by (auto split: prod.splits)
          from ack a re obtain u where u: "acknowledge_request j args (s\<lparr>bs_stream := t\<rparr>) =
              (Inr (), s\<lparr>bs_stream := u, bs_service_events := bs_service_events s @ event_list event\<rparr>)"
            "carries (s\<lparr>bs_stream := u, bs_service_events := bs_service_events s @ event_list event\<rparr>) fs"
            "st_sent u = st_sent t @ frame_bytes reply" by auto
          from Cons.IH [OF u(2) sub(1)] u plist Inr RpcRequest t sub(2,3) show ?thesis by (subst step) auto
        qed
      qed
    qed
  qed
qed

text \<open>A raw exchange returns what the first property list frame holds.\<close>

declare raw_loop.simps [simp del]

lemma raw_loop_frames:
  assumes "carries s (fs @ f # rest)" "list_all (\<lambda>f. bf_message_type f \<noteq> FRAME_BINARY_PLIST) fs"
    "bf_message_type f = FRAME_BINARY_PLIST"
  shows "fst (raw_loop (\<lambda>_. True) s) = map_err RawRpc (decode_raw_dictionary (bf_body f))"
  using assms
proof (induction fs arbitrary: s)
  case Nil
  with receive_carries [of s f rest] show ?case by (subst raw_loop.simps) auto
next
  case (Cons g fs)
  with receive_carries [of s g "fs @ f # rest"] show ?case by (subst raw_loop.simps) auto
qed

lemma session_call_frames:
  assumes "carries s fs" "encode_rpc_request i payload = Inr body" "call_frames i fs = (replies, events, out, rest)"
  shows "\<exists>t. session_call (\<lambda>_. True) i payload s =
      (out, s\<lparr>bs_stream := t, bs_service_events := bs_service_events s @ events\<rparr>)
    \<and> st_sent t = st_sent (bs_stream s) @ frame_bytes \<lparr>bf_message_type = FRAME_BINARY_PLIST, bf_body = body\<rparr>
        @ concat (map frame_bytes replies)
    \<and> list_all orderly (st_reads t) \<and> incoming (st_reads t) = concat (map frame_bytes rest)"
proof -
  from assms(2) obtain v where "plist_encode v = Inr body"
    by (auto simp: encode_rpc_request_def encode_envelope_def split: if_splits)
  with send_plist_carries [OF assms(1)] obtain t where t: "send_plist body s = (Inr (), s\<lparr>bs_stream := t\<rparr>)"
    "carries (s\<lparr>bs_stream := t\<rparr>) fs"
    "st_sent t = st_sent (bs_stream s) @ frame_bytes \<lparr>bf_message_type = FRAME_BINARY_PLIST, bf_body = body\<rparr>" by blast
  with call_loop_frames [OF t(2) assms(3)] assms(2) show ?thesis by (auto simp: session_call_def)
qed

text \<open>Connecting reads one frame and answers with one frame.\<close>

lemma connect_carries:
  assumes "carries \<lparr>bs_stream = st, bs_service_events = []\<rparr> (f # fs)" "bf_message_type f = FRAME_HELLO"
    and "validate_peer_hello (bf_body f) = Inr ()" "encode_hello name = Inr hello"
  shows "\<exists>s. session_connect (\<lambda>_. True) st name = Inr s \<and> carries s fs \<and> bs_service_events s = []
    \<and> st_sent (bs_stream s) = st_sent st @ frame_bytes \<lparr>bf_message_type = FRAME_HELLO, bf_body = hello\<rparr>"
proof -
  let ?h = "\<lparr>bf_message_type = FRAME_HELLO, bf_body = hello\<rparr>"
  from receive_carries [OF assms(1)] obtain t where t: "receive_frame (\<lambda>_. True) st = (Inr f, t)"
    "carries \<lparr>bs_stream = t, bs_service_events = []\<rparr> fs" "st_sent t = st_sent st" by auto
  have h: "length hello \<le> MAX_FRAME_BODY_LEN"
    using encode_hello_bytes(2) [OF assms(4)] by (simp add: MAX_PROCESS_NAME_LEN_def MAX_FRAME_BODY_LEN_def)
  with send_carries [OF t(2), of ?h] obtain u where "send_frame ?h t = (Inr (), u)"
    "carries \<lparr>bs_stream = u, bs_service_events = []\<rparr> fs" "st_sent u = st_sent t @ frame_bytes ?h" by (auto simp: frame_ok_def)
  with t(1,3) assms(2-4) show ?thesis
    by (intro exI [of _ "\<lparr>bs_stream = u, bs_service_events = []\<rparr>"]) (simp add: session_connect_def frame_new_ok [OF h])
qed

subsection \<open>The properties\<close>

text \<open>
  C5. A call is a walk over the frames of the stream.  Whatever pieces the frames arrive in, a call sends its request and
  then does exactly what the walk over the whole frames does: it skips other frames and other replies, answers each
  request of the peer before it reads on, collects the events of the callbacks in their order after those already
  queued, returns the result of the first reply with its identifier, or the first error, and leaves the later frames unread.
\<close>

theorem call_walks_frames:
  assumes "carries s fs" "encode_rpc_request i payload = Inr body" "call_frames i fs = (replies, events, out, rest)"
  shows "\<exists>t. session_call (\<lambda>_. True) i payload s =
      (out, s\<lparr>bs_stream := t, bs_service_events := bs_service_events s @ events\<rparr>)
    \<and> st_sent t = st_sent (bs_stream s) @ frame_bytes \<lparr>bf_message_type = FRAME_BINARY_PLIST, bf_body = body\<rparr>
        @ concat (map frame_bytes replies)
    \<and> incoming (st_reads t) = concat (map frame_bytes rest)"
  using session_call_frames [OF assms] by blast

definition demo_request :: rpc_envelope where
  "demo_request = RpcRequest demo_request_id (set_client_version_request 2)"

definition demo_reply_frame :: bridge_frame where
  "demo_reply_frame = \<lparr>bf_message_type = FRAME_BINARY_PLIST,
     bf_body = plist_document (envelope_value (RpcReply demo_request_id [PInteger 0]))\<rparr>"

definition demo_session :: bridge_session where
  "demo_session = \<lparr>bs_stream = \<lparr>st_reads = [ReadBytes (frame_bytes demo_reply_frame)], st_writes = [], st_sent = []\<rparr>,
     bs_service_events = []\<rparr>"

lemma demo_request_limits: "within_limits (envelope_value demo_request)"
  by (simp add: limits_eval demo_request_def set_client_version_request_def)

lemma demo_request_encodes:
  "encode_rpc_request demo_request_id (set_client_version_request 2) = Inr (plist_document (envelope_value demo_request))"
  using encode_within_limits [OF demo_request_limits] from_uuid_canonical [of "replicate 16 0"]
  by (simp add: encode_rpc_request_def encode_envelope_def envelope_value_def demo_request_def demo_request_id_def)

lemma demo_reply_decodes: "decode_envelope (bf_body demo_reply_frame) = Inr (RpcReply demo_request_id [PInteger 0])"
proof -
  have "plist_ok (envelope_value (RpcReply demo_request_id [PInteger 0]))"
    by (simp add: envelope_value_def demo_request_id literal_def scalar_ok_def)
  from decode_encode [OF this encode_within_limits [OF demo_reply_limits]] show ?thesis
    by (simp add: decode_envelope_iff demo_reply_frame_def)
qed

lemma demo_session_carries: "carries demo_session [demo_reply_frame]"
proof -
  have "frame_ok demo_reply_frame"
    using plist_encode_size [OF encode_within_limits [OF demo_reply_limits]] by (simp add: frame_ok_def demo_reply_frame_def)
  moreover have "frame_bytes demo_reply_frame \<noteq> []" by (simp flip: length_greater_0_conv)
  ultimately show ?thesis by (simp add: carries_def demo_session_def)
qed

theorem call_walks_frames_witness:
  "fst (session_call (\<lambda>_. True) demo_request_id (set_client_version_request 2) demo_session) = Inr [PInteger 0]"
proof -
  have "call_frames demo_request_id [demo_reply_frame] = ([], [], Inr [PInteger 0], [])"
    using demo_reply_decodes by (simp add: demo_reply_frame_def)
  from call_walks_frames [OF demo_session_carries demo_request_encodes this] show ?thesis by auto
qed

text \<open>
  C13. A session opens with one HELLO each way and then carries calls.  When the first frame of the stream is a HELLO that
  the validation accepts and the own name can be encoded, connecting opens a session with no queued event; a first call on
  it behaves as the walk over the frames after the HELLO, and what has been sent by then is the HELLO, the request and
  the answers to the callbacks, in this order.
\<close>

theorem connect_then_call:
  assumes "carries \<lparr>bs_stream = st, bs_service_events = []\<rparr> (f # fs)" "bf_message_type f = FRAME_HELLO"
    and "validate_peer_hello (bf_body f) = Inr ()" "encode_hello name = Inr hello"
    and "encode_rpc_request i payload = Inr body" "call_frames i fs = (replies, events, out, rest)"
  shows "\<exists>s t. session_connect (\<lambda>_. True) st name = Inr s
    \<and> session_call (\<lambda>_. True) i payload s = (out, \<lparr>bs_stream = t, bs_service_events = events\<rparr>)
    \<and> st_sent t = st_sent st @ concat (map frame_bytes (\<lparr>bf_message_type = FRAME_HELLO, bf_body = hello\<rparr>
        # \<lparr>bf_message_type = FRAME_BINARY_PLIST, bf_body = body\<rparr> # replies))
    \<and> incoming (st_reads t) = concat (map frame_bytes rest)"
proof -
  from connect_carries [OF assms(1-4)] obtain s where s: "session_connect (\<lambda>_. True) st name = Inr s" "carries s fs"
    "bs_service_events s = []"
    "st_sent (bs_stream s) = st_sent st @ frame_bytes \<lparr>bf_message_type = FRAME_HELLO, bf_body = hello\<rparr>" by blast
  then have "s = \<lparr>bs_stream = bs_stream s, bs_service_events = []\<rparr>" by simp
  then obtain u where u: "s = \<lparr>bs_stream = u, bs_service_events = []\<rparr>" by blast
  from session_call_frames [OF s(2) assms(5,6)] s show ?thesis by (auto simp: u)
qed

definition demo_hello_frame :: bridge_frame where
  "demo_hello_frame = \<lparr>bf_message_type = FRAME_HELLO, bf_body = demo_hello\<rparr>"

definition demo_peer_stream :: stream where
  "demo_peer_stream = \<lparr>st_reads = [ReadBytes (frame_bytes demo_hello_frame @ frame_bytes demo_reply_frame)], st_writes = [], st_sent = []\<rparr>"

lemma demo_peer_stream_carries: "carries \<lparr>bs_stream = demo_peer_stream, bs_service_events = []\<rparr> [demo_hello_frame, demo_reply_frame]"
proof -
  have "frame_ok demo_hello_frame"
    using encode_hello_bytes(2) [OF demo_hello_written]
    by (simp add: frame_ok_def demo_hello_frame_def MAX_PROCESS_NAME_LEN_def MAX_FRAME_BODY_LEN_def)
  with demo_session_carries show ?thesis by (simp add: carries_def demo_session_def demo_peer_stream_def frame_bytes_def)
qed

theorem connect_then_call_witness:
  "\<exists>s. session_connect (\<lambda>_. True) demo_peer_stream [0x74, 0x31, 0xE9] = Inr s
    \<and> fst (session_call (\<lambda>_. True) demo_request_id (set_client_version_request 2) s) = Inr [PInteger 0]"
proof -
  have "validate_peer_hello (bf_body demo_hello_frame) = Inr ()"
    using own_hello_valid [OF _ demo_hello_written] by (simp add: demo_hello_frame_def scalar_ok_def)
  moreover have "call_frames demo_request_id [demo_reply_frame] = ([], [], Inr [PInteger 0], [])"
    using demo_reply_decodes by (simp add: demo_reply_frame_def)
  moreover have "bf_message_type demo_hello_frame = FRAME_HELLO" by (simp add: demo_hello_frame_def)
  ultimately show ?thesis
    using connect_then_call [OF demo_peer_stream_carries _ _ demo_hello_written demo_request_encodes] by fastforce
qed

text \<open>
  C40. Callbacks are answered under their own identifier.  When a request of the peer has been acknowledged, exactly one
  frame was sent; the peer decodes it as a reply with the identifier of that request, with the status zero exactly for
  a service status callback, whose event is then the last one queued, and with the status of an unsupported method, and
  no event, for every other request.
\<close>

theorem callbacks_are_answered:
  assumes "carries s fs" "decode_envelope data = Inr (RpcRequest j args)" "acknowledge_request j args s = (Inr (), s')"
  shows "\<exists>f results. st_sent (bs_stream s') = st_sent (bs_stream s) @ frame_bytes f
    \<and> decode_envelope (bf_body f) = Inr (RpcReply j results)
    \<and> (if \<exists>event. callback_event args event
       then results = [PInteger 0] \<and> (\<exists>event. callback_event args event
              \<and> bs_service_events s' = bs_service_events s @ [event])
       else results = [PInteger 22] \<and> bs_service_events s' = bs_service_events s)"
proof -
  from acknowledge_carries [OF assms(1), of j args] assms(3) obtain f event where
    a: "answer j args = Inr (f, event)" "st_sent (bs_stream s') = st_sent (bs_stream s) @ frame_bytes f"
    "bs_service_events s' = bs_service_events s @ event_list event"
    by (auto split: sum.splits prod.splits)
  then obtain handled body where h: "handle_inbound_request args = Inr handled" "event = ir_service_event handled"
    "encode_rpc_reply j (ir_reply handled) = Inr body" "f = \<lparr>bf_message_type = FRAME_BINARY_PLIST, bf_body = body\<rparr>"
    by (auto simp: answer_def)
  have handled: "if \<exists>e. callback_event args e
      then \<exists>e. callback_event args e \<and> handled = \<lparr>ir_reply = [PInteger 0], ir_service_event = Some e\<rparr>
      else handled = unsupported_request"
    using inbound_event [OF h(1)] callback_handled h(1) by auto
  then have "elements_ok (ir_reply handled)" by (auto simp: unsupported_request_def split: if_splits)
  with decode_envelope_ok [OF assms(2)] h(3) have "decode_envelope body = Inr (RpcReply j (ir_reply handled))"
    using envelope_codec.dec_enc [of "RpcReply j (ir_reply handled)"] by (simp add: encode_rpc_def)
  with a h handled show ?thesis
    by (intro exI [of _ f] exI [of _ "ir_reply handled"]) (auto simp: unsupported_request_def split: if_splits)
qed

lemma demo_request_decodes:
  "decode_envelope (plist_document (envelope_value demo_request)) = Inr (RpcRequest demo_request_id (set_client_version_request 2))"
proof -
  have "plist_ok (envelope_value demo_request)"
    by (simp add: envelope_value_def demo_request_def set_client_version_request_def demo_request_id literal_def scalar_ok_def)
  from decode_encode [OF this encode_within_limits [OF demo_request_limits]] show ?thesis
    by (simp add: decode_envelope_iff demo_request_def)
qed

lemma demo_unknown_acknowledged:
  "\<exists>s'. acknowledge_request demo_request_id (set_client_version_request 2) demo_session = (Inr (), s')"
proof -
  have "within_limits (envelope_value (RpcReply demo_request_id [PInteger 22]))" by (simp add: limits_eval)
  from encode_within_limits [OF this]
  have "\<exists>f event. answer demo_request_id (set_client_version_request 2) = Inr (f, event)"
    by (simp add: answer_def set_client_version_request_def handle_inbound_request_def unsupported_request_def
        encode_rpc_reply_def encode_envelope_def envelope_value_def)
  with acknowledge_carries [OF demo_session_carries] show ?thesis by (fastforce split: sum.splits prod.splits)
qed

theorem callbacks_are_answered_witness:
  "\<exists>s' f. acknowledge_request demo_request_id (set_client_version_request 2) demo_session = (Inr (), s')
    \<and> st_sent (bs_stream s') = frame_bytes f \<and> decode_envelope (bf_body f) = Inr (RpcReply demo_request_id [PInteger 22])"
proof -
  obtain s' where s': "acknowledge_request demo_request_id (set_client_version_request 2) demo_session = (Inr (), s')"
    using demo_unknown_acknowledged by blast
  have "\<not> callback_event (set_client_version_request 2) event" for event
    by (simp add: callback_event_def set_client_version_request_def)
  with callbacks_are_answered [OF demo_session_carries demo_request_decodes s'] s' show ?thesis
    by (auto simp: demo_session_def)
qed

end
