(* ===== verification/Bio_Commands.thy ===== *)
theory Bio_Commands
  imports Bio_Mesa Bridge_Session
begin

section \<open>Commands of the fingerprint sensor\<close>

text \<open>
  Models the command packets of \<^verbatim>\<open>crates/t1-bridge/src/commands.rs\<close> that the workflows send, with the header of
  \<^verbatim>\<open>biometric.rs\<close>, the user identifier and authorization block of \<^verbatim>\<open>policy.rs\<close>, the responses of \<^verbatim>\<open>biometric.rs\<close> and
  \<^verbatim>\<open>catacomb.rs\<close> that they parse, and the transport of \<^verbatim>\<open>control.rs\<close> that executes a command as a call of a bridge session.
  Wiping a dropped buffer has no effect on values; the flag that asks for it is kept.
  The lemmas give the code of every command, characterise the identity lists that are accepted and show that executing a
  command over a session returns what the reply to its request carries.
\<close>

subsection \<open>Users and authorization\<close>

datatype configuration_kind = SystemConfiguration | UserConfiguration

datatype mesa_policy_error =
    InvalidConfigurationLength configuration_kind nat nat
  | InvalidCredentialLength nat
  | UserIdOutOfRange
  | UnrecognizedPolicyValue
  | PolicyReadbackMismatch

type_synonym biometric_user_id = u32

definition biometric_user_new :: "int \<Rightarrow> mesa_policy_error + biometric_user_id" where
  "biometric_user_new value =
     (if value < 0 \<or> 2 ^ 32 \<le> value then Inl UserIdOutOfRange
      else let raw = word_of_int value :: u32 in
        if raw > 0x7FFFFFFF then Inl UserIdOutOfRange else Inr raw)"

definition encode_authorization :: "bytes option \<Rightarrow> mesa_policy_error + bytes" where
  "encode_authorization credential_set =
     (case credential_set of
        None \<Rightarrow> Inr (to_le 4 (1 :: u32) @ replicate 36 0)
      | Some credential \<Rightarrow>
          if length credential \<noteq> 16 then Inl (InvalidCredentialLength (length credential))
          else Inr (to_le 4 (0 :: u32) @ to_le 4 (16 :: u32) @ credential @ replicate 16 0))"

subsection \<open>Catacomb state and daemon information\<close>

datatype catacomb_response_kind = CatacombIdResponse | CatacombHashResponse | TemplateListCrcResponse | SecureExportSizeResponse

datatype catacomb_error =
    InvalidCatacombResponseLength catacomb_response_kind nat nat
  | ImplausibleCatacombCount u32 u32
  | StateCapacityOverflow u32
  | MisalignedStateResponse nat nat
  | StateResponseExceedsCapacity nat nat
  | InvalidSecureCatacombSize u64 nat
  | SecureExportSizeMismatch nat nat

record catacomb_state_entry =
  cse_user_id :: u32
  cse_state :: u32

definition MAX_CATACOMB_COMPONENTS :: u32 where "MAX_CATACOMB_COMPONENTS = 64"
definition CATACOMB_STATE_ENTRY_SIZE :: nat where [simp]: "CATACOMB_STATE_ENTRY_SIZE = 8"
definition DAEMON_INFO_SIZE :: nat where [simp]: "DAEMON_INFO_SIZE = 23"

definition catacomb_state_response_capacity :: "u32 \<Rightarrow> catacomb_error + nat" where
  "catacomb_state_response_capacity component_count =
     (if component_count > MAX_CATACOMB_COMPONENTS then Inl (ImplausibleCatacombCount component_count MAX_CATACOMB_COMPONENTS)
      else let capacity = (unat component_count + 1) * CATACOMB_STATE_ENTRY_SIZE in
        if capacity \<ge> 2 ^ 64 then Inl (StateCapacityOverflow component_count) else Inr capacity)"

definition parse_catacomb_states :: "bytes \<Rightarrow> u32 \<Rightarrow> catacomb_error + catacomb_state_entry list" where
  "parse_catacomb_states response component_count =
     rbind (catacomb_state_response_capacity component_count) (\<lambda>capacity.
       if length response mod CATACOMB_STATE_ENTRY_SIZE \<noteq> 0
       then Inl (MisalignedStateResponse (length response) CATACOMB_STATE_ENTRY_SIZE)
       else if length response > capacity then Inl (StateResponseExceedsCapacity (length response) capacity)
       else Inr (map (\<lambda>entry. \<lparr>cse_user_id = read_u32 entry 0, cse_state = read_u32 entry 4\<rparr>)
         (chunks CATACOMB_STATE_ENTRY_SIZE response)))"

datatype response_kind = CalibrationStatusResponse | XartAvailabilityResponse | ModuleSerialResponse | DaemonInfoResponse

datatype mesa_response_error =
    InvalidLength response_kind nat nat
  | InvalidXartAvailability
  | InvalidModuleSerial
  | ImplausibleComponentCount u32 u32
  | InvalidCalibrationLoadedFlag

record daemon_info =
  di_component_count :: u32
  di_identity_capacity :: u32
  di_calibration_data_loaded :: bool

definition require_response_length :: "bytes \<Rightarrow> nat \<Rightarrow> response_kind \<Rightarrow> mesa_response_error + unit" where
  "require_response_length response expected kind =
     (if length response \<noteq> expected then Inl (InvalidLength kind expected (length response)) else Inr ())"

definition parse_daemon_info :: "bytes \<Rightarrow> mesa_response_error + daemon_info" where
  "parse_daemon_info response =
     rbind (require_response_length response DAEMON_INFO_SIZE DaemonInfoResponse) (\<lambda>_.
       let component_count = read_u32 response 0 in
       if component_count > MAX_CATACOMB_COMPONENTS
       then Inl (ImplausibleComponentCount component_count MAX_CATACOMB_COMPONENTS)
       else let identity_capacity = read_u32 response 4; flag = response ! 22 in
         if flag = 0 \<or> flag = 1
         then Inr \<lparr>di_component_count = component_count, di_identity_capacity = identity_capacity,
                di_calibration_data_loaded = (flag = 1)\<rparr>
         else Inl InvalidCalibrationLoadedFlag)"

subsection \<open>Command packets\<close>

datatype command_response_kind = SksLockStateResponse

datatype command_error =
    CalibrationDataTooLarge nat nat
  | UnexpectedResponseData nat
  | InvalidCommandResponseLength command_response_kind nat nat
  | MisalignedIdentityList nat nat
  | IdentityListExceedsCapacity nat nat
  | CommandPolicy mesa_policy_error
  | CommandCatacomb catacomb_error

definition BIOMETRIC_MAGIC :: u16 where "BIOMETRIC_MAGIC = 0x4d42"
definition IDENTITY_LIST_CAPACITY :: nat where [simp]: "IDENTITY_LIST_CAPACITY = 5 * IDENTITY_V1_SIZE"

definition command_header_encode :: "u16 \<Rightarrow> u16 \<Rightarrow> u16 \<Rightarrow> bytes" where
  "command_header_encode command version parameter =
     to_le 2 BIOMETRIC_MAGIC @ to_le 2 command @ to_le 2 version @ to_le 2 parameter"

definition command_with_sensitive_value_and_payload :: "u16 \<Rightarrow> u16 \<Rightarrow> bytes \<Rightarrow> nat \<Rightarrow> bool \<Rightarrow> command_packet" where
  "command_with_sensitive_value_and_payload code parameter payload response_capacity wipe_on_drop =
     \<lparr>cp_request = command_header_encode code 1 parameter @ payload, cp_response_capacity = response_capacity,
      cp_wipe_on_drop = wipe_on_drop\<rparr>"

definition command_with_payload :: "u16 \<Rightarrow> bytes \<Rightarrow> nat \<Rightarrow> command_packet" where
  "command_with_payload code payload response_capacity =
     command_with_sensitive_value_and_payload code 0 payload response_capacity False"

definition user_command :: "u16 \<Rightarrow> u32 \<Rightarrow> nat \<Rightarrow> command_packet" where
  "user_command code user_id response_capacity = command_with_payload code (to_le 4 user_id) response_capacity"

definition daemon_info_command :: command_packet where
  "daemon_info_command = command_with_payload 0x28 [] DAEMON_INFO_SIZE"

definition identities_command :: "biometric_user_id \<Rightarrow> command_packet" where
  "identities_command user_id = user_command 0x42 user_id IDENTITY_LIST_CAPACITY"

definition remove_identity_command :: "mesa_identity \<Rightarrow> command_packet" where
  "remove_identity_command identity = command_with_payload 0x0d (identity_descriptor identity) 0"

definition active_user_wire_value :: "int \<Rightarrow> command_error + u32" where
  "active_user_wire_value user_id =
     (if user_id = -1 then Inr (-1) else map_err CommandPolicy (biometric_user_new user_id))"

definition set_active_user_command :: "int \<Rightarrow> command_error + command_packet" where
  "set_active_user_command user_id =
     rbind (active_user_wire_value user_id) (\<lambda>raw_user. Inr (user_command 0x31 raw_user 0))"

definition remove_user_command :: "biometric_user_id \<Rightarrow> command_packet" where
  "remove_user_command user_id = user_command 0x48 user_id 0"

definition catacomb_states_command :: "u32 \<Rightarrow> command_error + command_packet" where
  "catacomb_states_command component_count =
     rbind (map_err CommandCatacomb (catacomb_state_response_capacity component_count)) (\<lambda>capacity.
       Inr (command_with_payload 0x3c [] capacity))"

definition start_enrollment_command :: "biometric_user_id \<Rightarrow> bytes option \<Rightarrow> command_error + command_packet" where
  "start_enrollment_command user_id credential_set =
     rbind (map_err CommandPolicy (encode_authorization credential_set)) (\<lambda>authorization.
       Inr (command_with_sensitive_value_and_payload 0x03 1 (replicate 4 0 @ to_le 4 user_id @ authorization) 0
         (credential_set \<noteq> None)))"

definition continue_enrollment_command :: command_packet where
  "continue_enrollment_command = command_with_payload 0x0e [] 0"

definition start_match_command :: "biometric_user_id \<Rightarrow> command_packet" where
  "start_match_command user_id = command_with_payload 0x04 (replicate 4 0 @ to_le 4 user_id @ replicate 60 0) 0"

definition cancel_operation_command :: command_packet where
  "cancel_operation_command = command_with_payload 0x0c [] 0"

definition validate_empty_response :: "bytes \<Rightarrow> command_error + unit" where
  "validate_empty_response response = (if response = [] then Inr () else Inl (UnexpectedResponseData (length response)))"

definition validate_identity_list_response :: "bytes \<Rightarrow> command_error + unit" where
  "validate_identity_list_response response =
     (if length response mod IDENTITY_V1_SIZE \<noteq> 0 then Inl (MisalignedIdentityList (length response) IDENTITY_V1_SIZE)
      else if length response > IDENTITY_LIST_CAPACITY
      then Inl (IdentityListExceedsCapacity (length response) IDENTITY_LIST_CAPACITY)
      else Inr ())"

text \<open>The command code of a packet tells the commands apart.\<close>

definition command_code :: "command_packet \<Rightarrow> u16" where
  "command_code p = from_le (slice 2 4 (cp_request p))"

lemma command_code_of [simp]: "command_code (command_with_sensitive_value_and_payload code v payload n w) = code"
  by (simp add: command_code_def command_with_sensitive_value_and_payload_def command_header_encode_def slice_def)

lemma command_codes [simp]:
  "command_code (start_match_command u) = 0x04" "command_code cancel_operation_command = 0x0c"
  "command_code continue_enrollment_command = 0x0e" "command_code (identities_command u) = 0x42"
  "command_code (remove_user_command u) = 0x48" "command_code daemon_info_command = 0x28"
  "command_code (remove_identity_command i) = 0x0d"
  by (simp_all add: start_match_command_def cancel_operation_command_def continue_enrollment_command_def identities_command_def
      remove_user_command_def daemon_info_command_def remove_identity_command_def user_command_def command_with_payload_def)

lemma result_command_codes [simp]:
  "start_enrollment_command u c = Inr p \<Longrightarrow> command_code p = 0x03"
  "set_active_user_command i = Inr p \<Longrightarrow> command_code p = 0x31"
  "catacomb_states_command n = Inr p \<Longrightarrow> command_code p = 0x3c"
  by (auto simp: start_enrollment_command_def set_active_user_command_def catacomb_states_command_def user_command_def
      command_with_payload_def)

lemma validate_empty_Inr [simp]: "validate_empty_response r = Inr u \<longleftrightarrow> r = []"
  by (auto simp: validate_empty_response_def)

subsection \<open>Parsed identity lists\<close>

text \<open>\<^verbatim>\<open>collect\<close> of an iterator of results: the first error, or all values.\<close>

fun collect_results :: "('e + 'a) list \<Rightarrow> 'e + 'a list" where
  "collect_results [] = Inr []"
| "collect_results (r # rs) = rbind r (\<lambda>x. rbind (collect_results rs) (\<lambda>xs. Inr (x # xs)))"

text \<open>The records of a response whose length is a multiple of the record size: its pieces of that size.\<close>

definition parse_identities :: "bytes \<Rightarrow> mesa_error + mesa_identity list" where
  "parse_identities response = collect_results (map parse_identity (chunks IDENTITY_V1_SIZE response))"

lemma collect_results_iff: "collect_results (map f xs) = Inr ys \<longleftrightarrow> list_all2 (\<lambda>x y. f x = Inr y) xs ys"
  by (induction xs arbitrary: ys) (auto simp: list_all2_Cons1)

lemma length_identity_descriptor: "mesa_identity_ok i \<Longrightarrow> length (identity_descriptor i) = 20"
  by (simp add: mesa_identity_ok_def identity_descriptor_def)

lemma parse_identities_iff:
  assumes "length response mod 20 = 0"
  shows "parse_identities response = Inr ids \<longleftrightarrow> list_all mesa_identity_ok ids \<and> response = concat (map identity_descriptor ids)"
proof -
  have "parse_identities response = Inr ids \<longleftrightarrow>
      list_all mesa_identity_ok ids \<and> chunks 20 response = map identity_descriptor ids"
    by (auto simp: parse_identities_def collect_results_iff parse_identity_iff list_all2_conv_all_nth list_all_length
        intro!: nth_equalityI)
  also have "\<dots> \<longleftrightarrow> list_all mesa_identity_ok ids \<and> response = concat (map identity_descriptor ids)"
  proof -
    have "concat (chunks 20 response) = response" using assms by (intro concat_chunks) (simp_all add: mod_eq_0_iff_dvd)
    moreover have "list_all mesa_identity_ok ids \<Longrightarrow> chunks 20 (concat (map identity_descriptor ids)) = map identity_descriptor ids"
      by (intro chunks_concat) (auto simp: list_all_iff length_identity_descriptor)
    ultimately show ?thesis by metis
  qed
  finally show ?thesis .
qed

subsection \<open>The transport over a bridge session\<close>

datatype bridge_command_error =
    RequestIdUnavailable
  | CommandSession session_error
  | CommandRpc rpc_error
  | ClientVersionNotSelected
  | ClientVersionAlreadySelected

record session_transport =
  sx_session :: bridge_session
  sx_request_ids :: "request_id list"
  sx_client_version_selected :: bool

definition transport_call :: "(nat \<Rightarrow> bool) \<Rightarrow> plist list \<Rightarrow> session_transport
    \<Rightarrow> (bridge_command_error + plist list) \<times> session_transport" where
  "transport_call can_reserve payload x =
     (case sx_request_ids x of
        [] \<Rightarrow> (Inl RequestIdUnavailable, x)
      | request_id # ids \<Rightarrow> (case session_call can_reserve request_id payload (sx_session x) of
          (result, s) \<Rightarrow> (map_err CommandSession result, x\<lparr>sx_session := s, sx_request_ids := ids\<rparr>)))"

definition select_client_version :: "(nat \<Rightarrow> bool) \<Rightarrow> session_transport \<Rightarrow> (bridge_command_error + unit) \<times> session_transport" where
  "select_client_version can_reserve x =
     (if sx_client_version_selected x then (Inl ClientVersionAlreadySelected, x)
      else case transport_call can_reserve (set_client_version_request 2) x of
        (Inl e, x) \<Rightarrow> (Inl e, x)
      | (Inr result, x) \<Rightarrow> (case validate_set_client_version_result result of
          Inl e \<Rightarrow> (Inl (CommandRpc e), x)
        | Inr _ \<Rightarrow> (Inr (), x\<lparr>sx_client_version_selected := True\<rparr>)))"

definition session_execute :: "(nat \<Rightarrow> bool) \<Rightarrow> command_packet \<Rightarrow> session_transport
    \<Rightarrow> (bridge_command_error + bytes) \<times> session_transport" where
  "session_execute can_reserve packet x =
     (if \<not> sx_client_version_selected x then (Inl ClientVersionNotSelected, x)
      else case transport_call can_reserve (perform_biometric_command_request packet) x of
        (Inl e, x) \<Rightarrow> (Inl e, x)
      | (Inr result, x) \<Rightarrow> (map_err CommandRpc (parse_biometric_command_result packet result), x))"

text \<open>A command on a session is one call: the response is what the reply to its request carries.\<close>

lemma execute_over_session:
  assumes "carries (sx_session x) fs" "sx_client_version_selected x" "sx_request_ids x = i # ids"
    and "encode_rpc_request i (perform_biometric_command_request packet) = Inr body"
    and "call_frames i fs = (replies, events, Inr results, rest)"
  shows "\<exists>s. session_execute (\<lambda>_. True) packet x =
      (map_err CommandRpc (parse_biometric_command_result packet results), x\<lparr>sx_session := s, sx_request_ids := ids\<rparr>)
    \<and> st_sent (bs_stream s) = st_sent (bs_stream (sx_session x))
        @ concat (map frame_bytes (\<lparr>bf_message_type = FRAME_BINARY_PLIST, bf_body = body\<rparr> # replies))
    \<and> bs_service_events s = bs_service_events (sx_session x) @ events"
  using session_call_frames [OF assms(1,4,5)] assms(2,3) by (auto simp: session_execute_def transport_call_def)

end
