(* ===== verification/Bio_Workflow.thy ===== *)
theory Bio_Workflow
  imports Bio_Commands Auth_Session
begin

section \<open>Fingerprint workflows\<close>

text \<open>
  Models \<^verbatim>\<open>crates/t1-bridge/src/match_workflow.rs\<close> (one fingerprint match), \<^verbatim>\<open>enroll_workflow.rs\<close> (one enrollment) and
  \<^verbatim>\<open>user_workflow.rs\<close> (preparing and rebinding a user). The transport is the caller's: the function that executes a
  command on its state is an argument of every workflow. The event source is the list of the results its calls will
  give; a workflow that has used them all up is still waiting, which is the result \<open>None\<close>.
  The interface \<open>command_transport\<close> is a transport that keeps the commands it was given on top of another one; every
  transport gives one by recording its exchanges.
\<close>

subsection \<open>Transports\<close>

type_synonym ('x, 't) executor = "command_packet \<Rightarrow> 't \<Rightarrow> ('x + bytes) \<times> 't"

text \<open>Sequencing of steps on the transport; the first error ends the workflow.\<close>

definition andthen :: "('t \<Rightarrow> ('e + 'a) \<times> 't) \<Rightarrow> ('a \<Rightarrow> 't \<Rightarrow> ('e + 'b) \<times> 't) \<Rightarrow> 't \<Rightarrow> ('e + 'b) \<times> 't" where
  "andthen m f t = (case m t of (Inl e, t) \<Rightarrow> (Inl e, t) | (Inr x, t) \<Rightarrow> f x t)"

definition check :: "'e + 'a \<Rightarrow> 't \<Rightarrow> ('e + 'a) \<times> 't" where
  "check r t = (r, t)"

definition run_command :: "('x \<Rightarrow> 'e) \<Rightarrow> ('x, 't) executor \<Rightarrow> command_packet \<Rightarrow> 't \<Rightarrow> ('e + bytes) \<times> 't" where
  "run_command wrap execute packet t = (case execute packet t of (r, t) \<Rightarrow> (map_err wrap r, t))"

text \<open>A transport with the record of its exchanges: the commands it was given and their results.\<close>

type_synonym 'x exchange = "command_packet \<times> ('x + bytes)"

definition logged :: "('x, 't) executor \<Rightarrow> ('x, 't \<times> 'x exchange list) executor" where
  "logged execute packet s = (case s of (t, history) \<Rightarrow> case execute packet t of (r, t) \<Rightarrow> (r, t, history @ [(packet, r)]))"

text \<open>
  A transport that keeps the commands it was given, on top of a transport it does not disturb: the interface the lemmas
  about workflows rest on.
\<close>

locale command_transport =
  fixes execute :: "('x, 't) executor"
    and commands :: "'t \<Rightarrow> command_packet list"
    and base :: "('x, 's) executor"
    and under :: "'t \<Rightarrow> 's"
  assumes commands_execute: "commands (snd (execute packet t)) = commands t @ [packet]"
    and result_execute: "fst (execute packet t) = fst (base packet (under t))"
    and under_execute: "under (snd (execute packet t)) = snd (base packet (under t))"

interpretation logged: command_transport "logged execute" "map fst \<circ> snd" execute fst for execute
  by unfold_locales (simp_all add: logged_def split: prod.splits)

subsection \<open>Matching\<close>

datatype match_event = MatchCallback service_status_event | MatchEventCancelled | MatchEventTimedOut

datatype identity_match_outcome = IdentityMatched identity_identifier | IdentityNoMatch | IdentityCancelled | IdentityTimedOut

datatype ('x, 'v) match_workflow_error =
    NoEnrolledIdentities
  | MatchIdentityForWrongUser
  | MatchCommand command_error
  | MatchMesa mesa_error
  | MatchTransport 'x
  | MatchEventError 'v
  | CleanupTransport 'x
  | CleanupCommand command_error

datatype 'v wait_error = WaitEvent 'v | WaitMesa mesa_error

datatype 'x cleanup_error = CleanupTransportError 'x | CleanupCommandError command_error

fun wait_for_outcome :: "('v + match_event) list \<Rightarrow> int \<Rightarrow> mesa_identity list
    \<Rightarrow> ('v wait_error + identity_match_outcome) option \<times> ('v + match_event) list" where
  "wait_for_outcome [] requested_user_id identities = (None, [])"
| "wait_for_outcome (Inl e # events) requested_user_id identities = (Some (Inl (WaitEvent e)), events)"
| "wait_for_outcome (Inr MatchEventCancelled # events) requested_user_id identities = (Some (Inr IdentityCancelled), events)"
| "wait_for_outcome (Inr MatchEventTimedOut # events) requested_user_id identities = (Some (Inr IdentityTimedOut), events)"
| "wait_for_outcome (Inr (MatchCallback event) # events) requested_user_id identities =
     (case parse_mesa_message event of
        Inl e \<Rightarrow> (Some (Inl (WaitMesa e)), events)
      | Inr None \<Rightarrow> wait_for_outcome events requested_user_id identities
      | Inr (Some message) \<Rightarrow> (case evaluate_matched_identity message requested_user_id identities of
          Inl e \<Rightarrow> (Some (Inl (WaitMesa e)), events)
        | Inr None \<Rightarrow> wait_for_outcome events requested_user_id identities
        | Inr (Some (Some identifier)) \<Rightarrow> (Some (Inr (IdentityMatched identifier)), events)
        | Inr (Some None) \<Rightarrow> (Some (Inr IdentityNoMatch), events)))"

definition cancel_match :: "('x, 't) executor \<Rightarrow> 't \<Rightarrow> ('x cleanup_error + unit) \<times> 't" where
  "cancel_match execute =
     andthen (run_command CleanupTransportError execute cancel_operation_command) (\<lambda>response.
       check (map_err CleanupCommandError (validate_empty_response response)))"

text \<open>The checks before the first command: the enrolled identities, all of them of the requested user.\<close>

definition match_identities :: "biometric_user_id \<Rightarrow> bytes \<Rightarrow> ('x, 'v) match_workflow_error + mesa_identity list" where
  "match_identities user_id identity_response =
     rbind (map_err MatchCommand (validate_identity_list_response identity_response)) (\<lambda>_.
       if identity_response = [] then Inl NoEnrolledIdentities
       else rbind (map_err MatchMesa (parse_identities identity_response)) (\<lambda>identities.
         if list_ex (\<lambda>identity. mi_user_id identity \<noteq> sint user_id) identities then Inl MatchIdentityForWrongUser
         else Inr identities))"

definition start_match :: "('x, 't) executor \<Rightarrow> biometric_user_id \<Rightarrow> 't \<Rightarrow> (('x, 'v) match_workflow_error + unit) \<times> 't" where
  "start_match execute user_id =
     andthen (run_command MatchTransport execute (start_match_command user_id)) (\<lambda>response.
       check (map_err MatchCommand (validate_empty_response response)))"

fun match_result :: "'v wait_error + identity_match_outcome \<Rightarrow> 'x cleanup_error + unit
    \<Rightarrow> ('x, 'v) match_workflow_error + identity_match_outcome" where
  "match_result (Inl (WaitEvent e)) cleanup = Inl (MatchEventError e)"
| "match_result (Inl (WaitMesa e)) cleanup = Inl (MatchMesa e)"
| "match_result (Inr outcome) (Inr _) = Inr outcome"
| "match_result (Inr outcome) (Inl (CleanupTransportError e)) = Inl (CleanupTransport e)"
| "match_result (Inr outcome) (Inl (CleanupCommandError e)) = Inl (CleanupCommand e)"

definition match_fingerprint_identified :: "('x, 't) executor \<Rightarrow> ('v + match_event) list \<Rightarrow> biometric_user_id \<Rightarrow> bytes \<Rightarrow> 't
    \<Rightarrow> (('x, 'v) match_workflow_error + identity_match_outcome) option \<times> ('v + match_event) list \<times> 't" where
  "match_fingerprint_identified execute events user_id identity_response t =
     (case match_identities user_id identity_response of
        Inl e \<Rightarrow> (Some (Inl e), events, t)
      | Inr identities \<Rightarrow> (case start_match execute user_id t of
          (Inl e, t) \<Rightarrow> (Some (Inl e), events, snd (cancel_match execute t))
        | (Inr _, t) \<Rightarrow> (case wait_for_outcome events (sint user_id) identities of
            (None, events) \<Rightarrow> (None, events, t)
          | (Some wait_result, events) \<Rightarrow> (case cancel_match execute t of
              (cleanup_result, t) \<Rightarrow> (Some (match_result wait_result cleanup_result), events, t)))))"

fun plain_outcome :: "identity_match_outcome \<Rightarrow> match_outcome" where
  "plain_outcome (IdentityMatched identifier) = MatchMatched"
| "plain_outcome IdentityNoMatch = MatchNoMatch"
| "plain_outcome IdentityCancelled = MatchCancelled"
| "plain_outcome IdentityTimedOut = MatchTimedOut"

definition match_fingerprint :: "('x, 't) executor \<Rightarrow> ('v + match_event) list \<Rightarrow> biometric_user_id \<Rightarrow> bytes \<Rightarrow> 't
    \<Rightarrow> (('x, 'v) match_workflow_error + match_outcome) option \<times> ('v + match_event) list \<times> 't" where
  "match_fingerprint execute events user_id identity_response t =
     (case match_fingerprint_identified execute events user_id identity_response t of
        (out, events, t) \<Rightarrow> (map_option (map_sum id plain_outcome) out, events, t))"

subsection \<open>Enrollment\<close>

datatype enrollment_event = EnrollmentServiceStatus service_status_event | EnrollmentEventTimedOut

datatype enrollment_outcome = EnrollmentCompleted identity_identifier | EnrollmentTimedOut

datatype enrollment_stage = StageStart | StageContinue | StageIdentityList | StageCancel

datatype ('x, 'v) enrollment_error =
    EnrollmentCommand enrollment_stage command_error
  | EnrollmentTransport enrollment_stage 'x
  | EnrollmentEventError 'v
  | EnrollmentMesa mesa_error
  | CompletedIdentityAbsent

definition enrollment_execute :: "('x, 't) executor \<Rightarrow> command_packet \<Rightarrow> enrollment_stage
    \<Rightarrow> 't \<Rightarrow> (('x, 'v) enrollment_error + bytes) \<times> 't" where
  "enrollment_execute execute packet stage = run_command (EnrollmentTransport stage) execute packet"

definition validate_response :: "enrollment_stage \<Rightarrow> bytes \<Rightarrow> ('x, 'v) enrollment_error + unit" where
  "validate_response stage response = map_err (EnrollmentCommand stage) (validate_empty_response response)"

definition verify_fresh_identity :: "('x, 't) executor \<Rightarrow> biometric_user_id \<Rightarrow> identity_identifier
    \<Rightarrow> 't \<Rightarrow> (('x, 'v) enrollment_error + unit) \<times> 't" where
  "verify_fresh_identity execute user identifier =
     andthen (enrollment_execute execute (identities_command user) StageIdentityList) (\<lambda>response. check (
       rbind (map_err (EnrollmentCommand StageIdentityList) (validate_identity_list_response response)) (\<lambda>_.
       rbind (map_err EnrollmentMesa (parse_identities response)) (\<lambda>identities.
         if list_ex (\<lambda>identity. mi_user_id identity = sint user \<and> mi_identifier identity = identifier) identities
         then Inr () else Inl CompletedIdentityAbsent))))"

definition continue_enrollment :: "('x, 't) executor \<Rightarrow> 't \<Rightarrow> (('x, 'v) enrollment_error + unit) \<times> 't" where
  "continue_enrollment execute =
     andthen (enrollment_execute execute continue_enrollment_command StageContinue) (\<lambda>response.
       check (validate_response StageContinue response))"

text \<open>The loop also returns the values that the progress callback receives when there is one.\<close>

fun wait_for_completion :: "('x, 't) executor \<Rightarrow> bool \<Rightarrow> biometric_user_id \<Rightarrow> ('v + enrollment_event) list \<Rightarrow> u64 list \<Rightarrow> 't
    \<Rightarrow> (('x, 'v) enrollment_error + enrollment_outcome) option \<times> ('v + enrollment_event) list \<times> u64 list \<times> 't" where
  "wait_for_completion execute has_progress user [] reported t = (None, [], reported, t)"
| "wait_for_completion execute has_progress user (Inl e # events) reported t = (Some (Inl (EnrollmentEventError e)), events, reported, t)"
| "wait_for_completion execute has_progress user (Inr EnrollmentEventTimedOut # events) reported t =
     (Some (Inr EnrollmentTimedOut), events, reported, t)"
| "wait_for_completion execute has_progress user (Inr (EnrollmentServiceStatus event) # events) reported t =
     (case parse_mesa_message event of
        Inl e \<Rightarrow> (Some (Inl (EnrollmentMesa e)), events, reported, t)
      | Inr None \<Rightarrow> wait_for_completion execute has_progress user events reported t
      | Inr (Some message) \<Rightarrow>
          if enrollment_needs_continue message then
            (let reported = if has_progress then reported @ [mm_in_value message] else reported in
             case continue_enrollment execute t of
               (Inl e, t) \<Rightarrow> (Some (Inl e), events, reported, t)
             | (Inr _, t) \<Rightarrow> wait_for_completion execute has_progress user events reported t)
          else (case enrollment_completion message (sint user) of
            Inl e \<Rightarrow> (Some (Inl (EnrollmentMesa e)), events, reported, t)
          | Inr None \<Rightarrow> wait_for_completion execute has_progress user events reported t
          | Inr (Some identifier) \<Rightarrow> (case verify_fresh_identity execute user identifier t of
              (Inl e, t) \<Rightarrow> (Some (Inl e), events, reported, t)
            | (Inr _, t) \<Rightarrow> (Some (Inr (EnrollmentCompleted identifier)), events, reported, t))))"

definition cancel_required :: "('x, 't) executor \<Rightarrow> 't \<Rightarrow> (('x, 'v) enrollment_error + unit) \<times> 't" where
  "cancel_required execute =
     andthen (enrollment_execute execute cancel_operation_command StageCancel) (\<lambda>response.
       check (validate_response StageCancel response))"

definition cancel_best_effort :: "('x, 't) executor \<Rightarrow> 't \<Rightarrow> 't" where
  "cancel_best_effort execute t = snd (execute cancel_operation_command t)"

text \<open>What is validated before the first command: the user and the packet that starts the enrollment.\<close>

definition enrollment_start :: "int \<Rightarrow> bytes option \<Rightarrow> ('x, 'v) enrollment_error + biometric_user_id \<times> command_packet" where
  "enrollment_start user_id credential_set =
     rbind (map_err (EnrollmentCommand StageStart \<circ> CommandPolicy) (biometric_user_new user_id)) (\<lambda>user.
     rbind (map_err (EnrollmentCommand StageStart) (start_enrollment_command user credential_set)) (\<lambda>start.
       Inr (user, start)))"

definition start_enrollment :: "('x, 't) executor \<Rightarrow> command_packet \<Rightarrow> 't \<Rightarrow> (('x, 'v) enrollment_error + unit) \<times> 't" where
  "start_enrollment execute start =
     andthen (enrollment_execute execute start StageStart) (\<lambda>response. check (validate_response StageStart response))"

definition run_enrollment :: "('x, 't) executor \<Rightarrow> ('v + enrollment_event) list \<Rightarrow> int \<Rightarrow> bytes option \<Rightarrow> bool \<Rightarrow> 't
    \<Rightarrow> (('x, 'v) enrollment_error + enrollment_outcome) option \<times> ('v + enrollment_event) list \<times> u64 list \<times> 't" where
  "run_enrollment execute events user_id credential_set has_progress t =
     (case enrollment_start user_id credential_set of
        Inl e \<Rightarrow> (Some (Inl e), events, [], t)
      | Inr (user, start) \<Rightarrow> (case start_enrollment execute start t of
          (Inl primary, t) \<Rightarrow> (Some (Inl primary), events, [], cancel_best_effort execute t)
        | (Inr _, t) \<Rightarrow> (case wait_for_completion execute has_progress user events [] t of
            (None, events, reported, t) \<Rightarrow> (None, events, reported, t)
          | (Some (Inr EnrollmentTimedOut), events, reported, t) \<Rightarrow> (case cancel_required execute t of
              (Inl e, t) \<Rightarrow> (Some (Inl e), events, reported, t)
            | (Inr _, t) \<Rightarrow> (Some (Inr EnrollmentTimedOut), events, reported, t))
          | (Some (Inr (EnrollmentCompleted identifier)), events, reported, t) \<Rightarrow>
              (Some (Inr (EnrollmentCompleted identifier)), events, reported, t)
          | (Some (Inl primary), events, reported, t) \<Rightarrow>
              (Some (Inl primary), events, reported, cancel_best_effort execute t))))"

subsection \<open>Users\<close>

datatype 'x user_workflow_error =
    UserTransport 'x
  | UserCommand command_error
  | UserResponse mesa_response_error
  | UserCatacomb catacomb_error
  | UserMesa mesa_error
  | UserIdentityForWrongUser
  | RebindHasEnrolledIdentities

definition read_catacomb_states :: "('x, 't) executor \<Rightarrow> 't \<Rightarrow> ('x user_workflow_error + catacomb_state_entry list) \<times> 't" where
  "read_catacomb_states execute =
     andthen (run_command UserTransport execute daemon_info_command) (\<lambda>daemon_response.
     andthen (check (map_err UserResponse (parse_daemon_info daemon_response))) (\<lambda>daemon_info.
     andthen (check (map_err UserCommand (catacomb_states_command (di_component_count daemon_info)))) (\<lambda>states_command.
     andthen (run_command UserTransport execute states_command) (\<lambda>states_response.
       check (map_err UserCatacomb (parse_catacomb_states states_response (di_component_count daemon_info)))))))"

definition refresh_catacomb_state :: "('x, 't) executor \<Rightarrow> 't \<Rightarrow> ('x user_workflow_error + nat) \<times> 't" where
  "refresh_catacomb_state execute = andthen (read_catacomb_states execute) (\<lambda>states. check (Inr (length states)))"

definition read_user_identities :: "('x, 't) executor \<Rightarrow> biometric_user_id \<Rightarrow> 't \<Rightarrow> ('x user_workflow_error + mesa_identity list) \<times> 't" where
  "read_user_identities execute user_id =
     andthen (run_command UserTransport execute (identities_command user_id)) (\<lambda>response. check (
       rbind (map_err UserCommand (validate_identity_list_response response)) (\<lambda>_.
       rbind (map_err UserMesa (parse_identities response)) (\<lambda>identities.
         if list_ex (\<lambda>identity. mi_user_id identity \<noteq> sint user_id) identities then Inl UserIdentityForWrongUser
         else Inr identities))))"

definition list_user_identities :: "('x, 't) executor \<Rightarrow> biometric_user_id \<Rightarrow> 't \<Rightarrow> ('x user_workflow_error + mesa_identity list) \<times> 't" where
  "list_user_identities execute user_id = read_user_identities execute user_id"

definition select_user :: "('x, 't) executor \<Rightarrow> int \<Rightarrow> 't \<Rightarrow> ('x user_workflow_error + unit) \<times> 't" where
  "select_user execute user_id =
     andthen (check (map_err UserCommand (set_active_user_command user_id))) (\<lambda>command.
     andthen (run_command UserTransport execute command) (\<lambda>response.
       check (map_err UserCommand (validate_empty_response response))))"

definition prepare_user :: "('x, 't) executor \<Rightarrow> biometric_user_id \<Rightarrow> 't \<Rightarrow> ('x user_workflow_error + mesa_identity list) \<times> 't" where
  "prepare_user execute user_id =
     andthen (select_user execute (uint user_id)) (\<lambda>_.
     andthen (refresh_catacomb_state execute) (\<lambda>_. read_user_identities execute user_id))"

definition refresh_user :: "('x, 't) executor \<Rightarrow> biometric_user_id \<Rightarrow> 't \<Rightarrow> ('x user_workflow_error + mesa_identity list) \<times> 't" where
  "refresh_user execute user_id = andthen (select_user execute (-1)) (\<lambda>_. prepare_user execute user_id)"

definition rebind_empty_user :: "('x, 't) executor \<Rightarrow> biometric_user_id \<Rightarrow> 't \<Rightarrow> ('x user_workflow_error + mesa_identity list) \<times> 't" where
  "rebind_empty_user execute user_id =
     andthen (read_user_identities execute user_id) (\<lambda>identities.
       if identities \<noteq> [] then check (Inl RebindHasEnrolledIdentities)
       else andthen (run_command UserTransport execute (remove_user_command user_id)) (\<lambda>response.
            andthen (check (map_err UserCommand (validate_empty_response response))) (\<lambda>_.
            andthen (select_user execute (-1)) (\<lambda>_.
            andthen (refresh_catacomb_state execute) (\<lambda>_. prepare_user execute user_id)))))"

end
