(* ===== verification/Bio_Workflow_Correct.thy ===== *)
theory Bio_Workflow_Correct
  imports Bio_Workflow "HOL-Library.Sublist"
begin

section \<open>Correctness of the fingerprint workflows\<close>

text \<open>
  What the workflows of \<open>Bio_Workflow\<close> promise whatever the transport answers: a started match or enrollment
  that does not complete is cancelled, a match names an enrolled identity of the user, a completed enrollment has been
  confirmed by a fresh identity list, and only a user without identities is removed. The lemmas are proved in the
  interface \<open>command_transport\<close>; the properties follow for every transport, through the record of its exchanges.
\<close>

subsection \<open>Steps on a transport\<close>

lemma andthen_check: "andthen m (\<lambda>x. check (f x)) t = (rbind (fst (m t)) f, snd (m t))"
  by (auto simp: andthen_def check_def split: prod.splits sum.splits)

lemma andthen_checked: "andthen (check r) f t = (case r of Inl e \<Rightarrow> (Inl e, t) | Inr x \<Rightarrow> f x t)"
  by (simp add: andthen_def check_def split: sum.splits)

lemma run_command_result: "run_command wrap execute packet t = (map_err wrap (fst (execute packet t)), snd (execute packet t))"
  by (simp add: run_command_def split: prod.splits)

lemmas single_command = andthen_check run_command_result cancel_match_def start_match_def enrollment_execute_def
  verify_fresh_identity_def continue_enrollment_def cancel_required_def cancel_best_effort_def start_enrollment_def
  read_user_identities_def

context command_transport
begin

lemma single_commands:
  "commands (snd (cancel_match execute t)) = commands t @ [cancel_operation_command]"
  "commands (snd (start_match execute u t)) = commands t @ [start_match_command u]"
  "commands (snd (verify_fresh_identity execute u i t)) = commands t @ [identities_command u]"
  "commands (snd (continue_enrollment execute t)) = commands t @ [continue_enrollment_command]"
  "commands (snd (cancel_required execute t)) = commands t @ [cancel_operation_command]"
  "commands (cancel_best_effort execute t) = commands t @ [cancel_operation_command]"
  "commands (snd (start_enrollment execute start t)) = commands t @ [start]"
  "commands (snd (read_user_identities execute u t)) = commands t @ [identities_command u]"
  by (simp_all add: single_command commands_execute)

lemma single_results:
  "map_prod id under (cancel_match execute t) = cancel_match base (under t)"
  "map_prod id under (start_match execute u t) = start_match base u (under t)"
  "map_prod id under (verify_fresh_identity execute u i t) = verify_fresh_identity base u i (under t)"
  "map_prod id under (continue_enrollment execute t) = continue_enrollment base (under t)"
  "map_prod id under (cancel_required execute t) = cancel_required base (under t)"
  "under (cancel_best_effort execute t) = cancel_best_effort base (under t)"
  "map_prod id under (start_enrollment execute start t) = start_enrollment base start (under t)"
  "map_prod id under (read_user_identities execute u t) = read_user_identities base u (under t)"
  by (simp_all add: single_command result_execute under_execute)

lemma match_commands:
  fixes out :: "(('x, 'v) match_workflow_error + identity_match_outcome) option"
  assumes "match_fingerprint_identified execute events u r t = (out, events', t')"
  shows "commands t' = commands t @
    (case match_identities u r :: ('x, 'v) match_workflow_error + mesa_identity list of
       Inl _ \<Rightarrow> [] | Inr _ \<Rightarrow> start_match_command u # (if out = None then [] else [cancel_operation_command]))"
    and "match_fingerprint_identified base events u r (under t) = (out, events', under t')"
proof -
  obtain a :: "('x, 'v) match_workflow_error + unit" and t1 where a: "start_match execute u t = (a, t1)" by fastforce
  obtain b t2 where b: "cancel_match execute t1 = (b, t2)" by fastforce
  have c: "commands t1 = commands t @ [start_match_command u]" "commands t2 = commands t1 @ [cancel_operation_command]"
    using a b by (metis single_commands(2) snd_conv, metis single_commands(1) snd_conv)
  have d: "start_match base u (under t) = (a, under t1)" "cancel_match base (under t1) = (b, under t2)"
    by (subst single_results(2) [symmetric], simp add: a, subst single_results(1) [symmetric], simp add: b)
  show "commands t' = commands t @
    (case match_identities u r :: ('x, 'v) match_workflow_error + mesa_identity list of
       Inl _ \<Rightarrow> [] | Inr _ \<Rightarrow> start_match_command u # (if out = None then [] else [cancel_operation_command]))"
    using assms c by (auto simp: match_fingerprint_identified_def a b split: sum.splits prod.splits option.splits)
  show "match_fingerprint_identified base events u r (under t) = (out, events', under t')"
    using assms d by (auto simp: match_fingerprint_identified_def a b split: sum.splits prod.splits option.splits)
qed

end

subsection \<open>What a match reports\<close>

definition no_verdict :: "service_status_event \<Rightarrow> bool" where
  "no_verdict event \<longleftrightarrow> (case parse_mesa_message event of
     Inl _ \<Rightarrow> False | Inr None \<Rightarrow> True | Inr (Some message) \<Rightarrow> mm_status message \<noteq> MESA_MATCH_RESULT)"

definition names_match :: "service_status_event \<Rightarrow> int \<Rightarrow> identity_identifier \<Rightarrow> bool" where
  "names_match event user identifier \<longleftrightarrow> (\<exists>message. parse_mesa_message event = Inr (Some message)
     \<and> mm_status message = MESA_MATCH_RESULT \<and> read_i32 (mm_payload message) 0 = user
     \<and> slice 4 20 (mm_payload message) = identifier)"

lemma no_verdict_intros:
  "parse_mesa_message event = Inr None \<Longrightarrow> no_verdict event"
  "parse_mesa_message event = Inr (Some message) \<Longrightarrow> mm_status message \<noteq> MESA_MATCH_RESULT \<Longrightarrow> no_verdict event"
  by (simp_all add: no_verdict_def)

lemma evaluate_none: "evaluate_matched_identity message user ids = Inr None \<Longrightarrow> mm_status message \<noteq> MESA_MATCH_RESULT"
  by (auto simp: evaluate_matched_identity_def Let_def split: if_splits)

lemma evaluate_matched:
  assumes "evaluate_matched_identity message user ids = Inr (Some (Some identifier))"
  shows "mm_status message = MESA_MATCH_RESULT \<and> read_i32 (mm_payload message) 0 = user
    \<and> slice 4 20 (mm_payload message) = identifier \<and> (\<exists>i \<in> set ids. mi_user_id i = user \<and> mi_identifier i = identifier)"
  using assms by (auto simp: evaluate_matched_identity_def Let_def find_Some_iff split: if_splits)

lemma wait_matched:
  "wait_for_outcome events user ids = (Some (Inr (IdentityMatched identifier)), events') \<Longrightarrow>
     \<exists>skipped event. events = map (Inr \<circ> MatchCallback) skipped @ Inr (MatchCallback event) # events'
       \<and> list_all no_verdict skipped \<and> names_match event user identifier
       \<and> (\<exists>i \<in> set ids. mi_user_id i = user \<and> mi_identifier i = identifier)"
proof (induction events user ids rule: wait_for_outcome.induct)
  case (5 event events user ids)
  have skip: ?case if "no_verdict event" "wait_for_outcome events user ids = (Some (Inr (IdentityMatched identifier)), events')"
    and "\<exists>skipped e. events = map (Inr \<circ> MatchCallback) skipped @ Inr (MatchCallback e) # events'
       \<and> list_all no_verdict skipped \<and> names_match e user identifier
       \<and> (\<exists>i \<in> set ids. mi_user_id i = user \<and> mi_identifier i = identifier)"
  proof -
    from that(3) obtain skipped e where "events = map (Inr \<circ> MatchCallback) skipped @ Inr (MatchCallback e) # events'"
      "list_all no_verdict skipped" "names_match e user identifier"
      "\<exists>i \<in> set ids. mi_user_id i = user \<and> mi_identifier i = identifier" by blast
    with that(1) show ?thesis by (intro exI [of _ "event # skipped"] exI [of _ e]) simp
  qed
  show ?case
  proof (cases "parse_mesa_message event")
    case (Inl e)
    with "5.prems" show ?thesis by simp
  next
    case (Inr m)
    show ?thesis
    proof (cases m)
      case None
      with "5.prems" Inr have w: "wait_for_outcome events user ids = (Some (Inr (IdentityMatched identifier)), events')" by simp
      from None Inr no_verdict_intros(1) show ?thesis by (intro skip [OF _ w "5.IH"(1) [OF Inr None w]]) simp
    next
      case (Some message)
      show ?thesis
      proof (cases "evaluate_matched_identity message user ids")
        case (Inl e)
        with "5.prems" Inr Some \<open>parse_mesa_message event = Inr m\<close> show ?thesis by simp
      next
        case v: (Inr v)
        note p = \<open>parse_mesa_message event = Inr m\<close>
        show ?thesis
        proof (cases v)
          case None
          with "5.prems" p Some v have w: "wait_for_outcome events user ids = (Some (Inr (IdentityMatched identifier)), events')"
            by simp
          from None p Some v no_verdict_intros(2) [of event message] evaluate_none [of message user ids] show ?thesis
            by (intro skip [OF _ w "5.IH"(2) [OF p Some v None w]]) simp
        next
          case w: (Some w)
          with "5.prems" p Some v have "w = Some identifier" "events' = events" by (auto split: option.splits)
          with w v Some p evaluate_matched [of message user ids] show ?thesis
            by (intro exI [of _ "[]"] exI [of _ event]) (simp add: names_match_def)
        qed
      qed
    qed
  qed
qed simp_all

text \<open>A match that still waits has been given only callbacks without a verdict.\<close>

lemma wait_waiting:
  "wait_for_outcome events user ids = (None, events') \<Longrightarrow>
     events' = [] \<and> (\<exists>skipped. events = map (Inr \<circ> MatchCallback) skipped \<and> list_all no_verdict skipped)"
proof (induction events)
  case (Cons x events)
  then obtain event where x: "x = Inr (MatchCallback event)"
    by (cases "(x # events, user, ids)" rule: wait_for_outcome.cases) auto
  with Cons.prems have w: "no_verdict event" "wait_for_outcome events user ids = (None, events')"
    by (auto simp: no_verdict_def dest: evaluate_none split: sum.splits option.splits)
  from Cons.IH [OF w(2)] obtain skipped where "events' = []" "events = map (Inr \<circ> MatchCallback) skipped" "list_all no_verdict skipped"
    by blast
  with w(1) x show ?case by (auto intro!: exI [of _ "event # skipped"])
qed simp

lemma match_identities_Inr:
  assumes "match_identities u r = Inr ids"
  shows "r = concat (map identity_descriptor ids) \<and> list_all mesa_identity_ok ids \<and> list_all (\<lambda>i. mi_user_id i = sint u) ids"
proof -
  have "length r mod 20 = 0" "parse_identities r = Inr ids" "list_all (\<lambda>i. mi_user_id i = sint u) ids"
    using assms by (auto simp: match_identities_def validate_identity_list_response_def list_ex_iff list_all_iff split: if_splits)
  with parse_identities_iff [of r ids] show ?thesis by simp
qed

lemma match_result_Inr: "match_result w c = Inr outcome \<longleftrightarrow> w = Inr outcome \<and> c = Inr ()"
  by (cases "(w, c)" rule: match_result.cases) auto

lemma match_matched:
  fixes execute :: "('x, 't) executor" and events :: "('v + match_event) list"
  assumes "match_fingerprint_identified execute events u r t = (Some (Inr (IdentityMatched identifier)), events', t')"
  obtains ids t1 where "match_identities u r = (Inr ids :: ('x, 'v) match_workflow_error + _)"
    "wait_for_outcome events (sint u) ids = (Some (Inr (IdentityMatched identifier)), events')"
    "start_match execute u t = (Inr () :: ('x, 'v) match_workflow_error + _, t1)" "cancel_match execute t1 = (Inr (), t')"
  using assms by (auto simp: match_fingerprint_identified_def match_result_Inr split: sum.splits prod.splits option.splits)

subsection \<open>The course of an enrollment\<close>

text \<open>The progress values of the events that ask for another touch.\<close>

fun continue_values :: "('v + enrollment_event) list \<Rightarrow> u64 list" where
  "continue_values [] = []"
| "continue_values (Inr (EnrollmentServiceStatus event) # events) =
     (case parse_mesa_message event of
        Inr (Some message) \<Rightarrow> if enrollment_needs_continue message then [mm_in_value message] else []
      | _ \<Rightarrow> []) @ continue_values events"
| "continue_values (_ # events) = continue_values events"

lemma continue_values_Cons: "continue_values (x # events) = continue_values [x] @ continue_values events"
  by (cases "x # events" rule: continue_values.cases) auto

text \<open>The commands after the continuations: the fresh identity list is read exactly for a completion message.\<close>

definition verification_commands :: "biometric_user_id \<Rightarrow> (('x, 'v) enrollment_error + enrollment_outcome) option \<Rightarrow> command_packet list \<Rightarrow> bool" where
  "verification_commands u out ids \<longleftrightarrow> (case out of
     Some (Inr (EnrollmentCompleted _)) \<Rightarrow> ids = [identities_command u]
   | Some (Inl _) \<Rightarrow> ids \<in> {[], [identities_command u]}
   | _ \<Rightarrow> ids = [])"

context command_transport
begin

text \<open>One event either ends the wait, after at most one command, or is passed with one continuation or none.\<close>

lemma wait_step:
  fixes out :: "(('x, 'v) enrollment_error + enrollment_outcome) option"
  assumes "wait_for_completion execute hp u (x # events) rep t = (out, events', rep', t')"
  obtains (stop) ids where "events' = events" "verification_commands u out ids"
      "rep' = rep @ (if hp then continue_values [x] else [])"
      "commands t' = commands t @ replicate (length (continue_values [x])) continue_enrollment_command @ ids"
  | (go) rep1 t1 where "wait_for_completion execute hp u events rep1 t1 = (out, events', rep', t')"
      "rep1 = rep @ (if hp then continue_values [x] else [])"
      "commands t1 = commands t @ replicate (length (continue_values [x])) continue_enrollment_command"
proof -
  show thesis
  proof (cases x)
    case (Inl e)
    with assms show thesis by (intro stop [of "[]"]) (auto simp: verification_commands_def)
  next
    case (Inr ev)
    show thesis
    proof (cases ev)
      case EnrollmentEventTimedOut
      with assms Inr show thesis by (intro stop [of "[]"]) (auto simp: verification_commands_def)
    next
      case (EnrollmentServiceStatus event)
      note x = Inr [unfolded EnrollmentServiceStatus]
      obtain a :: "('x, 'v) enrollment_error + unit" and t1 where a: "continue_enrollment execute t = (a, t1)" by fastforce
      have c1: "commands t1 = commands t @ [continue_enrollment_command]" using a by (metis single_commands(4) snd_conv)
      consider (bad) e where "parse_mesa_message event = Inl e" | (other) "parse_mesa_message event = Inr None"
        | (cont) m where "parse_mesa_message event = Inr (Some m)" "enrollment_needs_continue m"
        | (msg) m where "parse_mesa_message event = Inr (Some m)" "\<not> enrollment_needs_continue m"
        by (metis not_None_eq old.sum.exhaust)
      then show thesis
      proof cases
        case bad
        with assms x show thesis by (intro stop [of "[]"]) (auto simp: verification_commands_def)
      next
        case other
        with assms x show thesis by (intro go [of rep t]) simp_all
      next
        case cont
        let ?rep = "if hp then rep @ [mm_in_value m] else rep"
        show thesis
        proof (cases a)
          case (Inl e)
          with assms x cont a c1 show thesis by (intro stop [of "[]"]) (auto simp: verification_commands_def)
        next
          case (Inr y)
          with assms x cont a c1 show thesis by (intro go [of ?rep t1]) (simp_all add: Let_def)
        qed
      next
        case msg
        show thesis
        proof (cases "enrollment_completion m (sint u)")
          case (Inl e)
          with assms x msg show thesis by (intro stop [of "[]"]) (auto simp: verification_commands_def)
        next
          case i: (Inr i)
          show thesis
          proof (cases i)
            case None
            with assms x msg i show thesis by (intro go [of rep t]) simp_all
          next
            case (Some k)
            obtain b :: "('x, 'v) enrollment_error + unit" and t2 where b: "verify_fresh_identity execute u k t = (b, t2)"
              by fastforce
            have "commands t2 = commands t @ [identities_command u]" using b by (metis single_commands(3) snd_conv)
            with assms x msg i Some b show thesis
              by (intro stop [of "[identities_command u]"]) (auto simp: verification_commands_def split: sum.splits)
          qed
        qed
      qed
    qed
  qed
qed

lemma wait_commands:
  fixes out :: "(('x, 'v) enrollment_error + enrollment_outcome) option"
  shows "wait_for_completion execute hp u events rep t = (out, events', rep', t') \<Longrightarrow>
    \<exists>passed ids. events = passed @ events' \<and> verification_commands u out ids
      \<and> rep' = rep @ (if hp then continue_values passed else [])
      \<and> commands t' = commands t @ replicate (length (continue_values passed)) continue_enrollment_command @ ids"
proof (induction events arbitrary: rep t)
  case Nil
  then show ?case by (simp add: verification_commands_def)
next
  case (Cons x events)
  from Cons.prems show ?case
  proof (cases rule: wait_step)
    case (stop ids)
    then show ?thesis by (intro exI [of _ "[x]"] exI [of _ ids]) simp
  next
    case (go rep1 t1)
    from Cons.IH [OF go(1)] obtain passed ids where "events = passed @ events'" "verification_commands u out ids"
      "rep' = rep1 @ (if hp then continue_values passed else [])"
      "commands t' = commands t1 @ replicate (length (continue_values passed)) continue_enrollment_command @ ids" by blast
    with continue_values_Cons [of x passed] go(2,3) show ?thesis
      by (intro exI [of _ "x # passed"] exI [of _ ids]) (simp add: replicate_add)
  qed
qed

lemma wait_results:
  "wait_for_completion base hp u events rep (under t) =
     (case wait_for_completion execute hp u events rep t of (out, events', rep', t') \<Rightarrow> (out, events', rep', under t'))"
proof (induction events arbitrary: hp rep t)
  case (Cons x events)
  have c: "continue_enrollment base (under t) = map_prod id under (continue_enrollment execute t)"
    and v: "verify_fresh_identity base u k (under t) = map_prod id under (verify_fresh_identity execute u k t)" for k
    by (simp_all add: single_results)
  show ?case
    by (cases "(execute, hp, u, x # events, rep, t)" rule: wait_for_completion.cases)
       (auto simp: c v Cons.IH Let_def split: sum.splits option.splits prod.splits)
qed simp

lemma enrollment_commands:
  fixes out :: "(('x, 'v) enrollment_error + enrollment_outcome) option"
  assumes "run_enrollment execute events user_id cred hp t = (out, events', rep, t')"
    and "enrollment_start user_id cred = (Inr (u, start) :: ('x, 'v) enrollment_error + _)"
  shows "\<exists>passed ids. events = passed @ events' \<and> rep = (if hp then continue_values passed else [])
    \<and> commands t' = commands t @ start # replicate (length (continue_values passed)) continue_enrollment_command @ ids
    \<and> (case out of None \<Rightarrow> ids = [] | Some (Inr (EnrollmentCompleted _)) \<Rightarrow> ids = [identities_command u]
       | _ \<Rightarrow> ids \<in> {[cancel_operation_command], [identities_command u, cancel_operation_command]})"
proof -
  obtain a :: "('x, 'v) enrollment_error + unit" and t1 where a: "start_enrollment execute start t = (a, t1)" by fastforce
  have c1: "commands t1 = commands t @ [start]" using a by (metis single_commands(7) snd_conv)
  show ?thesis
  proof (cases a)
    case (Inl e)
    with assms a c1 single_commands(6) [of t1] show ?thesis by (auto simp: run_enrollment_def)
  next
    case (Inr y)
    obtain w :: "(('x, 'v) enrollment_error + enrollment_outcome) option" and ev rp t2
      where w: "wait_for_completion execute hp u events [] t1 = (w, ev, rp, t2)" by (metis prod_cases4)
    from wait_commands [OF w] obtain passed ids where p: "events = passed @ ev" "verification_commands u w ids"
      "rp = (if hp then continue_values passed else [])"
      "commands t2 = commands t1 @ replicate (length (continue_values passed)) continue_enrollment_command @ ids" by auto
    obtain b :: "('x, 'v) enrollment_error + unit" and t3 where b: "cancel_required execute t2 = (b, t3)" by fastforce
    have c3: "commands t3 = commands t2 @ [cancel_operation_command]" using b by (metis single_commands(5) snd_conv)
    from assms a Inr w b have "events' = ev \<and> rep = rp \<and>
        (case w of None \<Rightarrow> out = None \<and> t' = t2 | Some (Inr (EnrollmentCompleted k)) \<Rightarrow> out = w \<and> t' = t2
         | Some (Inr EnrollmentTimedOut) \<Rightarrow> out \<noteq> None \<and> (\<forall>k. out \<noteq> Some (Inr (EnrollmentCompleted k))) \<and> t' = t3
         | Some (Inl e) \<Rightarrow> out = w \<and> t' = cancel_best_effort execute t2)"
      by (auto simp: run_enrollment_def split: option.splits sum.splits enrollment_outcome.splits prod.splits)
    with p c1 c3 single_commands(6) [of t2] show ?thesis
      by (intro exI [of _ passed] exI [of _ "drop (length (commands t2) - length ids) (commands t')"])
         (auto simp: verification_commands_def split: option.splits sum.splits enrollment_outcome.splits)
  qed
qed

end

text \<open>
  An exchange that confirms an identity of a user: the identity list was read, is well-formed and has it. The last
  command of a workflow was such an exchange.
\<close>

definition confirms :: "biometric_user_id \<Rightarrow> identity_identifier \<Rightarrow> 'x exchange \<Rightarrow> bool" where
  "confirms u k x \<longleftrightarrow> (\<exists>ids. x = (identities_command u, Inr (concat (map identity_descriptor ids)))
     \<and> list_all mesa_identity_ok ids \<and> (\<exists>i \<in> set ids. mi_user_id i = sint u \<and> mi_identifier i = k))"

definition confirmed :: "('x, 't) executor \<Rightarrow> biometric_user_id \<Rightarrow> identity_identifier \<Rightarrow> 't \<Rightarrow> bool" where
  "confirmed execute u k t' \<longleftrightarrow> (\<exists>t r. execute (identities_command u) t = (r, t') \<and> confirms u k (identities_command u, r))"

lemma confirmed_logged:
  assumes "confirmed (logged execute) u k (t', history)"
  shows "confirms u k (last history)"
  using assms by (auto simp: confirmed_def logged_def split_beta)

definition names_completion :: "service_status_event \<Rightarrow> int \<Rightarrow> identity_identifier \<Rightarrow> bool" where
  "names_completion event user k \<longleftrightarrow> (\<exists>message. parse_mesa_message event = Inr (Some message)
     \<and> mm_status message = MESA_ENROLLMENT_COMPLETE \<and> read_i32 (mm_payload message) 0 = user
     \<and> slice 4 20 (mm_payload message) = k \<and> k \<noteq> replicate 16 0)"

lemma completion_named:
  "enrollment_completion message user = Inr (Some k) \<Longrightarrow> mm_status message = MESA_ENROLLMENT_COMPLETE
     \<and> read_i32 (mm_payload message) 0 = user \<and> slice 4 20 (mm_payload message) = k \<and> k \<noteq> replicate 16 0"
  by (auto simp: enrollment_completion_def Let_def split: if_splits)

lemma verify_confirms:
  assumes "verify_fresh_identity execute u k t = (Inr (), t')"
  shows "confirmed execute u k t'"
proof -
  obtain r where r: "execute (identities_command u) t = (Inr r, t')" "length r mod 20 = 0"
    and ids: "\<exists>ids. parse_identities r = Inr ids \<and> (\<exists>i \<in> set ids. mi_user_id i = sint u \<and> mi_identifier i = k)"
    using assms by (cases "execute (identities_command u) t")
      (auto simp: single_command validate_identity_list_response_def list_ex_iff split: if_splits)
  from ids parse_identities_iff [OF r(2)] r(1) show ?thesis by (auto simp: confirmed_def confirms_def)
qed

lemma wait_completed:
  fixes execute :: "('x, 't) executor" and events :: "('v + enrollment_event) list"
  shows "wait_for_completion execute hp u events rep t = (Some (Inr (EnrollmentCompleted k)), events', rep', t') \<Longrightarrow>
    confirmed execute u k t' \<and> (\<exists>passed event. events = passed @ Inr (EnrollmentServiceStatus event) # events'
      \<and> names_completion event (sint u) k)"
proof (induction events arbitrary: rep t)
  case (Cons x events)
  show ?case
  proof (cases "\<exists>event m. x = Inr (EnrollmentServiceStatus event) \<and> parse_mesa_message event = Inr (Some m) \<and> \<not> enrollment_needs_continue m
      \<and> enrollment_completion m (sint u) = Inr (Some k) \<and> events' = events
      \<and> verify_fresh_identity execute u k t = (Inr () :: ('x, 'v) enrollment_error + _, t')")
    case True
    then obtain event m where m: "parse_mesa_message event = Inr (Some m)" "enrollment_completion m (sint u) = Inr (Some k)" "events' = events"
      and x: "x = Inr (EnrollmentServiceStatus event)" and v: "verify_fresh_identity execute u k t = (Inr () :: ('x, 'v) enrollment_error + _, t')" by blast
    have "names_completion event (sint u) k" using m completion_named [OF m(2)] by (auto simp: names_completion_def)
    with verify_confirms [OF v] m(3) x show ?thesis by blast
  next
    case False
    with Cons.prems obtain rep1 t1 where
      "wait_for_completion execute hp u events rep1 t1 = (Some (Inr (EnrollmentCompleted k)), events', rep', t')"
      by (cases "(execute, hp, u, x # events, rep, t)" rule: wait_for_completion.cases)
         (auto simp: Let_def split: sum.splits option.splits if_splits prod.splits)
    from Cons.IH [OF this] show ?thesis by (metis append_Cons)
  qed
qed simp

lemma enrollment_unfinished:
  assumes "run_enrollment execute events user_id cred hp t = (None, events', rep, t')"
  shows "events' = []"
proof -
  have w: "wait_for_completion execute hp u events rp t = (None, events', rep', t') \<Longrightarrow> events' = []" for u hp rp rep' t t'
  proof (induction events arbitrary: hp rp t)
    case (Cons x events)
    from Cons.prems show ?case
      by (cases "(execute, hp, u, x # events, rp, t)" rule: wait_for_completion.cases)
         (auto simp: Let_def dest: Cons.IH split: sum.splits option.splits if_splits prod.splits)
  qed simp
  from assms show ?thesis
    by (auto simp: run_enrollment_def dest: w split: sum.splits prod.splits option.splits enrollment_outcome.splits)
qed

lemma enrollment_completed:
  assumes "run_enrollment execute events user_id cred hp t = (Some (Inr (EnrollmentCompleted k)), events', rep, t')"
    and "enrollment_start user_id cred = (Inr (u, start) :: ('x, 'v) enrollment_error + _)"
  shows "confirmed (execute :: ('x, 't) executor) u k t' \<and> (\<exists>passed event.
    (events :: ('v + enrollment_event) list) = passed @ Inr (EnrollmentServiceStatus event) # events' \<and> names_completion event (sint u) k)"
proof -
  from assms obtain t1 where "wait_for_completion execute hp u events [] t1 = (Some (Inr (EnrollmentCompleted k)), events', rep, t')"
    by (auto simp: run_enrollment_def split: sum.splits prod.splits option.splits enrollment_outcome.splits)
  then show ?thesis by (rule wait_completed)
qed

context command_transport
begin

lemma enrollment_results:
  "run_enrollment base events user_id cred hp (under t) =
     (case run_enrollment execute events user_id cred hp t of (out, events', rep, t') \<Rightarrow> (out, events', rep, under t'))"
proof -
  have s: "start_enrollment base start (under t) = map_prod id under (start_enrollment execute start t)"
    and c: "cancel_required base (under t) = map_prod id under (cancel_required execute t)"
    and b: "cancel_best_effort base (under t) = under (cancel_best_effort execute t)" for t start
    by (simp_all add: single_results)
  show ?thesis
    by (auto simp: run_enrollment_def s c b wait_results split: sum.splits prod.splits option.splits enrollment_outcome.splits)
qed

end

subsection \<open>Users\<close>

text \<open>A step that sends commands with the given codes, all of them when it succeeds and otherwise the first few.\<close>

definition sends :: "('t \<Rightarrow> command_packet list) \<Rightarrow> u16 list \<Rightarrow> ('t \<Rightarrow> ('e + 'a) \<times> 't) \<Rightarrow> bool" where
  "sends commands codes m \<longleftrightarrow> (\<forall>t. \<exists>new. commands (snd (m t)) = commands t @ new \<and> prefix (map command_code new) codes
     \<and> (\<forall>x. fst (m t) = Inr x \<longrightarrow> map command_code new = codes))"

lemma sends_check [intro]: "sends commands [] (check r)"
  by (simp add: sends_def check_def)

lemma sends_andthen [intro]:
  assumes "sends commands cs m" "\<And>x. sends commands ds (f x)"
  shows "sends commands (cs @ ds) (andthen m f)"
  unfolding sends_def
proof
  fix t
  obtain r t1 where m: "m t = (r, t1)" by fastforce
  with assms(1) obtain new where new: "commands t1 = commands t @ new" "prefix (map command_code new) cs"
    "\<forall>x. r = Inr x \<longrightarrow> map command_code new = cs" by (metis sends_def fst_conv snd_conv)
  show "\<exists>new. commands (snd (andthen m f t)) = commands t @ new \<and> prefix (map command_code new) (cs @ ds)
    \<and> (\<forall>x. fst (andthen m f t) = Inr x \<longrightarrow> map command_code new = cs @ ds)"
  proof (cases r)
    case (Inl e)
    with m new show ?thesis by (simp add: andthen_def prefix_append)
  next
    case (Inr x)
    obtain more where "commands (snd (f x t1)) = commands t1 @ more" "prefix (map command_code more) ds"
      "\<forall>y. fst (f x t1) = Inr y \<longrightarrow> map command_code more = ds" using assms(2) [of x] unfolding sends_def by blast
    with Inr m new show ?thesis by (simp add: andthen_def)
  qed
qed

lemma sends_checked:
  assumes "\<And>x. r = Inr x \<Longrightarrow> sends commands cs (f x)"
  shows "sends commands cs (andthen (check r) f)"
  using assms by (cases r) (simp_all add: sends_def andthen_checked)

text \<open>A result of the identities command: valid records, all of the user.\<close>

lemma read_identities_Inr:
  assumes "read_user_identities execute u t = (Inr ids, t')"
  shows "execute (identities_command u) t = (Inr (concat (map identity_descriptor ids)), t')
    \<and> list_all mesa_identity_ok ids \<and> list_all (\<lambda>i. mi_user_id i = sint u) ids"
proof -
  obtain r where r: "execute (identities_command u) t = (Inr r, t')" "length r mod 20 = 0" "parse_identities r = Inr ids"
    "list_all (\<lambda>i. mi_user_id i = sint u) ids"
    using assms by (cases "execute (identities_command u) t")
      (auto simp: single_command validate_identity_list_response_def list_ex_iff list_all_iff split: if_splits)
  with parse_identities_iff [OF r(2), of ids] show ?thesis by simp
qed

text \<open>A step on a transport and the same step on the transport under it.\<close>

definition tracks :: "('t \<Rightarrow> 's) \<Rightarrow> ('t \<Rightarrow> ('e + 'a) \<times> 't) \<Rightarrow> ('s \<Rightarrow> ('e + 'a) \<times> 's) \<Rightarrow> bool" where
  "tracks proj m n \<longleftrightarrow> (\<forall>t. map_prod id proj (m t) = n (proj t))"

lemma tracks_check: "tracks proj (check r) (check r)"
  by (simp add: tracks_def check_def)

lemma tracks_andthen:
  assumes "tracks proj m n" "\<And>x. tracks proj (f x) (g x)"
  shows "tracks proj (andthen m f) (andthen n g)"
  unfolding tracks_def
proof
  fix t
  obtain r t1 where m: "m t = (r, t1)" by fastforce
  with assms(1) have "n (proj t) = (r, proj t1)" by (metis tracks_def map_prod_simp id_apply)
  with m assms(2) show "map_prod id proj (andthen m f t) = andthen n g (proj t)"
    by (cases r) (simp_all add: andthen_def tracks_def)
qed

context command_transport
begin

lemma tracks_command: "tracks under (run_command wrap execute packet) (run_command wrap base packet)"
  by (simp add: tracks_def run_command_result result_execute under_execute)

lemmas tracks_steps = tracks_andthen tracks_check tracks_command

lemma rebind_results:
  "rebind_empty_user base u (under t) = map_prod id under (rebind_empty_user execute u t)"
proof -
  have s: "tracks under (select_user execute i) (select_user base i)" for i
    unfolding select_user_def by (intro tracks_steps)
  have c: "tracks under (refresh_catacomb_state execute) (refresh_catacomb_state base)"
    unfolding refresh_catacomb_state_def read_catacomb_states_def by (intro tracks_steps)
  have r: "tracks under (read_user_identities execute u) (read_user_identities base u)"
    unfolding read_user_identities_def by (intro tracks_steps)
  have p: "tracks under (prepare_user execute u) (prepare_user base u)"
    unfolding prepare_user_def by (intro tracks_andthen s c r)
  have if_tracks: "tracks under (if b then m else m') (if b then n else n')"
    if "tracks under m n" "tracks under m' n'" for b and m m' :: "'t \<Rightarrow> ('x user_workflow_error + mesa_identity list) \<times> 't" and n n'
    using that by simp
  have "tracks under (rebind_empty_user execute u) (rebind_empty_user base u)"
    unfolding rebind_empty_user_def by (intro tracks_andthen if_tracks r s c p tracks_check tracks_command)
  then show ?thesis by (simp add: tracks_def)
qed

lemma sends_command: "sends commands [command_code packet] (run_command wrap execute packet)"
  by (simp add: sends_def run_command_result commands_execute)

lemma sends_last: "command_code packet = c \<Longrightarrow> sends commands [c] (andthen (run_command wrap execute packet) (\<lambda>r. check (g r)))"
  using sends_andthen [OF sends_command [of packet wrap] sends_check, of g] by simp

lemma sends_prepare:
  shows "sends commands [0x31] (select_user execute i)"
    and "sends commands [0x28, 0x3c] (refresh_catacomb_state execute)"
    and "sends commands [0x31, 0x28, 0x3c, 0x42] (prepare_user execute u)"
proof -
  show s: "sends commands [0x31] (select_user execute i)" for i
    unfolding select_user_def by (intro sends_checked sends_last) simp
  have "sends commands ([command_code daemon_info_command] @ [0x3c]) (read_catacomb_states execute)"
    unfolding read_catacomb_states_def by (intro sends_andthen sends_command sends_checked sends_last) simp
  then have "sends commands ([0x28, 0x3c] @ []) (refresh_catacomb_state execute)"
    unfolding refresh_catacomb_state_def by (intro sends_andthen sends_check) simp
  then show c: "sends commands [0x28, 0x3c] (refresh_catacomb_state execute)" by simp
  have "sends commands [0x42] (read_user_identities execute u)"
    unfolding read_user_identities_def by (intro sends_last) simp
  then have "sends commands ([0x31] @ [0x28, 0x3c] @ [0x42]) (prepare_user execute u)"
    unfolding prepare_user_def by (intro sends_andthen s c)
  then show "sends commands [0x31, 0x28, 0x3c, 0x42] (prepare_user execute u)" by simp
qed

text \<open>The codes of the commands after the removal of a user: the master component and then the user are selected, each
  followed by a refresh of the catacomb state, and the identities are read.\<close>

lemma rebind_commands:
  assumes "rebind_empty_user execute u t = (out, t')"
  shows "\<exists>new. commands t' = commands t @ identities_command u # new \<and>
    (if fst (base (identities_command u) (under t)) = Inr []
     then \<exists>rest. new = remove_user_command u # rest \<and> prefix (map command_code rest) [0x31, 0x28, 0x3c, 0x31, 0x28, 0x3c, 0x42]
       \<and> (\<forall>ids. out = Inr ids \<longrightarrow> map command_code rest = [0x31, 0x28, 0x3c, 0x31, 0x28, 0x3c, 0x42])
     else new = [] \<and> (\<exists>e. out = Inl e))"
proof -
  obtain a :: "'x user_workflow_error + mesa_identity list" and t1 where a: "read_user_identities execute u t = (a, t1)" by fastforce
  have c1: "commands t1 = commands t @ [identities_command u]" using a by (metis single_commands(8) snd_conv)
  have e: "a = Inr [] \<longleftrightarrow> fst (base (identities_command u) (under t)) = Inr []"
  proof
    assume "a = Inr []"
    with read_identities_Inr [of execute u t "[]" t1] a result_execute [of "identities_command u" t]
    show "fst (base (identities_command u) (under t)) = Inr []" by simp
  next
    assume "fst (base (identities_command u) (under t)) = Inr []"
    with a result_execute [of "identities_command u" t] show "a = Inr []"
      by (auto simp: single_command validate_identity_list_response_def parse_identities_def)
  qed
  define rest where "rest = (\<lambda>response. andthen (check (map_err UserCommand (validate_empty_response response))) (\<lambda>_.
            andthen (select_user execute (-1)) (\<lambda>_. andthen (refresh_catacomb_state execute) (\<lambda>_. prepare_user execute u))))"
  have "sends commands ([0x31] @ [0x28, 0x3c] @ [0x31, 0x28, 0x3c, 0x42]) (rest response)" for response
    unfolding rest_def by (intro sends_checked sends_andthen sends_prepare)
  then have s: "sends commands [0x31, 0x28, 0x3c, 0x31, 0x28, 0x3c, 0x42] (rest response)" for response by simp
  show ?thesis
  proof (cases "a = Inr []")
    case True
    obtain r t2 where r: "execute (remove_user_command u) t1 = (r, t2)" by fastforce
    have c2: "commands t2 = commands t1 @ [remove_user_command u]" using r commands_execute [of "remove_user_command u" t1] by simp
    have "rebind_empty_user execute u t = andthen (run_command UserTransport execute (remove_user_command u)) rest t1"
      using True a by (simp add: rebind_empty_user_def andthen_def [of "read_user_identities execute u"] rest_def)
    with assms r have t': "(out, t') = (case r of Inl e \<Rightarrow> (Inl (UserTransport e), t2) | Inr response \<Rightarrow> rest response t2)"
      by (cases r) (simp_all add: andthen_def run_command_def)
    have "\<exists>new. commands t' = commands t2 @ new \<and> prefix (map command_code new) [0x31, 0x28, 0x3c, 0x31, 0x28, 0x3c, 0x42]
      \<and> (\<forall>ids. out = Inr ids \<longrightarrow> map command_code new = [0x31, 0x28, 0x3c, 0x31, 0x28, 0x3c, 0x42])"
    proof (cases r)
      case (Inr response)
      with t' have "out = fst (rest response t2)" "t' = snd (rest response t2)" by (metis old.sum.simps(6) fst_conv, metis old.sum.simps(6) snd_conv)
      with s [of response] show ?thesis unfolding sends_def by blast
    qed (use t' in simp)
    with True e c1 c2 show ?thesis by auto
  next
    case False
    with assms a have "t' = t1" "\<exists>e. out = Inl e" by (auto simp: rebind_empty_user_def andthen_def check_def split: sum.splits)
    with False e c1 show ?thesis by simp
  qed
qed

end


subsection \<open>The properties\<close>

text \<open>
  C15. A started match is always cancelled.  When the enrolled identities are refused, that is the error and no command is
  sent. Otherwise the match is started with one command, and when the workflow returns, whatever the transport, the
  events and the sensor did, exactly one cancellation has followed; a normal outcome is only reported if both were
  acknowledged. The workflow waits only while every event it has been given was a callback without a verdict.
  The transport behaves as without the record of its exchanges.
\<close>

theorem match_always_cancelled:
  fixes out :: "(('x, 'v) match_workflow_error + identity_match_outcome) option"
  assumes "match_fingerprint_identified (logged execute) events u r (t, []) = (out, events', t', history)"
  shows "match_fingerprint_identified execute events u r t = (out, events', t') \<and>
    (case match_identities u r of
       Inl e \<Rightarrow> out = Some (Inl e) \<and> history = []
     | Inr _ \<Rightarrow> map fst history = start_match_command u # (if out = None then [] else [cancel_operation_command])
         \<and> (out = None \<longrightarrow> events' = [] \<and> (\<exists>skipped. events = map (Inr \<circ> MatchCallback) skipped \<and> list_all no_verdict skipped))
         \<and> (\<forall>outcome. out = Some (Inr outcome) \<longrightarrow> map snd history = [Inr [], Inr []]))"
proof (cases "match_identities u r :: ('x, 'v) match_workflow_error + mesa_identity list")
  case (Inl e)
  with assms logged.match_commands [OF assms] show ?thesis by (auto simp: match_fingerprint_identified_def)
next
  case (Inr ids)
  have "out = None \<Longrightarrow> wait_for_outcome events (sint u) ids = (None, events')"
    using assms Inr by (auto simp: match_fingerprint_identified_def split: sum.splits prod.splits option.splits)
  then have w: "out = None \<longrightarrow> events' = [] \<and> (\<exists>skipped. events = map (Inr \<circ> MatchCallback) skipped \<and> list_all no_verdict skipped)"
    by (auto dest: wait_waiting)
  have "out = Some (Inr outcome) \<Longrightarrow> map snd history = [Inr [], Inr []]" for outcome
    using assms Inr by (auto simp: match_fingerprint_identified_def match_result_Inr single_command logged_def
        split: sum.splits prod.splits option.splits)
  with w Inr logged.match_commands [OF assms] show ?thesis by auto
qed

text \<open>
  C14. Only an enrolled finger matches.  When a match is reported, the identity list was well-formed and held only
  identities of the requested user, one of them with the reported identifier; the events before the last one read were
  callbacks without a verdict, and the last one was a match result that names this user and this identifier.
\<close>

theorem match_is_enrolled:
  assumes "match_fingerprint_identified execute events u r t = (Some (Inr (IdentityMatched k)), events', t')"
  shows "\<exists>ids skipped event. r = concat (map identity_descriptor ids) \<and> list_all mesa_identity_ok ids
    \<and> list_all (\<lambda>i. mi_user_id i = sint u) ids \<and> (\<exists>i \<in> set ids. mi_identifier i = k)
    \<and> events = map (Inr \<circ> MatchCallback) skipped @ Inr (MatchCallback event) # events'
    \<and> list_all no_verdict skipped \<and> names_match event (sint u) k"
  using assms by (elim match_matched) (use match_identities_Inr wait_matched in blast)

text \<open>
  C16. An enrollment is confirmed or cancelled.  An invalid user or credential is the error, and no command is sent.
  Otherwise there is, after the start command, one continuation for each event that asked for one, the progress callback
  receives exactly their values, and the workflow ends with a cancellation unless it completed. It completes only if a
  completion message for the user was the last event, and the last exchange was the reading of the identity list whose
  response has a record of the user with the identifier of that message. It waits only when all events are used up.
\<close>

theorem enrollment_confirmed_or_cancelled:
  fixes out :: "(('x, 'v) enrollment_error + enrollment_outcome) option"
  assumes "run_enrollment (logged execute) events user_id cred hp (t, []) = (out, events', rep, t', history)"
  shows "run_enrollment execute events user_id cred hp t = (out, events', rep, t') \<and>
    (case enrollment_start user_id cred of
       Inl e \<Rightarrow> out = Some (Inl e) \<and> history = [] \<and> events' = events \<and> rep = []
     | Inr (u, start) \<Rightarrow> \<exists>passed ids. events = passed @ events' \<and> rep = (if hp then continue_values passed else [])
         \<and> map fst history = start # replicate (length (continue_values passed)) continue_enrollment_command @ ids
         \<and> (case out of
              None \<Rightarrow> ids = [] \<and> events' = []
            | Some (Inr (EnrollmentCompleted k)) \<Rightarrow> ids = [identities_command u] \<and> confirms u k (last history)
                \<and> (\<exists>before event. passed = before @ [Inr (EnrollmentServiceStatus event)] \<and> names_completion event (sint u) k)
            | _ \<Rightarrow> ids \<in> {[cancel_operation_command], [identities_command u, cancel_operation_command]}))"
proof -
  have base: "run_enrollment execute events user_id cred hp t = (out, events', rep, t')"
    using logged.enrollment_results [of execute events user_id cred hp "(t, [])"] assms by simp
  show ?thesis
  proof (cases "enrollment_start user_id cred :: ('x, 'v) enrollment_error + _")
    case (Inl e)
    with assms base show ?thesis by (simp add: run_enrollment_def)
  next
    case (Inr x)
    obtain u start where x: "x = (u, start)" by fastforce
    note start = Inr [unfolded x]
    from logged.enrollment_commands [OF assms start] obtain passed ids where p: "events = passed @ events'"
      "rep = (if hp then continue_values passed else [])"
      "map fst history = start # replicate (length (continue_values passed)) continue_enrollment_command @ ids"
      "case out of None \<Rightarrow> ids = [] | Some (Inr (EnrollmentCompleted _)) \<Rightarrow> ids = [identities_command u]
         | _ \<Rightarrow> ids \<in> {[cancel_operation_command], [identities_command u, cancel_operation_command]}" by auto
    have n: "out = None \<longrightarrow> events' = []" using enrollment_unfinished [of execute events user_id cred hp t events' rep t'] base by simp
    have c: "confirms u k (last history) \<and> (\<exists>before event. passed = before @ [Inr (EnrollmentServiceStatus event)] \<and> names_completion event (sint u) k)"
      if "out = Some (Inr (EnrollmentCompleted k))" for k
      using enrollment_completed [OF assms [unfolded that] start] p(1) by (auto dest: confirmed_logged)
    from n c p base start show ?thesis
      by (auto intro!: exI [of _ passed] exI [of _ ids] split: option.splits sum.splits enrollment_outcome.splits)
  qed
qed


subsection \<open>A concrete sensor\<close>

definition demo_user :: biometric_user_id where "demo_user = 5"

definition demo_identity :: mesa_identity where
  "demo_identity = \<lparr>mi_user_id = 5, mi_identifier = replicate 16 1\<rparr>"

text \<open>A sensor that has one identity enrolled and answers every other command with no data.\<close>

definition demo_execute :: "(unit, unit) executor" where
  "demo_execute packet t = (Inr (if command_code packet = 0x42 then identity_descriptor demo_identity else []), t)"


definition mesa_event :: "u32 \<Rightarrow> bytes \<Rightarrow> service_status_event" where
  "mesa_event status payload = \<lparr>se_service = MESA_SERVICE_MESSAGE,
     se_data = to_le 8 (0 :: u64) @ to_le 4 status @ to_le 4 MESA_MESSAGE_TYPE_V1 @ to_le 8 (0 :: u64) @ to_le 8 (0 :: u64)
       @ to_le 8 (word_of_nat (length payload) :: u64) @ payload,
     se_reference_timestamp = 0, se_continuous_time_delta = 0\<rparr>"

lemma parse_mesa_event:
  assumes "length payload < 2 ^ 64"
  shows "parse_mesa_message (mesa_event status payload) = Inr (Some \<lparr>mm_status = status, mm_message_type = MESA_MESSAGE_TYPE_V1,
    mm_timestamp = 0, mm_payload = payload, mm_in_value = 0\<rparr>)"
proof -
  have "unat (word_of_nat (length payload) :: u64) = length payload"
    using assms by (simp add: unat_of_nat take_bit_nat_eq_self)
  then show ?thesis
    by (simp add: parse_mesa_message_def mesa_event_def Let_def read_defs slice_simps le_simps)
qed

lemma demo_identity_ok: "mesa_identity_ok demo_identity"
  by (simp add: mesa_identity_ok_def demo_identity_def numeral_eq_Suc)

lemma demo_list:
  "length (identity_descriptor demo_identity) = 20" "identity_descriptor demo_identity \<noteq> []"
  "parse_identities (identity_descriptor demo_identity) = Inr [demo_identity]"
  using length_identity_descriptor [OF demo_identity_ok] parse_identities_iff [of "identity_descriptor demo_identity" "[demo_identity]"]
    demo_identity_ok by auto

lemma demo_match_identities: "match_identities demo_user (identity_descriptor demo_identity) = Inr [demo_identity]"
  using demo_list by (simp add: match_identities_def validate_identity_list_response_def)
    (simp add: demo_identity_def demo_user_def)

definition demo_verdict :: service_status_event where
  "demo_verdict = mesa_event MESA_MATCH_RESULT (identity_descriptor demo_identity @ replicate 0xc5c 0)"

lemma from_le_zeros: "from_le (replicate n 0) = 0"
  by (induction n) simp_all

lemma demo_payload_reads:
  "read_i32 (identity_descriptor demo_identity @ rest) 0 = 5" "slice 4 20 (identity_descriptor demo_identity @ rest) = replicate 16 1"
  by (simp_all add: read_i32_def read_u32_def identity_descriptor_def demo_identity_def from_to_le_width)

lemma demo_verdict_evaluates:
  "evaluate_matched_identity \<lparr>mm_status = MESA_MATCH_RESULT, mm_message_type = MESA_MESSAGE_TYPE_V1, mm_timestamp = 0,
     mm_payload = identity_descriptor demo_identity @ replicate 0xc5c 0, mm_in_value = 0\<rparr> 5 [demo_identity]
   = Inr (Some (Some (replicate 16 1)))"
proof -
  have "read_u32 (identity_descriptor demo_identity @ replicate 0xc5c 0) 0xc6c = 0"
    using demo_list(1) by (simp add: read_u32_def slice_def from_le_zeros)
  then show ?thesis using demo_list(1) by (simp add: evaluate_matched_identity_def Let_def demo_payload_reads)
    (simp add: demo_identity_def)
qed

lemma demo_match:
  "match_fingerprint_identified demo_execute [Inr (MatchCallback demo_verdict)] demo_user (identity_descriptor demo_identity) ()
   = (Some (Inr (IdentityMatched (replicate 16 1))) :: ((unit, unit) match_workflow_error + _) option, [], ())"
proof -
  have p: "parse_mesa_message demo_verdict = Inr (Some \<lparr>mm_status = MESA_MATCH_RESULT, mm_message_type = MESA_MESSAGE_TYPE_V1,
      mm_timestamp = 0, mm_payload = identity_descriptor demo_identity @ replicate 0xc5c 0, mm_in_value = 0\<rparr>)"
    unfolding demo_verdict_def using demo_list(1) by (intro parse_mesa_event) simp
  have u: "sint demo_user = 5" by (simp add: demo_user_def)
  show ?thesis
    by (simp add: match_fingerprint_identified_def demo_match_identities single_command demo_execute_def p u demo_verdict_evaluates
        validate_empty_response_def)
qed

theorem match_always_cancelled_witness:
  "\<exists>history. match_fingerprint_identified (logged demo_execute) [Inr (MatchCallback demo_verdict) :: unit + match_event] demo_user
      (identity_descriptor demo_identity) ((), []) = (Some (Inr (IdentityMatched (replicate 16 1))), [], (), history)
    \<and> history = [(start_match_command demo_user, Inr []), (cancel_operation_command, Inr [])]"
proof -
  obtain out :: "((unit, unit) match_workflow_error + identity_match_outcome) option" and events' and t' :: unit and history where
    m: "match_fingerprint_identified (logged demo_execute) [Inr (MatchCallback demo_verdict) :: unit + match_event] demo_user
     (identity_descriptor demo_identity) ((), []) = (out, events', t', history)" by (metis prod_cases4)
  note w = match_always_cancelled [OF m]
  then have "out = Some (Inr (IdentityMatched (replicate 16 1)))" "events' = []" using demo_match by auto
  with w have "map fst history = [start_match_command demo_user, cancel_operation_command]" "map snd history = [Inr [], Inr []]"
    by (auto simp: demo_match_identities)
  then have "history = [(start_match_command demo_user, Inr []), (cancel_operation_command, Inr [])]"
    by (metis (no_types) zip_map_fst_snd zip_Cons_Cons zip_Nil)
  with m \<open>out = _\<close> \<open>events' = []\<close> show ?thesis by simp
qed

theorem match_is_enrolled_witness:
  "\<exists>ids. identity_descriptor demo_identity = concat (map identity_descriptor ids) \<and> list_all (\<lambda>i. mi_user_id i = 5) ids
    \<and> (\<exists>i \<in> set ids. mi_identifier i = replicate 16 1) \<and> names_match demo_verdict 5 (replicate 16 1)"
proof -
  from match_is_enrolled [OF demo_match] obtain ids skipped event where
    "identity_descriptor demo_identity = concat (map identity_descriptor ids)" "list_all (\<lambda>i. mi_user_id i = 5) ids"
    "\<exists>i \<in> set ids. mi_identifier i = replicate 16 1" "names_match event 5 (replicate 16 1)"
    "[Inr (MatchCallback demo_verdict) :: unit + match_event] = map (Inr \<circ> MatchCallback) skipped @ [Inr (MatchCallback event)]"
    by (auto simp: demo_user_def)
  moreover from this(5) have "event = demo_verdict" by (cases skipped) auto
  ultimately show ?thesis by blast
qed

definition demo_completion :: service_status_event where
  "demo_completion = mesa_event MESA_ENROLLMENT_COMPLETE (identity_descriptor demo_identity)"

lemma demo_completion_parsed:
  "parse_mesa_message demo_completion = Inr (Some \<lparr>mm_status = MESA_ENROLLMENT_COMPLETE, mm_message_type = MESA_MESSAGE_TYPE_V1,
     mm_timestamp = 0, mm_payload = identity_descriptor demo_identity, mm_in_value = 0\<rparr>)"
  unfolding demo_completion_def using demo_list(1) by (intro parse_mesa_event) simp

lemma demo_completion_read:
  "enrollment_completion \<lparr>mm_status = MESA_ENROLLMENT_COMPLETE, mm_message_type = MESA_MESSAGE_TYPE_V1,
     mm_timestamp = 0, mm_payload = identity_descriptor demo_identity, mm_in_value = 0\<rparr> 5 = Inr (Some (replicate 16 1))"
  using demo_list(1) demo_payload_reads [of "[]"] by (simp add: enrollment_completion_def)

lemma demo_verified: "verify_fresh_identity demo_execute demo_user (replicate 16 1) () = (Inr (), ())"
  using demo_list by (simp add: single_command demo_execute_def validate_identity_list_response_def)
    (simp add: demo_identity_def demo_user_def)

lemma demo_enrollment:
  "fst (run_enrollment demo_execute [Inr (EnrollmentServiceStatus demo_completion) :: unit + enrollment_event] 5 None False ())
   = Some (Inr (EnrollmentCompleted (replicate 16 1)))"
proof -
  have u: "sint demo_user = 5" by (simp add: demo_user_def)
  obtain start :: command_packet where start: "enrollment_start 5 None = (Inr (demo_user, start) :: (unit, unit) enrollment_error + _)"
    and code: "command_code start = 0x03"
    by (auto simp: enrollment_start_def biometric_user_new_def start_enrollment_command_def encode_authorization_def demo_user_def)
  then have "start_enrollment demo_execute start () = (Inr () :: (unit, unit) enrollment_error + unit, ())"
    by (simp add: single_command demo_execute_def validate_response_def validate_empty_response_def)
  moreover have "MESA_ENROLLMENT_COMPLETE \<noteq> MESA_ENROLLMENT_STATUS"
    by (simp add: MESA_ENROLLMENT_COMPLETE_def MESA_ENROLLMENT_STATUS_def)
  ultimately show ?thesis using start
    by (simp add: run_enrollment_def demo_completion_parsed demo_completion_read demo_verified u enrollment_needs_continue_def)
qed

theorem enrollment_confirmed_or_cancelled_witness:
  "\<exists>start history. run_enrollment (logged demo_execute) [Inr (EnrollmentServiceStatus demo_completion) :: unit + enrollment_event] 5 None False ((), [])
     = (Some (Inr (EnrollmentCompleted (replicate 16 1))), [], [], (), history)
   \<and> map fst history = [start, identities_command demo_user] \<and> confirms demo_user (replicate 16 1) (last history)
   \<and> names_completion demo_completion 5 (replicate 16 1)"
proof -
  let ?events = "[Inr (EnrollmentServiceStatus demo_completion) :: unit + enrollment_event]"
  obtain out :: "((unit, unit) enrollment_error + enrollment_outcome) option" and events' rep and t' :: unit and history where
    m: "run_enrollment (logged demo_execute) ?events 5 None False ((), []) = (out, events', rep, t', history)" by (metis prod_cases5)
  obtain start :: command_packet where start: "enrollment_start 5 None = (Inr (demo_user, start) :: (unit, unit) enrollment_error + _)"
    by (auto simp: enrollment_start_def biometric_user_new_def start_enrollment_command_def encode_authorization_def demo_user_def)
  note w = enrollment_confirmed_or_cancelled [OF m, unfolded start]
  from w demo_enrollment have out: "out = Some (Inr (EnrollmentCompleted (replicate 16 1)))" by simp
  from w out obtain passed event before where p:
    "?events = passed @ events'" "passed = before @ [Inr (EnrollmentServiceStatus event)]" "rep = []"
    "map fst history = start # replicate (length (continue_values passed)) continue_enrollment_command @ [identities_command demo_user]"
    "confirms demo_user (replicate 16 1) (last history)" "names_completion event (sint demo_user) (replicate 16 1)" by auto
  from p(1,2) have e: "passed = ?events" "events' = []" "event = demo_completion" by (auto simp: append_eq_Cons_conv Cons_eq_append_conv)
  have "continue_values ?events = []"
    by (simp add: demo_completion_parsed enrollment_needs_continue_def) (simp add: MESA_ENROLLMENT_COMPLETE_def MESA_ENROLLMENT_STATUS_def)
  with p(4) e(1) have "map fst history = [start, identities_command demo_user]" by simp
  moreover have "names_completion demo_completion 5 (replicate 16 1)" using p(6) e(3) by (simp add: demo_user_def)
  moreover from m have "run_enrollment (logged demo_execute) ?events 5 None False ((), [])
    = (Some (Inr (EnrollmentCompleted (replicate 16 1))), [], [], (), history)" by (simp add: out e(2) p(3))
  ultimately show ?thesis using p(5) by (intro exI [of _ start] exI [of _ history] conjI)
qed




end
