(* ===== verification/Spec2Isabelle.thy ===== *)
theory Spec2Isabelle
  imports Hw_Session_Watch Hw_Client_State Standard_Connection Bio_Workflow_Correct
begin

text \<open>
  T1Bridge supports Apple's T1 coprocessor on Linux. This development models three of its parts, each a small
  stack of components, and proves what they promise. File names below are relative to \<^verbatim>\<open>src/\<close>.

  \<^bold>\<open>The program's parts and how they interact.\<close>

  \<^item> The Touch Bar hardware service (\<^verbatim>\<open>crates/t1-touchbar-hw\<close>) owns the display, the digitizer and the
    function key. One unprivileged renderer at a time connects to it over a packet socket, registers buffers,
    submits frames and receives touches. Packets carry typed messages; a frame stays with the service from its
    submission to its release.
  \<^item> The authentication broker (\<^verbatim>\<open>crates/t1-daemons\<close>) runs at most one biometric operation at a time for its
    clients: a PAM client with fixed packets and standard fingerprint clients with a typed protocol. A packet is checked
    against the access policy, takes the broker's operation slot and a worker lease, and ends with a reply, a
    cancellation, a deadline or a lost worker.
  \<^item> The bridge library (\<^verbatim>\<open>crates/t1-bridge\<close>) talks to the T1 over a byte stream: frames carry
    binary property lists, these carry RPC envelopes, and a session makes calls and answers callbacks. Fingerprint
    workflows execute the commands of the sensor as calls of a session and read its events from the callbacks.

  \<^bold>\<open>The library.\<close> \<open>T1_Prelude\<close> holds machine integers as words, results as sums, checked arithmetic, byte
  order, slices, and the interfaces \<open>codec\<close>, \<open>canonical_codec\<close> and \<open>trace_refinement\<close>; \<open>T1_Cursor\<close> holds positions in byte
  strings and the interfaces \<open>field\<close> and \<open>field_pair\<close> of cursor-driven readers; \<open>T1_Float\<close> holds the rounding of doubles. Every interface is
  interpreted on the definitions of the components that provide it. A structure of the source is a record, an
  enumeration a datatype with the source's constructors, a method a function of the record that returns its result and the
  new record, an error the left injection of a sum; constants keep the names of the source. Integers that are encoded or may overflow are words;
  lengths, indices (\<^verbatim>\<open>usize\<close>, 64 bits) and durations are natural numbers, with their checked operations
  written out.

  \<^bold>\<open>Touch Bar hardware service.\<close>

  \<^item> \<open>Hw_Packet\<close>: \<^verbatim>\<open>packet.rs\<close>. A packet decodes exactly when it is an encoding.
  \<^item> \<open>Hw_Wire\<close>, \<open>Hw_Wire_Codec\<close>: \<^verbatim>\<open>wire.rs\<close>. For both directions the decoder accepts exactly the
    encodings of valid messages with the right descriptors; the handshake gates every other message; accepted numbers
    are in bounds.
  \<^item> \<open>Hw_Frame_State\<close>: \<^verbatim>\<open>frame_state.rs\<close>. The layout has no overflow; the ownership of a
    buffer alternates between client and service (interface \<open>frame_ownership\<close>).
  \<^item> \<open>Hw_Digitizer\<close>, \<open>Hw_Input_State\<close>: \<^verbatim>\<open>digitizer.rs\<close>, \<^verbatim>\<open>input_state.rs\<close>. Reports are parsed soundly;
    the scaling in double precision, with the roundings written out, gives the pixel nearest to the exact ratio; the
    coalesced touch states can always be encoded.
  \<^item> \<open>Hw_Client_State\<close>: \<^verbatim>\<open>client_state.rs\<close>. The lease refines a machine with at most one renderer: between two admissions
    the first client is revoked, its cleanup confirmed and its lease finished. A stale client has no effect.
  \<^item> \<open>Hw_Brightness\<close>: \<^verbatim>\<open>crates/t1-platform/src/system_brightness.rs\<close>. Percentages and steps are exact and stay
    in range.
  \<^item> \<open>Hw_Service\<close>, \<open>Hw_Service_Correct\<close>: \<^verbatim>\<open>service.rs\<close>. The machine the service drives (display, sockets,
    descriptors, clock) is a parameter whose answers are arbitrary. An invariant holds in every reachable state: a frame is in
    flight exactly while the packet that acknowledges or returns it is pending. A decoded request on an idle connection
    gets exactly one queued packet, which decodes to the message that \<open>request_reply\<close> promises under the identifier of the
    request, unless the keyboard refused both the tap and its release; a valid submission is acknowledged, presented and released.
  \<^item> \<open>Hw_Session_Watch\<close>: the calls the same service makes to its machine, recorded by the machine itself. A monitor of
    lookups, admissions, session checks and closings accepts every run: a client is served exactly while its access is live.

  \<^bold>\<open>Authentication broker.\<close>

  \<^item> \<open>Auth_Protocol\<close>: \<^verbatim>\<open>auth_protocol.rs\<close>. Work starts only for authorized peers, a recorded cancellation always
    wins over the worker's result, and the client is authenticated exactly when its operation, started for its request, ends with a
    match that was not cancelled. The broker's state refines a one-operation slot.
  \<^item> \<open>Auth_Session\<close>, \<open>Auth_Scheduler\<close>, \<open>Auth_Service_Correct\<close>: \<^verbatim>\<open>auth_session.rs\<close>,
    \<^verbatim>\<open>auth_scheduler.rs\<close> and the cancellation slot of \<^verbatim>\<open>match_workflow.rs\<close>. The flag that a worker polls is shared by
    reference, so it is an address. Sequences of operations of the service, with any handle it
    has issued, refine an abstract machine that runs one worker, never answers a match for a cancelled
    operation and starts nothing after a lost worker; the broker, the slot and the lease always agree.
  \<^item> \<open>Standard_Protocol\<close>: \<^verbatim>\<open>standard_fingerprint_protocol.rs\<close>. Packets in both directions decode exactly when they
    are encodings of valid messages.
  \<^item> \<open>Standard_Authority\<close>: \<^verbatim>\<open>standard_operation_authority.rs\<close>. Operations are bound to the recorded owner, and only
    results the operation may report are reported.
  \<^item> \<open>Standard_Connection\<close>: \<^verbatim>\<open>standard_connection.rs\<close>. Connections do not disturb each other, every reply
    decodes, progress goes only to the connection whose enrollment runs, and work starts only as authorized. The account lookup is a parameter.

  \<^bold>\<open>Bridge.\<close>

  \<^item> \<open>Bplist\<close>, \<open>Bplist_Codec\<close>, \<open>Bplist_Correct\<close>: \<^verbatim>\<open>bplist.rs\<close>. Text is a list of Unicode scalars and the
    dictionary of a value a list sorted by key, as Rust's \<^verbatim>\<open>BTreeMap\<close> keeps it. Encoded values decode to themselves,
    values within the limits are always encoded, everything the decoder returns is within the limits, its text counted in the
    bytes it is stored in, and the check for cycles makes the references well-founded.
  \<^item> \<open>Bridge_Transport\<close>: \<^verbatim>\<open>framing.rs\<close>, \<^verbatim>\<open>transport.rs\<close>. The stream belongs to the caller and is given by the
    results of its reads and writes, in any pieces and with any interruptions. Receiving is decoding the bytes of
    the stream, and frames that were sent are received in order.
  \<^item> \<open>Bridge_Hello\<close>, \<open>Bridge_Hello_Correct\<close>: \<^verbatim>\<open>hello.rs\<close>. The position of the parser is the rest of the text. The
    parser accepts exactly the texts of a JSON grammar with one protocol version field of at least (nearly) one,
    and the HELLO that is written is such a text and carries the given process name.
  \<^item> \<open>Bridge_Rpc\<close>: \<^verbatim>\<open>rpc.rs\<close>. Identifiers made from random bytes are canonical and as distinct as the bytes;
    envelopes round trip; callbacks are recognized exactly.
  \<^item> \<open>Bridge_Session\<close>: \<^verbatim>\<open>session.rs\<close>. A session opens with one HELLO each way; a call on a stream is a walk over its
    frames, and every acknowledged request of the peer is answered under its own identifier.
  \<^item> \<open>Bio_Mesa\<close>: \<^verbatim>\<open>mesa.rs\<close>. Identity records decode exactly when they are encodings; the sensor's messages and what they
    say of an enrollment or a match.
  \<^item> \<open>Bio_Commands\<close>: the command packets of \<^verbatim>\<open>commands.rs\<close> that the workflows send, with the parts of \<^verbatim>\<open>biometric.rs\<close>,
    \<^verbatim>\<open>catacomb.rs\<close> and \<^verbatim>\<open>policy.rs\<close> they use, and the transport of \<^verbatim>\<open>control.rs\<close>: a command is one call of a session.
  \<^item> \<open>Bio_Workflow\<close>, \<open>Bio_Workflow_Correct\<close>: \<^verbatim>\<open>match_workflow.rs\<close>, \<^verbatim>\<open>enroll_workflow.rs\<close>, \<^verbatim>\<open>user_workflow.rs\<close>. The transport
    and the results of the event source are arbitrary; a workflow that has used up its events is still waiting. A started match is
    always cancelled and names an enrolled identity of the user; an enrollment ends confirmed by a fresh identity list or
    cancelled; only a user without identities is removed, and the commands after the removal come in a fixed order. The lemmas are proved in the
    interface \<open>command_transport\<close>, which every transport provides through the record of its exchanges.

  \<^bold>\<open>Recursion and bounds.\<close> No definition needs fuel. The decoder and the check for cycles of property lists recurse on the
  objects of a document and end because the depth is limited to \<open>MAX_DEPTH\<close>, as in the source; the loop of a read and the loop
  of a call end because the results of a stream are finite and every turn uses some up, a stream without
  further results being closed; the HELLO parser ends because every step leaves a shorter rest; a workflow waits on the list of the events it will be given,
  and running out of them is the result \<open>None\<close>, which the properties treat as a case of its own. The loop of the hardware service is an inductive relation between its states.

  \<^bold>\<open>Not modelled.\<close> The text of \<^verbatim>\<open>Debug\<close> and \<^verbatim>\<open>Display\<close> renderings. Code that only moves data to or from the operating system
  or the device: sockets, descriptors, USB, files, signals and the wrappers in \<^verbatim>\<open>crates/t1-platform\<close>, whose results are
  parameters where a modelled component uses them. The commands and workflows of the bridge for calibration, policies, xART and
  the export and import of catacombs, the live compositions and the storage of \<^verbatim>\<open>crates/t1-daemons\<close>, the import and recovery of \<^verbatim>\<open>crates/t1-import\<close> and the renderer
  of \<^verbatim>\<open>crates/t1-touchbar\<close>: their behaviour is mostly that of the sensor, the enclave, files or drawing, and
  they are left out. The C code of the kernel modules, the PAM module and the enclave probe.
\<close>

end
